(* ===== verification/Prelude.thy ===== *)
theory Prelude
  imports Main "HOL-Library.Word"
begin

unbundle bit_operations_syntax

text \<open>
  Shared vocabulary of the development: the named collections the component
  proofs pass to \<open>simp\<close> and \<open>auto\<close>, and generic facts on lists, options and
  bounded search that more than one component uses. Nothing in this theory is
  about a particular source file.
\<close>

section \<open>Collections\<close>

named_theorems tri_simps "facts on the three-valued connectives"
named_theorems kval_simps "the value of expressions built by the Kconfig constructors"
named_theorems kframe "what an operation leaves unchanged"

section \<open>Types shared by the components\<close>

type_synonym u8 = "8 word"
type_synonym u16 = "16 word"
type_synonym u32 = "32 word"
type_synonym u64 = "64 word"

section \<open>Options\<close>

lemma bind_eq_SomeE:
  assumes "Option.bind m f = Some y"
  obtains x where "m = Some x" and "f x = Some y"
  using assms by (cases m) auto

section \<open>Lists\<close>

lemma takeWhile_append_dropWhile_length:
  "length (takeWhile P xs) + length (dropWhile P xs) = length xs"
  by (metis length_append takeWhile_dropWhile_id)

lemma find_SomeD: "find P xs = Some x \<Longrightarrow> x \<in> set xs \<and> P x"
  by (induction xs) (auto split: if_splits)

section \<open>Loops that may fail\<close>

text \<open>\<open>ofold f xs s\<close> runs \<open>f\<close> over \<open>xs\<close> from left to right and stops at the first \<open>None\<close>.\<close>

fun ofold :: "('a \<Rightarrow> 's \<Rightarrow> 's option) \<Rightarrow> 'a list \<Rightarrow> 's \<Rightarrow> 's option" where
  "ofold f [] s = Some s"
| "ofold f (x # xs) s = Option.bind (f x s) (ofold f xs)"

lemma ofold_append: "ofold f (xs @ ys) s = Option.bind (ofold f xs s) (ofold f ys)"
  by (induction xs arbitrary: s) (auto split: Option.bind_splits)

lemma ofold_map: "ofold f (map g xs) s = ofold (\<lambda>x. f (g x)) xs s"
  by (induction xs arbitrary: s) (auto split: Option.bind_splits)

lemma ofold_total:
  assumes "\<And>x s. x \<in> set xs \<Longrightarrow> I s \<Longrightarrow> \<exists>t. f x s = Some t \<and> I t" and "I s"
  shows "\<exists>t. ofold f xs s = Some t \<and> I t"
  using assms
proof (induction xs arbitrary: s)
  case (Cons x xs)
  then obtain t where t: "f x s = Some t" "I t"
    by (meson list.set_intros(1))
  moreover have "\<exists>u. ofold f xs t = Some u \<and> I u"
    using t(2) Cons.prems(1) by (intro Cons.IH) auto
  ultimately show ?case by simp
qed simp

lemma ofold_invariant:
  assumes "\<And>x s t. x \<in> set xs \<Longrightarrow> I s \<Longrightarrow> f x s = Some t \<Longrightarrow> I t" and "I s"
    and "ofold f xs s = Some t"
  shows "I t"
  using assms
proof (induction xs arbitrary: s)
  case (Cons x xs)
  from Cons.prems(3) obtain u where u: "f x s = Some u" "ofold f xs u = Some t"
    by (auto elim: bind_eq_SomeE)
  show ?case
  proof (rule Cons.IH)
    show "I u" using Cons.prems(1,2) u(1) by (meson list.set_intros(1))
    show "\<And>x s t. x \<in> set xs \<Longrightarrow> I s \<Longrightarrow> f x s = Some t \<Longrightarrow> I t"
      using Cons.prems(1) by (meson list.set_intros(2))
  qed (fact u(2))
qed simp

section \<open>Computations that may stop\<close>

text \<open>
  A computation of a stateful component ends with a value, runs out of fuel (the
  recursion was deeper than the bound given) or makes an access that is undefined
  in C (a NULL or mistyped pointer). \<open>rbind\<close> and \<open>wp\<close> are for any type of reasons to stop, as
  a component may have more. \<open>wp A r P\<close> says that \<open>r\<close> either stops for a
  reason in \<open>A\<close> or ends with a value that satisfies \<open>P\<close>.
\<close>

datatype stop = Out_of_fuel | Bad_access

type_synonym 'a res = "stop + 'a"

definition rbind :: "'e + 'a \<Rightarrow> ('a \<Rightarrow> 'e + 'b) \<Rightarrow> 'e + 'b" where
  "rbind r f = (case r of Inl e \<Rightarrow> Inl e | Inr x \<Rightarrow> f x)"

lemma rbind_simps [simp]: "rbind (Inl e) f = Inl e" "rbind (Inr x) f = f x"
  by (simp_all add: rbind_def)

lemma rbind_Inr_iff: "rbind r f = Inr y \<longleftrightarrow> (\<exists>x. r = Inr x \<and> f x = Inr y)"
  by (cases r) auto

definition wp :: "'e set \<Rightarrow> 'e + 'a \<Rightarrow> ('a \<Rightarrow> bool) \<Rightarrow> bool" where
  "wp A r P = (case r of Inl e \<Rightarrow> e \<in> A | Inr x \<Rightarrow> P x)"

lemma wp_simps [simp]: "wp A (Inl e) P \<longleftrightarrow> e \<in> A" "wp A (Inr x) P \<longleftrightarrow> P x"
  by (simp_all add: wp_def)

lemma wp_rbind: "wp A r (\<lambda>x. wp A (f x) P) \<Longrightarrow> wp A (rbind r f) P"
  by (cases r) auto

lemma wp_mono: "wp A r P \<Longrightarrow> (\<And>x. P x \<Longrightarrow> Q x) \<Longrightarrow> wp A r Q"
  by (cases r) auto

lemma wp_rbindI:
  assumes "wp A r P" and "\<And>x. P x \<Longrightarrow> wp A (f x) Q"
  shows "wp A (rbind r f) Q"
  using assms by (cases r) auto

lemma wpD: "wp A r P \<Longrightarrow> r = Inr x \<Longrightarrow> P x"
  by simp

lemma wp_returns:
  assumes "wp {} r P"
  obtains x where "r = Inr x" and "P x"
  using assms by (cases r) auto

fun rfold :: "('a \<Rightarrow> 's \<Rightarrow> 'e + 's) \<Rightarrow> 'a list \<Rightarrow> 's \<Rightarrow> 'e + 's" where
  "rfold f [] s = Inr s"
| "rfold f (x # xs) s = rbind (f x s) (rfold f xs)"

lemma rbind_assoc: "rbind (rbind r f) g = rbind r (\<lambda>x. rbind (f x) g)"
  by (cases r) simp_all

lemma rbind_cong_wp:
  assumes "wp A r P" and "\<And>x. P x \<Longrightarrow> f x = g x"
  shows "rbind r f = rbind r g"
  using assms by (cases r) auto

lemma rfold_append: "rfold f (xs @ ys) s = rbind (rfold f xs s) (rfold f ys)"
proof (induction xs arbitrary: s)
  case (Cons x xs)
  then have "rfold f (xs @ ys) = (\<lambda>s. rbind (rfold f xs s) (rfold f ys))" by (rule ext)
  then show ?case by (simp add: rbind_assoc)
qed simp

lemma wp_rfold:
  assumes "\<And>x s. x \<in> set xs \<Longrightarrow> I s \<Longrightarrow> wp A (f x s) I" and "I s"
  shows "wp A (rfold f xs s) I"
  using assms by (induction xs arbitrary: s) (auto intro!: wp_rbindI)

end
