(* ===== verification/CLib.thy ===== *)
theory CLib
  imports Prelude
begin

text \<open>
  The part of the C standard library the modelled sources call: character
  classes in the C locale, \<open>strcmp\<close>, and the integer conversions \<open>strtoll\<close>,
  \<open>strtoull\<close> and \<open>strtoul\<close> with their end pointer and \<open>ERANGE\<close>. A C string is a
  \<open>string\<close> (its bytes before the terminating NUL), so the NUL itself is the end
  of the list.
\<close>

section \<open>Characters\<close>

definition cbyte :: "char \<Rightarrow> nat" where
  "cbyte c = of_char c"

lemma cbyte_inj [simp]: "cbyte c = cbyte d \<longleftrightarrow> c = d"
  by (simp add: cbyte_def)

definition isdigit :: "char \<Rightarrow> bool" where
  "isdigit c \<longleftrightarrow> 48 \<le> cbyte c \<and> cbyte c \<le> 57"

definition isxdigit :: "char \<Rightarrow> bool" where
  "isxdigit c \<longleftrightarrow> isdigit c \<or> 65 \<le> cbyte c \<and> cbyte c \<le> 70 \<or> 97 \<le> cbyte c \<and> cbyte c \<le> 102"

definition isspace :: "char \<Rightarrow> bool" where
  "isspace c \<longleftrightarrow> cbyte c = 32 \<or> 9 \<le> cbyte c \<and> cbyte c \<le> 13"

section \<open>Comparison\<close>

text \<open>\<open>strcmp\<close>: the sign of the first differing byte, compared as unsigned char.\<close>

fun strcmp :: "string \<Rightarrow> string \<Rightarrow> int" where
  "strcmp [] [] = 0"
| "strcmp [] (d # ds) = - 1"
| "strcmp (c # cs) [] = 1"
| "strcmp (c # cs) (d # ds) =
     (if c = d then strcmp cs ds else if cbyte c < cbyte d then - 1 else 1)"

lemma strcmp_eq_0 [simp]: "strcmp s t = 0 \<longleftrightarrow> s = t"
  by (induction s t rule: strcmp.induct) auto

lemma strcmp_swap: "strcmp t s = - strcmp s t"
proof (induction s t rule: strcmp.induct)
  case (4 c cs d ds)
  then show ?case
    by (auto simp: not_less order.strict_iff_order)
qed auto

section \<open>Integer conversion\<close>

definition digit_val :: "char \<Rightarrow> nat option" where
  "digit_val c =
     (let n = cbyte c in
      if 48 \<le> n \<and> n \<le> 57 then Some (n - 48)
      else if 97 \<le> n \<and> n \<le> 122 then Some (n - 87)
      else if 65 \<le> n \<and> n \<le> 90 then Some (n - 55)
      else None)"

definition is_base_digit :: "nat \<Rightarrow> char \<Rightarrow> bool" where
  "is_base_digit base c = (case digit_val c of None \<Rightarrow> False | Some d \<Rightarrow> d < base)"

fun digits_val :: "nat \<Rightarrow> nat \<Rightarrow> string \<Rightarrow> nat" where
  "digits_val base acc [] = acc"
| "digits_val base acc (c # cs) =
     digits_val base (acc * base + (case digit_val c of None \<Rightarrow> 0 | Some d \<Rightarrow> d)) cs"

text \<open>
  \<open>strto_scan s base\<close> is the common part of the conversions: leading white
  space, an optional sign, the \<open>0x\<close> prefix of bases 16 and 0 (taken only when a
  hexadecimal digit follows), the digits. The result is the sign, the magnitude
  and the number of bytes of \<open>s\<close> before the end pointer; no digits at all gives
  the end pointer \<open>s\<close>.
\<close>

definition strto_sign :: "string \<Rightarrow> bool \<times> string" where
  "strto_sign s =
     (case s of
        [] \<Rightarrow> (False, [])
      | c # cs \<Rightarrow> if c = CHR ''-'' then (True, cs) else if c = CHR ''+'' then (False, cs) else (False, s))"

definition strto_prefix :: "nat \<Rightarrow> string \<Rightarrow> nat \<times> string" where
  "strto_prefix base s =
     (case s of
        c # x # d # r \<Rightarrow>
          if (base = 0 \<or> base = 16) \<and> c = CHR ''0'' \<and> (x = CHR ''x'' \<or> x = CHR ''X'') \<and> isxdigit d
          then (16, d # r)
          else (if base \<noteq> 0 then base else if c = CHR ''0'' then 8 else 10, s)
      | c # r \<Rightarrow> (if base \<noteq> 0 then base else if c = CHR ''0'' then 8 else 10, s)
      | [] \<Rightarrow> (if base \<noteq> 0 then base else 10, s))"

definition strto_scan :: "string \<Rightarrow> nat \<Rightarrow> bool \<times> nat \<times> nat" where
  "strto_scan s base =
     (let s1 = dropWhile isspace s;
          (neg, s2) = strto_sign s1;
          (b, s3) = strto_prefix base s2;
          ds = takeWhile (is_base_digit b) s3
      in if ds = [] then (False, 0, 0)
         else (neg, digits_val b 0 ds, length s - length (dropWhile (is_base_digit b) s3)))"

text \<open>Value, end offset, and whether \<open>errno\<close> was set to \<open>ERANGE\<close>.\<close>

definition strtoll :: "string \<Rightarrow> nat \<Rightarrow> int \<times> nat \<times> bool" where
  "strtoll s base =
     (let (neg, m, n) = strto_scan s base;
          v = (if neg then - int m else int m)
      in if v > 9223372036854775807 then (9223372036854775807, n, True)
         else if v < - 9223372036854775808 then (- 9223372036854775808, n, True)
         else (v, n, False))"

definition strtoull :: "string \<Rightarrow> nat \<Rightarrow> u64 \<times> nat \<times> bool" where
  "strtoull s base =
     (let (neg, m, n) = strto_scan s base
      in if m > 18446744073709551615 then (- 1, n, True)
         else ((if neg then - of_nat m else of_nat m), n, False))"

lemma strtoll_range:
  assumes "strtoll s base = (v, n, r)"
  shows "- (2 ^ 63) \<le> v" and "v < 2 ^ 63"
  using assms by (auto simp: strtoll_def Let_def split: prod.splits if_splits)

section \<open>Printing integers\<close>

definition digit_char :: "nat \<Rightarrow> char" where
  "digit_char d = char_of (if d < 10 then 48 + d else 87 + d)"

fun nat_string :: "nat \<Rightarrow> nat \<Rightarrow> string" where
  "nat_string base n =
     (if base < 2 \<or> n < base then [digit_char n]
      else nat_string base (n div base) @ [digit_char (n mod base)])"

declare nat_string.simps [simp del]

text \<open>\<open>%lld\<close> and \<open>%llx\<close> of \<open>printf\<close>; the latter reads its argument as an unsigned 64-bit number.\<close>

definition print_lld :: "int \<Rightarrow> string" where
  "print_lld v = (if v < 0 then CHR ''-'' # nat_string 10 (nat (- v)) else nat_string 10 (nat v))"

definition print_llx :: "int \<Rightarrow> string" where
  "print_llx v = nat_string 16 (unat (word_of_int v :: u64))"

lemma digit_val_digit_char: "d < 16 \<Longrightarrow> digit_val (digit_char d) = Some d"
  by (simp add: digit_val_def digit_char_def cbyte_def)

lemma digits_val_snoc:
  "digits_val b acc (s @ [c]) = digits_val b acc s * b + (case digit_val c of None \<Rightarrow> 0 | Some d \<Rightarrow> d)"
  by (induction s arbitrary: acc) auto

lemma nat_string_digits:
  assumes "2 \<le> b" "b \<le> 16"
  shows "digits_val b 0 (nat_string b n) = n" and "list_all (is_base_digit b) (nat_string b n)"
    and "nat_string b n \<noteq> []"
proof -
  have "digits_val b 0 (nat_string b n) = n \<and> list_all (is_base_digit b) (nat_string b n) \<and> nat_string b n \<noteq> []"
    using assms
  proof (induction b n rule: nat_string.induct)
    case (1 b n)
    show ?case
    proof (cases "n < b")
      case True
      with 1 show ?thesis
        by (simp add: nat_string.simps [of b n] digit_val_digit_char is_base_digit_def)
    next
      case False
      with 1 have IH: "digits_val b 0 (nat_string b (n div b)) = n div b"
        "list_all (is_base_digit b) (nat_string b (n div b))"
        by auto
      have "n mod b < b" using 1 by simp
      with \<open>b \<le> 16\<close> have "n mod b < 16" by linarith
      with IH False 1 \<open>n mod b < b\<close> show ?thesis
        by (simp add: nat_string.simps [of b n] digit_val_digit_char is_base_digit_def digits_val_snoc)
    qed
  qed
  then show "digits_val b 0 (nat_string b n) = n" and "list_all (is_base_digit b) (nat_string b n)"
    and "nat_string b n \<noteq> []" by auto
qed

lemma base_digit_plain:
  assumes "is_base_digit b c"
  shows "\<not> isspace c" and "c \<noteq> CHR ''-''" and "c \<noteq> CHR ''+''"
  using assms by (auto simp: is_base_digit_def digit_val_def isspace_def cbyte_def Let_def split: if_splits)

lemma takeWhile_dropWhile_all:
  assumes "list_all P xs"
  shows "takeWhile P xs = xs" and "dropWhile P xs = []"
  using assms by (simp_all add: list_all_iff)

text \<open>A printed decimal number reads back as itself, with the end pointer at its end.\<close>

lemma strto_scan_print_lld:
  "strto_scan (print_lld v) 10 = (v < 0, nat (abs v), length (print_lld v))"
proof -
  have pre: "strto_prefix 10 s = (10, s)" for s
    by (simp add: strto_prefix_def split: list.split)
  have d: "list_all (is_base_digit 10) (nat_string 10 n)" "nat_string 10 n \<noteq> []"
    "digits_val 10 0 (nat_string 10 n) = n" for n
    by (simp_all add: nat_string_digits)
  have hd: "\<exists>c cs. nat_string 10 n = c # cs \<and> is_base_digit 10 c" for n
    using d(1,2) [of n] by (cases "nat_string 10 n") auto
  show ?thesis
  proof (cases "v < 0")
    case True
    then show ?thesis
      using d [of "nat (- v)"]
      by (simp add: strto_scan_def print_lld_def strto_sign_def pre takeWhile_dropWhile_all isspace_def cbyte_def)
  next
    case False
    obtain c cs where c: "nat_string 10 (nat v) = c # cs" "is_base_digit 10 c" using hd by blast
    then show ?thesis
      using d [of "nat v"] False base_digit_plain [OF c(2)]
      by (auto simp: strto_scan_def print_lld_def strto_sign_def pre takeWhile_dropWhile_all
          simp del: takeWhile.simps)
  qed
qed

lemma strtoll_print_lld:
  assumes "- (2 ^ 63) \<le> v" "v < 2 ^ 63"
  shows "strtoll (print_lld v) 10 = (v, length (print_lld v), False)"
  using assms by (auto simp: strtoll_def strto_scan_print_lld)

end
