(* ===== verification/Kconfig_Data.thy ===== *)
theory Kconfig_Data
  imports CLib
begin

text \<open>
  The data of the configuration engine (scripts/config/expr.h): the tristate
  values and their connectives, expressions, symbols, properties and the global
  state of the engine.

  A \<open>struct symbol *\<close> is a \<open>symref\<close>: one of the three static constants or the
  address of an allocated symbol, so that pointer equality is equality of
  \<open>symref\<close>. The \<open>flags\<close> word is the set of its named bits. \<open>struct expr *\<close> is an
  \<open>expr option\<close> where the source admits NULL. \<open>E_LIST\<close> and \<open>E_RANGE\<close> nodes only
  occur as the payload of a property, so they are constructors of the payload
  type and not of \<open>expr\<close>.
\<close>

section \<open>Tristate values\<close>

datatype tristate = No | Mod | Yes

fun tri_num :: "tristate \<Rightarrow> nat" where
  "tri_num No = 0"
| "tri_num Mod = 1"
| "tri_num Yes = 2"

lemma tri_num_inj [simp]: "tri_num a = tri_num b \<longleftrightarrow> a = b"
  by (cases a; cases b) auto

instantiation tristate :: linorder
begin

definition less_eq_tristate :: "tristate \<Rightarrow> tristate \<Rightarrow> bool" where
  "less_eq_tristate a b \<longleftrightarrow> tri_num a \<le> tri_num b"

definition less_tristate :: "tristate \<Rightarrow> tristate \<Rightarrow> bool" where
  "less_tristate a b \<longleftrightarrow> tri_num a < tri_num b"

instance
  by standard (auto simp: less_eq_tristate_def less_tristate_def order.strict_iff_order)

end

lemma tri_order [simp]:
  "No \<le> a" "a \<le> Yes" "\<not> a < No" "\<not> Yes < a"
  "a \<le> No \<longleftrightarrow> a = No" "Yes \<le> a \<longleftrightarrow> a = Yes"
  "No < a \<longleftrightarrow> a \<noteq> No" "a < Yes \<longleftrightarrow> a \<noteq> Yes"
  "Mod \<le> a \<longleftrightarrow> a \<noteq> No" "a \<le> Mod \<longleftrightarrow> a \<noteq> Yes"
  "Mod < a \<longleftrightarrow> a = Yes" "a < Mod \<longleftrightarrow> a = No"
  by (cases a; simp add: less_eq_tristate_def less_tristate_def)+

definition EXPR_OR :: "tristate \<Rightarrow> tristate \<Rightarrow> tristate" where
  "EXPR_OR dep1 dep2 = (if dep1 > dep2 then dep1 else dep2)"

definition EXPR_AND :: "tristate \<Rightarrow> tristate \<Rightarrow> tristate" where
  "EXPR_AND dep1 dep2 = (if dep1 < dep2 then dep1 else dep2)"

text \<open>\<open>2 - dep\<close> on the enum values \<open>no = 0\<close>, \<open>mod = 1\<close>, \<open>yes = 2\<close>.\<close>

definition EXPR_NOT :: "tristate \<Rightarrow> tristate" where
  "EXPR_NOT dep = (case dep of No \<Rightarrow> Yes | Mod \<Rightarrow> Mod | Yes \<Rightarrow> No)"

lemma EXPR_OR_max: "EXPR_OR a b = max a b"
  by (auto simp: EXPR_OR_def max_def)

lemma EXPR_AND_min: "EXPR_AND a b = min a b"
  by (auto simp: EXPR_AND_def min_def)

lemma EXPR_NOT_num: "tri_num (EXPR_NOT a) = 2 - tri_num a"
  by (cases a) (auto simp: EXPR_NOT_def)

lemma EXPR_NOT_simps [simp, tri_simps]:
  "EXPR_NOT No = Yes" "EXPR_NOT Mod = Mod" "EXPR_NOT Yes = No" "EXPR_NOT (EXPR_NOT a) = a"
  "EXPR_NOT a = No \<longleftrightarrow> a = Yes" "EXPR_NOT a = Yes \<longleftrightarrow> a = No"
  by (cases a; simp add: EXPR_NOT_def)+

lemma EXPR_AND_simps [simp, tri_simps]:
  "EXPR_AND Yes a = a" "EXPR_AND a Yes = a" "EXPR_AND No a = No" "EXPR_AND a No = No"
  "EXPR_AND a a = a" "EXPR_AND a b = Yes \<longleftrightarrow> a = Yes \<and> b = Yes"
  "EXPR_AND a b = No \<longleftrightarrow> a = No \<or> b = No"
  by (cases a; cases b; simp add: EXPR_AND_def)+

lemma EXPR_OR_simps [simp, tri_simps]:
  "EXPR_OR No a = a" "EXPR_OR a No = a" "EXPR_OR Yes a = Yes" "EXPR_OR a Yes = Yes"
  "EXPR_OR a a = a" "EXPR_OR a b = No \<longleftrightarrow> a = No \<and> b = No"
  "EXPR_OR a b = Yes \<longleftrightarrow> a = Yes \<or> b = Yes"
  by (cases a; cases b; simp add: EXPR_OR_def)+

lemma tri_de_morgan [tri_simps]:
  "EXPR_NOT (EXPR_AND a b) = EXPR_OR (EXPR_NOT a) (EXPR_NOT b)"
  "EXPR_NOT (EXPR_OR a b) = EXPR_AND (EXPR_NOT a) (EXPR_NOT b)"
  by (cases a; cases b; simp add: EXPR_OR_def EXPR_AND_def)+

section \<open>Expressions\<close>

datatype symref = symbol_yes | symbol_mod | symbol_no | SymAt nat

datatype junct = J_OR | J_AND

datatype relop = E_EQUAL | E_UNEQUAL | E_LTH | E_LEQ | E_GTH | E_GEQ

text \<open>
  \<open>E_BIN J_OR\<close> and \<open>E_BIN J_AND\<close> are the nodes of type \<open>E_OR\<close> and \<open>E_AND\<close>, the
  two values the \<open>type\<close> argument of the tree walkers of expr.c takes;
  \<open>E_COMP r\<close> are the six comparison types.
\<close>

datatype expr =
    E_SYMBOL symref
  | E_NOT expr
  | E_BIN junct expr expr
  | E_COMP relop symref symref

abbreviation E_OR :: "expr \<Rightarrow> expr \<Rightarrow> expr" where
  "E_OR \<equiv> E_BIN J_OR"

abbreviation E_AND :: "expr \<Rightarrow> expr \<Rightarrow> expr" where
  "E_AND \<equiv> E_BIN J_AND"

datatype expr_type = T_SYMBOL | T_NOT | T_BIN junct | T_COMP relop

fun expr_tag :: "expr \<Rightarrow> expr_type" where
  "expr_tag (E_SYMBOL s) = T_SYMBOL"
| "expr_tag (E_NOT e) = T_NOT"
| "expr_tag (E_BIN j l r) = T_BIN j"
| "expr_tag (E_COMP r a b) = T_COMP r"

section \<open>Symbols and properties\<close>

datatype symbol_type = S_UNKNOWN | S_BOOLEAN | S_TRISTATE | S_INT | S_HEX | S_STRING

datatype defslot = S_DEF_USER | S_DEF_AUTO | S_DEF_DEF3 | S_DEF_DEF4

datatype symflag =
    SYMBOL_CONST | SYMBOL_CHECK | SYMBOL_CHOICE | SYMBOL_CHOICEVAL | SYMBOL_VALID
  | SYMBOL_OPTIONAL | SYMBOL_WRITE | SYMBOL_CHANGED | SYMBOL_WRITTEN | SYMBOL_NO_WRITE
  | SYMBOL_CHECKED | SYMBOL_WARNED | SYMBOL_DEF defslot | SYMBOL_NEED_SET_CHOICE_VALUES

abbreviation SYMBOL_DEF_USER :: symflag where
  "SYMBOL_DEF_USER \<equiv> SYMBOL_DEF S_DEF_USER"

text \<open>The \<open>void *val\<close> of a \<open>symbol_value\<close>: NULL, a C string, or the selected symbol of a choice.\<close>

datatype sval = VNull | VStr string | VSym symref

datatype prop_type =
    P_UNKNOWN | P_PROMPT | P_COMMENT | P_MENU | P_DEFAULT | P_CHOICE | P_SELECT
  | P_IMPLY | P_RANGE | P_SYMBOL | P_RESET

text \<open>The \<open>expr\<close> of a property: a condition, the \<open>E_LIST\<close> chain of a choice, or an \<open>E_RANGE\<close>.\<close>

datatype payload = PL_EXPR expr | PL_LIST "symref list" | PL_RANGE symref symref

record property =
  prop_type :: prop_type
  prop_text :: "string option"
  vis_expr :: "expr option"
  vis_tri :: tristate
  prop_expr :: "payload option"
  prop_menu :: "nat option"

record symbol =
  sym_name :: "string option"
  sym_type :: symbol_type
  curr_val :: sval
  curr_tri :: tristate
  def_val :: "defslot \<Rightarrow> sval"
  def_tri :: "defslot \<Rightarrow> tristate"
  visible :: tristate
  flags :: "symflag set"
  props :: "property list"
  dir_dep_expr :: "expr option"
  dir_dep_tri :: tristate
  rev_dep_expr :: "expr option"
  rev_dep_tri :: tristate
  implied_expr :: "expr option"
  implied_tri :: tristate

type_synonym symtab = "symref \<Rightarrow> symbol"

text \<open>
  The global state: the symbols, the symbols of the hash table in the order
  \<open>for_all_symbols\<close> visits them, the \<open>MENU_CHANGED\<close> marks, \<open>modules_sym\<close>,
  \<open>modules_val\<close> and the \<open>conf_changed\<close> flag.
\<close>

record kconf =
  syms :: symtab
  all_syms :: "symref list"
  menu_changed :: "nat set"
  modules_sym :: symref
  modules_val :: tristate
  conf_changed :: bool

definition const_symbol :: "string \<Rightarrow> tristate \<Rightarrow> symbol" where
  "const_symbol nm t =
     \<lparr>sym_name = Some nm, sym_type = S_UNKNOWN, curr_val = VStr nm, curr_tri = t,
      def_val = (\<lambda>_. VNull), def_tri = (\<lambda>_. No), visible = No,
      flags = {SYMBOL_CONST, SYMBOL_VALID}, props = [],
      dir_dep_expr = None, dir_dep_tri = No, rev_dep_expr = None, rev_dep_tri = No,
      implied_expr = None, implied_tri = No\<rparr>"

definition sym_is_choice :: "symbol \<Rightarrow> bool" where
  "sym_is_choice s \<longleftrightarrow> SYMBOL_CHOICE \<in> flags s"

definition sym_is_choice_value :: "symbol \<Rightarrow> bool" where
  "sym_is_choice_value s \<longleftrightarrow> SYMBOL_CHOICEVAL \<in> flags s"

definition sym_is_optional :: "symbol \<Rightarrow> bool" where
  "sym_is_optional s \<longleftrightarrow> SYMBOL_OPTIONAL \<in> flags s"

definition sym_has_value :: "symbol \<Rightarrow> bool" where
  "sym_has_value s \<longleftrightarrow> SYMBOL_DEF_USER \<in> flags s"

definition sval_str :: "sval \<Rightarrow> string" where
  "sval_str v = (case v of VStr s \<Rightarrow> s | _ \<Rightarrow> [])"

text \<open>
  What \<open>sym_get_string_value\<close> reads once the symbol and \<open>modules_sym\<close> are
  calculated.
\<close>

definition sym_string :: "kconf \<Rightarrow> symref \<Rightarrow> string" where
  "sym_string k s =
     (let y = syms k s in
      if sym_type y = S_BOOLEAN \<or> sym_type y = S_TRISTATE then
        (case curr_tri y of
           No \<Rightarrow> ''n''
         | Mod \<Rightarrow> if curr_tri (syms k (modules_sym k)) = No then ''n'' else ''m''
         | Yes \<Rightarrow> ''y'')
      else sval_str (curr_val y))"

end
