(* ===== verification/Kconfig_Expr.thy ===== *)
theory Kconfig_Expr
  imports Kconfig_Data
begin

text \<open>
  The expression routines of scripts/config/expr.c. A routine that rewrites its
  argument in place returns the rewritten tree; \<open>expr_free\<close> and the allocation
  of nodes have no counterpart. \<open>trans_count\<close> is returned by the routines whose
  count is read; \<open>expr_eq\<close> restores it, so the equality routines do not count.
  Output under \<open>DEBUG_EXPR\<close> (which is 0) is left out.
\<close>

section \<open>Construction and copying\<close>

definition expr_alloc_and :: "expr option \<Rightarrow> expr option \<Rightarrow> expr option" where
  "expr_alloc_and e1 e2 =
     (case e1 of
        None \<Rightarrow> e2
      | Some x1 \<Rightarrow> (case e2 of Some x2 \<Rightarrow> Some (E_AND x1 x2) | None \<Rightarrow> e1))"

definition expr_alloc_or :: "expr option \<Rightarrow> expr option \<Rightarrow> expr option" where
  "expr_alloc_or e1 e2 =
     (case e1 of
        None \<Rightarrow> e2
      | Some x1 \<Rightarrow> (case e2 of Some x2 \<Rightarrow> Some (E_OR x1 x2) | None \<Rightarrow> e1))"

fun expr_copy :: "expr \<Rightarrow> expr" where
  "expr_copy (E_SYMBOL s) = E_SYMBOL s"
| "expr_copy (E_NOT e) = E_NOT (expr_copy e)"
| "expr_copy (E_COMP r a b) = E_COMP r a b"
| "expr_copy (E_BIN j l r) = E_BIN j (expr_copy l) (expr_copy r)"

lemma expr_copy_id [simp]: "expr_copy e = e"
  by (induction e) auto

definition expr_is_yes :: "expr option \<Rightarrow> bool" where
  "expr_is_yes e \<longleftrightarrow> e = None \<or> e = Some (E_SYMBOL symbol_yes)"

definition expr_is_no :: "expr option \<Rightarrow> bool" where
  "expr_is_no e \<longleftrightarrow> e = Some (E_SYMBOL symbol_no)"

section \<open>Eliminating constant operands\<close>

text \<open>One node of \<open>expr_eliminate_yn\<close>, its operands already simplified.\<close>

definition eliminate_yn_node :: "junct \<Rightarrow> expr \<Rightarrow> expr \<Rightarrow> expr" where
  "eliminate_yn_node j l r =
     (case j of
        J_AND \<Rightarrow>
          if l = E_SYMBOL symbol_no then E_SYMBOL symbol_no
          else if l = E_SYMBOL symbol_yes then r
          else if r = E_SYMBOL symbol_no then E_SYMBOL symbol_no
          else if r = E_SYMBOL symbol_yes then l
          else E_AND l r
      | J_OR \<Rightarrow>
          if l = E_SYMBOL symbol_no then r
          else if l = E_SYMBOL symbol_yes then E_SYMBOL symbol_yes
          else if r = E_SYMBOL symbol_no then l
          else if r = E_SYMBOL symbol_yes then E_SYMBOL symbol_yes
          else E_OR l r)"

fun expr_eliminate_yn :: "expr \<Rightarrow> expr" where
  "expr_eliminate_yn (E_BIN j l r) =
     eliminate_yn_node j (expr_eliminate_yn l) (expr_eliminate_yn r)"
| "expr_eliminate_yn e = e"

section \<open>Equality up to the order of operands\<close>

text \<open>The symbol that replaces an eliminated operand: \<open>n\<close> in an \<open>||\<close>, \<open>y\<close> in an \<open>&&\<close>.\<close>

definition junct_unit :: "junct \<Rightarrow> symref" where
  "junct_unit j = (case j of J_OR \<Rightarrow> symbol_no | J_AND \<Rightarrow> symbol_yes)"

text \<open>
  \<open>__expr_eliminate_eq\<close> in three steps: comparing two leaves, walking the second
  tree for one leaf of the first, walking the first tree. The comparison of
  leaves, \<open>expr_eq\<close> in the source, is a parameter here and tied below.
\<close>

definition eliminate_eq_leaves ::
  "(expr \<Rightarrow> expr \<Rightarrow> bool) \<Rightarrow> junct \<Rightarrow> expr \<Rightarrow> expr \<Rightarrow> expr \<times> expr" where
  "eliminate_eq_leaves eq j e1 e2 =
     (if e1 = e2 \<and> (e1 = E_SYMBOL symbol_yes \<or> e1 = E_SYMBOL symbol_no) then (e1, e2)
      else if \<not> eq e1 e2 then (e1, e2)
      else (E_SYMBOL (junct_unit j), E_SYMBOL (junct_unit j)))"

fun eliminate_eq_snd ::
  "(expr \<Rightarrow> expr \<Rightarrow> bool) \<Rightarrow> junct \<Rightarrow> expr \<Rightarrow> expr \<Rightarrow> expr \<times> expr" where
  "eliminate_eq_snd eq j e1 (E_BIN k l r) =
     (if k = j then
        (let (e1a, l') = eliminate_eq_snd eq j e1 l;
             (e1b, r') = eliminate_eq_snd eq j e1a r
         in (e1b, E_BIN k l' r'))
      else eliminate_eq_leaves eq j e1 (E_BIN k l r))"
| "eliminate_eq_snd eq j e1 e2 = eliminate_eq_leaves eq j e1 e2"

fun eliminate_eq_fst ::
  "(expr \<Rightarrow> expr \<Rightarrow> bool) \<Rightarrow> junct \<Rightarrow> expr \<Rightarrow> expr \<Rightarrow> expr \<times> expr" where
  "eliminate_eq_fst eq j (E_BIN k l r) e2 =
     (if k = j then
        (let (l', e2a) = eliminate_eq_fst eq j l e2;
             (r', e2b) = eliminate_eq_fst eq j r e2a
         in (E_BIN k l' r', e2b))
      else eliminate_eq_snd eq j (E_BIN k l r) e2)"
| "eliminate_eq_fst eq j e1 e2 = eliminate_eq_snd eq j e1 e2"

definition eliminate_eq_root ::
  "(expr \<Rightarrow> expr \<Rightarrow> bool) \<Rightarrow> expr \<Rightarrow> expr \<times> expr \<Rightarrow> expr \<times> expr" where
  "eliminate_eq_root eq root p =
     (case root of E_BIN j _ _ \<Rightarrow> eliminate_eq_fst eq j (fst p) (snd p) | _ \<Rightarrow> p)"

text \<open>\<open>expr_eliminate_eq\<close> on two expressions that are not NULL.\<close>

definition eliminate_eq ::
  "(expr \<Rightarrow> expr \<Rightarrow> bool) \<Rightarrow> expr \<Rightarrow> expr \<Rightarrow> expr \<times> expr" where
  "eliminate_eq eq e1 e2 =
     (let p = eliminate_eq_root eq e1 (e1, e2);
          q = (if expr_tag (fst p) \<noteq> expr_tag (snd p) then eliminate_eq_root eq (snd p) p else p)
      in (expr_eliminate_yn (fst q), expr_eliminate_yn (snd q)))"

text \<open>
  The walk never grows a tree and asks for the equality of smaller pairs only;
  this is what makes the recursion through \<open>expr_eq\<close> well-founded.
\<close>

lemma eliminate_eq_leaves_size:
  "size (fst (eliminate_eq_leaves eq j e1 e2)) \<le> size e1"
  "size (snd (eliminate_eq_leaves eq j e1 e2)) \<le> size e2"
  by (auto simp: eliminate_eq_leaves_def)

lemma eliminate_eq_snd_size:
  "size (fst (eliminate_eq_snd eq j e1 e2)) \<le> size e1 \<and>
   size (snd (eliminate_eq_snd eq j e1 e2)) \<le> size e2"
proof (induction e2 arbitrary: e1)
  case (E_BIN k l r)
  have "size (fst (eliminate_eq_snd eq j (fst (eliminate_eq_snd eq j e1 l)) r)) \<le> size e1"
    using E_BIN.IH order_trans by blast
  with E_BIN.IH eliminate_eq_leaves_size [of eq j e1 "E_BIN k l r"] show ?case
    by (auto simp: Let_def case_prod_beta add_mono)
qed (simp_all only: eliminate_eq_snd.simps eliminate_eq_leaves_size simp_thms)

lemma eliminate_eq_fst_size:
  "size (fst (eliminate_eq_fst eq j e1 e2)) \<le> size e1 \<and>
   size (snd (eliminate_eq_fst eq j e1 e2)) \<le> size e2"
proof (induction e1 arbitrary: e2)
  case (E_BIN k l r)
  have "size (snd (eliminate_eq_fst eq j r (snd (eliminate_eq_fst eq j l e2)))) \<le> size e2"
    using E_BIN.IH order_trans by blast
  with E_BIN.IH eliminate_eq_snd_size [of eq j "E_BIN k l r" e2] show ?case
    by (auto simp: Let_def case_prod_beta add_mono)
qed (simp_all only: eliminate_eq_fst.simps eliminate_eq_snd_size simp_thms)

lemma eliminate_eq_leaves_cong:
  "f e1 e2 = g e1 e2 \<Longrightarrow> eliminate_eq_leaves f j e1 e2 = eliminate_eq_leaves g j e1 e2"
  unfolding eliminate_eq_leaves_def by presburger

lemma eliminate_eq_snd_cong:
  assumes "\<And>a b. size a \<le> size e1 \<Longrightarrow> size b \<le> size e2 \<Longrightarrow> f a b = g a b"
  shows "eliminate_eq_snd f j e1 e2 = eliminate_eq_snd g j e1 e2"
  using assms
proof (induction e2 arbitrary: e1)
  case (E_BIN k l r)
  show ?case
  proof (cases "k = j")
    case True
    have l: "eliminate_eq_snd f j e1 l = eliminate_eq_snd g j e1 l"
      using E_BIN.prems by (intro E_BIN.IH(1)) auto
    have "eliminate_eq_snd f j (fst (eliminate_eq_snd g j e1 l)) r
        = eliminate_eq_snd g j (fst (eliminate_eq_snd g j e1 l)) r"
      using E_BIN.prems eliminate_eq_snd_size [of g j e1 l]
      by (intro E_BIN.IH(2)) auto
    with l True show ?thesis by (simp add: Let_def case_prod_beta)
  next
    case False
    with E_BIN.prems show ?thesis by (auto intro: eliminate_eq_leaves_cong)
  qed
qed (auto intro: eliminate_eq_leaves_cong)

lemma eliminate_eq_fst_cong:
  assumes "\<And>a b. size a \<le> size e1 \<Longrightarrow> size b \<le> size e2 \<Longrightarrow> f a b = g a b"
  shows "eliminate_eq_fst f j e1 e2 = eliminate_eq_fst g j e1 e2"
  using assms
proof (induction e1 arbitrary: e2)
  case (E_BIN k l r)
  show ?case
  proof (cases "k = j")
    case True
    have l: "eliminate_eq_fst f j l e2 = eliminate_eq_fst g j l e2"
      using E_BIN.prems by (intro E_BIN.IH(1)) auto
    have "eliminate_eq_fst f j r (snd (eliminate_eq_fst g j l e2))
        = eliminate_eq_fst g j r (snd (eliminate_eq_fst g j l e2))"
      using E_BIN.prems eliminate_eq_fst_size [of g j l e2]
      by (intro E_BIN.IH(2)) auto
    with l True show ?thesis by (simp add: Let_def case_prod_beta)
  next
    case False
    with E_BIN.prems show ?thesis by (auto intro: eliminate_eq_snd_cong)
  qed
qed (auto intro: eliminate_eq_snd_cong)


lemma eliminate_eq_snd_cong_less:
  assumes "\<And>a b. size a + size b < size e1 + size (E_BIN j l r) \<Longrightarrow> f a b = g a b"
  shows "eliminate_eq_snd f j e1 (E_BIN j l r) = eliminate_eq_snd g j e1 (E_BIN j l r)"
proof -
  have l: "eliminate_eq_snd f j e1 l = eliminate_eq_snd g j e1 l"
    using assms by (intro eliminate_eq_snd_cong) auto
  have "eliminate_eq_snd f j (fst (eliminate_eq_snd g j e1 l)) r
      = eliminate_eq_snd g j (fst (eliminate_eq_snd g j e1 l)) r"
    using assms eliminate_eq_snd_size [of g j e1 l]
    by (intro eliminate_eq_snd_cong assms) auto
  with l show ?thesis by (simp add: Let_def case_prod_beta)
qed

lemma eliminate_eq_fst_cong_less1:
  assumes "\<And>a b. size a + size b < size (E_BIN j l r) + size e2 \<Longrightarrow> f a b = g a b"
  shows "eliminate_eq_fst f j (E_BIN j l r) e2 = eliminate_eq_fst g j (E_BIN j l r) e2"
proof -
  have l: "eliminate_eq_fst f j l e2 = eliminate_eq_fst g j l e2"
    using assms by (intro eliminate_eq_fst_cong) auto
  have "eliminate_eq_fst f j r (snd (eliminate_eq_fst g j l e2))
      = eliminate_eq_fst g j r (snd (eliminate_eq_fst g j l e2))"
    using assms eliminate_eq_fst_size [of g j l e2]
    by (intro eliminate_eq_fst_cong assms) auto
  with l show ?thesis by (simp add: Let_def case_prod_beta)
qed

lemma eliminate_eq_fst_cong_less2:
  assumes "\<And>a b. size a + size b < size e1 + size (E_BIN j l r) \<Longrightarrow> f a b = g a b"
  shows "eliminate_eq_fst f j e1 (E_BIN j l r) = eliminate_eq_fst g j e1 (E_BIN j l r)"
proof (cases "\<exists>a b. e1 = E_BIN j a b")
  case True
  then show ?thesis using assms by (auto intro!: eliminate_eq_fst_cong_less1)
next
  case False
  have "eliminate_eq_snd f j e1 (E_BIN j l r) = eliminate_eq_snd g j e1 (E_BIN j l r)"
    using assms by (rule eliminate_eq_snd_cong_less)
  with False show ?thesis by (cases e1) auto
qed

lemma eliminate_eq_root_size:
  "size (fst (eliminate_eq_root eq e p)) \<le> size (fst p)"
  "size (snd (eliminate_eq_root eq e p)) \<le> size (snd p)"
  by (auto simp: eliminate_eq_root_def eliminate_eq_fst_size split: expr.splits)

lemma eliminate_eq_cong [fundef_cong]:
  assumes "e1 = e1'" and "e2 = e2'"
    and "\<And>a b. size a + size b < size e1' + size e2' \<Longrightarrow> f a b = g a b"
  shows "eliminate_eq f e1 e2 = eliminate_eq g e1' e2'"
proof -
  define p where "p = eliminate_eq_root g e1' (e1', e2')"
  have "eliminate_eq_root f e1' (e1', e2') = p"
    using assms(3) unfolding p_def
    by (cases e1') (auto simp: eliminate_eq_root_def simp del: eliminate_eq_fst.simps
        intro!: eliminate_eq_fst_cong_less1)
  moreover have "eliminate_eq_root f (snd p) p = eliminate_eq_root g (snd p) p"
  proof (cases "snd p")
    case (E_BIN j l r)
    have "size (fst p) \<le> size e1'" "size (snd p) \<le> size e2'"
      unfolding p_def using eliminate_eq_root_size [of g e1' "(e1', e2')"] by simp_all
    with E_BIN assms(3) show ?thesis
      by (auto simp: eliminate_eq_root_def simp del: eliminate_eq_fst.simps
          intro!: eliminate_eq_fst_cong_less2)
  qed (auto simp: eliminate_eq_root_def)
  ultimately show ?thesis
    using assms(1,2) by (simp add: eliminate_eq_def Let_def p_def [symmetric])
qed

text \<open>
  \<open>expr_eq\<close> on two expressions that are not NULL; the NULL cases are
  \<open>expr_eq_ptr\<close> below. The copies it makes of \<open>&&\<close> and \<open>||\<close> expressions are
  consumed by the elimination.
\<close>

function (sequential) expr_eq :: "expr \<Rightarrow> expr \<Rightarrow> bool" where
  "expr_eq (E_COMP r a b) (E_COMP r' a' b') = (r = r' \<and> a = a' \<and> b = b')"
| "expr_eq (E_SYMBOL s) (E_SYMBOL t) = (s = t)"
| "expr_eq (E_NOT a) (E_NOT b) = expr_eq a b"
| "expr_eq (E_BIN j a b) (E_BIN k c d) =
     (if j = k then
        (case eliminate_eq expr_eq (E_BIN j a b) (E_BIN k c d) of
           (E_SYMBOL s, E_SYMBOL t) \<Rightarrow> s = t
         | _ \<Rightarrow> False)
      else False)"
| "expr_eq _ _ = False"
  by pat_completeness auto
termination
  by (relation "measure (\<lambda>(a, b). size a + size b)") auto

definition expr_eq_ptr :: "expr option \<Rightarrow> expr option \<Rightarrow> bool" where
  "expr_eq_ptr e1 e2 =
     (case (e1, e2) of
        (Some x1, Some x2) \<Rightarrow> expr_eq x1 x2
      | _ \<Rightarrow> expr_is_yes e1 \<and> expr_is_yes e2)"

definition expr_eliminate_eq :: "expr option \<Rightarrow> expr option \<Rightarrow> expr option \<times> expr option" where
  "expr_eliminate_eq e1 e2 =
     (case (e1, e2) of
        (Some x1, Some x2) \<Rightarrow> map_prod Some Some (eliminate_eq expr_eq x1 x2)
      | _ \<Rightarrow> (e1, e2))"

end
