(* ===== verification/Kconfig_Simplify.thy ===== *)
theory Kconfig_Simplify
  imports Kconfig_Expr
begin

text \<open>
  The simplifier of scripts/config/expr.c: joining two operands of \<open>||\<close> and
  \<open>&&\<close>, removing redundant operands until nothing changes
  (\<open>expr_eliminate_dups\<close>), pushing negations to the leaves
  (\<open>expr_transform\<close>), the comparison form (\<open>expr_trans_compare\<close>) and the
  syntactic queries on symbols.
\<close>

section \<open>Joining two operands\<close>

text \<open>The symbol an operand is about, \<open>None\<close> where the source returns NULL for its shape.\<close>

fun join_sym1 :: "expr \<Rightarrow> symref option" where
  "join_sym1 (E_SYMBOL s) = Some s"
| "join_sym1 (E_COMP r a b) = (if r = E_EQUAL \<or> r = E_UNEQUAL then Some a else None)"
| "join_sym1 (E_NOT (E_SYMBOL s)) = Some s"
| "join_sym1 (E_NOT (E_COMP r a b)) = (if r = E_EQUAL \<or> r = E_UNEQUAL then Some a else None)"
| "join_sym1 _ = None"

fun join_sym2 :: "expr \<Rightarrow> symref option" where
  "join_sym2 (E_SYMBOL s) = Some s"
| "join_sym2 (E_COMP r a b) = (if r = E_EQUAL \<or> r = E_UNEQUAL then Some a else None)"
| "join_sym2 (E_NOT (E_SYMBOL s)) = Some s"
| "join_sym2 _ = None"

text \<open>Both orders of a pair of operands.\<close>

definition either_order :: "expr \<Rightarrow> expr \<Rightarrow> expr \<Rightarrow> expr \<Rightarrow> bool" where
  "either_order e1 e2 a b \<longleftrightarrow> e1 = a \<and> e2 = b \<or> e1 = b \<and> e2 = a"

definition join_or_rules :: "symtab \<Rightarrow> symref \<Rightarrow> expr \<Rightarrow> expr \<Rightarrow> expr option" where
  "join_or_rules st a e1 e2 =
     (let eq = E_COMP E_EQUAL a; tri = (sym_type (st a) = S_TRISTATE) in
      if tri \<and> either_order e1 e2 (eq symbol_yes) (eq symbol_mod) then
        Some (E_COMP E_UNEQUAL a symbol_no)
      else if tri \<and> either_order e1 e2 (eq symbol_yes) (eq symbol_no) then
        Some (E_COMP E_UNEQUAL a symbol_mod)
      else if tri \<and> either_order e1 e2 (eq symbol_mod) (eq symbol_no) then
        Some (E_COMP E_UNEQUAL a symbol_yes)
      else if sym_type (st a) = S_BOOLEAN \<and> either_order e1 e2 (E_NOT (E_SYMBOL a)) (E_SYMBOL a) then
        Some (E_SYMBOL symbol_yes)
      else None)"

definition expr_join_or :: "symtab \<Rightarrow> expr \<Rightarrow> expr \<Rightarrow> expr option" where
  "expr_join_or st e1 e2 =
     (if expr_eq e1 e2 then Some (expr_copy e1)
      else case (join_sym1 e1, join_sym2 e2) of
        (Some sym1, Some sym2) \<Rightarrow>
          if sym1 \<noteq> sym2 then None
          else if sym_type (st sym1) \<noteq> S_BOOLEAN \<and> sym_type (st sym1) \<noteq> S_TRISTATE then None
          else join_or_rules st sym1 e1 e2
      | _ \<Rightarrow> None)"

definition join_and_consts :: "symtab \<Rightarrow> symref \<Rightarrow> symref \<Rightarrow> symref \<Rightarrow> expr option" where
  "join_and_consts st a b c =
     (if SYMBOL_CONST \<in> flags (st c) \<and> SYMBOL_CONST \<in> flags (st b) then
        Some (if b \<noteq> c then E_COMP E_EQUAL a b else E_SYMBOL symbol_no)
      else None)"

definition join_and_tristate :: "symtab \<Rightarrow> symref \<Rightarrow> expr \<Rightarrow> expr \<Rightarrow> expr option" where
  "join_and_tristate st a e1 e2 =
     (case (e1, e2) of
        (E_COMP E_EQUAL _ b, E_COMP E_UNEQUAL _ c) \<Rightarrow> join_and_consts st a b c
      | (E_COMP E_UNEQUAL _ c, E_COMP E_EQUAL _ b) \<Rightarrow> join_and_consts st a b c
      | _ \<Rightarrow>
         (let ne = E_COMP E_UNEQUAL a in
          if either_order e1 e2 (ne symbol_yes) (ne symbol_no) then Some (E_COMP E_EQUAL a symbol_mod)
          else if either_order e1 e2 (ne symbol_yes) (ne symbol_mod) then Some (E_COMP E_EQUAL a symbol_no)
          else if either_order e1 e2 (ne symbol_mod) (ne symbol_no) then Some (E_COMP E_EQUAL a symbol_yes)
          else None))"

definition join_and_rules :: "symtab \<Rightarrow> symref \<Rightarrow> expr \<Rightarrow> expr \<Rightarrow> expr option" where
  "join_and_rules st a e1 e2 =
     (let v = E_SYMBOL a; eq = E_COMP E_EQUAL a; ne = E_COMP E_UNEQUAL a in
      if either_order e1 e2 v (eq symbol_yes) then Some (eq symbol_yes)
      else if either_order e1 e2 v (ne symbol_no) then Some v
      else if either_order e1 e2 v (ne symbol_mod) then Some (eq symbol_yes)
      else if sym_type (st a) = S_TRISTATE then join_and_tristate st a e1 e2
      else None)"

definition expr_join_and :: "symtab \<Rightarrow> expr \<Rightarrow> expr \<Rightarrow> expr option" where
  "expr_join_and st e1 e2 =
     (if expr_eq e1 e2 then Some (expr_copy e1)
      else case (join_sym1 e1, join_sym2 e2) of
        (Some sym1, Some sym2) \<Rightarrow>
          if sym1 \<noteq> sym2 then None
          else if sym_type (st sym1) \<noteq> S_BOOLEAN \<and> sym_type (st sym1) \<noteq> S_TRISTATE then None
          else join_and_rules st sym1 e1 e2
      | _ \<Rightarrow> None)"

definition expr_join :: "symtab \<Rightarrow> junct \<Rightarrow> expr \<Rightarrow> expr \<Rightarrow> expr option" where
  "expr_join st j e1 e2 = (case j of J_OR \<Rightarrow> expr_join_or st e1 e2 | J_AND \<Rightarrow> expr_join_and st e1 e2)"

section \<open>Slots of a tree\<close>

text \<open>
  \<open>expr_eliminate_dups1\<close> is called with both slot pointers at the root of one
  tree and rewrites that tree through two slots at a time. A slot is the path
  from the root to it.
\<close>

datatype dir = Lft | Rgt

fun expr_at :: "expr \<Rightarrow> dir list \<Rightarrow> expr" where
  "expr_at (E_BIN j l r) (Lft # p) = expr_at l p"
| "expr_at (E_BIN j l r) (Rgt # p) = expr_at r p"
| "expr_at e p = e"

fun expr_put :: "expr \<Rightarrow> dir list \<Rightarrow> expr \<Rightarrow> expr" where
  "expr_put (E_BIN j l r) (Lft # p) x = E_BIN j (expr_put l p x) r"
| "expr_put (E_BIN j l r) (Rgt # p) x = E_BIN j l (expr_put r p x)"
| "expr_put e p x = x"

section \<open>Removing redundant operands\<close>

type_synonym dups_state = "expr \<times> nat"

text \<open>
  The body of \<open>expr_eliminate_dups1\<close> for two leaf slots. The state is the tree
  and \<open>trans_count\<close>; \<open>self\<close> is the recursive call on a nested \<open>||\<close> or \<open>&&\<close> with
  both pointers at that subtree. Two slots of an unshared tree hold the same
  node exactly when they are the same slot.
\<close>

definition dups1_leaf ::
  "(junct \<Rightarrow> expr \<Rightarrow> dups_state option) \<Rightarrow> symtab \<Rightarrow> junct \<Rightarrow> dir list \<Rightarrow> dir list
     \<Rightarrow> dups_state \<Rightarrow> dups_state option" where
  "dups1_leaf self st j p1 p2 s =
     (if p1 = p2 then Some s
      else Option.bind
        (case expr_at (fst s) p1 of
           E_BIN k l r \<Rightarrow>
             map_option (\<lambda>(x, n). (expr_put (fst s) p1 x, snd s + n)) (self k (E_BIN k l r))
         | _ \<Rightarrow> Some s)
        (\<lambda>(e, c).
           case expr_join st j (expr_at e p1) (expr_at e p2) of
             None \<Rightarrow> Some (e, c)
           | Some tmp \<Rightarrow>
               Some (expr_put (expr_put e p1 (E_SYMBOL (junct_unit j))) p2 tmp, c + 1)))"

text \<open>
  The descent to the leaves, first through the first slot, then through the
  second. It reads the node types from the tree as it was on entry: a leaf is
  only ever replaced by a node that is a leaf again (\<open>dups1_leaf_inv\<close> below), so
  the tests \<open>e1->type == type\<close> see the same types.
\<close>

fun dups1_snd ::
  "(junct \<Rightarrow> expr \<Rightarrow> dups_state option) \<Rightarrow> symtab \<Rightarrow> junct \<Rightarrow> dir list \<Rightarrow> dir list \<Rightarrow> expr
     \<Rightarrow> dups_state \<Rightarrow> dups_state option" where
  "dups1_snd self st j p1 p2 (E_BIN k l r) s =
     (if k = j then
        Option.bind (dups1_snd self st j p1 (p2 @ [Lft]) l s) (dups1_snd self st j p1 (p2 @ [Rgt]) r)
      else dups1_leaf self st j p1 p2 s)"
| "dups1_snd self st j p1 p2 e s = dups1_leaf self st j p1 p2 s"

fun dups1_fst ::
  "(junct \<Rightarrow> expr \<Rightarrow> dups_state option) \<Rightarrow> symtab \<Rightarrow> junct \<Rightarrow> dir list \<Rightarrow> expr \<Rightarrow> expr
     \<Rightarrow> dups_state \<Rightarrow> dups_state option" where
  "dups1_fst self st j p1 (E_BIN k l r) root s =
     (if k = j then
        Option.bind (dups1_fst self st j (p1 @ [Lft]) l root s) (dups1_fst self st j (p1 @ [Rgt]) r root)
      else dups1_snd self st j p1 [] root s)"
| "dups1_fst self st j p1 e root s = dups1_snd self st j p1 [] root s"

text \<open>The first argument bounds the nesting of \<open>||\<close> and \<open>&&\<close>; \<open>dups1_total\<close> shows that the size is enough.\<close>

fun expr_eliminate_dups1 :: "nat \<Rightarrow> symtab \<Rightarrow> junct \<Rightarrow> expr \<Rightarrow> dups_state option" where
  "expr_eliminate_dups1 0 st j e = None"
| "expr_eliminate_dups1 (Suc n) st j e =
     dups1_fst (expr_eliminate_dups1 n st) st j [] e e (e, 0)"

text \<open>
  The slots of the leaves of one level, in the order the walk visits them, and
  what writing a leaf changes.
\<close>

definition is_junct :: "junct \<Rightarrow> expr \<Rightarrow> bool" where
  "is_junct j e \<longleftrightarrow> (\<exists>l r. e = E_BIN j l r)"

lemma is_junct_simps [simp]:
  "is_junct j (E_BIN k l r) \<longleftrightarrow> k = j"
  "\<not> is_junct j (E_SYMBOL s)" "\<not> is_junct j (E_NOT e)" "\<not> is_junct j (E_COMP c a b)"
  by (auto simp: is_junct_def)

fun jleaves :: "junct \<Rightarrow> expr \<Rightarrow> dir list list" where
  "jleaves j (E_BIN k l r) =
     (if k = j then map ((#) Lft) (jleaves j l) @ map ((#) Rgt) (jleaves j r) else [[]])"
| "jleaves j e = [[]]"

lemma jleaves_leaf: "\<not> is_junct j e \<Longrightarrow> jleaves j e = [[]]"
  by (cases e) auto

lemma jleaves_nonempty: "is_junct j e \<Longrightarrow> p \<in> set (jleaves j e) \<Longrightarrow> p \<noteq> []"
  by (cases e) auto

lemma expr_at_leaf: "p \<in> set (jleaves j e) \<Longrightarrow> \<not> is_junct j (expr_at e p)"
  by (induction j e arbitrary: p rule: jleaves.induct) (auto split: if_splits)

lemma expr_at_put_same: "p \<in> set (jleaves j e) \<Longrightarrow> expr_at (expr_put e p x) p = expr_at x []"
  by (induction j e arbitrary: p rule: jleaves.induct) (auto split: if_splits)

lemma expr_at_Nil [simp]: "expr_at e [] = e"
  by (cases e) auto

lemma expr_put_Nil [simp]: "expr_put e [] x = x"
  by (cases e) auto

lemma expr_at_put_other:
  "p \<in> set (jleaves j e) \<Longrightarrow> q \<in> set (jleaves j e) \<Longrightarrow> p \<noteq> q \<Longrightarrow>
     expr_at (expr_put e p x) q = expr_at e q"
  by (induction j e arbitrary: p q rule: jleaves.induct) (auto split: if_splits; blast)+

lemma expr_put_at [simp]: "p \<in> set (jleaves j e) \<Longrightarrow> expr_put e p (expr_at e p) = e"
  by (induction j e arbitrary: p rule: jleaves.induct) (auto split: if_splits)

lemma expr_put_put:
  "p \<in> set (jleaves j e) \<Longrightarrow> expr_put (expr_put e p x) p y = expr_put e p y"
  by (induction j e arbitrary: p rule: jleaves.induct) (auto split: if_splits)

lemma expr_put_commute:
  "p \<in> set (jleaves j e) \<Longrightarrow> q \<in> set (jleaves j e) \<Longrightarrow> p \<noteq> q \<Longrightarrow>
     expr_put (expr_put e p x) q y = expr_put (expr_put e q y) p x"
  by (induction j e arbitrary: p q rule: jleaves.induct) (auto split: if_splits; blast)+

lemma jleaves_put:
  "p \<in> set (jleaves j e) \<Longrightarrow> \<not> is_junct j x \<Longrightarrow> jleaves j (expr_put e p x) = jleaves j e"
  by (induction j e arbitrary: p rule: jleaves.induct) (auto simp: jleaves_leaf split: if_splits)

lemma size_put:
  "p \<in> set (jleaves j e) \<Longrightarrow> size (expr_put e p x) + size (expr_at e p) = size e + size x"
  by (induction j e arbitrary: p rule: jleaves.induct) (auto split: if_splits)

lemma size_at_le: "p \<in> set (jleaves j e) \<Longrightarrow> size (expr_at e p) \<le> size e"
  using size_put [of p j e "E_SYMBOL symbol_no"] by simp

lemma size_at_less:
  "is_junct j e \<Longrightarrow> p \<in> set (jleaves j e) \<Longrightarrow> size (expr_at e p) < size e"
  by (cases e) (auto dest!: size_at_le)

lemma dups1_snd_fold:
  "dups1_snd self st j p1 p2 e s = ofold (\<lambda>q. dups1_leaf self st j p1 (p2 @ q)) (jleaves j e) s"
  by (induction j e arbitrary: p2 s rule: jleaves.induct)
    (auto simp: ofold_append ofold_map split: Option.bind_splits)

lemma dups1_fst_fold:
  "dups1_fst self st j p1 e root s =
     ofold (\<lambda>p. ofold (\<lambda>q. dups1_leaf self st j (p1 @ p) q) (jleaves j root)) (jleaves j e) s"
  by (induction j e arbitrary: p1 s rule: jleaves.induct)
    (auto simp: ofold_append ofold_map dups1_snd_fold split: Option.bind_splits)

fun has_unit :: "expr \<Rightarrow> bool" where
  "has_unit (E_BIN j l r) \<longleftrightarrow>
     l = E_SYMBOL (junct_unit j) \<or> r = E_SYMBOL (junct_unit j) \<or> has_unit l \<or> has_unit r"
| "has_unit e \<longleftrightarrow> False"

lemma size_yn_node: "size (eliminate_yn_node j l r) \<le> Suc (size l + size r)"
  by (cases j) (auto simp: eliminate_yn_node_def)

lemma size_yn: "size (expr_eliminate_yn e) \<le> size e"
proof (induction e)
  case (E_BIN j l r)
  then show ?case using size_yn_node [of j "expr_eliminate_yn l" "expr_eliminate_yn r"] by simp
qed auto

lemma size_yn_node_unit:
  "l = E_SYMBOL (junct_unit j) \<or> r = E_SYMBOL (junct_unit j) \<Longrightarrow>
     size (eliminate_yn_node j l r) < Suc (size l + size r)"
  by (cases j) (auto simp: eliminate_yn_node_def junct_unit_def)

lemma size_yn_less: "has_unit e \<Longrightarrow> size (expr_eliminate_yn e) < size e"
proof (induction e)
  case (E_BIN j l r)
  have sz: "size (eliminate_yn_node j (expr_eliminate_yn l) (expr_eliminate_yn r))
      \<le> Suc (size (expr_eliminate_yn l) + size (expr_eliminate_yn r))"
    by (rule size_yn_node)
  show ?case
  proof (cases "has_unit l \<or> has_unit r")
    case True
    with E_BIN.IH sz size_yn [of l] size_yn [of r] show ?thesis by fastforce
  next
    case False
    with E_BIN.prems have "l = E_SYMBOL (junct_unit j) \<or> r = E_SYMBOL (junct_unit j)" by simp
    then have "size (eliminate_yn_node j (expr_eliminate_yn l) (expr_eliminate_yn r))
        < Suc (size (expr_eliminate_yn l) + size (expr_eliminate_yn r))"
      by (intro size_yn_node_unit) auto
    with size_yn [of l] size_yn [of r] show ?thesis by simp
  qed
qed auto

lemma has_unit_put: "p \<in> set (jleaves j e) \<Longrightarrow> has_unit x \<Longrightarrow> has_unit (expr_put e p x)"
  by (induction j e arbitrary: p rule: jleaves.induct) (auto split: if_splits)

lemma has_unit_put_unit:
  "p \<in> set (jleaves j e) \<Longrightarrow> p \<noteq> [] \<Longrightarrow> has_unit (expr_put e p (E_SYMBOL (junct_unit j)))"
proof (induction j e arbitrary: p rule: jleaves.induct)
  case (1 j k l r)
  then show ?case
    by (cases "k = j"; cases "tl p = []") (auto split: if_splits simp: neq_Nil_conv)
qed auto


lemma expr_join_shape:
  assumes "expr_join st j e1 e2 = Some t" and "\<not> is_junct j e1"
  shows "\<not> is_junct j t" and "size t \<le> size e1"
proof -
  have "t = e1 \<or> (\<exists>s. t = E_SYMBOL s) \<or> (\<exists>r a b. t = E_COMP r a b)"
    using assms(1)
    by (auto simp: expr_join_def expr_join_or_def expr_join_and_def join_or_rules_def
        join_and_rules_def join_and_tristate_def join_and_consts_def Let_def
        split: junct.splits if_splits option.splits expr.splits relop.splits)
  with assms(2) show "\<not> is_junct j t" and "size t \<le> size e1" by auto
qed

text \<open>What a call with both pointers at one \<open>||\<close> or \<open>&&\<close> returns.\<close>

definition self_ok :: "(junct \<Rightarrow> expr \<Rightarrow> dups_state option) \<Rightarrow> nat \<Rightarrow> bool" where
  "self_ok self m \<longleftrightarrow>
     (\<forall>k x. is_junct k x \<longrightarrow> size x \<le> m \<longrightarrow>
        (\<exists>y n. self k x = Some (y, n) \<and> is_junct k y \<and> size y \<le> size x \<and>
           (n = 0 \<longrightarrow> y = x) \<and> (n \<noteq> 0 \<longrightarrow> has_unit y)))"

definition dups1_inv :: "junct \<Rightarrow> nat \<Rightarrow> expr \<Rightarrow> dups_state \<Rightarrow> bool" where
  "dups1_inv j m e0 s \<longleftrightarrow>
     jleaves j (fst s) = jleaves j e0 \<and>
     (\<forall>q\<in>set (jleaves j e0). size (expr_at (fst s) q) \<le> m) \<and>
     size (fst s) \<le> size e0 \<and> (snd s = 0 \<longrightarrow> fst s = e0) \<and> (snd s \<noteq> 0 \<longrightarrow> has_unit (fst s))"

lemma dups1_self_inv:
  assumes "self_ok self m" and "dups1_inv j m e0 (e, c)"
    and "p \<in> set (jleaves j e0)" and "expr_at e p = E_BIN k l r"
  obtains x n where "self k (E_BIN k l r) = Some (x, n)"
    and "dups1_inv j m e0 (expr_put e p x, c + n)"
proof -
  from assms(2,3) have leaf: "p \<in> set (jleaves j e)" "size (E_BIN k l r) \<le> m"
    by (auto simp: dups1_inv_def simp flip: assms(4))
  from assms(1) leaf(2) obtain x n where x: "self k (E_BIN k l r) = Some (x, n)"
      "is_junct k x" "size x \<le> size (E_BIN k l r)" "n = 0 \<longrightarrow> x = E_BIN k l r" "n \<noteq> 0 \<longrightarrow> has_unit x"
    unfolding self_ok_def by (metis is_junct_simps(1))
  have "k \<noteq> j" using expr_at_leaf [OF leaf(1)] assms(4) by auto
  with x(2) have nj: "\<not> is_junct j x" by (auto simp: is_junct_def)
  have at: "size (expr_at (expr_put e p x) q) \<le> m" if "q \<in> set (jleaves j e0)" for q
    using that assms(2) leaf x(3) expr_at_put_same [OF leaf(1), of x] expr_at_put_other [OF leaf(1), of q x]
    by (cases "p = q") (auto simp: dups1_inv_def)
  have "dups1_inv j m e0 (expr_put e p x, c + n)"
    unfolding dups1_inv_def fst_conv snd_conv
  proof (intro conjI impI ballI)
    show "jleaves j (expr_put e p x) = jleaves j e0"
      using jleaves_put [OF leaf(1) nj] assms(2) by (simp add: dups1_inv_def)
    show "size (expr_put e p x) \<le> size e0"
      using size_put [OF leaf(1), of x] x(3) assms(2,4) by (simp add: dups1_inv_def)
    show "expr_put e p x = e0" if "c + n = 0"
      using that x(4) assms(2) expr_put_at [OF leaf(1), unfolded assms(4)]
      by (simp add: dups1_inv_def)
    show "has_unit (expr_put e p x)" if "c + n \<noteq> 0"
    proof (cases "n = 0")
      case True
      with x(4) expr_put_at [OF leaf(1)] assms(4) have "expr_put e p x = e" by simp
      with True that assms(2) show ?thesis by (simp add: dups1_inv_def)
    qed (use x(5) has_unit_put [OF leaf(1)] in auto)
  qed (use at in auto)
  with x(1) that show ?thesis by blast
qed

lemma dups1_join_inv:
  assumes "dups1_inv j m e0 (e, c)" and "p1 \<in> set (jleaves j e0)" and "p2 \<in> set (jleaves j e0)"
    and "p1 \<noteq> p2" and "expr_join st j (expr_at e p1) (expr_at e p2) = Some t" and "is_junct j e0"
  shows "dups1_inv j m e0 (expr_put (expr_put e p1 (E_SYMBOL (junct_unit j))) p2 t, c + 1)"
proof -
  let ?u = "E_SYMBOL (junct_unit j)"
  let ?e1 = "expr_put e p1 ?u"
  from assms(1-3) have l1: "p1 \<in> set (jleaves j e)" and l2: "p2 \<in> set (jleaves j e)"
    by (auto simp: dups1_inv_def)
  have j1: "jleaves j ?e1 = jleaves j e" using l1 by (rule jleaves_put) simp
  have l2': "p2 \<in> set (jleaves j ?e1)" using l2 j1 by simp
  note t = expr_join_shape [OF assms(5) expr_at_leaf [OF l1]]
  have at2: "expr_at ?e1 p2 = expr_at e p2" using l1 l2 assms(4) by (rule expr_at_put_other)
  have at: "size (expr_at (expr_put ?e1 p2 t) q) \<le> m" if q: "q \<in> set (jleaves j e0)" for q
  proof (cases "q = p2")
    case True
    with expr_at_put_same [OF l2', of t] t(2) assms(1,2) show ?thesis
      by (auto simp: dups1_inv_def)
  next
    case False
    with q assms(1) j1 have "expr_at (expr_put ?e1 p2 t) q = expr_at ?e1 q"
      by (intro expr_at_put_other [OF l2']) (auto simp: dups1_inv_def)
    with q assms(1) expr_at_put_same [OF l1, of ?u] expr_at_put_other [OF l1, of q ?u] show ?thesis
      by (cases "q = p1") (auto simp: dups1_inv_def)
  qed
  have "size (expr_put ?e1 p2 t) + size (expr_at e p2) + size (expr_at e p1) = size e + size t"
    using size_put [OF l2', of t] size_put [OF l1, of ?u] at2 by simp
  moreover have "has_unit (expr_put ?e1 p2 t)"
    unfolding expr_put_commute [OF l1 l2 assms(4)]
    using l1 jleaves_put [OF l2 t(1)] jleaves_nonempty [OF assms(6,2)]
    by (intro has_unit_put_unit) auto
  ultimately show ?thesis
    using at t assms(1) jleaves_put [OF l2' t(1)] j1 by (auto simp: dups1_inv_def)
qed


lemma dups1_leaf_inv:
  assumes "self_ok self m" and "dups1_inv j m e0 s" and "is_junct j e0"
    and "p1 \<in> set (jleaves j e0)" and "p2 \<in> set (jleaves j e0)"
  shows "\<exists>t. dups1_leaf self st j p1 p2 s = Some t \<and> dups1_inv j m e0 t"
proof (cases "p1 = p2")
  case True
  with assms(2) show ?thesis by (simp add: dups1_leaf_def)
next
  case False
  let ?pre = "case expr_at (fst s) p1 of
      E_BIN k l r \<Rightarrow> map_option (\<lambda>(x, n). (expr_put (fst s) p1 x, snd s + n)) (self k (E_BIN k l r))
    | _ \<Rightarrow> Some s"
  obtain e' c' where pre: "?pre = Some (e', c')" "dups1_inv j m e0 (e', c')"
  proof (cases "expr_at (fst s) p1")
    case (E_BIN k l r)
    from dups1_self_inv [OF assms(1) _ assms(4) E_BIN, of "snd s"] assms(2)
    obtain x n where "self k (E_BIN k l r) = Some (x, n)"
        "dups1_inv j m e0 (expr_put (fst s) p1 x, snd s + n)"
      by auto
    with E_BIN that show ?thesis by simp
  qed (use assms(2) that in \<open>cases s; auto\<close>)+
  show ?thesis
  proof (cases "expr_join st j (expr_at e' p1) (expr_at e' p2)")
    case None
    with False pre show ?thesis by (simp add: dups1_leaf_def)
  next
    case (Some t)
    from dups1_join_inv [OF pre(2) assms(4,5) False Some assms(3)] False pre Some
    show ?thesis by (simp add: dups1_leaf_def)
  qed
qed

lemma dups1_inv_init: "is_junct j e \<Longrightarrow> size e \<le> Suc m \<Longrightarrow> dups1_inv j m e (e, 0)"
  using size_at_less [of j e] by (fastforce simp: dups1_inv_def)

lemma dups1_inv_junct: "is_junct j e0 \<Longrightarrow> dups1_inv j m e0 s \<Longrightarrow> is_junct j (fst s)"
  using jleaves_leaf [of j "fst s"] jleaves_nonempty [of j e0] by (force simp: dups1_inv_def)

lemma dups1_self_ok: "self_ok (expr_eliminate_dups1 n st) (n - 1)"
proof (induction n)
  case 0
  show ?case unfolding self_ok_def
    by (auto simp: is_junct_def)
next
  case (Suc n)
  show ?case unfolding self_ok_def
  proof (intro allI impI)
    fix k x assume x: "is_junct k x" "size x \<le> Suc n - 1"
    have "\<exists>t. ofold (\<lambda>p. ofold (\<lambda>q. dups1_leaf (expr_eliminate_dups1 n st) st k p q) (jleaves k x))
        (jleaves k x) (x, 0) = Some t \<and> dups1_inv k (n - 1) x t"
      by (intro ofold_total dups1_leaf_inv [OF Suc.IH] dups1_inv_init x)
        (use x in auto)
    then obtain y c where "expr_eliminate_dups1 (Suc n) st k x = Some (y, c)" "dups1_inv k (n - 1) x (y, c)"
      by (auto simp: dups1_fst_fold)
    with dups1_inv_junct [OF x(1)] show "\<exists>y c. expr_eliminate_dups1 (Suc n) st k x = Some (y, c) \<and>
        is_junct k y \<and> size y \<le> size x \<and> (c = 0 \<longrightarrow> y = x) \<and> (c \<noteq> 0 \<longrightarrow> has_unit y)"
      by (fastforce simp: dups1_inv_def)
  qed
qed

text \<open>
  \<open>expr_eliminate_dups\<close> on an expression that is not NULL: the loop runs until a
  pass changes nothing. Each pass that changes something leaves a unit operand
  behind, so that \<open>expr_eliminate_yn\<close> makes the tree smaller.
\<close>

declare expr_eliminate_dups1.simps [simp del]

lemma dups1_total:
  assumes "is_junct j e" and "size e < n"
  obtains e' c where "expr_eliminate_dups1 n st j e = Some (e', c)" and "is_junct j e'"
    and "size e' \<le> size e" and "c = 0 \<longrightarrow> e' = e" and "c \<noteq> 0 \<longrightarrow> has_unit e'"
proof -
  have "size e \<le> n - 1" using assms(2) by simp
  with dups1_self_ok [of n st] assms(1) that show ?thesis
    unfolding self_ok_def by blast
qed

lemma dups1_decreases:
  assumes "expr_eliminate_dups1 (Suc (size e)) st j e = Some (e', c)" and "c \<noteq> 0" and "is_junct j e"
  shows "size (expr_eliminate_yn e') < size e"
proof -
  obtain e'' c' where "expr_eliminate_dups1 (Suc (size e)) st j e = Some (e'', c')"
      "size e'' \<le> size e" "c' \<noteq> 0 \<longrightarrow> has_unit e''"
    using dups1_total [OF assms(3), of "Suc (size e)" st] by blast
  with assms have "has_unit e'" "size e' \<le> size e" by auto
  then show ?thesis using size_yn_less [of e'] by simp
qed

function eliminate_dups :: "symtab \<Rightarrow> expr \<Rightarrow> expr option" where
  "eliminate_dups st e =
     (case e of
        E_BIN j l r \<Rightarrow>
          (case expr_eliminate_dups1 (Suc (size e)) st j e of
             None \<Rightarrow> None
           | Some (e', c) \<Rightarrow> if c = 0 then Some e' else eliminate_dups st (expr_eliminate_yn e'))
      | _ \<Rightarrow> Some e)"
  by pat_completeness auto
termination
  by (relation "measure (\<lambda>(st, e). size e)") (auto dest: dups1_decreases simp del: expr.size)

declare eliminate_dups.simps [simp del]

definition expr_eliminate_dups :: "symtab \<Rightarrow> expr option \<Rightarrow> expr option option" where
  "expr_eliminate_dups st e =
     (case e of None \<Rightarrow> Some None | Some x \<Rightarrow> map_option Some (eliminate_dups st x))"

end
