(* ===== verification/Kconfig_Transform.thy ===== *)
theory Kconfig_Transform
  imports Kconfig_Simplify
begin

text \<open>
  The remaining rewriting routines of scripts/config/expr.c:
  \<open>expr_trans_bool\<close>, \<open>expr_transform\<close> (negation normal form),
  \<open>expr_trans_compare\<close>, and the queries \<open>expr_contains_symbol\<close> and
  \<open>expr_depends_symbol\<close>.
\<close>

section \<open>Dropping comparisons with n\<close>

fun expr_trans_bool :: "symtab \<Rightarrow> expr \<Rightarrow> expr" where
  "expr_trans_bool st (E_BIN j l r) = E_BIN j (expr_trans_bool st l) (expr_trans_bool st r)"
| "expr_trans_bool st (E_NOT e) = E_NOT (expr_trans_bool st e)"
| "expr_trans_bool st (E_COMP c a b) =
     (if c = E_UNEQUAL \<and> sym_type (st a) = S_TRISTATE \<and> b = symbol_no then E_SYMBOL a
      else E_COMP c a b)"
| "expr_trans_bool st (E_SYMBOL s) = E_SYMBOL s"

section \<open>Pushing negations to the leaves\<close>

text \<open>The comparison cases of the second switch of \<open>expr_transform\<close>.\<close>

definition transform_comp :: "symtab \<Rightarrow> relop \<Rightarrow> symref \<Rightarrow> symref \<Rightarrow> expr" where
  "transform_comp st c a b =
     (if sym_type (st a) \<noteq> S_BOOLEAN then E_COMP c a b
      else case c of
        E_EQUAL \<Rightarrow>
          if b = symbol_no then E_NOT (E_SYMBOL a)
          else if b = symbol_mod then E_SYMBOL symbol_no
          else if b = symbol_yes then E_SYMBOL a
          else E_COMP c a b
      | E_UNEQUAL \<Rightarrow>
          if b = symbol_no then E_SYMBOL a
          else if b = symbol_mod then E_SYMBOL symbol_yes
          else if b = symbol_yes then E_NOT (E_SYMBOL a)
          else E_COMP c a b
      | _ \<Rightarrow> E_COMP c a b)"

definition negate_rel :: "relop \<Rightarrow> relop" where
  "negate_rel c =
     (case c of
        E_EQUAL \<Rightarrow> E_UNEQUAL | E_UNEQUAL \<Rightarrow> E_EQUAL
      | E_LEQ \<Rightarrow> E_GTH | E_GEQ \<Rightarrow> E_LTH
      | E_LTH \<Rightarrow> E_GEQ | E_GTH \<Rightarrow> E_LEQ)"

definition dual_junct :: "junct \<Rightarrow> junct" where
  "dual_junct j = (case j of J_OR \<Rightarrow> J_AND | J_AND \<Rightarrow> J_OR)"

text \<open>
  \<open>expr_transform\<close> on an expression that is not NULL. The \<open>E_NOT\<close> equation is the
  inner switch on the type of the transformed operand.
\<close>

function (sequential) transform :: "symtab \<Rightarrow> expr \<Rightarrow> expr" where
  "transform st (E_SYMBOL s) = E_SYMBOL s"
| "transform st (E_COMP c a b) = transform_comp st c a b"
| "transform st (E_BIN j l r) = E_BIN j (transform st l) (transform st r)"
| "transform st (E_NOT e) =
     (case transform st e of
        E_NOT x \<Rightarrow> transform st x
      | E_COMP c a b \<Rightarrow> E_COMP (negate_rel c) a b
      | E_BIN j l r \<Rightarrow> transform st (E_BIN (dual_junct j) (E_NOT l) (E_NOT r))
      | E_SYMBOL s \<Rightarrow>
          if s = symbol_yes then E_SYMBOL symbol_no
          else if s = symbol_mod then E_SYMBOL symbol_mod
          else if s = symbol_no then E_SYMBOL symbol_yes
          else E_NOT (E_SYMBOL s))"
  by pat_completeness auto

text \<open>
  The operand is examined after it was transformed, so the recursion is nested.
  A weight under which moving a negation inwards is a gain bounds it: the
  transformed tree never weighs more.
\<close>

fun weight :: "expr \<Rightarrow> nat" where
  "weight (E_SYMBOL s) = 1"
| "weight (E_COMP c a b) = 2"
| "weight (E_NOT e) = 2 * weight e"
| "weight (E_BIN j l r) = Suc (weight l + weight r)"

lemma weight_pos [simp]: "0 < weight e"
  by (induction e) auto

lemma weight_transform_comp: "weight (transform_comp st c a b) \<le> 2"
  by (auto simp: transform_comp_def split: relop.splits)

lemma weight_transform:
  "transform_dom (st, e) \<Longrightarrow> weight (transform st e) \<le> weight e"
proof (induction st e rule: transform.pinduct)
  case (4 st e)
  then show ?case
    by (fastforce simp: transform.psimps split: expr.splits)
qed (auto simp: transform.psimps weight_transform_comp)

termination transform
proof (relation "measure (\<lambda>(st, e). weight e)", goal_cases)
  case (5 st e x)
  then show ?case using weight_transform [of st e] weight_pos [of x] by (simp del: weight_pos)
next
  case (6 st e j l r)
  then show ?case using weight_transform [of st e] by simp
qed auto

definition expr_transform :: "symtab \<Rightarrow> expr option \<Rightarrow> expr option" where
  "expr_transform st e = map_option (transform st) e"

section \<open>Queries\<close>

fun expr_contains_symbol :: "expr \<Rightarrow> symref \<Rightarrow> bool" where
  "expr_contains_symbol (E_BIN j l r) s \<longleftrightarrow> expr_contains_symbol l s \<or> expr_contains_symbol r s"
| "expr_contains_symbol (E_SYMBOL t) s \<longleftrightarrow> t = s"
| "expr_contains_symbol (E_COMP c a b) s \<longleftrightarrow> a = s \<or> b = s"
| "expr_contains_symbol (E_NOT e) s \<longleftrightarrow> expr_contains_symbol e s"

fun expr_depends_symbol :: "expr \<Rightarrow> symref \<Rightarrow> bool" where
  "expr_depends_symbol (E_BIN J_AND l r) s \<longleftrightarrow> expr_depends_symbol l s \<or> expr_depends_symbol r s"
| "expr_depends_symbol (E_SYMBOL t) s \<longleftrightarrow> t = s"
| "expr_depends_symbol (E_COMP E_EQUAL a b) s \<longleftrightarrow> a = s \<and> (b = symbol_yes \<or> b = symbol_mod)"
| "expr_depends_symbol (E_COMP E_UNEQUAL a b) s \<longleftrightarrow> a = s \<and> b = symbol_no"
| "expr_depends_symbol _ s \<longleftrightarrow> False"

section \<open>Inserting explicit comparisons\<close>

text \<open>
  \<open>expr_trans_compare\<close> on an expression that is not NULL; \<open>ne\<close> tells
  \<open>E_UNEQUAL\<close> from \<open>E_EQUAL\<close>, the two types it is called with. \<open>None\<close> is the NULL
  the source returns for a comparison when the symbol is not \<open>y\<close>, \<open>m\<close> or \<open>n\<close>; an
  \<open>&&\<close> or \<open>||\<close> is left as it is for every symbol but \<open>y\<close> and \<open>n\<close>.
\<close>

definition alloc_not_if :: "bool \<Rightarrow> expr \<Rightarrow> expr" where
  "alloc_not_if ne e = (if ne then E_NOT e else e)"

fun trans_compare :: "expr \<Rightarrow> bool \<Rightarrow> symref \<Rightarrow> expr option" where
  "trans_compare (E_BIN j l r) ne s =
     (let two = (\<lambda>k. case (trans_compare l False s, trans_compare r False s) of
                    (Some e1, Some e2) \<Rightarrow> Some (E_BIN k e1 e2)
                  | _ \<Rightarrow> None)
      in map_option (alloc_not_if ne)
           (if s = symbol_yes then two j
            else if s = symbol_no then two (dual_junct j)
            else Some (E_BIN j l r)))"
| "trans_compare (E_NOT e) ne s = trans_compare e (\<not> ne) s"
| "trans_compare (E_COMP c a b) ne s =
     (if s = symbol_yes then Some (alloc_not_if ne (E_COMP c a b))
      else if s = symbol_mod then Some (E_SYMBOL (if ne then symbol_yes else symbol_no))
      else if s = symbol_no then Some (alloc_not_if (\<not> ne) (E_COMP c a b))
      else None)"
| "trans_compare (E_SYMBOL t) ne s = Some (E_COMP (if ne then E_UNEQUAL else E_EQUAL) t s)"

definition expr_trans_compare :: "expr option \<Rightarrow> bool \<Rightarrow> symref \<Rightarrow> expr option" where
  "expr_trans_compare e ne s =
     (case e of
        None \<Rightarrow> Some (alloc_not_if ne (E_SYMBOL s))
      | Some x \<Rightarrow> trans_compare x ne s)"

end
