(* ===== verification/Kconfig_Value.thy ===== *)
theory Kconfig_Value
  imports Kconfig_Transform
begin

text \<open>
  The value of an expression (the comparison half of \<open>expr_calc_value\<close> and
  \<open>expr_parse_string\<close> of scripts/config/expr.c) over symbols that are already
  calculated, and the interface the simplifier relies on: a locale of
  valuations, in which the correctness of the rewriting routines is proved once.
\<close>

section \<open>Comparing two symbols\<close>

datatype string_value_kind = k_string | k_signed | k_unsigned

text \<open>The kind and the 64 bits of the \<open>union string_value\<close>.\<close>

definition parse_ok :: "string \<Rightarrow> nat \<Rightarrow> bool \<Rightarrow> bool" where
  "parse_ok str n erange \<longleftrightarrow> \<not> erange \<and> n = length str \<and> 0 < n \<and> isxdigit (str ! (n - 1))"

definition expr_parse_string :: "string \<Rightarrow> symbol_type \<Rightarrow> string_value_kind \<times> u64" where
  "expr_parse_string str ty =
     (case ty of
        S_BOOLEAN \<Rightarrow> (k_signed, if str = ''n'' then 0 else if str = ''m'' then 1 else if str = ''y'' then 2 else - 1)
      | S_TRISTATE \<Rightarrow> (k_signed, if str = ''n'' then 0 else if str = ''m'' then 1 else if str = ''y'' then 2 else - 1)
      | S_INT \<Rightarrow>
          (let (v, n, er) = strtoll str 10 in (if parse_ok str n er then k_signed else k_string, word_of_int v))
      | S_HEX \<Rightarrow>
          (let (u, n, er) = strtoull str 16 in (if parse_ok str n er then k_unsigned else k_string, u))
      | _ \<Rightarrow>
          (let (v, n, er) = strtoll str 0 in (if parse_ok str n er then k_signed else k_string, word_of_int v)))"

definition compare_strings :: "string \<Rightarrow> symbol_type \<Rightarrow> string \<Rightarrow> symbol_type \<Rightarrow> int" where
  "compare_strings str1 ty1 str2 ty2 =
     (let ((k1, lval), (k2, rval)) =
        (if ty1 \<noteq> S_STRING \<or> ty2 \<noteq> S_STRING
         then (expr_parse_string str1 ty1, expr_parse_string str2 ty2)
         else ((k_string, 0), (k_string, 0)))
      in if k1 = k_string \<or> k2 = k_string then strcmp str1 str2
         else if k1 = k_unsigned \<or> k2 = k_unsigned then of_bool (lval > rval) - of_bool (lval < rval)
         else of_bool (sint lval > sint rval) - of_bool (sint lval < sint rval))"

definition rel_value :: "relop \<Rightarrow> int \<Rightarrow> tristate" where
  "rel_value c res =
     (case c of
        E_EQUAL \<Rightarrow> if res \<noteq> 0 then No else Yes
      | E_GEQ \<Rightarrow> if res \<ge> 0 then Yes else No
      | E_GTH \<Rightarrow> if res > 0 then Yes else No
      | E_LEQ \<Rightarrow> if res \<le> 0 then Yes else No
      | E_LTH \<Rightarrow> if res < 0 then Yes else No
      | E_UNEQUAL \<Rightarrow> if res \<noteq> 0 then Yes else No)"

definition compare_syms :: "kconf \<Rightarrow> symref \<Rightarrow> symref \<Rightarrow> int" where
  "compare_syms k a b =
     compare_strings (sym_string k a) (sym_type (syms k a)) (sym_string k b) (sym_type (syms k b))"

definition junct_op :: "junct \<Rightarrow> tristate \<Rightarrow> tristate \<Rightarrow> tristate" where
  "junct_op j = (case j of J_OR \<Rightarrow> EXPR_OR | J_AND \<Rightarrow> EXPR_AND)"

text \<open>\<open>expr_calc_value\<close> where every symbol of the expression is calculated.\<close>

fun expr_value :: "kconf \<Rightarrow> expr \<Rightarrow> tristate" where
  "expr_value k (E_SYMBOL s) = curr_tri (syms k s)"
| "expr_value k (E_BIN j l r) = junct_op j (expr_value k l) (expr_value k r)"
| "expr_value k (E_NOT e) = EXPR_NOT (expr_value k e)"
| "expr_value k (E_COMP c a b) = rel_value c (compare_syms k a b)"

definition expr_value_ptr :: "kconf \<Rightarrow> expr option \<Rightarrow> tristate" where
  "expr_value_ptr k e = (case e of None \<Rightarrow> Yes | Some x \<Rightarrow> expr_value k x)"

section \<open>The connectives\<close>

lemma junct_op_simps [simp, tri_simps]:
  "junct_op J_OR = EXPR_OR" "junct_op J_AND = EXPR_AND"
  by (simp_all add: junct_op_def)

lemma junct_op_assoc: "junct_op j (junct_op j a b) c = junct_op j a (junct_op j b c)"
  by (cases j) (auto simp: EXPR_OR_max EXPR_AND_min max.assoc min.assoc)

lemma junct_op_commute: "junct_op j a b = junct_op j b a"
  by (cases j) (auto simp: EXPR_OR_max EXPR_AND_min max.commute min.commute)

lemma junct_op_left_commute: "junct_op j a (junct_op j b c) = junct_op j b (junct_op j a c)"
  by (cases j) (auto simp: EXPR_OR_max EXPR_AND_min max.left_commute min.left_commute)

lemma junct_op_idem [simp]: "junct_op j a a = a"
  by (cases j) auto

lemma junct_op_left_idem [simp]: "junct_op j a (junct_op j a b) = junct_op j a b"
  by (metis junct_op_assoc junct_op_idem)

lemmas junct_op_ac = junct_op_assoc junct_op_commute junct_op_left_commute

lemma EXPR_NOT_junct [tri_simps]:
  "EXPR_NOT (junct_op j a b) = junct_op (dual_junct j) (EXPR_NOT a) (EXPR_NOT b)"
  by (cases j) (auto simp: dual_junct_def tri_de_morgan)

text \<open>The value of the unit operand of a connective.\<close>

definition unit_tri :: "junct \<Rightarrow> tristate" where
  "unit_tri j = (case j of J_OR \<Rightarrow> No | J_AND \<Rightarrow> Yes)"

lemma unit_tri_neutral [simp]: "junct_op j (unit_tri j) a = a" "junct_op j a (unit_tri j) = a"
  by (cases j; simp add: unit_tri_def)+

lemma rel_value_cases: "rel_value c r = Yes \<or> rel_value c r = No"
  by (cases c) (auto simp: rel_value_def)

lemma rel_value_not_Mod [simp]: "rel_value c r \<noteq> Mod"
  using rel_value_cases [of c r] by auto

lemma rel_value_negate: "rel_value (negate_rel c) r = EXPR_NOT (rel_value c r)"
  by (cases c) (auto simp: rel_value_def negate_rel_def)

section \<open>Valuations\<close>

text \<open>
  What the routines that only look at the connectives need: a family of values,
  indexed by configurations, that is compositional and gives the constants
  their values.
\<close>

locale junct_valuation =
  fixes ok :: "'k \<Rightarrow> bool" and V :: "'k \<Rightarrow> expr \<Rightarrow> tristate"
  assumes V_bin: "ok k \<Longrightarrow> V k (E_BIN j a b) = junct_op j (V k a) (V k b)"
    and V_not: "ok k \<Longrightarrow> V k (E_NOT a) = EXPR_NOT (V k a)"
    and V_yes: "ok k \<Longrightarrow> V k (E_SYMBOL symbol_yes) = Yes"
    and V_no: "ok k \<Longrightarrow> V k (E_SYMBOL symbol_no) = No"
begin

lemma V_unit: "ok k \<Longrightarrow> V k (E_SYMBOL (junct_unit j)) = unit_tri j"
  by (cases j) (simp_all add: junct_unit_def unit_tri_def V_yes V_no)

lemma V_yn_node: "ok k \<Longrightarrow> V k (eliminate_yn_node j l r) = junct_op j (V k l) (V k r)"
  by (cases j) (auto simp: eliminate_yn_node_def V_bin V_yes V_no)

lemma V_yn: "ok k \<Longrightarrow> V k (expr_eliminate_yn e) = V k e"
  by (induction e) (auto simp: V_yn_node V_bin)

text \<open>
  The common operands the elimination removes: \<open>cancels\<close> says that both trees
  lost the same factor.
\<close>

definition cancels :: "'k \<Rightarrow> junct \<Rightarrow> expr \<Rightarrow> expr \<Rightarrow> expr \<times> expr \<Rightarrow> bool" where
  "cancels k j e1 e2 p \<longleftrightarrow>
     (\<exists>c. V k e1 = junct_op j c (V k (fst p)) \<and> V k e2 = junct_op j c (V k (snd p)))"

lemma cancels_refl: "cancels k j e1 e2 (e1, e2)"
  by (auto simp: cancels_def intro: exI [of _ "unit_tri j"])

lemma cancels_leaves:
  assumes "ok k" and "eq e1 e2 \<Longrightarrow> V k e1 = V k e2"
  shows "cancels k j e1 e2 (eliminate_eq_leaves eq j e1 e2)"
  using assms cancels_refl
  by (auto simp: eliminate_eq_leaves_def cancels_def V_unit intro: exI [of _ "V k e2"])

lemma cancels_snd:
  assumes "ok k" and sound: "\<And>a b. eq a b \<Longrightarrow> V k a = V k b"
  shows "cancels k j e1 e2 (eliminate_eq_snd eq j e1 e2)"
proof (induction e2 arbitrary: e1)
  case (E_BIN i l r)
  show ?case
  proof (cases "i = j")
    case True
    obtain e1a l' where p: "eliminate_eq_snd eq j e1 l = (e1a, l')" by fastforce
    obtain e1b r' where q: "eliminate_eq_snd eq j e1a r = (e1b, r')" by fastforce
    from E_BIN.IH(1) [of e1] p obtain c where
      c: "V k e1 = junct_op j c (V k e1a)" "V k l = junct_op j c (V k l')" by (auto simp: cancels_def)
    from E_BIN.IH(2) [of e1a] q obtain d where
      d: "V k e1a = junct_op j d (V k e1b)" "V k r = junct_op j d (V k r')" by (auto simp: cancels_def)
    from c d assms(1) True p q show ?thesis
      by (auto simp: cancels_def V_bin junct_op_ac intro!: exI [of _ "junct_op j c d"])
  qed (use assms in \<open>auto intro: cancels_leaves\<close>)
qed (use assms in \<open>auto intro: cancels_leaves\<close>)

lemma cancels_fst:
  assumes "ok k" and sound: "\<And>a b. eq a b \<Longrightarrow> V k a = V k b"
  shows "cancels k j e1 e2 (eliminate_eq_fst eq j e1 e2)"
proof (induction e1 arbitrary: e2)
  case (E_BIN i l r)
  show ?case
  proof (cases "i = j")
    case True
    obtain l' e2a where p: "eliminate_eq_fst eq j l e2 = (l', e2a)" by fastforce
    obtain r' e2b where q: "eliminate_eq_fst eq j r e2a = (r', e2b)" by fastforce
    from E_BIN.IH(1) [of e2] p obtain c where
      c: "V k l = junct_op j c (V k l')" "V k e2 = junct_op j c (V k e2a)" by (auto simp: cancels_def)
    from E_BIN.IH(2) [of e2a] q obtain d where
      d: "V k r = junct_op j d (V k r')" "V k e2a = junct_op j d (V k e2b)" by (auto simp: cancels_def)
    from c d assms(1) True p q show ?thesis
      by (auto simp: cancels_def V_bin junct_op_ac intro!: exI [of _ "junct_op j c d"])
  qed (use assms in \<open>auto intro: cancels_snd\<close>)
qed (use assms in \<open>auto intro: cancels_snd\<close>)

text \<open>Cancelling a common operand is monotone: an order between what is left holds of the whole.\<close>

lemma junct_op_mono: "a \<le> b \<Longrightarrow> junct_op j c a \<le> junct_op j c b"
  by (cases j) (auto simp: EXPR_OR_max EXPR_AND_min le_max_iff_disj min_le_iff_disj)

lemma root_le:
  assumes "ok k" and "\<And>a b. eq a b \<Longrightarrow> V k a = V k b"
    and "V k (fst (eliminate_eq_root eq e (e1, e2))) \<le> V k (snd (eliminate_eq_root eq e (e1, e2)))"
  shows "V k e1 \<le> V k e2"
proof (cases e)
  case (E_BIN j l r)
  have "cancels k j e1 e2 (eliminate_eq_fst eq j e1 e2)" using assms(1,2) by (rule cancels_fst)
  then obtain c where
    "V k e1 = junct_op j c (V k (fst (eliminate_eq_fst eq j e1 e2)))"
    "V k e2 = junct_op j c (V k (snd (eliminate_eq_fst eq j e1 e2)))" by (auto simp: cancels_def)
  with E_BIN assms(3) show ?thesis by (auto simp: eliminate_eq_root_def intro: junct_op_mono)
qed (use assms(3) in \<open>auto simp: eliminate_eq_root_def\<close>)

lemma eliminate_eq_le_if_sound:
  assumes "ok k" and sound: "\<And>a b. eq a b \<Longrightarrow> V k a = V k b"
    and "V k (fst (eliminate_eq eq e1 e2)) \<le> V k (snd (eliminate_eq eq e1 e2))"
  shows "V k e1 \<le> V k e2"
proof -
  define p where "p = eliminate_eq_root eq e1 (e1, e2)"
  define q where "q = (if expr_tag (fst p) \<noteq> expr_tag (snd p) then eliminate_eq_root eq (snd p) p else p)"
  have "V k (fst q) \<le> V k (snd q)"
    using assms(1,3) unfolding eliminate_eq_def Let_def p_def [symmetric] q_def [symmetric]
    by (simp add: V_yn)
  then have "V k (fst p) \<le> V k (snd p)"
    using root_le [of k eq "snd p" "fst p" "snd p"] assms(1,2) by (auto simp: q_def split: if_splits)
  then show ?thesis
    unfolding p_def using root_le [of k eq e1 e1 e2] assms(1,2) by blast
qed

text \<open>
  \<open>expr_eq\<close> is sound: the comparator of the elimination may be strengthened by
  the values it is to respect, since it only ever sees smaller pairs.
\<close>

lemma root_E_BIN:
  "\<exists>l r. fst (eliminate_eq_fst eq j (E_BIN j a b) e2) = E_BIN j l r"
  "\<exists>l r. snd (eliminate_eq_snd eq j e1 (E_BIN j a b)) = E_BIN j l r"
  by (auto simp: Let_def case_prod_beta)

lemma root_E_BIN_snd: "\<exists>l r. snd (eliminate_eq_fst eq j e1 (E_BIN j a b)) = E_BIN j l r"
proof (induction e1 arbitrary: a b)
  case (E_BIN i l r)
  show ?case
  proof (cases "i = j")
    case True
    obtain c d where "snd (eliminate_eq_fst eq j l (E_BIN j a b)) = E_BIN j c d"
      using E_BIN.IH(1) by blast
    with True E_BIN.IH(2) [of c d] show ?thesis by (auto simp: Let_def case_prod_beta)
  qed (use root_E_BIN(2) in auto)
qed (use root_E_BIN(2) in auto)

lemma eliminate_eq_same_root:
  assumes "ok k" and sound: "\<And>a b. eq a b \<Longrightarrow> V k a = V k b"
    and "eliminate_eq eq (E_BIN j a b) (E_BIN j c d) = (x, y)"
  shows "\<exists>v. V k (E_BIN j a b) = junct_op j v (V k x) \<and> V k (E_BIN j c d) = junct_op j v (V k y)"
proof -
  define p where "p = eliminate_eq_fst eq j (E_BIN j a b) (E_BIN j c d)"
  have "expr_tag (fst p) = expr_tag (snd p)"
    using root_E_BIN(1) [of eq j a b "E_BIN j c d"] root_E_BIN_snd [of eq j "E_BIN j a b" c d]
    unfolding p_def by (metis expr_tag.simps(3))
  then have "x = expr_eliminate_yn (fst p)" "y = expr_eliminate_yn (snd p)"
    using assms(3) by (auto simp: eliminate_eq_def eliminate_eq_root_def Let_def p_def
        simp del: eliminate_eq_fst.simps)
  with cancels_fst [of k eq j "E_BIN j a b" "E_BIN j c d"] assms(1,2) show ?thesis
    using V_yn [OF assms(1)] unfolding cancels_def p_def by simp
qed

lemma eq_sound: "ok k \<Longrightarrow> expr_eq e1 e2 \<Longrightarrow> V k e1 = V k e2"
proof (induction "size e1 + size e2" arbitrary: e1 e2 rule: less_induct)
  case less
  show ?case
  proof (cases e1)
    case 1: (E_BIN j a b)
    with less.prems obtain c d where 2: "e2 = E_BIN j c d"
      by (cases e2) (auto split: if_splits)
    define eq where "eq = (\<lambda>a b. expr_eq a b \<and> V k a = V k b)"
    have "eliminate_eq expr_eq e1 e2 = eliminate_eq eq e1 e2"
      using less.hyps less.prems(1) by (intro eliminate_eq_cong) (auto simp: eq_def)
    then obtain s where "eliminate_eq eq (E_BIN j a b) (E_BIN j c d) = (E_SYMBOL s, E_SYMBOL s)"
      using less.prems(2) 1 2 by (auto split: prod.splits expr.splits)
    from eliminate_eq_same_root [of k eq, OF less.prems(1) _ this] 1 2 show ?thesis
      by (auto simp: eq_def)
  next
    case 1: (E_NOT a)
    with less.prems obtain b where 2: "e2 = E_NOT b" "expr_eq a b" by (cases e2) auto
    with less.hyps [of a b] less.prems 1 show ?thesis by (simp add: V_not)
  qed (use less.prems in \<open>cases e2; auto\<close>)+
qed

lemma eliminate_eq_le:
  assumes "ok k" and "V k (fst (eliminate_eq expr_eq e1 e2)) \<le> V k (snd (eliminate_eq expr_eq e1 e2))"
  shows "V k e1 \<le> V k e2"
  using assms(1) eq_sound [OF assms(1)] assms(2) by (rule eliminate_eq_le_if_sound)

end

end
