(* ===== verification/Kconfig_Sound.thy ===== *)
theory Kconfig_Sound
  imports Kconfig_Value
begin

text \<open>
  Correctness of the simplifier. The locale \<open>simplifier_valuation\<close> states what
  the joining and comparison rules promise; in it \<open>expr_eliminate_dups\<close> and
  \<open>expr_transform\<close> are shown to keep the value of every expression. The
  interpretation on \<open>expr_value\<close> discharges the rules for every calculated
  configuration.
\<close>

section \<open>The simplifier over an abstract valuation\<close>

definition bool_or_tristate :: "symtab \<Rightarrow> symref \<Rightarrow> bool" where
  "bool_or_tristate st a \<longleftrightarrow> sym_type (st a) = S_BOOLEAN \<or> sym_type (st a) = S_TRISTATE"

locale simplifier_valuation = junct_valuation ok V
  for ok :: "'k \<Rightarrow> bool" and V :: "'k \<Rightarrow> expr \<Rightarrow> tristate" +
  fixes tab :: "'k \<Rightarrow> symtab"
  assumes V_mod: "ok k \<Longrightarrow> V k (E_SYMBOL symbol_mod) = Mod"
    and V_negate: "ok k \<Longrightarrow> V k (E_COMP (negate_rel c) a b) = EXPR_NOT (V k (E_COMP c a b))"
    and V_transform_comp: "ok k \<Longrightarrow> V k (transform_comp (tab k) c a b) = V k (E_COMP c a b)"
    and V_or_rules: "\<lbrakk>ok k; bool_or_tristate (tab k) a; join_sym1 e1 = Some a; join_sym2 e2 = Some a;
      join_or_rules (tab k) a e1 e2 = Some t\<rbrakk> \<Longrightarrow> V k t = EXPR_OR (V k e1) (V k e2)"
    and V_and_rules: "\<lbrakk>ok k; bool_or_tristate (tab k) a; join_sym1 e1 = Some a; join_sym2 e2 = Some a;
      join_and_rules (tab k) a e1 e2 = Some t\<rbrakk> \<Longrightarrow> V k t = EXPR_AND (V k e1) (V k e2)"
begin

lemma V_join_or:
  assumes "ok k" and "expr_join_or (tab k) e1 e2 = Some t"
  shows "V k t = EXPR_OR (V k e1) (V k e2)"
proof (cases "expr_eq e1 e2")
  case True
  with assms eq_sound [OF assms(1)] show ?thesis by (auto simp: expr_join_or_def)
next
  case False
  with assms(2) obtain a where "bool_or_tristate (tab k) a" "join_sym1 e1 = Some a"
      "join_sym2 e2 = Some a" "join_or_rules (tab k) a e1 e2 = Some t"
    by (auto simp: expr_join_or_def bool_or_tristate_def split: option.splits if_splits)
  with assms(1) show ?thesis by (rule V_or_rules)
qed

lemma V_join_and:
  assumes "ok k" and "expr_join_and (tab k) e1 e2 = Some t"
  shows "V k t = EXPR_AND (V k e1) (V k e2)"
proof (cases "expr_eq e1 e2")
  case True
  with assms eq_sound [OF assms(1)] show ?thesis by (auto simp: expr_join_and_def)
next
  case False
  with assms(2) obtain a where "bool_or_tristate (tab k) a" "join_sym1 e1 = Some a"
      "join_sym2 e2 = Some a" "join_and_rules (tab k) a e1 e2 = Some t"
    by (auto simp: expr_join_and_def bool_or_tristate_def split: option.splits if_splits)
  with assms(1) show ?thesis by (rule V_and_rules)
qed

lemma V_join: "ok k \<Longrightarrow> expr_join (tab k) j e1 e2 = Some t \<Longrightarrow> V k t = junct_op j (V k e1) (V k e2)"
  by (cases j) (auto simp: expr_join_def V_join_or V_join_and)

text \<open>Writing a leaf of a level multiplies the value of the level.\<close>

lemma V_put_factor:
  assumes "ok k" and "V k t = junct_op j v (V k (expr_at e p))" and "p \<in> set (jleaves j e)"
  shows "V k (expr_put e p t) = junct_op j v (V k e)"
  using assms(3,2)
proof (induction j e arbitrary: p rule: jleaves.induct)
  case (1 j i l r)
  then show ?case
    by (cases "i = j") (auto simp: V_bin [OF assms(1)] junct_op_ac split: if_splits)
qed auto

lemma V_put_same:
  assumes "ok k" and "V k t = V k (expr_at e p)" and "p \<in> set (jleaves j e)"
  shows "V k (expr_put e p t) = V k e"
  using V_put_factor [OF assms(1) _ assms(3), of t "unit_tri j"] assms(2) by simp

lemma V_put_unit:
  assumes "ok k" and "p \<in> set (jleaves j e)"
  shows "junct_op j (V k (expr_at e p)) (V k (expr_put e p (E_SYMBOL (junct_unit j)))) = V k e"
proof -
  let ?e = "expr_put e p (E_SYMBOL (junct_unit j))"
  have p: "p \<in> set (jleaves j ?e)" using jleaves_put [OF assms(2)] assms(2) by simp
  have "V k (expr_put ?e p (expr_at e p)) = junct_op j (V k (expr_at e p)) (V k ?e)"
    using p expr_at_put_same [OF assms(2)]
    by (intro V_put_factor [OF assms(1)]) (simp_all add: V_unit [OF assms(1)])
  then show ?thesis by (simp add: expr_put_put [OF assms(2)] expr_put_at [OF assms(2)])
qed

lemma V_join_put:
  assumes "ok k" and "p1 \<in> set (jleaves j e)" and "p2 \<in> set (jleaves j e)" and "p1 \<noteq> p2"
    and "expr_join (tab k) j (expr_at e p1) (expr_at e p2) = Some t"
  shows "V k (expr_put (expr_put e p1 (E_SYMBOL (junct_unit j))) p2 t) = V k e"
proof -
  let ?e1 = "expr_put e p1 (E_SYMBOL (junct_unit j))"
  have "V k t = junct_op j (V k (expr_at e p1)) (V k (expr_at ?e1 p2))"
    using V_join [OF assms(1,5)] expr_at_put_other [OF assms(2-4)] by simp
  moreover have "p2 \<in> set (jleaves j ?e1)"
    using jleaves_put [OF assms(2)] assms(3) by simp
  ultimately have "V k (expr_put ?e1 p2 t) = junct_op j (V k (expr_at e p1)) (V k ?e1)"
    by (rule V_put_factor [OF assms(1)])
  then show ?thesis using V_put_unit [OF assms(1,2)] by simp
qed

definition self_val :: "'k \<Rightarrow> (junct \<Rightarrow> expr \<Rightarrow> dups_state option) \<Rightarrow> nat \<Rightarrow> bool" where
  "self_val k self m \<longleftrightarrow>
     (\<forall>i x y n. is_junct i x \<longrightarrow> size x \<le> m \<longrightarrow> self i x = Some (y, n) \<longrightarrow> V k y = V k x)"

lemma V_leaf:
  assumes "ok k" and "self_ok self m" and "self_val k self m" and "dups1_inv j m e0 s"
    and "p1 \<in> set (jleaves j e0)" and "p2 \<in> set (jleaves j e0)"
    and "dups1_leaf self (tab k) j p1 p2 s = Some t"
  shows "V k (fst t) = V k (fst s)"
proof (cases "p1 = p2")
  case True
  with assms(7) show ?thesis by (simp add: dups1_leaf_def)
next
  case False
  let ?pre = "case expr_at (fst s) p1 of
      E_BIN k l r \<Rightarrow> map_option (\<lambda>(x, n). (expr_put (fst s) p1 x, snd s + n)) (self k (E_BIN k l r))
    | _ \<Rightarrow> Some s"
  have "\<exists>e' c'. ?pre = Some (e', c') \<and> dups1_inv j m e0 (e', c') \<and> V k e' = V k (fst s)"
  proof (cases "expr_at (fst s) p1")
    case (E_BIN i l r)
    from dups1_self_inv [OF assms(2) _ assms(5) E_BIN, of "snd s"] assms(4)
    obtain x n where x: "self i (E_BIN i l r) = Some (x, n)"
        "dups1_inv j m e0 (expr_put (fst s) p1 x, snd s + n)" by auto
    have "size (E_BIN i l r) \<le> m" using assms(4,5) E_BIN by (auto simp: dups1_inv_def)
    then have "V k x = V k (expr_at (fst s) p1)"
      using x(1) assms(3) E_BIN unfolding self_val_def by (metis is_junct_simps(1))
    then have "V k (expr_put (fst s) p1 x) = V k (fst s)"
      using assms(4,5) by (intro V_put_same [OF assms(1)]) (auto simp: dups1_inv_def)
    with x E_BIN show ?thesis by simp
  qed (use assms(4) in \<open>cases s; auto\<close>)+
  then obtain e' c' where pre: "?pre = Some (e', c')" "dups1_inv j m e0 (e', c')" "V k e' = V k (fst s)"
    by blast
  from pre(2) assms(5,6) have "p1 \<in> set (jleaves j e')" "p2 \<in> set (jleaves j e')"
    by (auto simp: dups1_inv_def)
  note put = V_join_put [OF assms(1) this False]
  show ?thesis
    using assms(7) False pre put
    by (auto simp: dups1_leaf_def split: option.splits)
qed

lemma V_dups1_pass:
  assumes "ok k" and "self_ok self m" and "self_val k self m" and "is_junct j e" and "size e \<le> Suc m"
    and "dups1_fst self (tab k) j [] e e (e, 0) = Some t"
  shows "V k (fst t) = V k e"
proof -
  define I where "I s \<longleftrightarrow> dups1_inv j m e s \<and> V k (fst s) = V k e" for s
  have leaf: "I u" if "p \<in> set (jleaves j e)" "q \<in> set (jleaves j e)" "I s"
      "dups1_leaf self (tab k) j p q s = Some u" for p q s u
    using that dups1_leaf_inv [OF assms(2) _ assms(4) that(1,2), of s "tab k"]
      V_leaf [OF assms(1-3) _ that(1,2), of s u]
    by (auto simp: I_def)
  have inner: "I u" if "p \<in> set (jleaves j e)" "I s"
      "ofold (\<lambda>q. dups1_leaf self (tab k) j p q) (jleaves j e) s = Some u" for p s u
    using ofold_invariant [of "jleaves j e" I "dups1_leaf self (tab k) j p" s u]
      leaf [OF that(1)] that(2,3) by blast
  have "ofold (\<lambda>p. ofold (dups1_leaf self (tab k) j p) (jleaves j e)) (jleaves j e) (e, 0) = Some t"
    using assms(6) by (simp add: dups1_fst_fold)
  moreover have "I (e, 0)" using dups1_inv_init [OF assms(4,5)] by (simp add: I_def)
  ultimately have "I t"
    using inner ofold_invariant [of "jleaves j e" I
        "\<lambda>p. ofold (dups1_leaf self (tab k) j p) (jleaves j e)" "(e, 0)" t] by blast
  then show ?thesis by (simp add: I_def)
qed

lemma V_dups1_self: "ok k \<Longrightarrow> self_val k (expr_eliminate_dups1 n (tab k)) (n - 1)"
proof (induction n)
  case 0
  show ?case by (simp add: self_val_def expr_eliminate_dups1.simps)
next
  case (Suc n)
  show ?case unfolding self_val_def
  proof (intro allI impI)
    fix i x y c
    assume x: "is_junct i x" "size x \<le> Suc n - 1"
      and y: "expr_eliminate_dups1 (Suc n) (tab k) i x = Some (y, c)"
    then have "V k (fst (y, c)) = V k x"
      by (intro V_dups1_pass [OF Suc.prems dups1_self_ok Suc.IH [OF Suc.prems] x(1)])
        (auto simp: expr_eliminate_dups1.simps)
    then show "V k y = V k x" by simp
  qed
qed

lemma V_dups: "ok k \<Longrightarrow> \<exists>e'. eliminate_dups (tab k) e = Some e' \<and> V k e' = V k e"
proof (induction "tab k" e rule: eliminate_dups.induct)
  case (1 e)
  show ?case
  proof (cases "\<exists>j. is_junct j e")
    case False
    then show ?thesis by (subst eliminate_dups.simps) (auto simp: is_junct_def split: expr.splits)
  next
    case True
    then obtain j l r where e: "e = E_BIN j l r" by (auto simp: is_junct_def)
    have "is_junct j e" using e by simp
    then obtain e' c where d: "expr_eliminate_dups1 (Suc (size e)) (tab k) j e = Some (e', c)"
      using lessI by (rule dups1_total)
    have v: "V k e' = V k e"
      using V_dups1_self [OF "1.prems", of "Suc (size e)"] d e by (auto simp: self_val_def)
    show ?thesis
    proof (cases "c = 0")
      case True
      with d v e show ?thesis by (subst eliminate_dups.simps) auto
    next
      case False
      from "1.hyps" [OF e d refl False "1.prems"] v V_yn [OF "1.prems"] d e False
      show ?thesis by (subst eliminate_dups.simps) auto
    qed
  qed
qed

lemma V_transform: "ok k \<Longrightarrow> V k (transform (tab k) e) = V k e"
proof (induction "tab k" e rule: transform.induct)
  case (4 e)
  note ok = "4.prems"
  have e: "V k (transform (tab k) e) = V k e" using "4.hyps"(1) ok by simp
  show ?case
  proof (cases "transform (tab k) e")
    case (E_NOT x)
    with e ok have "V k e = EXPR_NOT (V k x)" by (simp add: V_not)
    with E_NOT "4.hyps"(2) ok show ?thesis by (simp add: V_not)
  next
    case (E_BIN j l r)
    with e ok have "V k e = junct_op j (V k l) (V k r)" by (simp add: V_bin)
    with E_BIN "4.hyps"(3) [OF E_BIN ok] ok show ?thesis
      by (simp add: V_not V_bin EXPR_NOT_junct)
  qed (use e [symmetric] ok in \<open>auto simp: V_not V_negate V_yes V_no V_mod\<close>)
qed (auto simp: V_transform_comp V_bin)

end

section \<open>Calculated configurations\<close>

text \<open>
  What \<open>sym_calc_value\<close> establishes of the symbols an expression may mention: the
  three constants are as symbol.c initialises them, a bool symbol is never \<open>m\<close>,
  and a tristate symbol is \<open>m\<close> only while modules are enabled.
\<close>

definition const_ok :: "kconf \<Rightarrow> symref \<Rightarrow> string \<Rightarrow> tristate \<Rightarrow> bool" where
  "const_ok k s nm t \<longleftrightarrow>
     sym_type (syms k s) = S_UNKNOWN \<and> curr_val (syms k s) = VStr nm \<and> curr_tri (syms k s) = t \<and>
     {SYMBOL_CONST, SYMBOL_VALID} \<subseteq> flags (syms k s)"

definition conf_calculated :: "kconf \<Rightarrow> bool" where
  "conf_calculated k \<longleftrightarrow>
     const_ok k symbol_yes ''y'' Yes \<and> const_ok k symbol_mod ''m'' Mod \<and> const_ok k symbol_no ''n'' No \<and>
     (\<forall>s. sym_type (syms k s) = S_BOOLEAN \<longrightarrow> curr_tri (syms k s) \<noteq> Mod) \<and>
     (\<forall>s. sym_type (syms k s) = S_TRISTATE \<longrightarrow> curr_tri (syms k s) = Mod \<longrightarrow>
        curr_tri (syms k (modules_sym k)) \<noteq> No)"

text \<open>
  A tristate symbol equals at most one constant. Constants are compared by
  spelling unless they look like numbers, and a tristate symbol then counts as
  0, 1 or 2; this excludes configurations that compare such a symbol with the
  quoted numbers 0, 1 or 2.
\<close>

definition consts_apart :: "kconf \<Rightarrow> bool" where
  "consts_apart k \<longleftrightarrow>
     (\<forall>a b c. sym_type (syms k a) = S_TRISTATE \<longrightarrow> SYMBOL_CONST \<in> flags (syms k b) \<longrightarrow>
        SYMBOL_CONST \<in> flags (syms k c) \<longrightarrow> b \<noteq> c \<longrightarrow> compare_syms k a b = 0 \<longrightarrow>
        compare_syms k a c \<noteq> 0)"

definition conf_ok :: "kconf \<Rightarrow> bool" where
  "conf_ok k \<longleftrightarrow> conf_calculated k \<and> consts_apart k"

lemma parse_tristate_literal:
  "fst (expr_parse_string ''y'' S_UNKNOWN) = k_string"
  "fst (expr_parse_string ''m'' S_UNKNOWN) = k_string"
  "fst (expr_parse_string ''n'' S_UNKNOWN) = k_string"
  by code_simp+

lemma compare_literal:
  assumes "nm \<in> {''y'', ''m'', ''n''}"
  shows "compare_strings str ty nm S_UNKNOWN = strcmp str nm"
proof -
  have "fst (expr_parse_string nm S_UNKNOWN) = k_string"
    using assms parse_tristate_literal by auto
  then show ?thesis
    by (auto simp: compare_strings_def Let_def case_prod_beta)
qed

definition tri_name :: "tristate \<Rightarrow> string" where
  "tri_name t = (case t of No \<Rightarrow> ''n'' | Mod \<Rightarrow> ''m'' | Yes \<Rightarrow> ''y'')"

definition tri_sym :: "tristate \<Rightarrow> symref" where
  "tri_sym t = (case t of No \<Rightarrow> symbol_no | Mod \<Rightarrow> symbol_mod | Yes \<Rightarrow> symbol_yes)"

lemma tri_name_inj [simp]: "tri_name a = tri_name b \<longleftrightarrow> a = b"
  by (cases a; cases b) (auto simp: tri_name_def)

lemma const_tri_sym: "conf_calculated k \<Longrightarrow> const_ok k (tri_sym t) (tri_name t) t"
  by (cases t) (auto simp: conf_calculated_def tri_sym_def tri_name_def)

lemma sym_string_const: "conf_calculated k \<Longrightarrow> sym_string k (tri_sym t) = tri_name t"
  using const_tri_sym [of k t] by (auto simp: const_ok_def sym_string_def sval_str_def)

lemma sym_string_bool:
  "conf_calculated k \<Longrightarrow> bool_or_tristate (syms k) a \<Longrightarrow> sym_string k a = tri_name (curr_tri (syms k a))"
  by (auto simp: conf_calculated_def bool_or_tristate_def sym_string_def tri_name_def Let_def
      split: tristate.splits)

lemma compare_tri:
  assumes "conf_calculated k" and "bool_or_tristate (syms k) a"
  shows "compare_syms k a (tri_sym t) = 0 \<longleftrightarrow> curr_tri (syms k a) = t"
  using const_tri_sym [OF assms(1), of t] compare_literal [of "tri_name t"]
  by (auto simp: compare_syms_def const_ok_def sym_string_const [OF assms(1)]
      sym_string_bool [OF assms] tri_name_def split: tristate.splits)

lemma compare_const:
  assumes "conf_calculated k" and "bool_or_tristate (syms k) a"
  shows "compare_syms k a symbol_yes = 0 \<longleftrightarrow> curr_tri (syms k a) = Yes"
    and "compare_syms k a symbol_mod = 0 \<longleftrightarrow> curr_tri (syms k a) = Mod"
    and "compare_syms k a symbol_no = 0 \<longleftrightarrow> curr_tri (syms k a) = No"
  using compare_tri [OF assms, of Yes] compare_tri [OF assms, of Mod] compare_tri [OF assms, of No]
  by (simp_all add: tri_sym_def)

lemma tri_const:
  "conf_calculated k \<Longrightarrow> curr_tri (syms k symbol_yes) = Yes"
  "conf_calculated k \<Longrightarrow> curr_tri (syms k symbol_mod) = Mod"
  "conf_calculated k \<Longrightarrow> curr_tri (syms k symbol_no) = No"
  by (simp_all add: conf_calculated_def const_ok_def)

lemma bool_not_Mod: "conf_calculated k \<Longrightarrow> sym_type (syms k a) = S_BOOLEAN \<Longrightarrow> curr_tri (syms k a) \<noteq> Mod"
  by (simp add: conf_calculated_def)

lemma value_or_rules:
  assumes "conf_calculated k" and a: "bool_or_tristate (syms k) a"
    and t: "join_or_rules (syms k) a e1 e2 = Some t"
  shows "expr_value k t = EXPR_OR (expr_value k e1) (expr_value k e2)"
  using t bool_not_Mod [OF assms(1), of a]
  by (cases "curr_tri (syms k a)")
    (auto simp: join_or_rules_def either_order_def Let_def rel_value_def
      compare_const [OF assms(1,2)] tri_const [OF assms(1)] split: if_splits)

lemma value_and_consts:
  assumes "conf_ok k" and "sym_type (syms k a) = S_TRISTATE" and "join_and_consts (syms k) a b c = Some t"
  shows "expr_value k t = EXPR_AND (expr_value k (E_COMP E_EQUAL a b)) (expr_value k (E_COMP E_UNEQUAL a c))"
proof -
  have no: "curr_tri (syms k symbol_no) = No" using assms(1) by (simp add: conf_ok_def tri_const)
  from assms(3) have c: "SYMBOL_CONST \<in> flags (syms k b)" "SYMBOL_CONST \<in> flags (syms k c)"
    and t: "t = (if b \<noteq> c then E_COMP E_EQUAL a b else E_SYMBOL symbol_no)"
    by (auto simp: join_and_consts_def split: if_splits)
  show ?thesis
  proof (cases "b = c")
    case True
    with t no show ?thesis by (simp add: rel_value_def)
  next
    case False
    with c assms(1,2) have "compare_syms k a b = 0 \<Longrightarrow> compare_syms k a c \<noteq> 0"
      unfolding conf_ok_def consts_apart_def by blast
    with t False show ?thesis by (simp add: rel_value_def)
  qed
qed

lemma join_and_tristate_cases:
  assumes "join_and_tristate st a e1 e2 = Some t" and "join_sym1 e1 = Some a" and "join_sym2 e2 = Some a"
  obtains b c where "e1 = E_COMP E_EQUAL a b" "e2 = E_COMP E_UNEQUAL a c" "join_and_consts st a b c = Some t"
  | b c where "e1 = E_COMP E_UNEQUAL a c" "e2 = E_COMP E_EQUAL a b" "join_and_consts st a b c = Some t"
  | "either_order e1 e2 (E_COMP E_UNEQUAL a symbol_yes) (E_COMP E_UNEQUAL a symbol_no)" "t = E_COMP E_EQUAL a symbol_mod"
  | "either_order e1 e2 (E_COMP E_UNEQUAL a symbol_yes) (E_COMP E_UNEQUAL a symbol_mod)" "t = E_COMP E_EQUAL a symbol_no"
  | "either_order e1 e2 (E_COMP E_UNEQUAL a symbol_mod) (E_COMP E_UNEQUAL a symbol_no)" "t = E_COMP E_EQUAL a symbol_yes"
  using assms
  by (auto simp: join_and_tristate_def Let_def split: expr.splits relop.splits if_splits)

lemma value_and_tristate:
  assumes "conf_ok k" and ty: "sym_type (syms k a) = S_TRISTATE"
    and s: "join_sym1 e1 = Some a" "join_sym2 e2 = Some a"
    and t: "join_and_tristate (syms k) a e1 e2 = Some t"
  shows "expr_value k t = EXPR_AND (expr_value k e1) (expr_value k e2)"
proof -
  have c: "conf_calculated k" using assms(1) by (simp add: conf_ok_def)
  have a: "bool_or_tristate (syms k) a" using ty by (simp add: bool_or_tristate_def)
  note cmp = compare_const [OF c a] either_order_def rel_value_def
  from t s show ?thesis
  proof (cases rule: join_and_tristate_cases)
    case 1
    with value_and_consts [OF assms(1) ty] show ?thesis by simp
  next
    case 2
    with value_and_consts [OF assms(1) ty] show ?thesis
      by (simp add: EXPR_AND_min min.commute)
  qed (cases "curr_tri (syms k a)"; auto simp: cmp)+
qed

lemma value_and_rules:
  assumes "conf_ok k" and a: "bool_or_tristate (syms k) a"
    and s: "join_sym1 e1 = Some a" "join_sym2 e2 = Some a"
    and t: "join_and_rules (syms k) a e1 e2 = Some t"
  shows "expr_value k t = EXPR_AND (expr_value k e1) (expr_value k e2)"
proof -
  have c: "conf_calculated k" using assms(1) by (simp add: conf_ok_def)
  note cmp = compare_const [OF c a] either_order_def rel_value_def
  from t consider
    "either_order e1 e2 (E_SYMBOL a) (E_COMP E_EQUAL a symbol_yes)" "t = E_COMP E_EQUAL a symbol_yes"
    | "either_order e1 e2 (E_SYMBOL a) (E_COMP E_UNEQUAL a symbol_no)" "t = E_SYMBOL a"
    | "either_order e1 e2 (E_SYMBOL a) (E_COMP E_UNEQUAL a symbol_mod)" "t = E_COMP E_EQUAL a symbol_yes"
    | "sym_type (syms k a) = S_TRISTATE" "join_and_tristate (syms k) a e1 e2 = Some t"
    by (auto simp: join_and_rules_def Let_def split: if_splits)
  then show ?thesis
  proof cases
    case 4
    with assms(1) s show ?thesis by (intro value_and_tristate) auto
  qed (cases "curr_tri (syms k a)"; auto simp: cmp)+
qed

lemma value_transform_comp:
  assumes "conf_calculated k"
  shows "expr_value k (transform_comp (syms k) c a b) = expr_value k (E_COMP c a b)"
proof (cases "sym_type (syms k a) = S_BOOLEAN")
  case True
  then have a: "bool_or_tristate (syms k) a" by (simp add: bool_or_tristate_def)
  show ?thesis
    using bool_not_Mod [OF assms True] True
    by (cases "curr_tri (syms k a)"; cases c)
      (auto simp: transform_comp_def rel_value_def compare_const [OF assms a] tri_const [OF assms])
qed (simp add: transform_comp_def)

interpretation kv: simplifier_valuation conf_ok expr_value syms
proof (unfold_locales, goal_cases)
  case (3 k)
  then show ?case by (simp add: conf_ok_def tri_const)
next
  case (4 k)
  then show ?case by (simp add: conf_ok_def tri_const)
next
  case (5 k)
  then show ?case by (simp add: conf_ok_def tri_const)
next
  case (7 k c a b)
  then show ?case by (simp add: conf_ok_def value_transform_comp)
next
  case (8 k a e1 e2 t)
  then show ?case by (auto simp: conf_ok_def intro: value_or_rules)
next
  case (9 k a e1 e2 t)
  then show ?case by (intro value_and_rules) auto
qed (auto simp: rel_value_negate)

end
