(* ===== verification/Kconfig_Expr_Props.thy ===== *)
theory Kconfig_Expr_Props
  imports Kconfig_Sound
begin

text \<open>
  The properties of the expression routines of scripts/config/expr.c, over every
  calculated configuration, with a concrete configuration on which each applies.
\<close>

section \<open>Shapes\<close>

text \<open>No \<open>y\<close> or \<open>n\<close> is left as an operand of \<open>&&\<close> or \<open>||\<close> (negations are not entered).\<close>

fun yn_free :: "expr \<Rightarrow> bool" where
  "yn_free (E_BIN j l r) \<longleftrightarrow>
     yn_free l \<and> yn_free r \<and>
     l \<noteq> E_SYMBOL symbol_yes \<and> l \<noteq> E_SYMBOL symbol_no \<and>
     r \<noteq> E_SYMBOL symbol_yes \<and> r \<noteq> E_SYMBOL symbol_no"
| "yn_free e \<longleftrightarrow> True"

lemma yn_free_eliminate: "yn_free (expr_eliminate_yn e)"
proof (induction e)
  case (E_BIN j l r)
  then show ?case by (cases j) (auto simp: eliminate_yn_node_def)
qed auto

text \<open>
  The normal form of \<open>expr_transform\<close>: negation only of a symbol that is not a
  constant, and no equality test of a bool symbol against \<open>y\<close>, \<open>m\<close> or \<open>n\<close>.
\<close>

definition comp_normal :: "symtab \<Rightarrow> relop \<Rightarrow> symref \<Rightarrow> symref \<Rightarrow> bool" where
  "comp_normal st c a b \<longleftrightarrow>
     \<not> (sym_type (st a) = S_BOOLEAN \<and> (c = E_EQUAL \<or> c = E_UNEQUAL) \<and>
        (b = symbol_yes \<or> b = symbol_mod \<or> b = symbol_no))"

fun nnf :: "symtab \<Rightarrow> expr \<Rightarrow> bool" where
  "nnf st (E_SYMBOL s) \<longleftrightarrow> True"
| "nnf st (E_COMP c a b) \<longleftrightarrow> comp_normal st c a b"
| "nnf st (E_BIN j l r) \<longleftrightarrow> nnf st l \<and> nnf st r"
| "nnf st (E_NOT (E_SYMBOL s)) \<longleftrightarrow> s \<noteq> symbol_yes \<and> s \<noteq> symbol_mod \<and> s \<noteq> symbol_no"
| "nnf st (E_NOT e) \<longleftrightarrow> False"

lemma transform_comp_normal: "comp_normal st c a b \<Longrightarrow> transform_comp st c a b = E_COMP c a b"
  by (auto simp: comp_normal_def transform_comp_def split: relop.splits)

lemma transform_nnf_id: "nnf st e \<Longrightarrow> transform st e = e"
  by (induction st e rule: nnf.induct) (auto simp: transform_comp_normal)

text \<open>
  The comparison of a bool symbol with itself as the constant cannot occur: a
  constant has no type. What \<open>transform_comp\<close> builds is in normal form when the
  symbol it negates is not one of the constants.
\<close>

definition untyped_consts :: "symtab \<Rightarrow> bool" where
  "untyped_consts st \<longleftrightarrow>
     sym_type (st symbol_yes) = S_UNKNOWN \<and> sym_type (st symbol_mod) = S_UNKNOWN \<and>
     sym_type (st symbol_no) = S_UNKNOWN"

lemma nnf_transform_comp: "untyped_consts st \<Longrightarrow> nnf st (transform_comp st c a b)"
  by (auto simp: untyped_consts_def transform_comp_def comp_normal_def split: relop.splits)

lemma comp_normal_negate: "comp_normal st (negate_rel c) a b = comp_normal st c a b"
  by (cases c) (auto simp: comp_normal_def negate_rel_def)

lemma nnf_transform: "untyped_consts st \<Longrightarrow> nnf st (transform st e)"
proof (induction st e rule: transform.induct)
  case (4 st e)
  then show ?case
    by (cases "transform st e") (auto simp: comp_normal_negate)
qed (auto simp: nnf_transform_comp)

section \<open>Symbols whose string is their tristate\<close>

definition is_tri_sym :: "symtab \<Rightarrow> symref \<Rightarrow> bool" where
  "is_tri_sym st a \<longleftrightarrow> bool_or_tristate st a \<or> a \<in> {symbol_yes, symbol_mod, symbol_no}"

lemma sym_string_tri:
  assumes "conf_calculated k" and "is_tri_sym (syms k) a"
  shows "sym_string k a = tri_name (curr_tri (syms k a))"
  using assms sym_string_bool [OF assms(1), of a] sym_string_const [OF assms(1), of "curr_tri (syms k a)"]
    tri_const [OF assms(1)]
  by (auto simp: is_tri_sym_def tri_sym_def)

lemma compare_is_tri:
  assumes "conf_calculated k" and "is_tri_sym (syms k) a"
  shows "compare_syms k a symbol_yes = 0 \<longleftrightarrow> curr_tri (syms k a) = Yes"
    and "compare_syms k a symbol_mod = 0 \<longleftrightarrow> curr_tri (syms k a) = Mod"
    and "compare_syms k a symbol_no = 0 \<longleftrightarrow> curr_tri (syms k a) = No"
proof -
  have *: "compare_syms k a (tri_sym t) = 0 \<longleftrightarrow> curr_tri (syms k a) = t" for t
    using const_tri_sym [OF assms(1), of t] compare_literal [of "tri_name t"]
    by (auto simp: compare_syms_def const_ok_def sym_string_const [OF assms(1)]
        sym_string_tri [OF assms] tri_name_def split: tristate.splits)
  show "compare_syms k a symbol_yes = 0 \<longleftrightarrow> curr_tri (syms k a) = Yes"
    and "compare_syms k a symbol_mod = 0 \<longleftrightarrow> curr_tri (syms k a) = Mod"
    and "compare_syms k a symbol_no = 0 \<longleftrightarrow> curr_tri (syms k a) = No"
    using * [of Yes] * [of Mod] * [of No] by (simp_all add: tri_sym_def)
qed

fun plain_tri :: "symtab \<Rightarrow> expr \<Rightarrow> bool" where
  "plain_tri st (E_SYMBOL s) \<longleftrightarrow> is_tri_sym st s"
| "plain_tri st (E_NOT e) \<longleftrightarrow> plain_tri st e"
| "plain_tri st (E_BIN j l r) \<longleftrightarrow> plain_tri st l \<and> plain_tri st r"
| "plain_tri st (E_COMP c a b) \<longleftrightarrow> True"

text \<open>No negated operand has the value \<open>m\<close>.\<close>

fun no_mod_negated :: "kconf \<Rightarrow> expr \<Rightarrow> bool" where
  "no_mod_negated k (E_NOT e) \<longleftrightarrow> expr_value k e \<noteq> Mod \<and> no_mod_negated k e"
| "no_mod_negated k (E_BIN j l r) \<longleftrightarrow> no_mod_negated k l \<and> no_mod_negated k r"
| "no_mod_negated k e \<longleftrightarrow> True"

lemma trans_compare_value:
  assumes "conf_calculated k" and "s = symbol_yes \<and> t = Yes \<or> s = symbol_no \<and> t = No"
  shows "plain_tri (syms k) e \<Longrightarrow> no_mod_negated k e \<Longrightarrow>
    \<exists>e'. trans_compare e ne s = Some e' \<and>
      expr_value k e' = (if (expr_value k e = t) = ne then No else Yes)"
proof (induction e arbitrary: ne)
  case (E_SYMBOL x)
  then show ?case using assms compare_is_tri [OF assms(1), of x]
    by (auto simp: rel_value_def)
next
  case (E_NOT e)
  from E_NOT.IH [of "\<not> ne"] E_NOT.prems assms(2) show ?case
    by (cases "expr_value k e") auto
next
  case (E_BIN j l r)
  from E_BIN.prems obtain l' r' where
    "trans_compare l False s = Some l'" "expr_value k l' = (if expr_value k l = t then Yes else No)"
    "trans_compare r False s = Some r'" "expr_value k r' = (if expr_value k r = t then Yes else No)"
    using E_BIN.IH(1) [of False] E_BIN.IH(2) [of False] by auto
  with assms(2) show ?case
    by (cases j) (auto simp: Let_def alloc_not_if_def dual_junct_def)
next
  case (E_COMP c a b)
  then show ?case using assms(2) rel_value_cases [of c "compare_syms k a b"]
    by (auto simp: alloc_not_if_def)
qed

lemma depends_value:
  assumes "conf_calculated k" and "is_tri_sym (syms k) s"
  shows "expr_depends_symbol e s \<Longrightarrow> expr_value k e \<noteq> No \<Longrightarrow> curr_tri (syms k s) \<noteq> No"
  using compare_is_tri [OF assms]
  by (induction e s rule: expr_depends_symbol.induct) (auto simp: rel_value_def split: if_splits)

lemma trans_bool_value:
  assumes "conf_calculated k"
  shows "nnf (syms k) e \<Longrightarrow> expr_value k (expr_trans_bool (syms k) e) = No \<longleftrightarrow> expr_value k e = No"
proof (induction "syms k" e rule: nnf.induct)
  case (2 c a b)
  then show ?case
    using compare_const(3) [OF assms, of a] by (auto simp: rel_value_def bool_or_tristate_def)
next
  case (3 j l r)
  then show ?case by (cases j) auto
qed auto

lemma frame_value:
  assumes "s \<noteq> modules_sym k"
  shows "\<not> expr_contains_symbol e s \<Longrightarrow>
    expr_value (k\<lparr>syms := (syms k)(s := y)\<rparr>) e = expr_value k e"
  using assms by (induction e) (auto simp: compare_syms_def sym_string_def Let_def)

section \<open>A concrete configuration\<close>

definition plain_symbol :: "string \<Rightarrow> symbol_type \<Rightarrow> sval \<Rightarrow> tristate \<Rightarrow> symbol" where
  "plain_symbol nm ty v t =
     \<lparr>sym_name = Some nm, sym_type = ty, curr_val = v, curr_tri = t,
      def_val = (\<lambda>_. VNull), def_tri = (\<lambda>_. No), visible = No, flags = {SYMBOL_VALID}, props = [],
      dir_dep_expr = None, dir_dep_tri = Yes, rev_dep_expr = None, rev_dep_tri = No,
      implied_expr = None, implied_tri = No\<rparr>"

text \<open>Tristate \<open>A = m\<close>, bool \<open>B = y\<close>, bool \<open>MODULES = y\<close>, string \<open>S\<close>.\<close>

definition demo_syms :: symtab where
  "demo_syms s =
     (case s of
        symbol_yes \<Rightarrow> const_symbol ''y'' Yes
      | symbol_mod \<Rightarrow> const_symbol ''m'' Mod
      | symbol_no \<Rightarrow> const_symbol ''n'' No
      | SymAt i \<Rightarrow>
          if i = 0 then plain_symbol ''A'' S_TRISTATE (VStr ''n'') Mod
          else if i = 1 then plain_symbol ''B'' S_BOOLEAN (VStr ''n'') Yes
          else if i = 2 then plain_symbol ''MODULES'' S_BOOLEAN (VStr ''n'') Yes
          else plain_symbol ''S'' S_STRING (VStr ''x'') No)"

definition demo_conf :: kconf where
  "demo_conf =
     \<lparr>syms = demo_syms, all_syms = map SymAt [0, 1, 2, 3], menu_changed = {},
      modules_sym = SymAt 2, modules_val = Yes, conf_changed = False\<rparr>"

lemma demo_syms_simps [simp]:
  "demo_syms symbol_yes = const_symbol ''y'' Yes" "demo_syms symbol_mod = const_symbol ''m'' Mod"
  "demo_syms symbol_no = const_symbol ''n'' No"
  "demo_syms (SymAt 0) = plain_symbol ''A'' S_TRISTATE (VStr ''n'') Mod"
  "demo_syms (SymAt (Suc 0)) = plain_symbol ''B'' S_BOOLEAN (VStr ''n'') Yes"
  "demo_syms (SymAt 2) = plain_symbol ''MODULES'' S_BOOLEAN (VStr ''n'') Yes"
  by (simp_all add: demo_syms_def)

lemma demo_conf_simps [simp]:
  "syms demo_conf = demo_syms" "modules_sym demo_conf = SymAt 2" "modules_val demo_conf = Yes"
  by (simp_all add: demo_conf_def)

lemma const_symbol_simps [simp]:
  "sym_type (const_symbol nm t) = S_UNKNOWN" "curr_val (const_symbol nm t) = VStr nm"
  "curr_tri (const_symbol nm t) = t" "flags (const_symbol nm t) = {SYMBOL_CONST, SYMBOL_VALID}"
  by (simp_all add: const_symbol_def)

lemma plain_symbol_simps [simp]:
  "sym_type (plain_symbol nm ty v t) = ty" "curr_val (plain_symbol nm ty v t) = v"
  "curr_tri (plain_symbol nm ty v t) = t" "flags (plain_symbol nm ty v t) = {SYMBOL_VALID}"
  by (simp_all add: plain_symbol_def)

lemma demo_bool: "sym_type (demo_syms s) = S_BOOLEAN \<Longrightarrow> curr_tri (demo_syms s) = Yes"
  by (auto simp: demo_syms_def split: symref.splits if_splits)

lemma demo_tristate: "sym_type (demo_syms s) = S_TRISTATE \<Longrightarrow> s = SymAt 0"
  by (auto simp: demo_syms_def split: symref.splits if_splits)

lemma demo_const: "SYMBOL_CONST \<in> flags (demo_syms s) \<Longrightarrow> s \<in> {symbol_yes, symbol_mod, symbol_no}"
  by (auto simp: demo_syms_def split: symref.splits if_splits)

lemma demo_calculated: "conf_calculated demo_conf"
  using demo_bool by (fastforce simp: conf_calculated_def const_ok_def)

lemma demo_ok: "conf_ok demo_conf"
proof -
  have "bool_or_tristate (syms demo_conf) (SymAt 0)" by (simp add: bool_or_tristate_def)
  note cmp = compare_const [OF demo_calculated this]
  have "consts_apart demo_conf"
    unfolding consts_apart_def
  proof (intro allI impI)
    fix a b c
    assume "sym_type (syms demo_conf a) = S_TRISTATE" "SYMBOL_CONST \<in> flags (syms demo_conf b)"
      "SYMBOL_CONST \<in> flags (syms demo_conf c)" "b \<noteq> c" "compare_syms demo_conf a b = 0"
    with demo_tristate [of a] demo_const [of b] demo_const [of c] cmp
    show "compare_syms demo_conf a c \<noteq> 0" by auto
  qed
  with demo_calculated show ?thesis by (simp add: conf_ok_def)
qed

section \<open>Properties\<close>

interpretation kj: junct_valuation conf_calculated expr_value
  by unfold_locales (auto simp: tri_const)

text \<open>
  \<open>expr_eliminate_yn\<close> keeps the value of every expression and leaves no
  constant \<open>y\<close> or \<open>n\<close> as an operand of \<open>&&\<close> or \<open>||\<close>.
\<close>

theorem eliminate_yn_correct:
  assumes "conf_calculated k"
  shows "expr_value k (expr_eliminate_yn e) = expr_value k e \<and> yn_free (expr_eliminate_yn e)"
  using kj.V_yn [OF assms] yn_free_eliminate by blast

theorem eliminate_yn_correct_witness:
  "conf_calculated demo_conf \<and>
   expr_eliminate_yn (E_AND (E_SYMBOL symbol_yes) (E_SYMBOL (SymAt 0))) = E_SYMBOL (SymAt 0) \<and>
   expr_value demo_conf (expr_eliminate_yn (E_AND (E_SYMBOL symbol_yes) (E_SYMBOL (SymAt 0)))) = Mod"
  using eliminate_yn_correct [OF demo_calculated, of "E_AND (E_SYMBOL symbol_yes) (E_SYMBOL (SymAt 0))"]
    demo_calculated
  by (simp add: eliminate_yn_node_def)

text \<open>
  C40. \<open>expr_eq\<close> is sound: expressions it takes to be equal, NULL (which means \<open>y\<close>)
  included, have the same value in every calculated configuration.
\<close>

theorem expr_eq_sound:
  assumes "conf_calculated k" and "expr_eq_ptr e1 e2"
  shows "expr_value_ptr k e1 = expr_value_ptr k e2"
  using assms kj.eq_sound [OF assms(1)] tri_const [OF assms(1)]
  by (auto simp: expr_eq_ptr_def expr_value_ptr_def expr_is_yes_def split: option.splits)

theorem expr_eq_sound_witness:
  "expr_value_ptr demo_conf (Some (E_AND (E_SYMBOL (SymAt 0)) (E_SYMBOL (SymAt 1)))) =
   expr_value_ptr demo_conf (Some (E_AND (E_SYMBOL (SymAt 1)) (E_SYMBOL (SymAt 0))))"
proof (rule expr_eq_sound [OF demo_calculated])
  show "expr_eq_ptr (Some (E_AND (E_SYMBOL (SymAt 0)) (E_SYMBOL (SymAt 1))))
      (Some (E_AND (E_SYMBOL (SymAt 1)) (E_SYMBOL (SymAt 0))))"
    by (simp add: expr_eq_ptr_def eliminate_eq_def eliminate_eq_root_def eliminate_eq_leaves_def
        junct_unit_def eliminate_yn_node_def)
qed

text \<open>
  What \<open>menu_finalize\<close> relies on when it puts an entry in a submenu: if
  \<open>expr_eliminate_eq\<close> reduces the second expression to \<open>y\<close>, the first implies it,
  in the order \<open>n < m < y\<close>.
\<close>

theorem eliminate_eq_superset:
  assumes "conf_calculated k" and "expr_eliminate_eq (Some e1) (Some e2) = (e1', e2')"
    and "expr_is_yes e2'"
  shows "expr_value k e1 \<le> expr_value k e2"
proof (rule kj.eliminate_eq_le [OF assms(1)])
  have "snd (eliminate_eq expr_eq e1 e2) = E_SYMBOL symbol_yes"
    using assms(2,3) by (cases "eliminate_eq expr_eq e1 e2") (auto simp: expr_eliminate_eq_def expr_is_yes_def)
  then show "expr_value k (fst (eliminate_eq expr_eq e1 e2)) \<le> expr_value k (snd (eliminate_eq expr_eq e1 e2))"
    using tri_const [OF assms(1)] by simp
qed

theorem eliminate_eq_superset_witness:
  "expr_value demo_conf (E_AND (E_SYMBOL (SymAt 0)) (E_SYMBOL (SymAt 1))) \<le>
   expr_value demo_conf (E_SYMBOL (SymAt 1))"
proof (rule eliminate_eq_superset [OF demo_calculated])
  show "expr_eliminate_eq (Some (E_AND (E_SYMBOL (SymAt 0)) (E_SYMBOL (SymAt 1)))) (Some (E_SYMBOL (SymAt 1)))
      = (Some (E_SYMBOL (SymAt 0)), Some (E_SYMBOL symbol_yes))"
    by (simp add: expr_eliminate_eq_def eliminate_eq_def eliminate_eq_root_def eliminate_eq_leaves_def
        junct_unit_def eliminate_yn_node_def)
qed (simp add: expr_is_yes_def)

text \<open>
  C38. \<open>expr_eliminate_dups\<close> terminates on every expression, and the expression it
  returns has the value of its argument, in every calculated configuration whose
  constants a tristate symbol tells apart.
\<close>

theorem eliminate_dups_correct:
  assumes "conf_ok k"
  shows "\<exists>e'. expr_eliminate_dups (syms k) e = Some e' \<and> expr_value_ptr k e' = expr_value_ptr k e"
proof (cases e)
  case None
  then show ?thesis by (simp add: expr_eliminate_dups_def)
next
  case (Some x)
  with kv.V_dups [OF assms, of x] show ?thesis
    by (auto simp: expr_eliminate_dups_def expr_value_ptr_def)
qed

theorem eliminate_dups_correct_witness:
  "\<exists>e'. expr_eliminate_dups demo_syms (Some (E_OR (E_SYMBOL (SymAt 0)) (E_SYMBOL (SymAt 0)))) = Some e' \<and>
     expr_value_ptr demo_conf e' = Mod"
  using eliminate_dups_correct [OF demo_ok, of "Some (E_OR (E_SYMBOL (SymAt 0)) (E_SYMBOL (SymAt 0)))"]
  by (auto simp: expr_value_ptr_def)



text \<open>
  The result of \<open>expr_transform\<close> is in negation normal form, and transforming
  it again changes nothing.
\<close>

theorem transform_normal_form:
  assumes "untyped_consts st"
  shows "nnf st (transform st e) \<and> transform st (transform st e) = transform st e"
  using nnf_transform [OF assms] transform_nnf_id by blast

theorem transform_normal_form_witness:
  "nnf demo_syms (transform demo_syms (E_NOT (E_AND (E_SYMBOL (SymAt 0)) (E_SYMBOL (SymAt 1)))))"
proof -
  have "untyped_consts demo_syms" by (simp add: untyped_consts_def)
  from transform_normal_form [OF this] show ?thesis by blast
qed

text \<open>
  \<open>expr_trans_compare\<close> with \<open>y\<close> or \<open>n\<close> yields an expression that decides
  whether the value is (\<open>E_EQUAL\<close>) or is not (\<open>E_UNEQUAL\<close>) that constant, for
  conditions over bool and tristate symbols in which no negated operand is \<open>m\<close>.
\<close>

theorem trans_compare_correct:
  assumes "conf_calculated k" and "s = symbol_yes \<and> t = Yes \<or> s = symbol_no \<and> t = No"
    and "plain_tri (syms k) e" and "no_mod_negated k e"
  shows "\<exists>e'. expr_trans_compare (Some e) ne s = Some e' \<and>
    expr_value k e' = (if (expr_value k e = t) = ne then No else Yes)"
  using trans_compare_value [OF assms] by (simp add: expr_trans_compare_def)

theorem trans_compare_correct_witness:
  "\<exists>e'. expr_trans_compare (Some (E_AND (E_SYMBOL (SymAt 0)) (E_SYMBOL (SymAt 1)))) True symbol_no = Some e' \<and>
     expr_value demo_conf e' = Yes"
  using trans_compare_correct [OF demo_calculated, of symbol_no No
      "E_AND (E_SYMBOL (SymAt 0)) (E_SYMBOL (SymAt 1))" True]
  by (simp add: is_tri_sym_def bool_or_tristate_def)

text \<open>
  \<open>expr_depends_symbol\<close> is sound: where it says that a condition depends on a
  symbol, the condition is \<open>n\<close> whenever the symbol is.
\<close>

theorem depends_symbol_sound:
  assumes "conf_calculated k" and "is_tri_sym (syms k) s" and "expr_depends_symbol e s"
    and "curr_tri (syms k s) = No"
  shows "expr_value k e = No"
  using depends_value [OF assms(1-3)] assms(4) by blast

theorem depends_symbol_sound_witness:
  "expr_value (demo_conf\<lparr>syms := demo_syms(SymAt 0 := plain_symbol ''A'' S_TRISTATE (VStr ''n'') No)\<rparr>)
     (E_AND (E_COMP E_UNEQUAL (SymAt 0) symbol_no) (E_SYMBOL (SymAt 1))) = No"
proof (rule depends_symbol_sound [where s = "SymAt 0"])
  let ?k = "demo_conf\<lparr>syms := demo_syms(SymAt 0 := plain_symbol ''A'' S_TRISTATE (VStr ''n'') No)\<rparr>"
  show "conf_calculated ?k"
    using demo_bool demo_tristate by (fastforce simp: conf_calculated_def const_ok_def)
qed (simp_all add: is_tri_sym_def bool_or_tristate_def)

text \<open>
  \<open>expr_contains_symbol\<close> is complete: the value of an expression that does not
  contain a symbol does not change with that symbol (other than \<open>MODULES\<close>, which
  decides how \<open>m\<close> is spelled).
\<close>

theorem contains_symbol_complete:
  assumes "\<not> expr_contains_symbol e s" and "s \<noteq> modules_sym k"
  shows "expr_value (k\<lparr>syms := (syms k)(s := y)\<rparr>) e = expr_value k e"
  using assms(2,1) by (rule frame_value)

theorem contains_symbol_complete_witness:
  "expr_value (demo_conf\<lparr>syms := (syms demo_conf)(SymAt 1 := plain_symbol ''B'' S_BOOLEAN (VStr ''n'') No)\<rparr>)
     (E_SYMBOL (SymAt 0)) = Mod"
  using contains_symbol_complete [of "E_SYMBOL (SymAt 0)" "SymAt 1" demo_conf
      "plain_symbol ''B'' S_BOOLEAN (VStr ''n'') No"] by simp

text \<open>
  \<open>expr_trans_bool\<close> keeps whether a transformed condition is \<open>n\<close>, which is all
  a bool symbol looks at.
\<close>

theorem trans_bool_correct:
  assumes "conf_calculated k" and "nnf (syms k) e"
  shows "expr_value k (expr_trans_bool (syms k) e) = No \<longleftrightarrow> expr_value k e = No"
  using assms by (rule trans_bool_value)

theorem trans_bool_correct_witness:
  "expr_value demo_conf (expr_trans_bool demo_syms (E_COMP E_UNEQUAL (SymAt 0) symbol_no)) \<noteq> No"
proof -
  have "compare_syms demo_conf (SymAt 0) symbol_no \<noteq> 0"
    using compare_const(3) [OF demo_calculated, of "SymAt 0"] by (simp add: bool_or_tristate_def)
  then show ?thesis
    using trans_bool_correct [OF demo_calculated, of "E_COMP E_UNEQUAL (SymAt 0) symbol_no"]
    by (simp add: comp_normal_def rel_value_def)
qed

text \<open>
  The distinct-constants rule of \<open>expr_join_and\<close> is not sound for every
  configuration: a tristate symbol that is \<open>y\<close> also equals the quoted constant
  \<open>2\<close>, so \<open>A=y && A!="2"\<close> is \<open>n\<close> while the joined \<open>A=y\<close> is \<open>y\<close>.
\<close>

theorem join_and_numeric_constant:
  "\<exists>k e1 e2 t. conf_calculated k \<and> expr_join_and (syms k) e1 e2 = Some t \<and>
     expr_value k t = Yes \<and> EXPR_AND (expr_value k e1) (expr_value k e2) = No"
proof -
  let ?two = "(const_symbol ''2'' No)"
  let ?k = "demo_conf\<lparr>syms := demo_syms(SymAt 0 := plain_symbol ''A'' S_TRISTATE (VStr ''n'') Yes,
      SymAt 3 := ?two)\<rparr>"
  let ?e1 = "E_COMP E_EQUAL (SymAt 0) symbol_yes"
  let ?e2 = "E_COMP E_UNEQUAL (SymAt 0) (SymAt 3)"
  have k: "conf_calculated ?k"
    using demo_bool demo_tristate by (fastforce simp: conf_calculated_def const_ok_def)
  have "expr_join_and (syms ?k) ?e1 ?e2 = Some ?e1"
    by (simp add: expr_join_and_def join_and_rules_def either_order_def join_and_tristate_def
        join_and_consts_def)
  moreover have "compare_syms ?k (SymAt 0) symbol_yes = 0"
    using compare_const(1) [OF k, of "SymAt 0"] by (simp add: bool_or_tristate_def)
  moreover have "compare_strings ''y'' S_TRISTATE ''2'' S_UNKNOWN = 0"
    by code_simp
  then have "compare_syms ?k (SymAt 0) (SymAt 3) = 0"
    by (simp add: compare_syms_def sym_string_def sval_str_def)
  ultimately have "conf_calculated ?k \<and> expr_join_and (syms ?k) ?e1 ?e2 = Some ?e1 \<and>
      expr_value ?k ?e1 = Yes \<and> EXPR_AND (expr_value ?k ?e1) (expr_value ?k ?e2) = No"
    using k by (simp add: rel_value_def)
  then show ?thesis by blast
qed

end
