(* ===== verification/Kconfig_Symbol.thy ===== *)
theory Kconfig_Symbol
  imports Kconfig_Value
begin

text \<open>
  Calculating the value of a symbol (scripts/config/symbol.c and the evaluation
  of expressions in expr.c): visibility, dependencies, defaults, choices and
  ranges. \<open>sym_calc_value\<close> and the functions it calls are mutually recursive in
  the source; here every function below it takes the recursive call
  \<open>calc :: symref \<Rightarrow> kconf \<Rightarrow> kconf res\<close> as a parameter and \<open>sym_calc_value\<close> ties
  the knot with fuel, one unit for each nested activation.

  The state of the engine is threaded explicitly. A read through a NULL or
  mistyped pointer stops the computation with \<open>Bad_access\<close>. The comparison of
  the old and the new value with \<open>memcmp\<close> compares the pointers of string values
  in the source and their contents here; it only decides whether
  \<open>SYMBOL_CHANGED\<close> and \<open>MENU_CHANGED\<close> are raised for a string value that was
  allocated again with the same contents.
\<close>

type_synonym calc = "symref \<Rightarrow> kconf \<Rightarrow> kconf res"

section \<open>Access to the symbols\<close>

definition upd :: "symref \<Rightarrow> (symbol \<Rightarrow> symbol) \<Rightarrow> kconf \<Rightarrow> kconf" where
  "upd s f k = k\<lparr>syms := (syms k)(s := f (syms k s))\<rparr>"

definition set_flag :: "symref \<Rightarrow> symflag \<Rightarrow> kconf \<Rightarrow> kconf" where
  "set_flag s f = upd s (\<lambda>y. y\<lparr>flags := insert f (flags y)\<rparr>)"

definition clear_flag :: "symref \<Rightarrow> symflag \<Rightarrow> kconf \<Rightarrow> kconf" where
  "clear_flag s f = upd s (\<lambda>y. y\<lparr>flags := flags y - {f}\<rparr>)"

definition set_curr :: "symref \<Rightarrow> sval \<Rightarrow> tristate \<Rightarrow> kconf \<Rightarrow> kconf" where
  "set_curr s v t = upd s (\<lambda>y. y\<lparr>curr_val := v, curr_tri := t\<rparr>)"

definition set_prop_vis :: "symref \<Rightarrow> nat \<Rightarrow> tristate \<Rightarrow> kconf \<Rightarrow> kconf" where
  "set_prop_vis s i t = upd s (\<lambda>y. y\<lparr>props := (props y)[i := (props y ! i)\<lparr>vis_tri := t\<rparr>]\<rparr>)"

text \<open>The characters behind a \<open>const char *\<close>.\<close>

definition read_string :: "sval \<Rightarrow> string res" where
  "read_string v = (case v of VStr x \<Rightarrow> Inr x | _ \<Rightarrow> Inl Bad_access)"

section \<open>Types and properties\<close>

definition sym_get_type :: "kconf \<Rightarrow> symref \<Rightarrow> symbol_type" where
  "sym_get_type k s =
     (let y = syms k s in
      if sym_type y = S_TRISTATE then
        (if sym_is_choice_value y \<and> visible y = Yes then S_BOOLEAN
         else if modules_val k = No then S_BOOLEAN
         else S_TRISTATE)
      else sym_type y)"

definition sym_type_name :: "symbol_type \<Rightarrow> string" where
  "sym_type_name t =
     (case t of S_BOOLEAN \<Rightarrow> ''bool'' | S_TRISTATE \<Rightarrow> ''tristate'' | S_INT \<Rightarrow> ''integer''
      | S_HEX \<Rightarrow> ''hex'' | S_STRING \<Rightarrow> ''string'' | S_UNKNOWN \<Rightarrow> ''unknown'')"

definition prop_get_type_name :: "prop_type \<Rightarrow> string" where
  "prop_get_type_name t =
     (case t of P_PROMPT \<Rightarrow> ''prompt'' | P_COMMENT \<Rightarrow> ''comment'' | P_MENU \<Rightarrow> ''menu''
      | P_DEFAULT \<Rightarrow> ''default'' | P_CHOICE \<Rightarrow> ''choice'' | P_SELECT \<Rightarrow> ''select''
      | P_IMPLY \<Rightarrow> ''imply'' | P_RANGE \<Rightarrow> ''range'' | P_SYMBOL \<Rightarrow> ''symbol''
      | P_RESET \<Rightarrow> ''reset'' | P_UNKNOWN \<Rightarrow> ''unknown'')"

text \<open>
  \<open>left.sym\<close> of an \<open>E_LIST\<close> node is really the pointer to the next node: NULL in
  a list of one symbol, mistyped in a longer one.
\<close>

definition prop_get_symbol :: "property \<Rightarrow> symref option res" where
  "prop_get_symbol p =
     (case prop_expr p of
        Some (PL_EXPR (E_SYMBOL s)) \<Rightarrow> Inr (Some s)
      | Some (PL_LIST (a # b # l)) \<Rightarrow> Inl Bad_access
      | _ \<Rightarrow> Inr None)"

definition sym_get_choice_prop :: "symbol \<Rightarrow> property option" where
  "sym_get_choice_prop y = find (\<lambda>p. prop_type p = P_CHOICE) (props y)"

text \<open>\<open>prop_get_symbol (sym_get_choice_prop sym)\<close> where the result is dereferenced.\<close>

definition choice_of :: "symbol \<Rightarrow> symref option res" where
  "choice_of y = (case sym_get_choice_prop y of None \<Rightarrow> Inl Bad_access | Some p \<Rightarrow> prop_get_symbol p)"

text \<open>
  The symbols \<open>expr_list_for_each_sym\<close> visits for the choice property of a symbol;
  \<open>right.sym\<close> of an \<open>E_SYMBOL\<close> node is NULL, which ends the loop.
\<close>

definition choice_values :: "symbol \<Rightarrow> symref list res" where
  "choice_values y =
     (case sym_get_choice_prop y of
        None \<Rightarrow> Inl Bad_access
      | Some p \<Rightarrow> (case prop_expr p of
            None \<Rightarrow> Inr [] | Some (PL_LIST l) \<Rightarrow> Inr l
          | Some (PL_EXPR (E_SYMBOL _)) \<Rightarrow> Inr [] | _ \<Rightarrow> Inl Bad_access))"

section \<open>Change marks\<close>

definition prop_menus :: "symbol \<Rightarrow> nat set" where
  "prop_menus y = {m. \<exists>p \<in> set (props y). prop_menu p = Some m}"

definition sym_set_changed :: "symref \<Rightarrow> kconf \<Rightarrow> kconf" where
  "sym_set_changed s k =
     (set_flag s SYMBOL_CHANGED k)\<lparr>menu_changed := menu_changed k \<union> prop_menus (syms k s)\<rparr>"

lemma prop_menus_code [code]:
  "prop_menus y = set (List.map_filter prop_menu (props y))"
  by (force simp: prop_menus_def List.map_filter_def)

definition sym_set_all_changed :: "kconf \<Rightarrow> kconf" where
  "sym_set_all_changed k = fold sym_set_changed (all_syms k) k"

section \<open>Evaluating expressions\<close>

definition sym_get_string_value :: "calc \<Rightarrow> symref \<Rightarrow> kconf \<Rightarrow> (sval \<times> kconf) res" where
  "sym_get_string_value calc s k =
     (let y = syms k s in
      if sym_type y = S_BOOLEAN \<or> sym_type y = S_TRISTATE then
        (case curr_tri y of
           No \<Rightarrow> Inr (VStr ''n'', k)
         | Mod \<Rightarrow> rbind (calc (modules_sym k) k) (\<lambda>k.
             Inr (VStr (if curr_tri (syms k (modules_sym k)) = No then ''n'' else ''m''), k))
         | Yes \<Rightarrow> Inr (VStr ''y'', k))
      else Inr (curr_val y, k))"

definition calc_compare :: "calc \<Rightarrow> symref \<Rightarrow> symref \<Rightarrow> kconf \<Rightarrow> (int \<times> kconf) res" where
  "calc_compare calc a b k =
     rbind (calc a k) (\<lambda>k.
     rbind (calc b k) (\<lambda>k.
     rbind (sym_get_string_value calc a k) (\<lambda>(v1, k).
     rbind (sym_get_string_value calc b k) (\<lambda>(v2, k).
     rbind (read_string v1) (\<lambda>str1.
     rbind (read_string v2) (\<lambda>str2.
       Inr (compare_strings str1 (sym_type (syms k a)) str2 (sym_type (syms k b)), k)))))))"

fun expr_calc_value :: "calc \<Rightarrow> expr \<Rightarrow> kconf \<Rightarrow> (tristate \<times> kconf) res" where
  "expr_calc_value calc (E_SYMBOL s) k = rbind (calc s k) (\<lambda>k. Inr (curr_tri (syms k s), k))"
| "expr_calc_value calc (E_BIN j l r) k =
     rbind (expr_calc_value calc l k) (\<lambda>(val1, k).
     rbind (expr_calc_value calc r k) (\<lambda>(val2, k).
       Inr (junct_op j val1 val2, k)))"
| "expr_calc_value calc (E_NOT e) k =
     rbind (expr_calc_value calc e k) (\<lambda>(val1, k). Inr (EXPR_NOT val1, k))"
| "expr_calc_value calc (E_COMP c a b) k =
     rbind (calc_compare calc a b k) (\<lambda>(res, k). Inr (rel_value c res, k))"

definition expr_calc_ptr :: "calc \<Rightarrow> expr option \<Rightarrow> kconf \<Rightarrow> (tristate \<times> kconf) res" where
  "expr_calc_ptr calc e k = (case e of None \<Rightarrow> Inr (Yes, k) | Some x \<Rightarrow> expr_calc_value calc x k)"

text \<open>\<open>expr_calc_value (prop->expr)\<close>; it prints a message and returns \<open>no\<close> for lists and ranges.\<close>

definition payload_calc_value :: "calc \<Rightarrow> payload option \<Rightarrow> kconf \<Rightarrow> (tristate \<times> kconf) res" where
  "payload_calc_value calc e k =
     (case e of
        None \<Rightarrow> Inr (Yes, k)
      | Some (PL_EXPR x) \<Rightarrow> expr_calc_value calc x k
      | Some _ \<Rightarrow> Inr (No, k))"

section \<open>Defaults and ranges\<close>

text \<open>
  The loop of \<open>sym_get_default_prop\<close> and \<open>sym_get_range_prop\<close>: the index of the
  first property of the wanted type whose condition is not \<open>no\<close>, after its
  visibility has been stored.
\<close>

primrec first_visible ::
  "calc \<Rightarrow> prop_type \<Rightarrow> symref \<Rightarrow> nat list \<Rightarrow> kconf \<Rightarrow> (nat option \<times> kconf) res" where
  "first_visible calc pt s [] k = Inr (None, k)"
| "first_visible calc pt s (i # is) k =
     (if prop_type (props (syms k s) ! i) = pt then
        rbind (expr_calc_ptr calc (vis_expr (props (syms k s) ! i)) k) (\<lambda>(t, k).
          (let k = set_prop_vis s i t k in
           if t \<noteq> No then Inr (Some i, k) else first_visible calc pt s is k))
      else first_visible calc pt s is k)"

definition sym_get_default_prop :: "calc \<Rightarrow> symref \<Rightarrow> kconf \<Rightarrow> (nat option \<times> kconf) res" where
  "sym_get_default_prop calc s k = first_visible calc P_DEFAULT s [0..<length (props (syms k s))] k"

definition sym_get_range_prop :: "calc \<Rightarrow> symref \<Rightarrow> kconf \<Rightarrow> (nat option \<times> kconf) res" where
  "sym_get_range_prop calc s k = first_visible calc P_RANGE s [0..<length (props (syms k s))] k"

definition sym_get_range_val :: "calc \<Rightarrow> symref \<Rightarrow> nat \<Rightarrow> kconf \<Rightarrow> (int \<times> kconf) res" where
  "sym_get_range_val calc s base k =
     rbind (calc s k) (\<lambda>k.
     rbind (read_string (curr_val (syms k s))) (\<lambda>str.
       Inr (fst (strtoll str (case sym_type (syms k s) of S_INT \<Rightarrow> 10 | S_HEX \<Rightarrow> 16 | _ \<Rightarrow> base)), k)))"

definition range_bounds :: "property \<Rightarrow> (symref \<times> symref) res" where
  "range_bounds p = (case prop_expr p of Some (PL_RANGE l r) \<Rightarrow> Inr (l, r) | _ \<Rightarrow> Inl Bad_access)"

text \<open>The number the current value is replaced by, if it has to be.\<close>

definition range_clamp ::
  "calc \<Rightarrow> nat \<Rightarrow> int \<Rightarrow> symref \<Rightarrow> symref \<Rightarrow> kconf \<Rightarrow> (int option \<times> kconf) res" where
  "range_clamp calc base val l r k =
     rbind (sym_get_range_val calc l base k) (\<lambda>(lo, k).
       if val \<ge> lo then
         rbind (sym_get_range_val calc r base k) (\<lambda>(hi, k).
           if val \<le> hi then Inr (None, k) else Inr (Some hi, k))
       else Inr (Some lo, k))"

definition sym_validate_range :: "calc \<Rightarrow> symref \<Rightarrow> kconf \<Rightarrow> kconf res" where
  "sym_validate_range calc s k =
     (let ty = sym_type (syms k s); base = (if ty = S_INT then 10 else 16) in
      if ty \<noteq> S_INT \<and> ty \<noteq> S_HEX then Inr k
      else
        rbind (sym_get_range_prop calc s k) (\<lambda>(p, k).
        case p of
          None \<Rightarrow> Inr k
        | Some i \<Rightarrow>
            rbind (read_string (curr_val (syms k s))) (\<lambda>str.
            rbind (range_bounds (props (syms k s) ! i)) (\<lambda>(l, r).
            rbind (range_clamp calc base (fst (strtoll str base)) l r k) (\<lambda>(v, k).
            case v of
              None \<Rightarrow> Inr k
            | Some val2 \<Rightarrow>
                Inr (upd s (\<lambda>y. y\<lparr>curr_val :=
                  VStr (if ty = S_INT then print_lld val2 else ''0x'' @ print_llx val2)\<rparr>) k))))))"

section \<open>Visibility and dependencies\<close>

text \<open>
  The loop over the prompts. A tristate choice value whose prompt is \<open>mod\<close> is not
  visible when the choice is \<open>yes\<close>.
\<close>

primrec calc_prompts ::
  "calc \<Rightarrow> symref \<Rightarrow> symref option \<Rightarrow> nat list \<Rightarrow> tristate \<Rightarrow> kconf \<Rightarrow> (tristate \<times> kconf) res" where
  "calc_prompts calc s cs [] tri k = Inr (tri, k)"
| "calc_prompts calc s cs (i # is) tri k =
     (if prop_text (props (syms k s) ! i) \<noteq> None then
        rbind (expr_calc_ptr calc (vis_expr (props (syms k s) ! i)) k) (\<lambda>(t, k).
          (let t = (case cs of
                      Some c \<Rightarrow> if sym_type (syms k s) = S_TRISTATE \<and> t = Mod \<and> curr_tri (syms k c) = Yes
                                then No else t
                    | None \<Rightarrow> t)
           in calc_prompts calc s cs is (EXPR_OR tri t) (set_prop_vis s i t k)))
      else calc_prompts calc s cs is tri k)"

definition calc_visible :: "calc \<Rightarrow> symref \<Rightarrow> kconf \<Rightarrow> kconf res" where
  "calc_visible calc s k =
     rbind (if sym_is_choice_value (syms k s) then choice_of (syms k s) else Inr None) (\<lambda>cs.
     rbind (calc_prompts calc s cs [0..<length (props (syms k s))] No k) (\<lambda>(tri, k).
       (let tri = (if tri = Mod \<and> (sym_type (syms k s) \<noteq> S_TRISTATE \<or> modules_val k = No) then Yes else tri)
        in if visible (syms k s) \<noteq> tri
           then Inr (sym_set_changed s (upd s (\<lambda>y. y\<lparr>visible := tri\<rparr>) k))
           else Inr k)))"

datatype dep = Dir_dep | Rev_dep | Implied

definition dep_expr :: "dep \<Rightarrow> symbol \<Rightarrow> expr option" where
  "dep_expr d y = (case d of Dir_dep \<Rightarrow> dir_dep_expr y | Rev_dep \<Rightarrow> rev_dep_expr y | Implied \<Rightarrow> implied_expr y)"

definition dep_tri :: "dep \<Rightarrow> symbol \<Rightarrow> tristate" where
  "dep_tri d y = (case d of Dir_dep \<Rightarrow> dir_dep_tri y | Rev_dep \<Rightarrow> rev_dep_tri y | Implied \<Rightarrow> implied_tri y)"

definition set_dep_tri :: "dep \<Rightarrow> tristate \<Rightarrow> symbol \<Rightarrow> symbol" where
  "set_dep_tri d t y =
     (case d of Dir_dep \<Rightarrow> y\<lparr>dir_dep_tri := t\<rparr> | Rev_dep \<Rightarrow> y\<lparr>rev_dep_tri := t\<rparr> | Implied \<Rightarrow> y\<lparr>implied_tri := t\<rparr>)"

text \<open>One of the three blocks that calculate \<open>dir_dep\<close>, \<open>rev_dep\<close> and \<open>implied\<close>.\<close>

definition calc_dep :: "calc \<Rightarrow> dep \<Rightarrow> symref \<Rightarrow> kconf \<Rightarrow> kconf res" where
  "calc_dep calc d s k =
     rbind (case dep_expr d (syms k s) of
              None \<Rightarrow> Inr (if d = Dir_dep then Yes else No, k)
            | Some e \<Rightarrow> expr_calc_value calc e k) (\<lambda>(tri, k).
       (let tri = (if tri = Mod \<and> sym_get_type k s = S_BOOLEAN then Yes else tri)
        in if dep_tri d (syms k s) \<noteq> tri
           then Inr (sym_set_changed s (upd s (set_dep_tri d tri) k))
           else Inr k))"

definition sym_calc_visibility :: "calc \<Rightarrow> symref \<Rightarrow> kconf \<Rightarrow> kconf res" where
  "sym_calc_visibility calc s k =
     rbind (calc_visible calc s k) (\<lambda>k.
       if sym_is_choice_value (syms k s) then Inr k
       else rbind (calc_dep calc Dir_dep s k) (\<lambda>k.
            rbind (calc_dep calc Rev_dep s k) (\<lambda>k.
              calc_dep calc Implied s k)))"

section \<open>Choices\<close>

text \<open>The first loop of \<open>sym_choice_default\<close>: a visible default that is itself visible.\<close>

primrec choice_default_props :: "calc \<Rightarrow> symref \<Rightarrow> nat list \<Rightarrow> kconf \<Rightarrow> (symref option \<times> kconf) res" where
  "choice_default_props calc s [] k = Inr (None, k)"
| "choice_default_props calc s (i # is) k =
     (if prop_type (props (syms k s) ! i) = P_DEFAULT then
        rbind (expr_calc_ptr calc (vis_expr (props (syms k s) ! i)) k) (\<lambda>(t, k).
          (let k = set_prop_vis s i t k in
           if t = No then choice_default_props calc s is k
           else rbind (prop_get_symbol (props (syms k s) ! i)) (\<lambda>d.
             case d of
               None \<Rightarrow> Inl Bad_access
             | Some def_sym \<Rightarrow>
                 if visible (syms k def_sym) \<noteq> No then Inr (Some def_sym, k)
                 else choice_default_props calc s is k)))
      else choice_default_props calc s is k)"

definition sym_choice_default :: "calc \<Rightarrow> symref \<Rightarrow> kconf \<Rightarrow> (symref option \<times> kconf) res" where
  "sym_choice_default calc s k =
     rbind (choice_default_props calc s [0..<length (props (syms k s))] k) (\<lambda>(d, k).
       case d of
         Some def_sym \<Rightarrow> Inr (Some def_sym, k)
       | None \<Rightarrow> rbind (choice_values (syms k s)) (\<lambda>l.
           Inr (find (\<lambda>c. visible (syms k c) \<noteq> No) l, k)))"

text \<open>
  The loop that calculates the visibility of the choice values; the second
  component is the local \<open>flags\<close>.
\<close>

primrec calc_choice_flags ::
  "calc \<Rightarrow> symref list \<Rightarrow> symflag set \<times> kconf \<Rightarrow> (symflag set \<times> kconf) res" where
  "calc_choice_flags calc [] st = Inr st"
| "calc_choice_flags calc (c # cs) st =
     rbind (sym_calc_visibility calc c (snd st)) (\<lambda>k.
       calc_choice_flags calc cs
         (if visible (syms k c) \<noteq> No then fst st \<inter> flags (syms k c) else fst st, k))"

definition user_choice :: "sval \<Rightarrow> symref option res" where
  "user_choice v = (case v of VNull \<Rightarrow> Inr None | VSym c \<Rightarrow> Inr (Some c) | VStr _ \<Rightarrow> Inl Bad_access)"

definition choice_or_reset :: "calc \<Rightarrow> symref \<Rightarrow> kconf \<Rightarrow> (symref option \<times> kconf) res" where
  "choice_or_reset calc s k =
     rbind (sym_choice_default calc s k) (\<lambda>(d, k).
       Inr (d, if d = None then upd s (\<lambda>y. y\<lparr>curr_tri := No\<rparr>) k else k))"

text \<open>The choice of the user if it is visible, otherwise the default.\<close>

definition pick_choice :: "calc \<Rightarrow> symref \<Rightarrow> kconf \<Rightarrow> (symref option \<times> kconf) res" where
  "pick_choice calc s k =
     rbind (user_choice (def_val (syms k s) S_DEF_USER)) (\<lambda>u.
       case u of
         Some d \<Rightarrow> if visible (syms k d) \<noteq> No then Inr (Some d, k) else choice_or_reset calc s k
       | None \<Rightarrow> choice_or_reset calc s k)"

definition sym_calc_choice :: "calc \<Rightarrow> symref \<Rightarrow> kconf \<Rightarrow> (symref option \<times> kconf) res" where
  "sym_calc_choice calc s k =
     rbind (choice_values (syms k s)) (\<lambda>l.
     rbind (calc_choice_flags calc l (flags (syms k s), k)) (\<lambda>(fl, k).
       pick_choice calc s (if SYMBOL_DEF_USER \<in> fl then k else clear_flag s SYMBOL_DEF_USER k)))"

text \<open>\<open>set_all_choice_values\<close> of confdata.c.\<close>

definition set_all_choice_values :: "symref \<Rightarrow> kconf \<Rightarrow> kconf res" where
  "set_all_choice_values cs k =
     rbind (choice_values (syms k cs)) (\<lambda>l.
       (let k = fold (\<lambda>s k. if sym_has_value (syms k s) then k
                            else upd s (\<lambda>y. y\<lparr>def_tri := (def_tri y)(S_DEF_USER := No)\<rparr>) k) l k
        in Inr (clear_flag cs SYMBOL_NEED_SET_CHOICE_VALUES
                 (clear_flag cs SYMBOL_VALID (set_flag cs SYMBOL_DEF_USER k)))))"

section \<open>The value of a symbol\<close>

definition calc_opt :: "calc \<Rightarrow> symref option \<Rightarrow> kconf \<Rightarrow> kconf res" where
  "calc_opt calc s k = (case s of None \<Rightarrow> Inr k | Some c \<Rightarrow> calc c k)"

text \<open>A choice value whose choice still has to be set calculates the choice first.\<close>

definition calc_choice_first :: "calc \<Rightarrow> symref \<Rightarrow> kconf \<Rightarrow> kconf res" where
  "calc_choice_first calc s k =
     (if sym_is_choice_value (syms k s) \<and> SYMBOL_NEED_SET_CHOICE_VALUES \<in> flags (syms k s) then
        (let k = clear_flag s SYMBOL_NEED_SET_CHOICE_VALUES k in
         rbind (choice_of (syms k s)) (\<lambda>c. calc_opt calc c k))
      else Inr k)"

text \<open>The default of a bool or tristate that is not taken from the user, and \<open>imply\<close>.\<close>

definition calc_default_tri :: "calc \<Rightarrow> symref \<Rightarrow> kconf \<Rightarrow> (tristate \<times> kconf) res" where
  "calc_default_tri calc s k =
     rbind (sym_get_default_prop calc s k) (\<lambda>(p, k).
     rbind (case p of
              None \<Rightarrow> Inr (No, k)
            | Some i \<Rightarrow>
                (let k = set_flag s SYMBOL_WRITE k in
                 rbind (payload_calc_value calc (prop_expr (props (syms k s) ! i)) k) (\<lambda>(t, k).
                   Inr (EXPR_AND t (vis_tri (props (syms k s) ! i)), k)))) (\<lambda>(t, k).
       (let y = syms k s in
        if implied_tri y \<noteq> No then
          Inr (EXPR_AND (EXPR_OR t (implied_tri y)) (dir_dep_tri y), set_flag s SYMBOL_WRITE k)
        else Inr (t, k))))"

text \<open>The value before reverse dependencies are applied.\<close>

definition calc_base_tri :: "calc \<Rightarrow> symref \<Rightarrow> kconf \<Rightarrow> (tristate \<times> kconf) res" where
  "calc_base_tri calc s k =
     (let y = syms k s in
      if visible y \<noteq> No \<and> sym_has_value y then
        Inr (EXPR_AND (def_tri y S_DEF_USER) (visible y), k)
      else
        (let k = (if rev_dep_tri y \<noteq> No then set_flag s SYMBOL_WRITE k else k) in
         if sym_is_choice y then Inr (No, k) else calc_default_tri calc s k))"

definition apply_rev_dep :: "symbol \<Rightarrow> tristate \<Rightarrow> tristate" where
  "apply_rev_dep y t =
     (if dir_dep_tri y = No \<and> rev_dep_tri y \<noteq> No then No else EXPR_OR t (rev_dep_tri y))"

definition calc_newval_tri :: "calc \<Rightarrow> symref \<Rightarrow> kconf \<Rightarrow> (tristate \<times> kconf) res" where
  "calc_newval_tri calc s k =
     rbind
       (if sym_is_choice_value (syms k s) \<and> visible (syms k s) = Yes then
          rbind (choice_of (syms k s)) (\<lambda>c.
            case c of
              None \<Rightarrow> Inl Bad_access
            | Some cs \<Rightarrow> Inr (if curr_val (syms k cs) = VSym s then Yes else No, k))
        else
          rbind (calc_base_tri calc s k) (\<lambda>(t, k). Inr (apply_rev_dep (syms k s) t, k)))
       (\<lambda>(t, k). Inr (if t = Mod \<and> sym_get_type k s = S_BOOLEAN then Yes else t, k))"

definition calc_newval_str :: "calc \<Rightarrow> symref \<Rightarrow> kconf \<Rightarrow> (sval \<times> kconf) res" where
  "calc_newval_str calc s k =
     (let y = syms k s in
      if visible y \<noteq> No \<and> sym_has_value y then Inr (def_val y S_DEF_USER, k)
      else
        rbind (sym_get_default_prop calc s k) (\<lambda>(p, k).
        case p of
          None \<Rightarrow> Inr (VStr [], k)
        | Some i \<Rightarrow>
            rbind (prop_get_symbol (props (syms k s) ! i)) (\<lambda>d.
            case d of
              None \<Rightarrow> Inr (VStr [], k)
            | Some ds \<Rightarrow>
                rbind (calc ds (set_flag s SYMBOL_WRITE k)) (\<lambda>k. Inr (curr_val (syms k ds), k)))))"

text \<open>\<open>newval\<close> of the two groups of types; \<open>symbol_no.curr.val\<close> and \<open>symbol_empty.curr.val\<close> are literals.\<close>

definition calc_newval :: "calc \<Rightarrow> symref \<Rightarrow> kconf \<Rightarrow> ((sval \<times> tristate) \<times> kconf) res" where
  "calc_newval calc s k =
     (let ty = sym_get_type k s in
      if ty = S_BOOLEAN \<or> ty = S_TRISTATE then
        rbind (calc_newval_tri calc s k) (\<lambda>(t, k). Inr ((VStr ''n'', t), k))
      else rbind (calc_newval_str calc s k) (\<lambda>(v, k). Inr ((v, No), k)))"

definition store_newval :: "calc \<Rightarrow> symref \<Rightarrow> sval \<times> tristate \<Rightarrow> kconf \<Rightarrow> kconf res" where
  "store_newval calc s nv k =
     (let k = set_curr s (fst nv) (snd nv) k in
      rbind
        (if sym_is_choice (syms k s) \<and> snd nv = Yes then
           rbind (sym_calc_choice calc s k) (\<lambda>(d, k).
             Inr (upd s (\<lambda>y. y\<lparr>curr_val := (case d of None \<Rightarrow> VNull | Some c \<Rightarrow> VSym c)\<rparr>) k))
         else Inr k)
        (sym_validate_range calc s))"

definition note_change :: "symref \<Rightarrow> sval \<times> tristate \<Rightarrow> kconf \<Rightarrow> kconf" where
  "note_change s old k =
     (if old \<noteq> (curr_val (syms k s), curr_tri (syms k s)) then
        (let k = sym_set_changed s k in
         if modules_sym k = s then
           (let k = sym_set_all_changed k in k\<lparr>modules_val := curr_tri (syms k s)\<rparr>)
         else k)
      else k)"

definition mark_choice_values :: "symref \<Rightarrow> kconf \<Rightarrow> kconf res" where
  "mark_choice_values s k =
     (if sym_is_choice (syms k s) then
        rbind (choice_values (syms k s)) (\<lambda>l.
          Inr (fold (\<lambda>c k.
            (let k = (if SYMBOL_WRITE \<in> flags (syms k s) \<and> visible (syms k c) \<noteq> No
                      then set_flag c SYMBOL_WRITE k else k)
             in if SYMBOL_CHANGED \<in> flags (syms k s) then sym_set_changed c k else k)) l k))
      else Inr k)"

definition calc_finish :: "symref \<Rightarrow> sval \<times> tristate \<Rightarrow> kconf \<Rightarrow> kconf res" where
  "calc_finish s old k =
     rbind (mark_choice_values s (note_change s old k)) (\<lambda>k.
       (let k = (if SYMBOL_NO_WRITE \<in> flags (syms k s) then clear_flag s SYMBOL_WRITE k else k) in
        if SYMBOL_NEED_SET_CHOICE_VALUES \<in> flags (syms k s) then set_all_choice_values s k else Inr k))"

text \<open>The value a symbol has while it is calculated, in case of a recursive use.\<close>

definition initial_newval :: "symbol_type \<Rightarrow> sval" where
  "initial_newval ty = VStr (if ty = S_BOOLEAN \<or> ty = S_TRISTATE then ''n'' else [])"

definition calc_typed :: "calc \<Rightarrow> symref \<Rightarrow> kconf \<Rightarrow> kconf res" where
  "calc_typed calc s k =
     (let old = (curr_val (syms k s), curr_tri (syms k s)) in
      rbind (sym_calc_visibility calc s (clear_flag s SYMBOL_WRITE k)) (\<lambda>k.
        (let k = (if visible (syms k s) \<noteq> No then set_flag s SYMBOL_WRITE k else k);
             k = set_curr s (initial_newval (sym_type (syms k s))) No k
         in rbind (calc_newval calc s k) (\<lambda>(nv, k).
            rbind (store_newval calc s nv k) (calc_finish s old)))))"

definition calc_body :: "calc \<Rightarrow> symref \<Rightarrow> kconf \<Rightarrow> kconf res" where
  "calc_body calc s k =
     (if SYMBOL_VALID \<in> flags (syms k s) then Inr k
      else rbind (calc_choice_first calc s k) (\<lambda>k.
        (let k = set_flag s SYMBOL_VALID k; y = syms k s in
         if sym_type y = S_UNKNOWN then
           Inr (set_curr s (case sym_name y of None \<Rightarrow> VNull | Some nm \<Rightarrow> VStr nm) No k)
         else calc_typed calc s k)))"

primrec sym_calc_value :: "nat \<Rightarrow> calc" where
  "sym_calc_value 0 s k = Inl Out_of_fuel"
| "sym_calc_value (Suc n) s k = calc_body (sym_calc_value n) s k"

end
