(* ===== verification/Kconfig_Calc.thy ===== *)
theory Kconfig_Calc
  imports Kconfig_Symbol
begin

text \<open>
  What calculating a symbol changes and that it terminates. \<open>evolves A k k'\<close>
  relates the states before and after: the structure of every symbol is kept,
  \<open>SYMBOL_NEED_SET_CHOICE_VALUES\<close> is only ever cleared, \<open>SYMBOL_VALID\<close> is only
  cleared together with it, and a symbol outside \<open>A\<close> that was calculated keeps its
  value. The weight of a configuration, one for each symbol still to calculate and
  two for each pending choice, never grows and drops with every nested activation,
  so it bounds the depth of the recursion.
\<close>

section \<open>Structure\<close>

definition prop_static :: "property \<Rightarrow> prop_type \<times> string option \<times> expr option \<times> payload option \<times> nat option" where
  "prop_static p = (prop_type p, prop_text p, vis_expr p, prop_expr p, prop_menu p)"

definition calc_flags :: "symflag set" where
  "calc_flags = {SYMBOL_VALID, SYMBOL_WRITE, SYMBOL_CHANGED, SYMBOL_DEF_USER, SYMBOL_NEED_SET_CHOICE_VALUES}"

lemma calc_flags_mem [simp]:
  "SYMBOL_VALID \<in> calc_flags" "SYMBOL_WRITE \<in> calc_flags" "SYMBOL_CHANGED \<in> calc_flags"
  "SYMBOL_DEF_USER \<in> calc_flags" "SYMBOL_NEED_SET_CHOICE_VALUES \<in> calc_flags"
  by (simp_all add: calc_flags_def)

lemma calc_flags_update [simp]:
  "f \<in> calc_flags \<Longrightarrow> insert f F - calc_flags = F - calc_flags"
  "f \<in> calc_flags \<Longrightarrow> F - {f} - calc_flags = F - calc_flags"
  by auto

definition same_struct :: "symbol \<Rightarrow> symbol \<Rightarrow> bool" where
  "same_struct y z \<longleftrightarrow> sym_name z = sym_name y \<and> sym_type z = sym_type y \<and> def_val z = def_val y \<and>
     dir_dep_expr z = dir_dep_expr y \<and> rev_dep_expr z = rev_dep_expr y \<and> implied_expr z = implied_expr y \<and>
     map prop_static (props z) = map prop_static (props y) \<and> flags z - calc_flags = flags y - calc_flags"

lemma same_struct_refl [simp]: "same_struct y y"
  by (simp add: same_struct_def)

lemma same_struct_trans: "same_struct x y \<Longrightarrow> same_struct y z \<Longrightarrow> same_struct x z"
  by (simp add: same_struct_def)

lemma same_struct_flag:
  assumes "same_struct y z" "f \<notin> calc_flags"
  shows "f \<in> flags z \<longleftrightarrow> f \<in> flags y"
  using assms by (auto simp: same_struct_def)

lemma same_struct_choice [simp]:
  assumes "same_struct y z"
  shows "sym_is_choice z = sym_is_choice y" and "sym_is_choice_value z = sym_is_choice_value y"
  using same_struct_flag [OF assms] by (auto simp: sym_is_choice_def sym_is_choice_value_def calc_flags_def)

lemma same_struct_props:
  assumes "same_struct y z"
  shows "length (props z) = length (props y)"
    and "i < length (props y) \<Longrightarrow> prop_static (props z ! i) = prop_static (props y ! i)"
proof -
  from assms have m: "map prop_static (props z) = map prop_static (props y)" by (simp add: same_struct_def)
  from map_eq_imp_length_eq [OF this] show l: "length (props z) = length (props y)" .
  show "i < length (props y) \<Longrightarrow> prop_static (props z ! i) = prop_static (props y ! i)"
    using m l by (metis nth_map)
qed

lemma find_map_static:
  assumes "map prop_static ps = map prop_static qs"
  shows "map_option prop_static (find (\<lambda>p. prop_type p = t) ps) =
         map_option prop_static (find (\<lambda>p. prop_type p = t) qs)"
  using assms by (induction ps qs rule: list_induct2') (auto simp: prop_static_def)

lemma choice_values_static:
  assumes "same_struct y z"
  shows "choice_values z = choice_values y"
proof -
  have "map_option prop_static (sym_get_choice_prop z) = map_option prop_static (sym_get_choice_prop y)"
    unfolding sym_get_choice_prop_def using assms by (intro find_map_static) (simp add: same_struct_def)
  then show ?thesis
    by (cases "sym_get_choice_prop z"; cases "sym_get_choice_prop y")
       (auto simp: choice_values_def prop_static_def)
qed

fun expr_syms :: "expr \<Rightarrow> symref set" where
  "expr_syms (E_SYMBOL s) = {s}"
| "expr_syms (E_NOT e) = expr_syms e"
| "expr_syms (E_BIN j l r) = expr_syms l \<union> expr_syms r"
| "expr_syms (E_COMP c a b) = {a, b}"

definition ptr_syms :: "expr option \<Rightarrow> symref set" where
  "ptr_syms e = (case e of None \<Rightarrow> {} | Some x \<Rightarrow> expr_syms x)"

definition payload_syms :: "payload option \<Rightarrow> symref set" where
  "payload_syms p = (case p of None \<Rightarrow> {} | Some (PL_EXPR e) \<Rightarrow> expr_syms e
     | Some (PL_LIST l) \<Rightarrow> set l | Some (PL_RANGE l r) \<Rightarrow> {l, r})"

definition prop_syms :: "property \<Rightarrow> symref set" where
  "prop_syms p = ptr_syms (vis_expr p) \<union> payload_syms (prop_expr p)"

definition sym_syms :: "symbol \<Rightarrow> symref set" where
  "sym_syms y = ptr_syms (dir_dep_expr y) \<union> ptr_syms (rev_dep_expr y) \<union> ptr_syms (implied_expr y) \<union>
     (\<Union>p \<in> set (props y). prop_syms p)"

lemma sym_syms_static: "same_struct y z \<Longrightarrow> sym_syms z = sym_syms y"
proof -
  assume s: "same_struct y z"
  define g where "g = (\<lambda>(a :: prop_type, b :: string option, v, e, m :: nat option). ptr_syms v \<union> payload_syms e)"
  have "prop_syms p = g (prop_static p)" for p
    by (simp add: prop_syms_def prop_static_def g_def)
  then have "(\<Union>p \<in> set ps. prop_syms p) = \<Union> (g ` set (map prop_static ps))" for ps
    by simp
  with s show ?thesis by (simp only: sym_syms_def same_struct_def)
qed

text \<open>
  \<open>U\<close> is a finite set of symbols closed under reference, and the symbols of a
  choice are marked as choice values: what the parser and \<open>menu_finalize\<close> leave.
\<close>

definition closed :: "symref set \<Rightarrow> kconf \<Rightarrow> bool" where
  "closed U k \<longleftrightarrow> finite U \<and> modules_sym k \<in> U \<and> (\<forall>s \<in> U. sym_syms (syms k s) \<subseteq> U) \<and>
     (\<forall>s \<in> U. \<forall>l. choice_values (syms k s) = Inr l \<longrightarrow> (\<forall>c \<in> set l. sym_is_choice_value (syms k c)))"

section \<open>Evolution\<close>

definition VALID :: "symbol \<Rightarrow> bool" where
  "VALID y \<longleftrightarrow> SYMBOL_VALID \<in> flags y"

definition NEED :: "symbol \<Rightarrow> bool" where
  "NEED y \<longleftrightarrow> SYMBOL_NEED_SET_CHOICE_VALUES \<in> flags y"

text \<open>What holds of every symbol, whoever changes it.\<close>

definition sym_step :: "symbol \<Rightarrow> symbol \<Rightarrow> bool" where
  "sym_step y z \<longleftrightarrow> same_struct y z \<and> (NEED z \<longrightarrow> NEED y) \<and> (VALID y \<longrightarrow> VALID z \<or> NEED y \<and> \<not> NEED z) \<and>
     (sym_type y = S_BOOLEAN \<and> curr_tri y \<noteq> Mod \<longrightarrow> curr_tri z \<noteq> Mod)"

text \<open>What also holds of the symbols that are not being calculated.\<close>

definition sym_frame :: "symbol \<Rightarrow> symbol \<Rightarrow> bool" where
  "sym_frame y z \<longleftrightarrow> (VALID y \<and> \<not> NEED y \<longrightarrow>
     curr_val z = curr_val y \<and> curr_tri z = curr_tri y \<and>
     (\<not> sym_is_choice_value y \<longrightarrow> z\<lparr>flags := flags z - {SYMBOL_CHANGED}\<rparr> = y\<lparr>flags := flags y - {SYMBOL_CHANGED}\<rparr>))"

definition evolves :: "symref set \<Rightarrow> kconf \<Rightarrow> kconf \<Rightarrow> bool" where
  "evolves A k k' \<longleftrightarrow> all_syms k' = all_syms k \<and> modules_sym k' = modules_sym k \<and> conf_changed k' = conf_changed k \<and>
     (\<forall>s. sym_step (syms k s) (syms k' s)) \<and> (\<forall>s. s \<notin> A \<longrightarrow> sym_frame (syms k s) (syms k' s))"

lemma sym_step_refl [simp]: "sym_step y y"
  by (simp add: sym_step_def)

lemma sym_step_trans: "sym_step x y \<Longrightarrow> sym_step y z \<Longrightarrow> sym_step x z"
  by (auto simp: sym_step_def intro: same_struct_trans) (auto simp: same_struct_def)

lemma sym_frame_refl [simp]: "sym_frame y y"
  by (simp add: sym_frame_def)

lemma sym_frame_trans:
  assumes "sym_step x y" "sym_frame x y" "sym_frame y z"
  shows "sym_frame x z"
  using assms by (auto simp: sym_step_def sym_frame_def)

lemma evolves_refl [simp]: "evolves A k k"
  by (simp add: evolves_def)

lemma evolves_trans:
  assumes "evolves A k k'" "evolves A k' k''"
  shows "evolves A k k''"
  using assms unfolding evolves_def by (metis sym_step_trans sym_frame_trans)

lemma evolves_mono: "evolves A k k' \<Longrightarrow> A \<subseteq> B \<Longrightarrow> evolves B k k'"
  by (auto simp: evolves_def)

lemma evolves_struct: "evolves A k k' \<Longrightarrow> same_struct (syms k s) (syms k' s)"
  by (simp add: evolves_def sym_step_def)

lemma evolves_static:
  assumes "evolves A k k'"
  shows "modules_sym k' = modules_sym k" and "all_syms k' = all_syms k" and "conf_changed k' = conf_changed k"
    and "sym_type (syms k' s) = sym_type (syms k s)" and "sym_name (syms k' s) = sym_name (syms k s)"
    and "def_val (syms k' s) = def_val (syms k s)"
    and "sym_is_choice (syms k' s) = sym_is_choice (syms k s)"
    and "sym_is_choice_value (syms k' s) = sym_is_choice_value (syms k s)"
    and "length (props (syms k' s)) = length (props (syms k s))"
    and "choice_values (syms k' s) = choice_values (syms k s)"
  using evolves_struct [OF assms, of s] assms
  by (simp_all add: evolves_def same_struct_props choice_values_static) (simp_all add: same_struct_def)

lemma evolves_closed: "evolves A k k' \<Longrightarrow> closed U k \<Longrightarrow> closed U k'"
  by (simp add: closed_def evolves_static sym_syms_static [OF evolves_struct])

text \<open>Dropping the symbol that was calculated from the exceptions, if it was not valid before.\<close>

lemma evolves_drop:
  assumes "evolves {s} k k'" "\<not> VALID (syms k s)"
  shows "evolves {} k k'"
  using assms by (auto simp: evolves_def sym_frame_def)

lemma syms_upd [simp]: "syms (upd s f k) t = (if t = s then f (syms k s) else syms k t)"
  by (simp add: upd_def)

lemma upd_rest [simp]:
  "all_syms (upd s f k) = all_syms k" "modules_sym (upd s f k) = modules_sym k"
  "conf_changed (upd s f k) = conf_changed k" "modules_val (upd s f k) = modules_val k"
  "menu_changed (upd s f k) = menu_changed k"
  by (simp_all add: upd_def)

text \<open>An update of one symbol: one in \<open>A\<close>, or a choice value whose value is kept.\<close>

lemma evolves_upd:
  assumes "sym_step (syms k s) (f (syms k s))"
    and "s \<in> A \<or> sym_frame (syms k s) (f (syms k s))"
  shows "evolves A k (upd s f k)"
  using assms by (auto simp: evolves_def)

lemma evolves_marks [simp]:
  "evolves A k (k'\<lparr>menu_changed := m\<rparr>) = evolves A k k'"
  "evolves A k (k'\<lparr>modules_val := v\<rparr>) = evolves A k k'"
  by (simp_all add: evolves_def)

lemma sym_step_insert:
  "f \<in> calc_flags \<Longrightarrow> f \<noteq> SYMBOL_NEED_SET_CHOICE_VALUES \<Longrightarrow> sym_step y (y\<lparr>flags := insert f (flags y)\<rparr>)"
  by (simp add: sym_step_def same_struct_def VALID_def NEED_def)

lemma sym_step_remove:
  "f \<in> calc_flags \<Longrightarrow> f \<noteq> SYMBOL_VALID \<Longrightarrow> sym_step y (y\<lparr>flags := flags y - {f}\<rparr>)"
  by (simp add: sym_step_def same_struct_def VALID_def NEED_def)

lemma sym_step_visible: "sym_step y (y\<lparr>visible := t\<rparr>)"
  by (simp add: sym_step_def same_struct_def VALID_def NEED_def)

lemma sym_step_dep: "sym_step y (set_dep_tri d t y)"
  by (cases d) (simp_all add: set_dep_tri_def sym_step_def same_struct_def VALID_def NEED_def)

lemma sym_step_curr_val: "sym_step y (y\<lparr>curr_val := v\<rparr>)"
  by (simp add: sym_step_def same_struct_def VALID_def NEED_def)

lemma sym_step_curr:
  "(sym_type y = S_BOOLEAN \<longrightarrow> t \<noteq> Mod) \<Longrightarrow> sym_step y (y\<lparr>curr_val := v, curr_tri := t\<rparr>)"
  "(sym_type y = S_BOOLEAN \<longrightarrow> t \<noteq> Mod) \<Longrightarrow> sym_step y (y\<lparr>curr_tri := t\<rparr>)"
  by (simp_all add: sym_step_def same_struct_def VALID_def NEED_def)

lemma sym_step_def_tri: "sym_step y (y\<lparr>def_tri := d\<rparr>)"
  by (simp add: sym_step_def same_struct_def VALID_def NEED_def)

lemma map_update_same: "f x = f (xs ! i) \<Longrightarrow> map f (xs[i := x]) = map f xs"
  by (metis list_update_beyond list_update_id map_update not_le)

lemma sym_step_prop_vis: "sym_step y (y\<lparr>props := (props y)[i := (props y ! i)\<lparr>vis_tri := t\<rparr>]\<rparr>)"
proof -
  have "map prop_static ((props y)[i := (props y ! i)\<lparr>vis_tri := t\<rparr>]) = map prop_static (props y)"
    by (rule map_update_same) (simp add: prop_static_def)
  then show ?thesis by (simp add: sym_step_def same_struct_def VALID_def NEED_def)
qed

lemmas sym_steps = sym_step_insert sym_step_remove sym_step_visible sym_step_dep sym_step_curr_val
  sym_step_curr sym_step_def_tri sym_step_prop_vis

text \<open>A choice value may be changed by its choice, as long as its value is kept.\<close>

lemma sym_frame_choiceval:
  "sym_is_choice_value y \<Longrightarrow> curr_val z = curr_val y \<Longrightarrow> curr_tri z = curr_tri y \<Longrightarrow> sym_frame y z"
  by (simp add: sym_frame_def)

lemma sym_frame_changed: "sym_frame y (y\<lparr>flags := insert SYMBOL_CHANGED (flags y)\<rparr>)"
  by (simp add: sym_frame_def)

lemma evolves_changed: "evolves A k (sym_set_changed c k)"
  unfolding sym_set_changed_def set_flag_def evolves_marks
  by (intro evolves_upd sym_step_insert disjI2 sym_frame_changed) simp_all

lemma evolves_fold:
  assumes "\<And>x k'. x \<in> set xs \<Longrightarrow> evolves A k k' \<Longrightarrow> evolves A k' (f x k')" "evolves A k k1"
  shows "evolves A k (fold f xs k1)"
  using assms
proof (induction xs arbitrary: k1)
  case (Cons x xs)
  then have "evolves A k (f x k1)" by (meson evolves_trans list.set_intros(1))
  then show ?case using Cons by simp
qed simp

lemma evolves_all_changed: "evolves A k (sym_set_all_changed k)"
  unfolding sym_set_all_changed_def by (rule evolves_fold) (auto intro: evolves_changed)

section \<open>The weight of a configuration\<close>

definition sym_weight :: "symbol \<Rightarrow> nat" where
  "sym_weight y = (if VALID y then 0 else 1) + (if NEED y then 2 else 0)"

definition pending :: "symref set \<Rightarrow> kconf \<Rightarrow> nat" where
  "pending U k = (\<Sum>s \<in> U. sym_weight (syms k s))"

lemma sym_weight_step: "sym_step y z \<Longrightarrow> sym_weight z \<le> sym_weight y"
  by (auto simp: sym_step_def sym_weight_def)

lemma pending_mono: "evolves A k k' \<Longrightarrow> pending U k' \<le> pending U k"
  unfolding pending_def by (intro sum_mono sym_weight_step) (simp add: evolves_def)

lemma pending_upd:
  assumes "finite U" "s \<in> U" "sym_weight (f (syms k s)) < sym_weight (syms k s)"
  shows "pending U (upd s f k) < pending U k"
  unfolding pending_def using assms
  by (intro sum_strict_mono_ex1) auto

section \<open>Clients of the recursive call\<close>

text \<open>
  The functions \<open>sym_calc_value\<close> is made of, over any recursive call that keeps
  its promise on configurations lighter than \<open>n\<close>. \<open>k0\<close> is the state in which the
  symbols \<open>A\<close> started to be calculated; \<open>St\<close> is what holds of every later state.
\<close>

locale calc_client =
  fixes calc :: calc and n :: nat and U :: "symref set" and A :: "symref set" and k0 :: kconf
  assumes calc_law: "\<And>s k. s \<in> U \<Longrightarrow> closed U k \<Longrightarrow> pending U k < n \<Longrightarrow> wp {Bad_access} (calc s k) (evolves {} k)"
begin

definition St :: "kconf \<Rightarrow> bool" where
  "St k \<longleftrightarrow> closed U k0 \<and> pending U k0 < n \<and> evolves A k0 k"

lemma St_step: "St k \<Longrightarrow> evolves A k k' \<Longrightarrow> St k'"
  unfolding St_def by (blast intro: evolves_trans)

lemma St_closed: "St k \<Longrightarrow> closed U k"
  unfolding St_def by (blast intro: evolves_closed)

lemma St_calc: "s \<in> U \<Longrightarrow> St k \<Longrightarrow> wp {Bad_access} (calc s k) St"
proof -
  assume s: "s \<in> U" and k: "St k"
  from k have "pending U k < n"
    unfolding St_def using pending_mono order.strict_trans1 by blast
  from calc_law [OF s St_closed [OF k] this] show ?thesis
    by (rule wp_mono) (auto intro: St_step [OF k] evolves_mono)
qed

lemma St_upd:
  assumes "St k" "sym_step (syms k s) (f (syms k s))"
    and "s \<in> A \<or> sym_is_choice_value (syms k s) \<and>
      curr_val (f (syms k s)) = curr_val (syms k s) \<and> curr_tri (f (syms k s)) = curr_tri (syms k s)"
  shows "St (upd s f k)"
  using assms by (intro St_step [OF assms(1)] evolves_upd) (auto intro: sym_frame_choiceval)

lemma St_changed: "St k \<Longrightarrow> St (sym_set_changed c k)"
  by (rule St_step [OF _ evolves_changed])

lemma St_all_changed: "St k \<Longrightarrow> St (sym_set_all_changed k)"
  by (rule St_step [OF _ evolves_all_changed])

lemma St_modules_val: "St k \<Longrightarrow> St (k\<lparr>modules_val := v\<rparr>)"
  by (simp add: St_def)

lemma St_props: "St k \<Longrightarrow> length (props (syms k s)) = length (props (syms k0 s))"
  unfolding St_def by (blast intro: evolves_static)

lemma St_choiceval: "St k \<Longrightarrow> sym_is_choice_value (syms k s) = sym_is_choice_value (syms k0 s)"
  unfolding St_def using evolves_static(8) by blast

lemma closed_props:
  assumes "St k" "s \<in> U" "i < length (props (syms k s))"
  shows "ptr_syms (vis_expr (props (syms k s) ! i)) \<subseteq> U" and "payload_syms (prop_expr (props (syms k s) ! i)) \<subseteq> U"
  using St_closed [OF assms(1)] assms(2,3) nth_mem [OF assms(3)]
  unfolding closed_def sym_syms_def prop_syms_def by blast+

lemma closed_deps: "St k \<Longrightarrow> s \<in> U \<Longrightarrow> ptr_syms (dep_expr d (syms k s)) \<subseteq> U"
  using St_closed [of k] unfolding closed_def sym_syms_def by (cases d) (auto simp: dep_expr_def)

lemma closed_modules: "St k \<Longrightarrow> modules_sym k \<in> U"
  using St_closed [of k] by (simp add: closed_def)

lemma choice_values_members:
  assumes "choice_values (syms k s) = Inr l" "St k" "s \<in> U" "c \<in> set l"
  shows "c \<in> U" and "sym_is_choice_value (syms k c)"
proof -
  from assms(1) obtain p where p: "sym_get_choice_prop (syms k s) = Some p"
    and l: "prop_expr p = Some (PL_LIST l)"
    using assms(4) by (auto simp: choice_values_def split: option.splits payload.splits expr.splits)
  from p have "p \<in> set (props (syms k s))"
    by (auto simp: sym_get_choice_prop_def find_Some_iff)
  with l have "set l \<subseteq> sym_syms (syms k s)"
    by (force simp: sym_syms_def prop_syms_def payload_syms_def)
  with St_closed [OF assms(2)] assms show "c \<in> U" and "sym_is_choice_value (syms k c)"
    by (auto simp: closed_def)
qed

end

end
