(* ===== verification/Kconfig_Calc_Steps.thy ===== *)
theory Kconfig_Calc_Steps
  imports Kconfig_Calc
begin

text \<open>
  Every function below \<open>sym_calc_value\<close> keeps the relation to the starting state
  and returns, given a recursive call that does: the lemmas of the client locale,
  in the order of the source.
\<close>

lemma wp_rbind_pair:
  assumes "wp A r (\<lambda>(x, k). P k)" and "\<And>x k. P k \<Longrightarrow> wp A (f (x, k)) Q"
  shows "wp A (rbind r f) Q"
  using assms by (cases r) auto

lemma wp_rbind_any: "(\<And>e. r = Inl e \<Longrightarrow> e \<in> A) \<Longrightarrow> (\<And>x. r = Inr x \<Longrightarrow> wp A (f x) Q) \<Longrightarrow> wp A (rbind r f) Q"
  by (cases r) auto

lemma choice_of_stop: "choice_of y = Inl e \<Longrightarrow> e = Bad_access"
  by (auto simp: choice_of_def prop_get_symbol_def
      split: option.splits payload.splits expr.splits list.splits)

lemma prop_get_symbol_stop: "prop_get_symbol p = Inl e \<Longrightarrow> e = Bad_access"
  by (auto simp: prop_get_symbol_def split: option.splits payload.splits expr.splits list.splits)

lemma prop_get_symbol_syms: "prop_get_symbol p = Inr (Some d) \<Longrightarrow> d \<in> payload_syms (prop_expr p)"
  by (auto simp: prop_get_symbol_def payload_syms_def
      split: option.splits payload.splits expr.splits list.splits)

lemma choice_values_stop: "choice_values y = Inl e \<Longrightarrow> e = Bad_access"
  by (auto simp: choice_values_def split: option.splits payload.splits expr.splits)

lemma read_string_stop: "read_string v = Inl e \<Longrightarrow> e = Bad_access"
  by (auto simp: read_string_def split: sval.splits)

lemma range_bounds_stop: "range_bounds p = Inl e \<Longrightarrow> e = Bad_access"
  by (auto simp: range_bounds_def split: option.splits payload.splits)

lemma range_bounds_syms: "range_bounds p = Inr (l, r) \<Longrightarrow> l \<in> payload_syms (prop_expr p) \<and> r \<in> payload_syms (prop_expr p)"
  by (auto simp: range_bounds_def payload_syms_def split: option.splits payload.splits)

lemma user_choice_stop: "user_choice v = Inl e \<Longrightarrow> e = Bad_access"
  by (auto simp: user_choice_def split: sval.splits)

lemma choice_of_syms:
  assumes "choice_of y = Inr (Some c)"
  shows "c \<in> sym_syms y"
proof -
  from assms obtain p where p: "sym_get_choice_prop y = Some p" "prop_get_symbol p = Inr (Some c)"
    by (auto simp: choice_of_def split: option.splits)
  then have "p \<in> set (props y)" by (auto simp: sym_get_choice_prop_def find_Some_iff)
  with prop_get_symbol_syms [OF p(2)] show ?thesis by (auto simp: sym_syms_def prop_syms_def)
qed

lemmas stops = choice_of_stop prop_get_symbol_stop choice_values_stop read_string_stop
  range_bounds_stop user_choice_stop

lemma sym_step_set_all:
  "NEED y \<Longrightarrow> sym_step y
     (y\<lparr>flags := insert SYMBOL_DEF_USER (flags y) - {SYMBOL_VALID} - {SYMBOL_NEED_SET_CHOICE_VALUES}\<rparr>)"
  by (simp add: sym_step_def same_struct_def NEED_def)

context calc_client
begin

lemma wp_string_value:
  assumes "St k"
  shows "wp {Bad_access} (sym_get_string_value calc s k) (\<lambda>(v, k). St k)"
  using assms St_calc [OF closed_modules [OF assms] assms]
  by (auto simp: sym_get_string_value_def Let_def split: tristate.splits intro!: wp_rbindI)

lemma wp_compare:
  assumes "St k" "a \<in> U" "b \<in> U"
  shows "wp {Bad_access} (calc_compare calc a b k) (\<lambda>(v, k). St k)"
  unfolding calc_compare_def
proof (rule wp_rbindI [OF St_calc [OF assms(2,1)]], rule wp_rbindI [OF St_calc [OF assms(3)]], assumption)
  fix k
  assume k: "St k"
  show "wp {Bad_access} (rbind (sym_get_string_value calc a k) (\<lambda>(v1, k).
      rbind (sym_get_string_value calc b k) (\<lambda>(v2, k).
      rbind (read_string v1) (\<lambda>str1. rbind (read_string v2) (\<lambda>str2.
        Inr (compare_strings str1 (sym_type (syms k a)) str2 (sym_type (syms k b)), k)))))) (\<lambda>(v, k). St k)"
    by (rule wp_rbind_pair [OF wp_string_value [OF k]], simp,
        rule wp_rbind_pair [OF wp_string_value], assumption) (auto intro!: wp_rbind_any dest: stops)
qed

lemma wp_expr_value:
  assumes "expr_syms e \<subseteq> U" "St k"
  shows "wp {Bad_access} (expr_calc_value calc e k) (\<lambda>(t, k). St k)"
  using assms
proof (induction e arbitrary: k)
  case (E_SYMBOL s)
  then show ?case by (auto intro: wp_rbindI [OF St_calc])
next
  case (E_NOT e)
  show ?case using E_NOT by (auto intro: wp_rbind_pair [OF E_NOT.IH])
next
  case (E_BIN j l r)
  show ?case using E_BIN.prems
    by (auto intro!: wp_rbind_pair [OF E_BIN.IH(1)] intro: wp_rbind_pair [OF E_BIN.IH(2)])
next
  case (E_COMP c a b)
  then show ?case by (auto intro: wp_rbind_pair [OF wp_compare])
qed

lemma wp_expr_ptr:
  "ptr_syms e \<subseteq> U \<Longrightarrow> St k \<Longrightarrow> wp {Bad_access} (expr_calc_ptr calc e k) (\<lambda>(t, k). St k)"
  by (auto simp: expr_calc_ptr_def ptr_syms_def wp_expr_value split: option.splits)

lemma wp_payload_value:
  "payload_syms e \<subseteq> U \<Longrightarrow> St k \<Longrightarrow> wp {Bad_access} (payload_calc_value calc e k) (\<lambda>(t, k). St k)"
  by (auto simp: payload_calc_value_def payload_syms_def wp_expr_value split: option.splits payload.splits)

text \<open>Changes of the symbol being calculated, or of a choice value.\<close>

definition mine :: "symref \<Rightarrow> bool" where
  "mine s \<longleftrightarrow> s \<in> U \<and> (s \<in> A \<or> sym_is_choice_value (syms k0 s))"

lemma St_prop_vis: "St k \<Longrightarrow> mine s \<Longrightarrow> St (set_prop_vis s i t k)"
  unfolding set_prop_vis_def mine_def by (rule St_upd) (auto intro: sym_steps simp: St_choiceval)

lemma St_set_flag:
  "St k \<Longrightarrow> mine s \<Longrightarrow> f \<in> calc_flags \<Longrightarrow> f \<noteq> SYMBOL_NEED_SET_CHOICE_VALUES \<Longrightarrow> St (set_flag s f k)"
  unfolding set_flag_def mine_def by (rule St_upd) (auto intro: sym_steps simp: St_choiceval)

lemma St_clear_flag:
  "St k \<Longrightarrow> mine s \<Longrightarrow> f \<in> calc_flags \<Longrightarrow> f \<noteq> SYMBOL_VALID \<Longrightarrow> St (clear_flag s f k)"
  unfolding clear_flag_def mine_def by (rule St_upd) (auto intro: sym_steps simp: St_choiceval)

lemma wp_first_visible:
  assumes "St k" "mine s" "\<forall>i \<in> set is. i < length (props (syms k0 s))"
  shows "wp {Bad_access} (first_visible calc pt s is k) (\<lambda>(p, k). St k \<and> (\<forall>i. p = Some i \<longrightarrow> i \<in> set is))"
  using assms
proof (induction "is" arbitrary: k)
  case (Cons i "is")
  have IH: "wp {Bad_access} (first_visible calc pt s is k) (\<lambda>(p, k). St k \<and> (\<forall>j. p = Some j \<longrightarrow> j = i \<or> j \<in> set is))"
    if "St k" for k
    by (rule wp_mono [OF Cons.IH [OF that]]) (use Cons.prems in auto)
  have v: "ptr_syms (vis_expr (props (syms k s) ! i)) \<subseteq> U"
    using Cons.prems by (intro closed_props) (auto simp: St_props mine_def)
  show ?case
  proof (cases "prop_type (props (syms k s) ! i) = pt")
    case True
    show ?thesis
      unfolding first_visible.simps if_P [OF True]
      by (rule wp_rbind_pair [OF wp_expr_ptr [OF v \<open>St k\<close>]])
         (auto simp: Let_def intro!: IH St_prop_vis \<open>mine s\<close>)
  qed (use IH Cons.prems in simp)
qed simp

lemma wp_prop_search:
  assumes "St k" "mine s"
  shows "wp {Bad_access} (first_visible calc pt s [0..<length (props (syms k s))] k)
     (\<lambda>(p, k). St k \<and> (\<forall>i. p = Some i \<longrightarrow> i < length (props (syms k s))))"
  by (rule wp_mono [OF wp_first_visible [OF assms]]) (use assms in \<open>auto simp: St_props\<close>)

lemma wp_default_prop:
  "St k \<Longrightarrow> mine s \<Longrightarrow> wp {Bad_access} (sym_get_default_prop calc s k)
     (\<lambda>(p, k). St k \<and> (\<forall>i. p = Some i \<longrightarrow> i < length (props (syms k s))))"
  unfolding sym_get_default_prop_def by (rule wp_prop_search)

lemma wp_range_prop:
  "St k \<Longrightarrow> mine s \<Longrightarrow> wp {Bad_access} (sym_get_range_prop calc s k)
     (\<lambda>(p, k). St k \<and> (\<forall>i. p = Some i \<longrightarrow> i < length (props (syms k s))))"
  unfolding sym_get_range_prop_def by (rule wp_prop_search)

lemma wp_range_val: "St k \<Longrightarrow> s \<in> U \<Longrightarrow> wp {Bad_access} (sym_get_range_val calc s base k) (\<lambda>(v, k). St k)"
  unfolding sym_get_range_val_def
  by (rule wp_rbindI [OF St_calc]) (auto intro!: wp_rbind_any dest: stops)

lemma wp_range_clamp:
  "St k \<Longrightarrow> l \<in> U \<Longrightarrow> r \<in> U \<Longrightarrow> wp {Bad_access} (range_clamp calc base v l r k) (\<lambda>(v, k). St k)"
  unfolding range_clamp_def
  by (rule wp_rbind_pair [OF wp_range_val]) (auto intro!: wp_rbind_pair [OF wp_range_val])

text \<open>A computation whose pair carries an index of a property.\<close>

lemma wp_validate_range:
  assumes "St k" "s \<in> U" "s \<in> A"
  shows "wp {Bad_access} (sym_validate_range calc s k) St"
proof -
  have m: "mine s" using assms by (simp add: mine_def)
  have clamp: "wp {Bad_access} (range_clamp calc base v l r k) (\<lambda>(v, k). St k)"
    if "St k" "i < length (props (syms k s))" "range_bounds (props (syms k s) ! i) = Inr (l, r)" for base v l r k i
    using closed_props(2) [OF that(1) \<open>s \<in> U\<close> that(2)] range_bounds_syms [OF that(3)] that(1)
    by (intro wp_range_clamp) auto
  have upd: "St (upd s (\<lambda>y. y\<lparr>curr_val := v\<rparr>) k)" if "St k" for v k
    using that assms(3) by (auto intro: St_upd sym_steps)
  have found: "wp {Bad_access} (rbind (read_string (curr_val (syms k s))) (\<lambda>str.
      rbind (range_bounds (props (syms k s) ! i)) (\<lambda>(l, r).
      rbind (range_clamp calc base (fst (strtoll str base)) l r k) (\<lambda>(v, k).
      case v of None \<Rightarrow> Inr k | Some val2 \<Rightarrow> Inr (upd s (\<lambda>y. y\<lparr>curr_val := g val2\<rparr>) k))))) St"
    if "St k" "i < length (props (syms k s))" for k i base g
    by (rule wp_rbind_any, simp add: read_string_stop, rule wp_rbind_any, simp add: range_bounds_stop)
       (auto intro!: wp_rbind_pair [OF clamp [OF that]] upd split: option.splits)
  show ?thesis
    unfolding sym_validate_range_def Let_def using assms(1)
    by (auto intro!: wp_rbindI [OF wp_range_prop [OF _ m]] found split: option.splits)
qed

lemma wp_prompts:
  assumes "St k" "mine s" "\<forall>i \<in> set is. i < length (props (syms k0 s))"
  shows "wp {Bad_access} (calc_prompts calc s cs is tri k) (\<lambda>(t, k). St k)"
  using assms
proof (induction "is" arbitrary: k tri)
  case (Cons i "is")
  have v: "ptr_syms (vis_expr (props (syms k s) ! i)) \<subseteq> U"
    using Cons.prems by (intro closed_props) (auto simp: St_props mine_def)
  show ?case
    using Cons.prems Cons.IH
    by (auto simp: Let_def intro!: wp_rbind_pair [OF wp_expr_ptr [OF v]] Cons.IH St_prop_vis)
qed simp

lemma wp_visible:
  assumes "St k" "mine s"
  shows "wp {Bad_access} (calc_visible calc s k) St"
  unfolding calc_visible_def
proof (rule wp_rbind_any)
  fix cs
  show "wp {Bad_access} (rbind (calc_prompts calc s cs [0..<length (props (syms k s))] No k) (\<lambda>(tri, k).
       (let tri = (if tri = Mod \<and> (sym_type (syms k s) \<noteq> S_TRISTATE \<or> modules_val k = No) then Yes else tri)
        in if visible (syms k s) \<noteq> tri
           then Inr (sym_set_changed s (upd s (\<lambda>y. y\<lparr>visible := tri\<rparr>) k))
           else Inr k))) St"
    using assms
    by (intro wp_rbind_pair [OF wp_prompts])
       (auto simp: Let_def St_props mine_def St_choiceval intro!: St_changed St_upd sym_steps)
qed (auto split: if_splits dest: stops)

lemma wp_dep:
  assumes "St k" "mine s"
  shows "wp {Bad_access} (calc_dep calc d s k) St"
proof -
  have e: "wp {Bad_access} (case dep_expr d (syms k s) of
              None \<Rightarrow> Inr (if d = Dir_dep then Yes else No, k)
            | Some e \<Rightarrow> expr_calc_value calc e k) (\<lambda>(t, k). St k)"
    using closed_deps [OF assms(1), of s d] assms
    by (auto simp: ptr_syms_def mine_def split: option.splits intro!: wp_expr_value)
  have "curr_val (set_dep_tri d t y) = curr_val y" "curr_tri (set_dep_tri d t y) = curr_tri y" for t y
    by (cases d; simp add: set_dep_tri_def)+
  then show ?thesis
    unfolding calc_dep_def using assms
    by (intro wp_rbind_pair [OF e])
       (auto simp: Let_def mine_def St_choiceval intro!: St_changed St_upd sym_steps)
qed

lemma wp_visibility:
  assumes "St k" "mine s"
  shows "wp {Bad_access} (sym_calc_visibility calc s k) St"
  unfolding sym_calc_visibility_def using assms
  by (auto intro!: wp_rbindI [OF wp_visible] wp_rbindI [OF wp_dep] wp_dep)

lemma wp_choice_default_props:
  assumes "St k" "mine s" "\<forall>i \<in> set is. i < length (props (syms k0 s))"
  shows "wp {Bad_access} (choice_default_props calc s is k) (\<lambda>(d, k). St k)"
  using assms
proof (induction "is" arbitrary: k)
  case (Cons i "is")
  have v: "ptr_syms (vis_expr (props (syms k s) ! i)) \<subseteq> U"
    using Cons.prems by (intro closed_props) (auto simp: St_props mine_def)
  have IH: "wp {Bad_access} (choice_default_props calc s is k) (\<lambda>(d, k). St k)" if "St k" for k
    using Cons that by simp
  have st: "St (set_prop_vis s i t k)" if "St k" for t k
    using that Cons.prems by (simp add: St_prop_vis)
  have one: "wp {Bad_access} (rbind (prop_get_symbol p) (\<lambda>d. case d of None \<Rightarrow> Inl Bad_access
      | Some def_sym \<Rightarrow> if visible (syms k def_sym) \<noteq> No then Inr (Some def_sym, k)
          else choice_default_props calc s is k)) (\<lambda>(d, k). St k)" if "St k" for k p
    using that IH [OF that] by (intro wp_rbind_any) (auto split: option.splits dest: stops)
  show ?case
    using Cons.prems(1) IH
    by (auto simp: Let_def intro!: wp_rbind_pair [OF wp_expr_ptr [OF v]] one IH st)
qed simp

lemma wp_choice_default:
  assumes "St k" "mine s"
  shows "wp {Bad_access} (sym_choice_default calc s k) (\<lambda>(d, k). St k)"
  unfolding sym_choice_default_def
  by (rule wp_rbind_pair [OF wp_choice_default_props [OF assms]])
     (use assms in \<open>auto simp: St_props split: option.splits intro!: wp_rbind_any dest: stops\<close>)

lemma wp_choice_flags:
  assumes "St k" "\<forall>c \<in> set cs. mine c"
  shows "wp {Bad_access} (calc_choice_flags calc cs (fl, k)) (\<lambda>(fl, k). St k)"
  using assms by (induction cs arbitrary: fl k) (auto intro!: wp_rbindI [OF wp_visibility])

lemma choice_members_mine:
  "choice_values (syms k s) = Inr l \<Longrightarrow> St k \<Longrightarrow> s \<in> U \<Longrightarrow> \<forall>c \<in> set l. mine c"
  using choice_values_members by (auto simp: mine_def St_choiceval)

lemma wp_pick_choice:
  assumes "St k" "mine s" "s \<in> A"
  shows "wp {Bad_access} (pick_choice calc s k) (\<lambda>(d, k). St k)"
proof -
  have "wp {Bad_access} (choice_or_reset calc s k) (\<lambda>(d, k). St k)"
    unfolding choice_or_reset_def using assms
    by (intro wp_rbind_pair [OF wp_choice_default]) (auto intro!: St_upd sym_steps)
  then show ?thesis
    unfolding pick_choice_def using assms
    by (intro wp_rbind_any) (auto split: option.splits dest: stops)
qed

lemma wp_calc_choice:
  assumes "St k" "s \<in> U" "s \<in> A"
  shows "wp {Bad_access} (sym_calc_choice calc s k) (\<lambda>(d, k). St k)"
  unfolding sym_calc_choice_def
proof (rule wp_rbind_any)
  fix l
  assume "choice_values (syms k s) = Inr l"
  from choice_members_mine [OF this assms(1,2)]
  show "wp {Bad_access} (rbind (calc_choice_flags calc l (flags (syms k s), k)) (\<lambda>(fl, k).
      pick_choice calc s (if SYMBOL_DEF_USER \<in> fl then k else clear_flag s SYMBOL_DEF_USER k))) (\<lambda>(d, k). St k)"
    using assms by (intro wp_rbind_pair [OF wp_choice_flags [OF assms(1)]])
      (auto intro!: wp_pick_choice St_clear_flag simp: mine_def)
qed (auto dest: stops)

lemma wp_default_tri:
  assumes "St k" "mine s"
  shows "wp {Bad_access} (calc_default_tri calc s k) (\<lambda>(t, k). St k)"
  unfolding calc_default_tri_def
proof (rule wp_rbindI [OF wp_default_prop [OF assms]], clarsimp, rule wp_rbind_pair)
  fix p k
  assume k: "St k" and p: "\<forall>i. p = Some i \<longrightarrow> i < length (props (syms k s))"
  let ?k = "set_flag s SYMBOL_WRITE k"
  have w: "St ?k" using k assms(2) by (simp add: St_set_flag)
  have "wp {Bad_access} (payload_calc_value calc (prop_expr (props (syms ?k s) ! i)) ?k) (\<lambda>(t, k). St k)"
    if "p = Some i" for i
    using w p that assms(2) St_props [OF k] St_props [OF w]
    by (intro wp_payload_value closed_props) (auto simp: mine_def)
  then show "wp {Bad_access} (case p of None \<Rightarrow> Inr (No, k)
      | Some i \<Rightarrow> let k = ?k in
          rbind (payload_calc_value calc (prop_expr (props (syms k s) ! i)) k) (\<lambda>(t, k).
            Inr (EXPR_AND t (vis_tri (props (syms k s) ! i)), k))) (\<lambda>(t, k). St k)"
    using k by (auto simp: Let_def split: option.splits intro!: wp_rbind_pair)
qed (use assms(2) in \<open>auto simp: Let_def St_set_flag\<close>)

lemma wp_base_tri:
  "St k \<Longrightarrow> mine s \<Longrightarrow> wp {Bad_access} (calc_base_tri calc s k) (\<lambda>(t, k). St k)"
  unfolding calc_base_tri_def by (auto simp: Let_def St_set_flag intro!: wp_default_tri)

lemma wp_newval_tri:
  assumes "St k" "mine s"
  shows "wp {Bad_access} (calc_newval_tri calc s k)
    (\<lambda>(t, k). St k \<and> (sym_type (syms k s) = S_BOOLEAN \<longrightarrow> t \<noteq> Mod))"
proof -
  have "wp {Bad_access} (if sym_is_choice_value (syms k s) \<and> visible (syms k s) = Yes then
          rbind (choice_of (syms k s)) (\<lambda>c. case c of None \<Rightarrow> Inl Bad_access
            | Some cs \<Rightarrow> Inr (if curr_val (syms k cs) = VSym s then Yes else No, k))
        else rbind (calc_base_tri calc s k) (\<lambda>(t, k). Inr (apply_rev_dep (syms k s) t, k))) (\<lambda>(t, k). St k)"
    using assms
    by (auto split: option.splits dest: stops intro!: wp_rbind_pair [OF wp_base_tri [OF assms]])
       (auto split: option.splits dest: stops intro!: wp_rbind_any)
  then show ?thesis
    unfolding calc_newval_tri_def by (rule wp_rbind_pair) (auto simp: sym_get_type_def)
qed

lemma wp_newval_str:
  assumes "St k" "mine s"
  shows "wp {Bad_access} (calc_newval_str calc s k) (\<lambda>(v, k). St k)"
proof -
  have "wp {Bad_access} (rbind (prop_get_symbol (props (syms k s) ! i)) (\<lambda>d. case d of
              None \<Rightarrow> Inr (VStr [], k)
            | Some ds \<Rightarrow>
                rbind (calc ds (set_flag s SYMBOL_WRITE k)) (\<lambda>k. Inr (curr_val (syms k ds), k)))) (\<lambda>(v, k). St k)"
    if k: "St k" and i: "i < length (props (syms k s))" for k i
  proof (rule wp_rbind_any)
    fix d
    assume d: "prop_get_symbol (props (syms k s) ! i) = Inr d"
    have "ds \<in> U" if "d = Some ds" for ds
      using prop_get_symbol_syms d closed_props(2) [OF k _ i] assms(2) that by (auto simp: mine_def)
    then show "wp {Bad_access} (case d of None \<Rightarrow> Inr (VStr [], k)
        | Some ds \<Rightarrow> rbind (calc ds (set_flag s SYMBOL_WRITE k)) (\<lambda>k. Inr (curr_val (syms k ds), k))) (\<lambda>(v, k). St k)"
      using k assms(2) by (auto split: option.splits intro!: wp_rbindI [OF St_calc] St_set_flag)
  qed (auto dest: stops)
  then show ?thesis
    unfolding calc_newval_str_def Let_def using assms
    by (auto split: option.splits intro!: wp_rbindI [OF wp_default_prop])
qed

lemma wp_newval:
  assumes "St k" "mine s"
  shows "wp {Bad_access} (calc_newval calc s k)
    (\<lambda>(nv, k). St k \<and> (sym_type (syms k s) = S_BOOLEAN \<longrightarrow> snd nv \<noteq> Mod))"
  unfolding calc_newval_def Let_def using assms
  by (auto intro!: wp_rbindI [OF wp_newval_tri] wp_rbind_pair [OF wp_newval_str])

lemma wp_store_newval:
  assumes "St k" "s \<in> U" "s \<in> A" "sym_type (syms k s) = S_BOOLEAN \<longrightarrow> snd nv \<noteq> Mod"
  shows "wp {Bad_access} (store_newval calc s nv k) St"
proof -
  have k: "St (set_curr s (fst nv) (snd nv) k)"
    unfolding set_curr_def using assms by (auto intro!: St_upd sym_steps)
  have u: "St (upd s (\<lambda>y. y\<lparr>curr_val := v\<rparr>) k)" if "St k" for v k
    using that assms(3) by (auto intro!: St_upd sym_steps)
  show ?thesis
    unfolding store_newval_def Let_def
    by (rule wp_rbindI [where P = St])
       (use k assms(2,3) in \<open>auto intro!: wp_rbind_pair [OF wp_calc_choice] u wp_validate_range\<close>)
qed

lemma St_note_change: "St k \<Longrightarrow> St (note_change s old k)"
  by (simp add: note_change_def Let_def St_changed St_all_changed St_modules_val)

lemma St_fold: "(\<And>x k. x \<in> set xs \<Longrightarrow> St k \<Longrightarrow> St (f x k)) \<Longrightarrow> St k \<Longrightarrow> St (fold f xs k)"
  by (induction xs arbitrary: k) auto

lemma wp_mark_choice:
  assumes "St k" "s \<in> U"
  shows "wp {Bad_access} (mark_choice_values s k) St"
proof (cases "sym_is_choice (syms k s)")
  case True
  show ?thesis
    unfolding mark_choice_values_def if_P [OF True]
  proof (rule wp_rbind_any)
    fix l
    assume "choice_values (syms k s) = Inr l"
    then have m: "\<And>c. c \<in> set l \<Longrightarrow> mine c" using choice_members_mine assms by blast
    show "wp {Bad_access} (Inr (fold (\<lambda>c k.
            (let k = (if SYMBOL_WRITE \<in> flags (syms k s) \<and> visible (syms k c) \<noteq> No
                      then set_flag c SYMBOL_WRITE k else k)
             in if SYMBOL_CHANGED \<in> flags (syms k s) then sym_set_changed c k else k)) l k)) St"
      using assms(1) m by (auto simp: Let_def intro!: St_fold St_changed St_set_flag)
  qed (auto dest: stops)
qed (simp add: mark_choice_values_def assms)

lemma wp_set_all_choice:
  assumes "St k" "s \<in> U" "s \<in> A" "NEED (syms k s)"
  shows "wp {Bad_access} (set_all_choice_values s k) St"
  unfolding set_all_choice_values_def
proof (rule wp_rbind_any)
  fix l
  assume l: "choice_values (syms k s) = Inr l"
  define k1 where "k1 = fold (\<lambda>s k. if sym_has_value (syms k s) then k
      else upd s (\<lambda>y. y\<lparr>def_tri := (def_tri y)(S_DEF_USER := No)\<rparr>) k) l k"
  have "flags (syms k1 s) = flags (syms k s)"
    unfolding k1_def by (induction l arbitrary: k) auto
  moreover have "St (upd c (\<lambda>y. y\<lparr>def_tri := (def_tri y)(S_DEF_USER := No)\<rparr>) k)" if "c \<in> set l" "St k" for c k
    using choice_members_mine [OF l assms(1,2)] that
    by (intro St_upd sym_steps) (auto simp: mine_def St_choiceval)
  then have "St k1"
    unfolding k1_def using assms(1) by (auto intro!: St_fold)
  ultimately have "St k1 \<and> NEED (syms k1 s)" using assms(4) by (simp add: NEED_def)
  then have "St (upd s (\<lambda>y. y\<lparr>flags := insert SYMBOL_DEF_USER (flags y) - {SYMBOL_VALID} - {SYMBOL_NEED_SET_CHOICE_VALUES}\<rparr>) k1)"
    using assms(3) by (intro St_upd sym_step_set_all) simp_all
  moreover have "clear_flag s SYMBOL_NEED_SET_CHOICE_VALUES (clear_flag s SYMBOL_VALID (set_flag s SYMBOL_DEF_USER k1)) =
      upd s (\<lambda>y. y\<lparr>flags := insert SYMBOL_DEF_USER (flags y) - {SYMBOL_VALID} - {SYMBOL_NEED_SET_CHOICE_VALUES}\<rparr>) k1"
    by (simp add: clear_flag_def set_flag_def upd_def)
  ultimately show "wp {Bad_access} (let k = fold (\<lambda>s k. if sym_has_value (syms k s) then k
      else upd s (\<lambda>y. y\<lparr>def_tri := (def_tri y)(S_DEF_USER := No)\<rparr>) k) l k
      in Inr (clear_flag s SYMBOL_NEED_SET_CHOICE_VALUES (clear_flag s SYMBOL_VALID (set_flag s SYMBOL_DEF_USER k)))) St"
    by (simp add: k1_def)
qed (auto dest: stops)

lemma wp_finish:
  assumes "St k" "s \<in> U" "s \<in> A"
  shows "wp {Bad_access} (calc_finish s old k) St"
  unfolding calc_finish_def Let_def
  by (rule wp_rbindI [OF wp_mark_choice [OF St_note_change]])
     (use assms in \<open>auto simp: mine_def NEED_def intro!: wp_set_all_choice St_clear_flag\<close>)

lemma wp_typed:
  assumes "St k" "s \<in> U" "s \<in> A"
  shows "wp {Bad_access} (calc_typed calc s k) St"
proof -
  have m: "mine s" using assms by (simp add: mine_def)
  have w: "St (set_curr s v No k)" if "St k" for v k
    unfolding set_curr_def using that assms(3) by (auto intro!: St_upd sym_steps)
  have rest: "wp {Bad_access} (rbind (calc_newval calc s k) (\<lambda>(nv, k).
      rbind (store_newval calc s nv k) (calc_finish s old))) St" if "St k" for k old
    by (rule wp_rbindI [OF wp_newval [OF that m]])
       (auto intro!: wp_rbindI [OF wp_store_newval] wp_finish assms(2,3))
  show ?thesis
    unfolding calc_typed_def Let_def
    by (rule wp_rbindI [OF wp_visibility [OF St_clear_flag m]]) (use assms(1) m in \<open>auto intro!: rest w St_set_flag\<close>)
qed

end

end
