(* ===== verification/Kconfig_Calc_Total.thy ===== *)
theory Kconfig_Calc_Total
  imports Kconfig_Calc_Steps
begin

text \<open>
  \<open>sym_calc_value\<close> keeps the promise its own clients rely on, by induction on the
  fuel: it returns with fuel above the weight of the configuration. The locale of
  the clients is interpreted on it, which gives the same for every function it
  calls and for the callers of the other components.
\<close>

lemma valid_flag_weight:
  "sym_weight (y\<lparr>flags := insert SYMBOL_VALID (flags y)\<rparr>) = (if NEED y then 2 else 0)"
  by (simp add: sym_weight_def VALID_def NEED_def)

lemma sym_frame_invalid: "\<not> VALID y \<Longrightarrow> sym_frame y z"
  by (simp add: sym_frame_def)

lemma evolves_set_valid:
  "\<not> VALID (syms k s) \<Longrightarrow> evolves {} k (set_flag s SYMBOL_VALID k)"
  "evolves {s} k (set_flag s SYMBOL_VALID k)"
  unfolding set_flag_def by (intro evolves_upd sym_step_insert; simp add: sym_frame_invalid)+

text \<open>
  The choice of a choice value is calculated first. Its pending mark is gone by
  then, so two units of weight are available for the nested call.
\<close>

lemma choice_first_law:
  assumes law: "\<And>s k. s \<in> U \<Longrightarrow> closed U k \<Longrightarrow> pending U k < n \<Longrightarrow> wp {Bad_access} (calc s k) (evolves {} k)"
    and s: "s \<in> U" and c: "closed U k" and n: "pending U k < Suc n" and v: "\<not> VALID (syms k s)"
  shows "wp {Bad_access} (calc_choice_first calc s k)
    (\<lambda>k'. evolves {} k k' \<and> pending U (set_flag s SYMBOL_VALID k') < n)"
proof (cases "sym_is_choice_value (syms k s) \<and> NEED (syms k s)")
  case True
  let ?k = "clear_flag s SYMBOL_NEED_SET_CHOICE_VALUES k"
  have e: "evolves {} k ?k"
    unfolding clear_flag_def using v by (intro evolves_upd sym_step_remove) (simp_all add: sym_frame_invalid)
  have w: "pending U ?k < pending U k"
    unfolding clear_flag_def using c s True
    by (intro pending_upd) (auto simp: closed_def sym_weight_def NEED_def VALID_def)
  have cl: "closed U ?k" by (rule evolves_closed [OF e c])
  have fin: "evolves {} k k' \<and> pending U (set_flag s SYMBOL_VALID k') < n" if "evolves {} ?k k'" for k'
    using evolves_trans [OF e that] w n pending_mono [OF that, of U] pending_mono [OF evolves_set_valid(2), of U s k']
    by auto
  have "wp {Bad_access} (calc_opt calc c ?k) (\<lambda>k'. evolves {} k k' \<and> pending U (set_flag s SYMBOL_VALID k') < n)"
    if "choice_of (syms ?k s) = Inr c" for c
  proof (cases c)
    case (Some d)
    have "d \<in> U" using choice_of_syms that Some cl s by (auto simp: closed_def)
    with w n have "wp {Bad_access} (calc d ?k) (evolves {} ?k)" by (intro law cl) auto
    from wp_mono [OF this fin] Some show ?thesis by (simp add: calc_opt_def)
  qed (simp add: calc_opt_def fin)
  then show ?thesis
    using True by (auto simp: calc_choice_first_def NEED_def Let_def intro!: wp_rbind_any dest: stops)
next
  case False
  have "pending U (set_flag s SYMBOL_VALID k) < pending U k"
    unfolding set_flag_def using c s v
    by (intro pending_upd) (auto simp: closed_def valid_flag_weight, auto simp: sym_weight_def)
  with False n show ?thesis by (auto simp: calc_choice_first_def NEED_def)
qed

lemma calc_body_law:
  assumes law: "\<And>s k. s \<in> U \<Longrightarrow> closed U k \<Longrightarrow> pending U k < n \<Longrightarrow> wp {Bad_access} (calc s k) (evolves {} k)"
    and s: "s \<in> U" and c: "closed U k" and n: "pending U k < Suc n"
  shows "wp {Bad_access} (calc_body calc s k) (evolves {} k)"
proof (cases "VALID (syms k s)")
  case True
  then show ?thesis by (simp add: calc_body_def VALID_def)
next
  case False
  have typed: "wp {Bad_access} (calc_typed calc s k') (evolves {} k)"
    and unknown: "evolves {} k (set_curr s v No k')"
    if k': "evolves {s} k k'" "pending U k' < n" for k' v
  proof -
    have cc: "calc_client calc n U" by (rule calc_client.intro [OF law])
    have St: "calc_client.St n U {s} k' k'"
      using k' evolves_closed [OF k'(1) c] by (simp add: calc_client.St_def [OF cc])
    have "wp {Bad_access} (calc_typed calc s k') (calc_client.St n U {s} k')"
      by (rule calc_client.wp_typed [OF cc St s]) simp
    then show "wp {Bad_access} (calc_typed calc s k') (evolves {} k)"
      by (rule wp_mono)
         (auto simp: calc_client.St_def [OF cc] intro: evolves_drop [OF evolves_trans [OF k'(1)] False])
    have "evolves {s} k' (set_curr s v No k')"
      unfolding set_curr_def by (intro evolves_upd sym_step_curr) auto
    from evolves_drop [OF evolves_trans [OF k'(1) this] False] show "evolves {} k (set_curr s v No k')" .
  qed
  have "wp {Bad_access} (rbind (calc_choice_first calc s k) (\<lambda>k.
      (let k = set_flag s SYMBOL_VALID k; y = syms k s in
         if sym_type y = S_UNKNOWN then
           Inr (set_curr s (case sym_name y of None \<Rightarrow> VNull | Some nm \<Rightarrow> VStr nm) No k)
         else calc_typed calc s k))) (evolves {} k)"
  proof (rule wp_rbindI [OF choice_first_law [OF law s c n False]])
    fix k'
    assume "evolves {} k k' \<and> pending U (set_flag s SYMBOL_VALID k') < n"
    then have "evolves {s} k (set_flag s SYMBOL_VALID k')" and "pending U (set_flag s SYMBOL_VALID k') < n"
      by (auto intro: evolves_trans [OF evolves_mono evolves_set_valid(2)])
    from typed [OF this] unknown [OF this]
    show "wp {Bad_access} (let k = set_flag s SYMBOL_VALID k'; y = syms k s in
         if sym_type y = S_UNKNOWN then
           Inr (set_curr s (case sym_name y of None \<Rightarrow> VNull | Some nm \<Rightarrow> VStr nm) No k)
         else calc_typed calc s k) (evolves {} k)"
      by (simp add: Let_def)
  qed
  then show ?thesis using False by (simp add: calc_body_def VALID_def)
qed

lemma sym_calc_value_law:
  "s \<in> U \<Longrightarrow> closed U k \<Longrightarrow> pending U k < n \<Longrightarrow> wp {Bad_access} (sym_calc_value n s k) (evolves {} k)"
proof (induction n arbitrary: s k)
  case (Suc n)
  show ?case
    unfolding sym_calc_value.simps by (rule calc_body_law [OF Suc.IH Suc.prems])
qed simp

interpretation sc: calc_client "sym_calc_value n" n U A k0 for n U A k0
  by unfold_locales (rule sym_calc_value_law)

end
