(* ===== verification/Kconfig_Calc_Law.thy ===== *)
theory Kconfig_Calc_Law
  imports Kconfig_Calc_Total Kconfig_Expr_Props
begin

text \<open>
  The value \<open>sym_calc_value\<close> gives a bool or tristate symbol, in terms of the
  visibility and the dependencies it has calculated on the way, and the reading of
  expressions whose symbols are calculated.
\<close>

section \<open>What the end of a calculation leaves of a symbol\<close>

definition marks :: "symflag set" where
  "marks = {SYMBOL_CHANGED, SYMBOL_WRITE}"

definition same_value :: "symbol \<Rightarrow> symbol \<Rightarrow> bool" where
  "same_value y z \<longleftrightarrow> z\<lparr>flags := {}\<rparr> = y\<lparr>flags := {}\<rparr> \<and> flags z - marks = flags y - marks"

lemma same_value_refl [simp]: "same_value y y"
  by (simp add: same_value_def)

lemma same_value_trans: "same_value x y \<Longrightarrow> same_value y z \<Longrightarrow> same_value x z"
  by (simp add: same_value_def)

lemma same_value_flags:
  "same_value y (y\<lparr>flags := insert SYMBOL_CHANGED (flags y)\<rparr>)"
  "same_value y (y\<lparr>flags := flags y - {SYMBOL_WRITE}\<rparr>)"
  by (auto simp: same_value_def marks_def)

lemma same_value_fields:
  assumes "same_value y z"
  shows "sym_type z = sym_type y" "curr_tri z = curr_tri y" "curr_val z = curr_val y" "visible z = visible y"
    "dir_dep_tri z = dir_dep_tri y" "rev_dep_tri z = rev_dep_tri y" "implied_tri z = implied_tri y"
    "def_tri z = def_tri y" "def_val z = def_val y"
    "sym_is_choice_value z = sym_is_choice_value y" "sym_is_choice z = sym_is_choice y" "sym_has_value z = sym_has_value y"
    "VALID z = VALID y" "NEED z = NEED y"
proof -
  have f: "z\<lparr>flags := {}\<rparr> = y\<lparr>flags := {}\<rparr>" "flags z - marks = flags y - marks"
    using assms by (simp_all add: same_value_def)
  have "sym_type (z\<lparr>flags := {}\<rparr>) = sym_type (y\<lparr>flags := {}\<rparr>)" "curr_tri (z\<lparr>flags := {}\<rparr>) = curr_tri (y\<lparr>flags := {}\<rparr>)"
    "curr_val (z\<lparr>flags := {}\<rparr>) = curr_val (y\<lparr>flags := {}\<rparr>)" "visible (z\<lparr>flags := {}\<rparr>) = visible (y\<lparr>flags := {}\<rparr>)"
    "dir_dep_tri (z\<lparr>flags := {}\<rparr>) = dir_dep_tri (y\<lparr>flags := {}\<rparr>)" "rev_dep_tri (z\<lparr>flags := {}\<rparr>) = rev_dep_tri (y\<lparr>flags := {}\<rparr>)"
    "implied_tri (z\<lparr>flags := {}\<rparr>) = implied_tri (y\<lparr>flags := {}\<rparr>)" "def_tri (z\<lparr>flags := {}\<rparr>) = def_tri (y\<lparr>flags := {}\<rparr>)"
    "def_val (z\<lparr>flags := {}\<rparr>) = def_val (y\<lparr>flags := {}\<rparr>)"
    unfolding f(1) by simp_all
  then show "sym_type z = sym_type y" "curr_tri z = curr_tri y" "curr_val z = curr_val y" "visible z = visible y"
    "dir_dep_tri z = dir_dep_tri y" "rev_dep_tri z = rev_dep_tri y" "implied_tri z = implied_tri y"
    "def_tri z = def_tri y" "def_val z = def_val y"
    by simp_all
  have m: "f \<notin> marks \<Longrightarrow> (f \<in> flags z) = (f \<in> flags y)" for f
    using f(2) by blast
  show "sym_is_choice_value z = sym_is_choice_value y" "sym_is_choice z = sym_is_choice y" "sym_has_value z = sym_has_value y"
    "VALID z = VALID y" "NEED z = NEED y"
    using m by (simp_all add: sym_is_choice_value_def sym_is_choice_def sym_has_value_def VALID_def NEED_def marks_def)
qed

lemma set_changed_value: "same_value (syms k t) (syms (sym_set_changed c k) t)"
  by (simp add: sym_set_changed_def set_flag_def same_value_flags)

lemma all_changed_value: "same_value (syms k t) (syms (sym_set_all_changed k) t)"
proof -
  have "same_value (syms k t) (syms (fold sym_set_changed l k) t)" for l
    by (induction l arbitrary: k) (auto intro: same_value_trans [OF set_changed_value])
  then show ?thesis by (simp add: sym_set_all_changed_def)
qed

lemma note_change_value: "same_value (syms k t) (syms (note_change s old k) t)"
  by (auto simp: note_change_def Let_def intro: same_value_trans [OF set_changed_value all_changed_value] set_changed_value)

lemma finish_value:
  assumes "calc_finish s old k = Inr k'" "\<not> sym_is_choice (syms k s)" "\<not> NEED (syms k s)"
  shows "same_value (syms k t) (syms k' t)"
proof -
  let ?k = "note_change s old k"
  have v: "same_value (syms k t) (syms ?k t)" for t by (rule note_change_value)
  then have nc: "\<not> sym_is_choice (syms ?k s)" "\<not> NEED (syms ?k s)"
    using assms(2,3) by (simp_all add: same_value_fields [OF v])
  then have "k' = (if SYMBOL_NO_WRITE \<in> flags (syms ?k s) then clear_flag s SYMBOL_WRITE ?k else ?k)"
    using assms(1)
    by (auto simp: calc_finish_def mark_choice_values_def Let_def NEED_def clear_flag_def split: if_splits)
  then show ?thesis
    using v by (auto simp: clear_flag_def intro: same_value_trans [OF _ same_value_flags(2)])
qed

lemma store_value:
  assumes "store_newval calc s nv k = Inr k'" "bool_or_tristate (syms k) s" "\<not> sym_is_choice (syms k s)"
  shows "k' = set_curr s (fst nv) (snd nv) k"
  using assms
  by (auto simp: store_newval_def sym_validate_range_def set_curr_def bool_or_tristate_def sym_is_choice_def Let_def)

section \<open>What looking for a default leaves of the symbol\<close>














section \<open>The value of a bool or tristate symbol\<close>

text \<open>
  The calculation of a symbol that is no choice, down to the state in which its
  value is determined.
\<close>

lemma calc_tri_cases:
  assumes "closed U k" "s \<in> U" "pending U k < n" "\<not> VALID (syms k s)" "\<not> NEED (syms k s)"
    and plain: "bool_or_tristate (syms k) s" "\<not> sym_is_choice (syms k s)"
    and run: "sym_calc_value n s k = Inr k'"
  obtains m k0 k1 kx t where
    "sc.St m U {s} k0 k1" "evolves {s} k k1" "VALID (syms k1 s) \<and> \<not> NEED (syms k1 s)"
    "calc_newval_tri (sym_calc_value m) s k1 = Inr (t, kx)"
    "same_value ((syms kx s)\<lparr>curr_val := VStr ''n'', curr_tri := t\<rparr>) (syms k' s)"
    "\<forall>c. c \<noteq> s \<longrightarrow> same_value (syms kx c) (syms k' c)"
    "sym_type (syms kx s) = S_BOOLEAN \<longrightarrow> t \<noteq> Mod"
proof -
  from run obtain m where m: "n = Suc m" by (cases n) auto
  let ?c = "sym_calc_value m"
  let ?k0 = "set_flag s SYMBOL_VALID k"
  have ev: "evolves {s} k ?k0" by (rule evolves_set_valid)
  have "pending U ?k0 < pending U k"
    unfolding set_flag_def using assms(1,2,4)
    by (intro pending_upd) (auto simp: closed_def valid_flag_weight, auto simp: sym_weight_def)
  then have St0: "sc.St m U {s} ?k0 ?k0"
    using assms(3) m evolves_closed [OF ev assms(1)] by (simp add: sc.St_def)
  have mine: "sc.mine U {s} ?k0 s" using assms(2) by (simp add: sc.mine_def)
  have stat: "bool_or_tristate (syms k1) s" "\<not> sym_is_choice (syms k1 s)" "\<not> NEED (syms k1 s)" if "sc.St m U {s} ?k0 k1" for k1
  proof -
    have e: "evolves {s} k k1" using that evolves_trans [OF ev] by (auto simp: sc.St_def)
    then have "sym_step (syms k s) (syms k1 s)" by (simp add: evolves_def)
    then show "bool_or_tristate (syms k1) s" "\<not> sym_is_choice (syms k1 s)" "\<not> NEED (syms k1 s)"
      using plain assms(5) by (auto simp: bool_or_tristate_def evolves_static [OF e] sym_step_def)
  qed
  have "calc_typed ?c s ?k0 = Inr k'"
    using run m assms(4,5) plain stat [OF St0]
    by (auto simp: calc_body_def calc_choice_first_def VALID_def NEED_def Let_def bool_or_tristate_def)
  then obtain ka nv kx ks where
    a: "sym_calc_visibility ?c s (clear_flag s SYMBOL_WRITE ?k0) = Inr ka"
    and b: "calc_newval ?c s (set_curr s (initial_newval (sym_type (syms
        (if visible (syms ka s) \<noteq> No then set_flag s SYMBOL_WRITE ka else ka) s))) No
        (if visible (syms ka s) \<noteq> No then set_flag s SYMBOL_WRITE ka else ka)) = Inr (nv, kx)"
    and c: "store_newval ?c s nv kx = Inr ks"
    and d: "calc_finish s (curr_val (syms ?k0 s), curr_tri (syms ?k0 s)) ks = Inr k'"
    by (auto simp: calc_typed_def Let_def rbind_Inr_iff)
  define k1 where "k1 = set_curr s (initial_newval (sym_type (syms
        (if visible (syms ka s) \<noteq> No then set_flag s SYMBOL_WRITE ka else ka) s))) No
        (if visible (syms ka s) \<noteq> No then set_flag s SYMBOL_WRITE ka else ka)"
  have "sc.St m U {s} ?k0 ka"
    by (rule wpD [OF sc.wp_visibility [OF sc.St_clear_flag [OF St0 mine] mine] a]) simp_all
  then have "sc.St m U {s} ?k0 (if visible (syms ka s) \<noteq> No then set_flag s SYMBOL_WRITE ka else ka)"
    using sc.St_set_flag [OF _ mine] by simp
  then have St1: "sc.St m U {s} ?k0 k1"
    unfolding k1_def by (simp only: set_curr_def) (intro sc.St_upd sym_step_curr; simp)
  have St2: "sc.St m U {s} ?k0 kx \<and> (sym_type (syms kx s) = S_BOOLEAN \<longrightarrow> snd nv \<noteq> Mod)"
    using wpD [OF sc.wp_newval [OF St1 mine]] b k1_def by blast
  from b stat [OF St1] obtain t where t: "calc_newval_tri ?c s k1 = Inr (t, kx)" "nv = (VStr ''n'', t)"
    unfolding k1_def [symmetric]
    by (auto simp: calc_newval_def Let_def rbind_Inr_iff sym_get_type_def bool_or_tristate_def split: if_splits)
  have ks: "ks = set_curr s (VStr ''n'') t kx"
    using store_value [OF c] stat St2 t(2) by auto
  have fin: "same_value (syms ks c) (syms k' c)" for c
    using stat St2 by (intro finish_value [OF d]) (auto simp: ks set_curr_def sym_is_choice_def NEED_def)
  have "same_value ((syms kx s)\<lparr>curr_val := VStr ''n'', curr_tri := t\<rparr>) (syms k' s)"
    using fin [of s] by (simp add: ks set_curr_def)
  moreover have "\<forall>c. c \<noteq> s \<longrightarrow> same_value (syms kx c) (syms k' c)"
  proof (intro allI impI)
    fix c
    assume "c \<noteq> s"
    then show "same_value (syms kx c) (syms k' c)" using fin [of c] by (simp add: ks set_curr_def)
  qed
  moreover have "VALID (syms k1 s) \<and> \<not> NEED (syms k1 s)"
  proof -
    have "sym_step (syms ?k0 s) (syms k1 s)" using St1 by (simp add: sc.St_def evolves_def)
    then show ?thesis
      using assms(5) by (auto simp: sym_step_def VALID_def NEED_def set_flag_def)
  qed
  moreover have "evolves {s} k k1" using St1 evolves_trans [OF ev] by (simp add: sc.St_def)
  ultimately show ?thesis
    using that [of m ?k0 k1 t kx] St1 t(1) St2 t(2) by simp
qed




section \<open>Properties\<close>


text \<open>
  A configuration with a bool \<open>A\<close> the user set to \<open>y\<close>, a bool \<open>B\<close> that \<open>A\<close> selects and
  that depends on \<open>n\<close>, and no modules.
\<close>

definition prompt_prop :: "string \<Rightarrow> property" where
  "prompt_prop t = \<lparr>prop_type = P_PROMPT, prop_text = Some t, vis_expr = None, vis_tri = No, prop_expr = None, prop_menu = None\<rparr>"

definition calc_demo_syms :: symtab where
  "calc_demo_syms s =
     (case s of
        SymAt i \<Rightarrow>
          if i = 0 then
            (plain_symbol ''A'' S_BOOLEAN VNull No)\<lparr>flags := {SYMBOL_DEF_USER}, def_tri := (\<lambda>_. Yes),
               props := [prompt_prop ''a'']\<rparr>
          else if i = 1 then
            (plain_symbol ''B'' S_BOOLEAN VNull No)\<lparr>flags := {}, dir_dep_expr := Some (E_SYMBOL symbol_no),
               rev_dep_expr := Some (E_SYMBOL (SymAt 0))\<rparr>
          else const_symbol ''n'' No
      | symbol_yes \<Rightarrow> const_symbol ''y'' Yes
      | symbol_mod \<Rightarrow> const_symbol ''m'' Mod
      | symbol_no \<Rightarrow> const_symbol ''n'' No)"

definition calc_demo :: kconf where
  "calc_demo = \<lparr>syms = calc_demo_syms, all_syms = [SymAt 0, SymAt 1], menu_changed = {}, modules_sym = symbol_no,
     modules_val = No, conf_changed = False\<rparr>"

lemma calc_demo_closed: "closed {SymAt 0, SymAt 1, symbol_no} calc_demo"
  by (auto simp: closed_def calc_demo_def calc_demo_syms_def plain_symbol_def const_symbol_def sym_syms_def
      prop_syms_def ptr_syms_def payload_syms_def prompt_prop_def choice_values_def sym_get_choice_prop_def)

lemma calc_demo_pending: "pending {SymAt 0, SymAt 1, symbol_no} calc_demo < 4"
  by (simp add: pending_def calc_demo_def calc_demo_syms_def plain_symbol_def const_symbol_def sym_weight_def
      VALID_def NEED_def)


text \<open>
  C2. \<open>sym_calc_value\<close> terminates: with three units of fuel for each symbol of a set
  closed under reference, whatever the dependencies between them, cyclic ones
  included, no calculation runs out of fuel. It ends, or stops at a NULL or
  mistyped pointer.
\<close>

theorem sym_calc_value_terminates:
  assumes "closed U k" "s \<in> U" "3 * card U < n"
  shows "sym_calc_value n s k \<noteq> Inl Out_of_fuel"
proof -
  have "pending U k \<le> (\<Sum>s \<in> U. 3)"
    unfolding pending_def by (rule sum_mono) (simp add: sym_weight_def)
  with assms have "pending U k < n" by simp
  from sym_calc_value_law [OF assms(2,1) this] show ?thesis by auto
qed

theorem sym_calc_value_terminates_witness:
  "sym_calc_value 10 (SymAt 1) calc_demo \<noteq> Inl Out_of_fuel"
  by (rule sym_calc_value_terminates [OF calc_demo_closed]) simp_all

text \<open>
  C3. What a calculation may change: the structure of every symbol is kept, a
  symbol that was already calculated keeps its value, and bool symbols that were not
  \<open>m\<close> are not \<open>m\<close> afterwards.
\<close>

theorem sym_calc_value_frame:
  assumes "closed U k" "s \<in> U" "pending U k < n" "sym_calc_value n s k = Inr k'"
  shows "same_struct (syms k t) (syms k' t) \<and>
    (VALID (syms k t) \<and> \<not> NEED (syms k t) \<longrightarrow>
       curr_val (syms k' t) = curr_val (syms k t) \<and> curr_tri (syms k' t) = curr_tri (syms k t) \<and> VALID (syms k' t)) \<and>
    (sym_type (syms k t) = S_BOOLEAN \<and> curr_tri (syms k t) \<noteq> Mod \<longrightarrow> curr_tri (syms k' t) \<noteq> Mod)"
proof -
  have "evolves {} k k'" using wpD [OF sym_calc_value_law [OF assms(2,1,3)] assms(4)] .
  then have "sym_step (syms k t) (syms k' t)" "sym_frame (syms k t) (syms k' t)"
    by (simp_all add: evolves_def)
  then show ?thesis by (auto simp: sym_step_def sym_frame_def)
qed

theorem sym_calc_value_frame_witness:
  "\<exists>k'. sym_calc_value 4 (SymAt 1) calc_demo = Inr k' \<and> curr_tri (syms k' symbol_no) = No \<and>
     curr_tri (syms k' (SymAt 0)) \<noteq> Mod"
proof -
  have "case sym_calc_value 4 (SymAt 1) calc_demo of Inr k' \<Rightarrow> True | _ \<Rightarrow> False"
    by code_simp
  then obtain k' where k': "sym_calc_value 4 (SymAt 1) calc_demo = Inr k'"
    by (auto split: sum.splits)
  from sym_calc_value_frame [OF calc_demo_closed _ calc_demo_pending k', of "SymAt 0"]
    sym_calc_value_frame [OF calc_demo_closed _ calc_demo_pending k', of symbol_no] k'
  show ?thesis
    by (auto simp: calc_demo_def calc_demo_syms_def plain_symbol_def const_symbol_def VALID_def NEED_def)
qed

lemma choice_of_static:
  assumes "same_struct y z"
  shows "choice_of z = choice_of y"
proof -
  have "map_option prop_static (sym_get_choice_prop z) = map_option prop_static (sym_get_choice_prop y)"
    unfolding sym_get_choice_prop_def using assms by (intro find_map_static) (simp add: same_struct_def)
  then show ?thesis
    by (cases "sym_get_choice_prop z"; cases "sym_get_choice_prop y")
       (auto simp: choice_of_def prop_static_def prop_get_symbol_def)
qed

text \<open>Without a default property nothing is evaluated and the symbol is left alone.\<close>

lemma no_default_tri:
  assumes "\<forall>p \<in> set (props (syms k s)). prop_type p \<noteq> P_DEFAULT" "calc_default_tri calc s k = Inr (t, k')"
  shows "visible (syms k' s) = visible (syms k s)"
proof -
  have "first_visible calc P_DEFAULT s is k = Inr (None, k)" if "\<forall>i \<in> set is. i < length (props (syms k s))" for "is"
    using that assms(1) by (induction "is") auto
  then show ?thesis
    using assms(2) by (auto simp: calc_default_tri_def sym_get_default_prop_def set_flag_def Let_def split: if_splits)
qed

text \<open>
  C4. A visible choice value (the defaults of choice values are not supported) is
  \<open>y\<close> exactly if it is the symbol its choice has selected, so at most one visible
  value of a choice is \<open>y\<close>.
\<close>

theorem choice_value_exclusive:
  assumes "closed U k" "s \<in> U" "pending U k < n" "\<not> VALID (syms k s)" "\<not> NEED (syms k s)"
    and "bool_or_tristate (syms k) s" "\<not> sym_is_choice (syms k s)" "sym_is_choice_value (syms k s)"
    and "\<forall>p \<in> set (props (syms k s)). prop_type p \<noteq> P_DEFAULT"
    and "choice_of (syms k s) = Inr (Some c)" "c \<noteq> s"
    and "sym_calc_value n s k = Inr k'" and "visible (syms k' s) = Yes"
  shows "curr_tri (syms k' s) = (if curr_val (syms k' c) = VSym s then Yes else No)"
proof -
  obtain m k0 k1 kx t where e: "evolves {s} k k1"
    and t: "calc_newval_tri (sym_calc_value m) s k1 = Inr (t, kx)"
    and v: "same_value ((syms kx s)\<lparr>curr_val := VStr ''n'', curr_tri := t\<rparr>) (syms k' s)"
    and w: "\<forall>c. c \<noteq> s \<longrightarrow> same_value (syms kx c) (syms k' c)"
    using calc_tri_cases [OF assms(1-7,12)] by metis
  have cv: "sym_is_choice_value (syms k1 s)" using assms(8) by (simp add: evolves_static [OF e])
  have co: "choice_of (syms k1 s) = Inr (Some c)"
    using assms(10) choice_of_static [OF evolves_struct [OF e]] by simp
  have "prop_type ` set (props (syms k1 s)) = prop_type ` set (props (syms k s))"
  proof -
    have "map (fst \<circ> prop_static) (props (syms k1 s)) = map (fst \<circ> prop_static) (props (syms k s))"
      unfolding map_map [symmetric] using evolves_struct [OF e, of s] by (simp add: same_struct_def)
    from arg_cong [OF this, of set] show ?thesis by (simp add: prop_static_def image_image)
  qed
  then have nd: "\<forall>p \<in> set (props (syms k1 s)). prop_type p \<noteq> P_DEFAULT"
    using assms(9) by (metis image_iff)
  have vis: "visible (syms kx s) = Yes" using assms(13) same_value_fields(4) [OF v] by simp
  have "visible (syms k1 s) = Yes"
  proof (rule ccontr)
    assume n: "visible (syms k1 s) \<noteq> Yes"
    then obtain t0 where b: "calc_base_tri (sym_calc_value m) s k1 = Inr (t0, kx)"
      using t by (auto simp: calc_newval_tri_def rbind_Inr_iff)
    let ?k = "if rev_dep_tri (syms k1 s) \<noteq> No then set_flag s SYMBOL_WRITE k1 else k1"
    have "visible (syms ?k s) = visible (syms k1 s)" "props (syms ?k s) = props (syms k1 s)"
      by (simp_all add: set_flag_def)
    then have "visible (syms kx s) = visible (syms k1 s)"
      using b nd no_default_tri [of ?k s "sym_calc_value m" t0 kx]
      by (auto simp: calc_base_tri_def Let_def set_flag_def split: if_splits)
    with vis n show False by simp
  qed
  with t cv co have kx: "kx = k1" "t = (if curr_val (syms k1 c) = VSym s then Yes else No)"
    by (auto simp: calc_newval_tri_def rbind_Inr_iff split: if_splits)
  have "curr_val (syms k' c) = curr_val (syms k1 c)"
    using w assms(11) same_value_fields(3) kx(1) by blast
  then show ?thesis using same_value_fields(2) [OF v] kx(2) by simp
qed

text \<open>A calculated choice of two bools, the second one selected by the user.\<close>

definition choice_prop :: "payload \<Rightarrow> property" where
  "choice_prop e = \<lparr>prop_type = P_CHOICE, prop_text = None, vis_expr = None, vis_tri = No, prop_expr = Some e, prop_menu = None\<rparr>"

definition choice_demo_value :: "string \<Rightarrow> symbol" where
  "choice_demo_value nm = (plain_symbol nm S_BOOLEAN VNull No)\<lparr>flags := {SYMBOL_CHOICEVAL},
     props := [(prompt_prop nm)\<lparr>vis_expr := Some (E_SYMBOL (SymAt 2))\<rparr>, choice_prop (PL_EXPR (E_SYMBOL (SymAt 2)))]\<rparr>"

definition choice_demo_syms :: symtab where
  "choice_demo_syms s =
     (case s of
        SymAt i \<Rightarrow>
          if i = 0 then choice_demo_value ''A''
          else if i = 1 then choice_demo_value ''B''
          else (plain_symbol ''C'' S_BOOLEAN (VSym (SymAt 1)) Yes)\<lparr>flags := {SYMBOL_CHOICE, SYMBOL_VALID, SYMBOL_DEF_USER}, def_tri := (\<lambda>_. Yes),
             def_val := (\<lambda>_. VSym (SymAt 1)), props := [prompt_prop ''c'', choice_prop (PL_LIST [SymAt 0, SymAt 1])]\<rparr>
      | symbol_yes \<Rightarrow> const_symbol ''y'' Yes
      | symbol_mod \<Rightarrow> const_symbol ''m'' Mod
      | symbol_no \<Rightarrow> const_symbol ''n'' No)"

definition choice_demo :: kconf where
  "choice_demo = \<lparr>syms = choice_demo_syms, all_syms = [SymAt 0, SymAt 1, SymAt 2], menu_changed = {},
     modules_sym = symbol_no, modules_val = No, conf_changed = False\<rparr>"

lemmas choice_demo_simps = choice_demo_def choice_demo_syms_def choice_demo_value_def choice_prop_def prompt_prop_def
  plain_symbol_def const_symbol_def

lemma choice_demo_closed: "closed {SymAt 0, SymAt 1, SymAt 2, symbol_no} choice_demo"
  by (auto simp: closed_def choice_demo_simps sym_syms_def prop_syms_def ptr_syms_def payload_syms_def
      choice_values_def sym_get_choice_prop_def sym_is_choice_value_def)

lemma choice_demo_pending: "pending {SymAt 0, SymAt 1, SymAt 2, symbol_no} choice_demo < 5"
  by (simp add: pending_def choice_demo_simps sym_weight_def VALID_def NEED_def)

theorem choice_value_exclusive_witness:
  "\<exists>k'. sym_calc_value 5 (SymAt 0) choice_demo = Inr k' \<and> curr_tri (syms k' (SymAt 0)) = No"
proof -
  have "case sym_calc_value 5 (SymAt 0) choice_demo of
      Inr k' \<Rightarrow> visible (syms k' (SymAt 0)) = Yes \<and> curr_val (syms k' (SymAt 2)) = VSym (SymAt 1) | _ \<Rightarrow> False"
    by code_simp
  then obtain k' where k': "sym_calc_value 5 (SymAt 0) choice_demo = Inr k'"
    and d: "visible (syms k' (SymAt 0)) = Yes" "curr_val (syms k' (SymAt 2)) = VSym (SymAt 1)"
    by (auto split: sum.splits)
  have "curr_tri (syms k' (SymAt 0)) = (if curr_val (syms k' (SymAt 2)) = VSym (SymAt 0) then Yes else No)"
    by (rule choice_value_exclusive [OF choice_demo_closed _ choice_demo_pending _ _ _ _ _ _ _ _ k' d(1)])
       (simp_all add: choice_demo_simps VALID_def NEED_def bool_or_tristate_def sym_is_choice_def
          sym_is_choice_value_def choice_of_def sym_get_choice_prop_def prop_get_symbol_def)
  with k' d show ?thesis by auto
qed


lemma calc_valid [simp]: "VALID (syms k s) \<Longrightarrow> sym_calc_value (Suc n) s k = Inr k"
  by (simp add: calc_body_def VALID_def)




end
