(* ===== verification/Kconfig_User.thy ===== *)
theory Kconfig_User
  imports Kconfig_Calc_Law
begin

text \<open>
  Setting and reading the value of a symbol from a front end
  (scripts/config/symbol.c): range checks, \<open>sym_set_tristate_value\<close>,
  \<open>sym_toggle_tristate_value\<close>, \<open>sym_set_string_value\<close>, the default string of a symbol
  and the escaping of strings, with the functions of confdata.c and lkc.h they use.
\<close>

section \<open>Invalidating all values\<close>

definition conf_set_changed :: "bool \<Rightarrow> kconf \<Rightarrow> kconf" where
  "conf_set_changed v k = k\<lparr>conf_changed := v\<rparr>"

definition sym_clear_all_valid :: "calc \<Rightarrow> kconf \<Rightarrow> kconf res" where
  "sym_clear_all_valid calc k =
     (let k = conf_set_changed True (fold (\<lambda>s. clear_flag s SYMBOL_VALID) (all_syms k) k)
      in calc (modules_sym k) k)"

section \<open>Tristate values\<close>

definition sym_tristate_within_range :: "kconf \<Rightarrow> symref \<Rightarrow> tristate \<Rightarrow> bool" where
  "sym_tristate_within_range k s val =
     (let y = syms k s; ty = sym_get_type k s in
      if visible y = No then False
      else if ty \<noteq> S_BOOLEAN \<and> ty \<noteq> S_TRISTATE then False
      else if ty = S_BOOLEAN \<and> val = Mod then False
      else if visible y \<le> rev_dep_tri y then False
      else if sym_is_choice_value y \<and> visible y = Yes then val = Yes
      else val \<ge> rev_dep_tri y \<and> val \<le> visible y)"

text \<open>The choice values of \<open>cs->prop\<close> in \<open>sym_set_tristate_value\<close>, which dereferences every node.\<close>

definition choice_nodes :: "symbol \<Rightarrow> symref list res" where
  "choice_nodes y =
     (case sym_get_choice_prop y of
        None \<Rightarrow> Inl Bad_access
      | Some p \<Rightarrow> (case prop_expr p of
            None \<Rightarrow> Inr [] | Some (PL_LIST l) \<Rightarrow> Inr l | _ \<Rightarrow> Inl Bad_access))"

definition set_choice_user :: "symref \<Rightarrow> kconf \<Rightarrow> kconf res" where
  "set_choice_user s k =
     rbind (choice_of (syms k s)) (\<lambda>c.
       case c of
         None \<Rightarrow> Inl Bad_access
       | Some cs \<Rightarrow>
           (let k = set_flag cs SYMBOL_DEF_USER (upd cs (\<lambda>y. y\<lparr>def_val := (def_val y)(S_DEF_USER := VSym s)\<rparr>) k) in
            rbind (choice_nodes (syms k cs)) (\<lambda>l.
              Inr (fold (\<lambda>e k. if visible (syms k e) \<noteq> No then set_flag e SYMBOL_DEF_USER k else k) l k))))"

definition mark_user :: "symref \<Rightarrow> kconf \<Rightarrow> kconf" where
  "mark_user s k =
     (if SYMBOL_DEF_USER \<in> flags (syms k s) then k
      else sym_set_changed s (set_flag s SYMBOL_DEF_USER k))"

definition sym_set_tristate_value :: "calc \<Rightarrow> symref \<Rightarrow> tristate \<Rightarrow> kconf \<Rightarrow> (bool \<times> kconf) res" where
  "sym_set_tristate_value calc s val k =
     (let oldval = curr_tri (syms k s) in
      if oldval \<noteq> val \<and> \<not> sym_tristate_within_range k s val then Inr (False, k)
      else
        (let k = mark_user s k in
         rbind (if sym_is_choice_value (syms k s) \<and> val = Yes then set_choice_user s k else Inr k) (\<lambda>k.
           (let k = upd s (\<lambda>y. y\<lparr>def_tri := (def_tri y)(S_DEF_USER := val)\<rparr>) k in
            rbind (if oldval \<noteq> val then sym_clear_all_valid calc k else Inr k) (\<lambda>k. Inr (True, k))))))"

definition next_tri :: "tristate \<Rightarrow> tristate" where
  "next_tri t = (case t of No \<Rightarrow> Mod | Mod \<Rightarrow> Yes | Yes \<Rightarrow> No)"

lemma rbind_cong [fundef_cong]:
  "r = r' \<Longrightarrow> (\<And>x. r' = Inr x \<Longrightarrow> f x = g x) \<Longrightarrow> rbind r f = rbind r' g"
  by (cases r') auto

text \<open>The distance to the old value along the cycle \<open>no\<close>, \<open>mod\<close>, \<open>yes\<close>, which the loop never passes.\<close>

definition tri_dist :: "tristate \<Rightarrow> tristate \<Rightarrow> nat" where
  "tri_dist old t = (if t = old then 3 else if next_tri t = old then 1 else 2)"

lemma tri_dist_next: "old \<noteq> next_tri t \<Longrightarrow> tri_dist old (next_tri t) < tri_dist old t"
  by (cases old; cases t) (auto simp: tri_dist_def next_tri_def)

function toggle_loop :: "calc \<Rightarrow> symref \<Rightarrow> tristate \<Rightarrow> tristate \<Rightarrow> kconf \<Rightarrow> (tristate \<times> kconf) res" where
  "toggle_loop calc s oldval newval k =
     (let newval = next_tri newval in
      rbind (sym_set_tristate_value calc s newval k) (\<lambda>(ok, k).
        if ok then Inr (newval, k)
        else if oldval \<noteq> newval then toggle_loop calc s oldval newval k
        else Inr (newval, k)))"
  by auto
termination
  by (relation "measure (\<lambda>(calc, s, old, new, k). tri_dist old new)") (auto intro: tri_dist_next)

declare toggle_loop.simps [simp del]

definition sym_toggle_tristate_value :: "calc \<Rightarrow> symref \<Rightarrow> kconf \<Rightarrow> (tristate \<times> kconf) res" where
  "sym_toggle_tristate_value calc s k = toggle_loop calc s (curr_tri (syms k s)) (curr_tri (syms k s)) k"

definition sym_is_changeable :: "symbol \<Rightarrow> bool" where
  "sym_is_changeable y \<longleftrightarrow> visible y > rev_dep_tri y"

section \<open>String values\<close>

definition int_string_valid :: "string \<Rightarrow> bool" where
  "int_string_valid str =
     (let s = (case str of [] \<Rightarrow> [] | c # r \<Rightarrow> if c = CHR ''-'' then r else str) in
      case s of
        [] \<Rightarrow> False
      | ch # r \<Rightarrow> isdigit ch \<and> \<not> (ch = CHR ''0'' \<and> r \<noteq> []) \<and> list_all isdigit r)"

definition has_hex_prefix :: "string \<Rightarrow> bool" where
  "has_hex_prefix str =
     (case str of c # x # r \<Rightarrow> c = CHR ''0'' \<and> (x = CHR ''x'' \<or> x = CHR ''X'') | _ \<Rightarrow> False)"

definition hex_string_valid :: "string \<Rightarrow> bool" where
  "hex_string_valid str =
     (let s = (if has_hex_prefix str then drop 2 str else str) in s \<noteq> [] \<and> list_all isxdigit s)"

text \<open>The tristate a value string stands for, by its first character.\<close>

definition tri_of_string :: "string \<Rightarrow> tristate option" where
  "tri_of_string str =
     (case str of
        [] \<Rightarrow> None
      | c # r \<Rightarrow> if c = CHR ''y'' \<or> c = CHR ''Y'' then Some Yes
                 else if c = CHR ''m'' \<or> c = CHR ''M'' then Some Mod
                 else if c = CHR ''n'' \<or> c = CHR ''N'' then Some No
                 else None)"

definition sym_string_valid :: "symbol_type \<Rightarrow> string \<Rightarrow> bool" where
  "sym_string_valid ty str =
     (case ty of
        S_STRING \<Rightarrow> True
      | S_INT \<Rightarrow> int_string_valid str
      | S_HEX \<Rightarrow> hex_string_valid str
      | S_BOOLEAN \<Rightarrow> tri_of_string str \<noteq> None
      | S_TRISTATE \<Rightarrow> tri_of_string str \<noteq> None
      | S_UNKNOWN \<Rightarrow> False)"

text \<open>\<open>val >= lo && val <= hi\<close>; the second bound is only calculated when the first test holds.\<close>

definition in_range :: "calc \<Rightarrow> nat \<Rightarrow> int \<Rightarrow> symref \<Rightarrow> symref \<Rightarrow> kconf \<Rightarrow> (bool \<times> kconf) res" where
  "in_range calc base val l r k =
     rbind (sym_get_range_val calc l base k) (\<lambda>(lo, k).
       if val \<ge> lo then rbind (sym_get_range_val calc r base k) (\<lambda>(hi, k). Inr (val \<le> hi, k))
       else Inr (False, k))"

definition number_within_range :: "calc \<Rightarrow> nat \<Rightarrow> symref \<Rightarrow> string \<Rightarrow> kconf \<Rightarrow> (bool \<times> kconf) res" where
  "number_within_range calc base s str k =
     (if \<not> sym_string_valid (sym_type (syms k s)) str then Inr (False, k)
      else
        rbind (sym_get_range_prop calc s k) (\<lambda>(p, k).
        case p of
          None \<Rightarrow> Inr (True, k)
        | Some i \<Rightarrow> rbind (range_bounds (props (syms k s) ! i)) (\<lambda>(l, r).
            in_range calc base (fst (strtoll str base)) l r k)))"

definition sym_string_within_range :: "calc \<Rightarrow> symref \<Rightarrow> string \<Rightarrow> kconf \<Rightarrow> (bool \<times> kconf) res" where
  "sym_string_within_range calc s str k =
     (case sym_type (syms k s) of
        S_STRING \<Rightarrow> Inr (sym_string_valid S_STRING str, k)
      | S_INT \<Rightarrow> number_within_range calc 10 s str k
      | S_HEX \<Rightarrow> number_within_range calc 16 s str k
      | S_UNKNOWN \<Rightarrow> Inr (False, k)
      | _ \<Rightarrow> Inr (case tri_of_string str of None \<Rightarrow> False | Some t \<Rightarrow> sym_tristate_within_range k s t, k))"

text \<open>The new user string, \<open>None\<close> where the old one is kept.\<close>

definition new_user_string :: "symbol \<Rightarrow> string \<Rightarrow> string option res" where
  "new_user_string y newval =
     (if sym_type y = S_HEX \<and> \<not> has_hex_prefix newval then Inr (Some (''0x'' @ newval))
      else case def_val y S_DEF_USER of
          VNull \<Rightarrow> Inr (Some newval)
        | VStr oldval \<Rightarrow> Inr (if oldval \<noteq> newval then Some newval else None)
        | VSym _ \<Rightarrow> Inl Bad_access)"

definition sym_set_string_value :: "calc \<Rightarrow> symref \<Rightarrow> string \<Rightarrow> kconf \<Rightarrow> (bool \<times> kconf) res" where
  "sym_set_string_value calc s newval k =
     (if sym_type (syms k s) = S_BOOLEAN \<or> sym_type (syms k s) = S_TRISTATE then
        (case tri_of_string newval of
           Some t \<Rightarrow> sym_set_tristate_value calc s t k
         | None \<Rightarrow> Inr (False, k))
      else
        rbind (sym_string_within_range calc s newval k) (\<lambda>(ok, k).
          if \<not> ok then Inr (False, k)
          else
            (let k = mark_user s k in
             rbind (new_user_string (syms k s) newval) (\<lambda>v.
               case v of
                 None \<Rightarrow> Inr (True, k)
               | Some str \<Rightarrow>
                   rbind (sym_clear_all_valid calc
                     (upd s (\<lambda>y. y\<lparr>def_val := (def_val y)(S_DEF_USER := VStr str)\<rparr>) k)) (\<lambda>k. Inr (True, k))))))"

section \<open>The default value\<close>

definition default_of_prop :: "calc \<Rightarrow> symref \<Rightarrow> nat option \<Rightarrow> kconf \<Rightarrow> ((tristate \<times> sval) \<times> kconf) res" where
  "default_of_prop calc s p k =
     (case p of
        None \<Rightarrow> Inr ((No, VStr []), k)
      | Some i \<Rightarrow>
          if sym_type (syms k s) = S_BOOLEAN \<or> sym_type (syms k s) = S_TRISTATE then
            rbind (payload_calc_value calc (prop_expr (props (syms k s) ! i)) k) (\<lambda>(t, k).
              Inr ((EXPR_AND t (vis_tri (props (syms k s) ! i)), VStr []), k))
          else
            rbind (prop_get_symbol (props (syms k s) ! i)) (\<lambda>d.
            case d of
              None \<Rightarrow> Inr ((No, VStr []), k)
            | Some ds \<Rightarrow> rbind (calc ds k) (\<lambda>k. Inr ((No, curr_val (syms k ds)), k))))"

text \<open>The adjustments of the tristate default by selects, modules, the type and implies.\<close>

definition default_tri :: "kconf \<Rightarrow> symref \<Rightarrow> tristate \<Rightarrow> tristate" where
  "default_tri k s val =
     (let y = syms k s;
          val = EXPR_OR val (rev_dep_tri y);
          val = (if val = Mod \<and> \<not> sym_is_choice_value y \<and> curr_tri (syms k (modules_sym k)) = No then Yes else val);
          val = (if sym_type y = S_BOOLEAN \<and> val = Mod then Yes else val)
      in if val < implied_tri y then implied_tri y else val)"

definition tri_string :: "tristate \<Rightarrow> string" where
  "tri_string t = (case t of No \<Rightarrow> ''n'' | Mod \<Rightarrow> ''m'' | Yes \<Rightarrow> ''y'')"

definition sym_get_string_default :: "calc \<Rightarrow> symref \<Rightarrow> kconf \<Rightarrow> (sval \<times> kconf) res" where
  "sym_get_string_default calc s k =
     rbind (sym_calc_visibility calc s k) (\<lambda>k.
     rbind (calc (modules_sym k) k) (\<lambda>k.
     rbind (sym_get_default_prop calc s k) (\<lambda>(p, k).
     rbind (default_of_prop calc s p k) (\<lambda>((val, str), k).
       Inr (case sym_type (syms k s) of
              S_BOOLEAN \<Rightarrow> VStr (tri_string (default_tri k s val))
            | S_TRISTATE \<Rightarrow> VStr (tri_string (default_tri k s val))
            | S_UNKNOWN \<Rightarrow> VStr []
            | _ \<Rightarrow> str, k)))))"

section \<open>Escaping strings\<close>

text \<open>The loop over \<open>strcspn (p, "\"\\")\<close>: every quote and backslash gets a backslash before it.\<close>

fun escape_chars :: "string \<Rightarrow> string" where
  "escape_chars [] = []"
| "escape_chars (c # r) =
     (if c = CHR 0x22 \<or> c = CHR 0x5C then CHR 0x5C # c # escape_chars r else c # escape_chars r)"

definition sym_escape_string_value :: "string \<Rightarrow> string" where
  "sym_escape_string_value s = CHR 0x22 # escape_chars s @ [CHR 0x22]"

end
