(* ===== verification/Kconfig_User_Props.thy ===== *)
theory Kconfig_User_Props
  imports Kconfig_User
begin

text \<open>
  Properties of the front-end operations: what the range check accepts is what the
  calculation keeps, toggling ends, numbers that pass the syntax check are read
  completely, and values out of range are moved to the nearest bound.
\<close>

section \<open>Tristate values\<close>

lemma fold_clear_valid_fields:
  "curr_tri (syms (fold (\<lambda>s. clear_flag s SYMBOL_VALID) l k) t) = curr_tri (syms k t)"
  "def_tri (syms (fold (\<lambda>s. clear_flag s SYMBOL_VALID) l k) t) = def_tri (syms k t)"
  "(SYMBOL_DEF_USER \<in> flags (syms (fold (\<lambda>s. clear_flag s SYMBOL_VALID) l k) t)) = (SYMBOL_DEF_USER \<in> flags (syms k t))"
  by (induction l arbitrary: k) (auto simp: clear_flag_def)




lemma set_tristate_rejects:
  assumes "curr_tri (syms k s) \<noteq> val" "\<not> sym_tristate_within_range k s val"
  shows "sym_set_tristate_value calc s val k = Inr (False, k)"
  using assms by (simp add: sym_set_tristate_value_def)

lemma set_tristate_ok:
  assumes "val = curr_tri (syms k s) \<or> sym_tristate_within_range k s val"
    and "sym_set_tristate_value calc s val k = Inr x"
  shows "fst x = True"
proof -
  have "\<not> (curr_tri (syms k s) \<noteq> val \<and> \<not> sym_tristate_within_range k s val)" using assms(1) by blast
  from assms(2) [unfolded sym_set_tristate_value_def Let_def if_not_P [OF this]]
  show ?thesis unfolding rbind_Inr_iff by auto
qed

text \<open>
  Toggling a symbol tries the values that follow the current one in the cycle
  \<open>n\<close>, \<open>m\<close>, \<open>y\<close> and takes the first that is accepted: the result is the current value
  or one within range, and a value that was passed over is neither.
\<close>

theorem toggle_first_accepted:
  assumes "sym_toggle_tristate_value calc s k = Inr (v, k')"
  shows "(v = curr_tri (syms k s) \<or> sym_tristate_within_range k s v) \<and>
    (v \<noteq> next_tri (curr_tri (syms k s)) \<longrightarrow>
       \<not> sym_tristate_within_range k s (next_tri (curr_tri (syms k s)))) \<and>
    (v = curr_tri (syms k s) \<longrightarrow> (\<forall>t. t \<noteq> v \<longrightarrow> \<not> sym_tristate_within_range k s t))"
proof -
  let ?o = "curr_tri (syms k s)"
  have n3: "next_tri (next_tri (next_tri t)) = t" "next_tri t \<noteq> t" "next_tri (next_tri t) \<noteq> t" for t
    by (cases t; simp add: next_tri_def)+
  have all: "t = ?o \<or> t = next_tri ?o \<or> t = next_tri (next_tri ?o)" for t
    by (cases t; cases ?o) (simp_all add: next_tri_def)
  have step: "toggle_loop calc s ?o t k =
      (if sym_tristate_within_range k s (next_tri t) \<or> next_tri t = ?o
       then rbind (sym_set_tristate_value calc s (next_tri t) k) (\<lambda>(ok, k). Inr (next_tri t, k))
       else toggle_loop calc s ?o (next_tri t) k)" for t
  proof (cases "sym_tristate_within_range k s (next_tri t) \<or> next_tri t = ?o")
    case True
    have ok: "fst x = True" if "sym_set_tristate_value calc s (next_tri t) k = Inr x" for x
      using set_tristate_ok [of "next_tri t" k s calc x] that True by blast
    have "toggle_loop calc s ?o t k =
        rbind (sym_set_tristate_value calc s (next_tri t) k) (\<lambda>(ok, k). Inr (next_tri t, k))"
      unfolding toggle_loop.simps [of calc s ?o t k] Let_def by (rule rbind_cong) (auto dest: ok)
    with True show ?thesis by simp
  next
    case False
    then show ?thesis
      using set_tristate_rejects [of k s "next_tri t" calc]
      by (auto simp: toggle_loop.simps [of calc s ?o t k] Let_def)
  qed
  from assms have "toggle_loop calc s ?o ?o k = Inr (v, k')"
    by (simp add: sym_toggle_tristate_value_def)
  then have v: "v = (if sym_tristate_within_range k s (next_tri ?o) then next_tri ?o
      else if sym_tristate_within_range k s (next_tri (next_tri ?o)) then next_tri (next_tri ?o) else ?o)"
    using n3 [of ?o]
    by (simp add: step [of ?o] step [of "next_tri ?o"] step [of "next_tri (next_tri ?o)"] rbind_Inr_iff
        split: if_splits prod.splits)
  have "\<not> sym_tristate_within_range k s t" if "v = ?o" "t \<noteq> v" for t
  proof -
    have "\<not> sym_tristate_within_range k s (next_tri ?o) \<and> \<not> sym_tristate_within_range k s (next_tri (next_tri ?o))"
      using that(1) v n3(2,3) [of ?o] by metis
    with all [of t] that show ?thesis by metis
  qed
  moreover have "v = ?o \<or> sym_tristate_within_range k s v" using v by metis
  moreover have "v \<noteq> next_tri ?o \<longrightarrow> \<not> sym_tristate_within_range k s (next_tri ?o)" using v by metis
  ultimately show ?thesis by blast
qed

text \<open>In the demonstration configuration \<open>A\<close> is at \<open>n\<close> before it is calculated; nothing is visible yet.\<close>

theorem toggle_first_accepted_witness:
  "\<exists>k'. sym_toggle_tristate_value (\<lambda>s k. Inr k) (SymAt 0) calc_demo = Inr (No, k') \<and>
     \<not> sym_tristate_within_range calc_demo (SymAt 0) Yes"
proof -
  have "case sym_toggle_tristate_value (\<lambda>s k. Inr k) (SymAt 0) calc_demo of Inr (v, k') \<Rightarrow> v = No | _ \<Rightarrow> False"
    by code_simp
  then obtain k' where k': "sym_toggle_tristate_value (\<lambda>s k. Inr k) (SymAt 0) calc_demo = Inr (No, k')"
    by (auto split: sum.splits)
  from toggle_first_accepted [OF k'] k' show ?thesis
    by (auto simp: calc_demo_def calc_demo_syms_def plain_symbol_def)
qed

section \<open>Numbers\<close>

lemma isdigit_base: "isdigit c = is_base_digit 10 c"
  by (auto simp: isdigit_def is_base_digit_def digit_val_def Let_def)

lemma isxdigit_base: "isxdigit c = is_base_digit 16 c"
  by (auto simp: isxdigit_def isdigit_def is_base_digit_def digit_val_def Let_def)

lemma strto_scan_plain:
  assumes "list_all (is_base_digit b) s" "s \<noteq> []" "strto_prefix base s = (b, s)"
  shows "strto_scan s base = (False, digits_val b 0 s, length s)"
    and "strto_scan (CHR ''-'' # s) base = (True, digits_val b 0 s, Suc (length s))"
proof -
  obtain c r where s: "s = c # r" using assms(2) by (cases s) auto
  have c: "is_base_digit b c" using assms(1) s by simp
  show "strto_scan s base = (False, digits_val b 0 s, length s)"
    using assms base_digit_plain [OF c]
    by (auto simp: strto_scan_def strto_sign_def s takeWhile_dropWhile_all list_all_iff)
  show "strto_scan (CHR ''-'' # s) base = (True, digits_val b 0 s, Suc (length s))"
    using assms
    by (auto simp: strto_scan_def strto_sign_def takeWhile_dropWhile_all isspace_def cbyte_def)
qed

lemma strtoll_offset: "fst (snd (strtoll s base)) = snd (snd (strto_scan s base))"
  by (auto simp: strtoll_def Let_def split: prod.splits)

lemma prefix_ten: "strto_prefix 10 s = (10, s)"
  by (simp add: strto_prefix_def split: list.split)

lemma x_not_xdigit: "\<not> is_base_digit 16 CHR ''x''" "\<not> is_base_digit 16 CHR ''X''"
  by (simp_all add: is_base_digit_def digit_val_def cbyte_def)

lemma prefix_sixteen:
  assumes "list_all (is_base_digit 16) s"
  shows "strto_prefix 16 s = (16, s)"
  using assms x_not_xdigit by (auto simp: strto_prefix_def split: list.split)

text \<open>
  A string that \<open>sym_string_valid\<close> accepts for an int or hex symbol is read to
  its end by the \<open>strtoll\<close> calls that compare it with a range, so nothing of the value
  is ignored there.
\<close>

theorem valid_number_consumed:
  assumes "ty = S_INT \<and> base = 10 \<or> ty = S_HEX \<and> base = 16" "sym_string_valid ty str"
  shows "fst (snd (strtoll str base)) = length str"
  using assms(1)
proof
  assume t: "ty = S_INT \<and> base = 10"
  let ?s = "case str of [] \<Rightarrow> [] | c # r \<Rightarrow> if c = CHR ''-'' then r else str"
  have "int_string_valid str" using t assms(2) by (simp add: sym_string_valid_def)
  then have s: "?s \<noteq> []" "list_all (is_base_digit 10) ?s"
    by (auto simp: int_string_valid_def isdigit_base Let_def list_all_iff split: list.splits if_splits)
  have "str = ?s \<or> str = CHR ''-'' # ?s" by (cases str) auto
  with strto_scan_plain [OF s(2,1) prefix_ten] t show ?thesis
    unfolding strtoll_offset by (metis length_Cons snd_conv)
next
  assume t: "ty = S_HEX \<and> base = 16"
  then have v: "hex_string_valid str" using assms(2) by (simp add: sym_string_valid_def)
  show ?thesis
  proof (cases "has_hex_prefix str")
    case False
    with v have "str \<noteq> []" "list_all (is_base_digit 16) str"
      by (auto simp: hex_string_valid_def Let_def isxdigit_base list_all_iff)
    with strto_scan_plain(1) [OF this(2,1) prefix_sixteen [OF this(2)]] t show ?thesis
      by (simp add: strtoll_offset)
  next
    case True
    then obtain x r where str: "str = CHR ''0'' # x # r" "x = CHR ''x'' \<or> x = CHR ''X''"
      by (auto simp: has_hex_prefix_def split: list.splits)
    with v True have r: "r \<noteq> []" "list_all (is_base_digit 16) r"
      by (auto simp: hex_string_valid_def Let_def isxdigit_base list_all_iff)
    then obtain d q where d: "r = d # q" "isxdigit d"
      by (cases r) (auto simp: isxdigit_base)
    have "strto_scan str 16 = (False, digits_val 16 0 r, length str)"
      using r str(2) d
      by (auto simp: strto_scan_def str(1) strto_sign_def strto_prefix_def isspace_def cbyte_def
          takeWhile_dropWhile_all list_all_iff)
    with t show ?thesis by (simp add: strtoll_offset)
  qed
qed

theorem valid_number_consumed_witness:
  "fst (snd (strtoll ''0x1F'' 16)) = length ''0x1F''"
  by (rule valid_number_consumed [of S_HEX]) (simp, code_simp)

text \<open>
  \<open>sym_validate_range\<close> on an int symbol whose range applies, with calculated
  bounds that are in order: the value it leaves lies within the range, and a value
  that was within the range is kept.
\<close>

theorem validate_range_within:
  assumes "sym_type (syms k s) = S_INT" "props (syms k s) = ps @ p # qs" "\<forall>q \<in> set ps. prop_type q \<noteq> P_RANGE"
    and "prop_type p = P_RANGE" "vis_expr p = None" "prop_expr p = Some (PL_RANGE l r)" "l \<noteq> s" "r \<noteq> s"
    and "VALID (syms k l)" "VALID (syms k r)" "sym_type (syms k l) \<noteq> S_HEX" "sym_type (syms k r) \<noteq> S_HEX"
    and "curr_val (syms k l) = VStr a" "curr_val (syms k r) = VStr b" "curr_val (syms k s) = VStr v"
    and "fst (strtoll a 10) \<le> fst (strtoll b 10)"
  shows "\<exists>k' v'. sym_validate_range (sym_calc_value (Suc n)) s k = Inr k' \<and> curr_val (syms k' s) = VStr v' \<and>
     fst (strtoll a 10) \<le> fst (strtoll v' 10) \<and> fst (strtoll v' 10) \<le> fst (strtoll b 10) \<and>
     (fst (strtoll a 10) \<le> fst (strtoll v 10) \<and> fst (strtoll v 10) \<le> fst (strtoll b 10) \<longrightarrow> v' = v)"
proof -
  let ?c = "sym_calc_value (Suc n)" and ?lo = "fst (strtoll a 10)" and ?hi = "fst (strtoll b 10)"
  let ?i = "length ps" and ?v = "fst (strtoll v 10)"
  let ?k = "set_prop_vis s ?i Yes k"
  have skip: "first_visible ?c P_RANGE s ([i..<?i] @ js) k = first_visible ?c P_RANGE s js k" if "i \<le> ?i" for i js
    using that
  proof (induction "?i - i" arbitrary: i)
    case (Suc d)
    then have i: "i < ?i" by simp
    then have "prop_type (props (syms k s) ! i) \<noteq> P_RANGE"
      using assms(2,3) by (auto simp: nth_append)
    then show ?case using Suc i by (simp add: upt_conv_Cons del: sym_calc_value.simps)
  qed simp
  define js where "js = [Suc ?i..<length (props (syms k s))]"
  have "[0..<length (props (syms k s))] = [0..<?i] @ [?i..<length (props (syms k s))]"
    using assms(2) upt_add_eq_append [of 0 ?i "Suc (length qs)"] by simp
  also have "[?i..<length (props (syms k s))] = ?i # js"
    using assms(2) by (simp add: js_def upt_conv_Cons del: upt_Suc)
  finally have "sym_get_range_prop ?c s k = first_visible ?c P_RANGE s (?i # js) k"
    using skip [of 0 "?i # js"] by (simp add: sym_get_range_prop_def del: sym_calc_value.simps first_visible.simps)
  then have rp: "sym_get_range_prop ?c s k = Inr (Some ?i, ?k)"
    using assms(2,4,5) by (simp add: expr_calc_ptr_def Let_def nth_append del: sym_calc_value.simps)
  have val: "sym_get_range_val ?c x 10 ?k = Inr (fst (strtoll y 10), ?k)"
    if "x \<noteq> s" "VALID (syms k x)" "sym_type (syms k x) \<noteq> S_HEX" "curr_val (syms k x) = VStr y" for x y
  proof -
    have x: "syms ?k x = syms k x" using that(1) by (simp add: set_prop_vis_def)
    then have "?c x ?k = Inr ?k" using that(2) calc_valid [of ?k x n] by simp
    then show ?thesis using that x
      by (auto simp: sym_get_range_val_def read_string_def simp del: sym_calc_value.simps split: symbol_type.splits)
  qed
  have bounds: "range_bounds (props (syms ?k s) ! ?i) = Inr (l, r)"
    using assms(2,6) by (simp add: range_bounds_def set_prop_vis_def nth_append)
  have reads: "fst (strtoll (print_lld (fst (strtoll x 10))) 10) = fst (strtoll x 10)" for x
    using strtoll_range [of x 10] strtoll_print_lld [of "fst (strtoll x 10)"]
    by (cases "strtoll x 10") auto
  have clamp: "range_clamp ?c 10 ?v l r ?k =
      Inr (if ?v \<ge> ?lo then (if ?v \<le> ?hi then None else Some ?hi) else Some ?lo, ?k)"
    using val [OF assms(7,9,11,13)] val [OF assms(8,10,12,14)] by (simp add: range_clamp_def del: sym_calc_value.simps)
  have cv: "curr_val (syms ?k s) = VStr v" "sym_type (syms ?k s) = S_INT"
    using assms(1,15) by (simp_all add: set_prop_vis_def)
  show ?thesis
    using assms(1,16) rp bounds clamp cv reads [of a] reads [of b]
    by (auto simp: sym_validate_range_def Let_def read_string_def simp del: sym_calc_value.simps)
qed

text \<open>An int with the value 7 and the range from 8 to 20.\<close>

definition range_prop :: "symref \<Rightarrow> symref \<Rightarrow> property" where
  "range_prop l r = \<lparr>prop_type = P_RANGE, prop_text = None, vis_expr = None, vis_tri = No,
     prop_expr = Some (PL_RANGE l r), prop_menu = None\<rparr>"

definition range_demo :: kconf where
  "range_demo = calc_demo\<lparr>syms := (syms calc_demo)(
     SymAt 0 := (plain_symbol ''I'' S_INT (VStr ''7'') No)\<lparr>props := [range_prop (SymAt 5) (SymAt 6)]\<rparr>,
     SymAt 5 := const_symbol ''8'' No, SymAt 6 := const_symbol ''20'' No)\<rparr>"

theorem validate_range_within_witness:
  "\<exists>k' v'. sym_validate_range (sym_calc_value (Suc 0)) (SymAt 0) range_demo = Inr k' \<and>
     curr_val (syms k' (SymAt 0)) = VStr v' \<and> 8 \<le> fst (strtoll v' 10)"
proof -
  have n: "fst (strtoll ''8'' 10) = 8" "fst (strtoll ''20'' 10) = 20" by code_simp+
  have "\<exists>k' v'. sym_validate_range (sym_calc_value (Suc 0)) (SymAt 0) range_demo = Inr k' \<and>
     curr_val (syms k' (SymAt 0)) = VStr v' \<and> fst (strtoll ''8'' 10) \<le> fst (strtoll v' 10) \<and>
     fst (strtoll v' 10) \<le> fst (strtoll ''20'' 10) \<and>
     (fst (strtoll ''8'' 10) \<le> fst (strtoll ''7'' 10) \<and> fst (strtoll ''7'' 10) \<le> fst (strtoll ''20'' 10) \<longrightarrow> v' = ''7'')"
    by (rule validate_range_within [where ps = "[]" and qs = "[]" and p = "range_prop (SymAt 5) (SymAt 6)"
        and l = "SymAt 5" and r = "SymAt 6"])
       (simp_all add: range_demo_def range_prop_def calc_demo_def plain_symbol_def const_symbol_def VALID_def n)
  then show ?thesis unfolding n by blast
qed

end
