(* ===== verification/Kconfig_Hash.thy ===== *)
theory Kconfig_Hash
  imports Kconfig_Data
begin

text \<open>
  The table of symbols by name (\<open>strhash\<close>, \<open>sym_lookup\<close> and \<open>sym_find\<close> of
  scripts/config/symbol.c): the buckets of \<open>symbol_hash\<close>, the symbols and the next
  free address. \<open>for_all_symbols\<close> visits the buckets in order. The table is shown to
  implement a search by name over all symbols in that order.
\<close>

definition SYMBOL_HASHSIZE :: nat where
  "SYMBOL_HASHSIZE = 9973"

record symhash =
  bucket :: "nat \<Rightarrow> symref list"
  heap :: symtab
  brk :: nat

text \<open>FNV-1a on 32 bits; \<open>*s\<close> is a signed char, sign-extended by the conversion to \<open>unsigned\<close>.\<close>

definition char_ext :: "char \<Rightarrow> u32" where
  "char_ext c = signed_take_bit 7 (word_of_nat (cbyte c))"

fun strhash_from :: "u32 \<Rightarrow> string \<Rightarrow> u32" where
  "strhash_from h [] = h"
| "strhash_from h (c # r) = strhash_from ((h XOR char_ext c) * 0x01000193) r"

definition strhash :: "string \<Rightarrow> u32" where
  "strhash s = strhash_from 2166136261 s"

definition hash_index :: "string \<Rightarrow> nat" where
  "hash_index s = unat (strhash s) mod SYMBOL_HASHSIZE"

definition const_name :: "string \<Rightarrow> symref option" where
  "const_name nm =
     (if nm = ''y'' then Some symbol_yes else if nm = ''m'' then Some symbol_mod
      else if nm = ''n'' then Some symbol_no else None)"

text \<open>The test of the search loops of \<open>sym_lookup\<close> and \<open>sym_find\<close>.\<close>

definition lookup_match :: "string \<Rightarrow> symflag set \<Rightarrow> symbol \<Rightarrow> bool" where
  "lookup_match nm fl y \<longleftrightarrow> sym_name y = Some nm \<and>
     (if fl \<noteq> {} then flags y \<inter> fl \<noteq> {} else SYMBOL_CONST \<notin> flags y \<and> SYMBOL_CHOICE \<notin> flags y)"

definition find_match :: "string \<Rightarrow> symbol \<Rightarrow> bool" where
  "find_match nm y \<longleftrightarrow> sym_name y = Some nm \<and> SYMBOL_CONST \<notin> flags y"

definition new_symbol :: "string option \<Rightarrow> symflag set \<Rightarrow> symbol" where
  "new_symbol nm fl =
     \<lparr>sym_name = nm, sym_type = S_UNKNOWN, curr_val = VNull, curr_tri = No,
      def_val = (\<lambda>_. VNull), def_tri = (\<lambda>_. No), visible = No, flags = fl, props = [],
      dir_dep_expr = None, dir_dep_tri = No, rev_dep_expr = None, rev_dep_tri = No,
      implied_expr = None, implied_tri = No\<rparr>"

definition sym_insert :: "nat \<Rightarrow> string option \<Rightarrow> symflag set \<Rightarrow> symhash \<Rightarrow> symref \<times> symhash" where
  "sym_insert h nm fl st =
     (SymAt (brk st),
      st\<lparr>heap := (heap st)(SymAt (brk st) := new_symbol nm fl),
         bucket := (bucket st)(h := SymAt (brk st) # bucket st h), brk := Suc (brk st)\<rparr>)"

definition sym_lookup :: "string option \<Rightarrow> symflag set \<Rightarrow> symhash \<Rightarrow> symref \<times> symhash" where
  "sym_lookup name fl st =
     (case name of
        None \<Rightarrow> sym_insert 0 None fl st
      | Some nm \<Rightarrow>
          (case const_name nm of
             Some s \<Rightarrow> (s, st)
           | None \<Rightarrow>
               (case find (\<lambda>s. lookup_match nm fl (heap st s)) (bucket st (hash_index nm)) of
                  Some s \<Rightarrow> (s, st)
                | None \<Rightarrow> sym_insert (hash_index nm) (Some nm) fl st)))"

definition sym_find :: "string \<Rightarrow> symhash \<Rightarrow> symref option" where
  "sym_find nm st =
     (case const_name nm of
        Some s \<Rightarrow> Some s
      | None \<Rightarrow> find (\<lambda>s. find_match nm (heap st s)) (bucket st (hash_index nm)))"

section \<open>The table as a list\<close>

definition all_symbols :: "symhash \<Rightarrow> symref list" where
  "all_symbols st = concat (map (bucket st) [0..<SYMBOL_HASHSIZE])"

text \<open>A named symbol is in the bucket of its name, and addresses are below \<open>brk\<close>.\<close>

definition hash_inv :: "symhash \<Rightarrow> bool" where
  "hash_inv st \<longleftrightarrow> (\<forall>i. \<forall>s \<in> set (bucket st i). i < SYMBOL_HASHSIZE \<and> (\<exists>a < brk st. s = SymAt a) \<and>
     (\<forall>nm. sym_name (heap st s) = Some nm \<longrightarrow> i = hash_index nm))"

definition empty_hash :: symhash where
  "empty_hash = \<lparr>bucket = (\<lambda>_. []), heap = (\<lambda>_. new_symbol None {}), brk = 0\<rparr>"

lemma hash_index_less: "hash_index nm < SYMBOL_HASHSIZE"
  by (simp add: hash_index_def SYMBOL_HASHSIZE_def)

lemma hash_inv_empty: "hash_inv empty_hash"
  by (simp add: hash_inv_def empty_hash_def)

lemma sym_insert_inv:
  assumes "hash_inv st" "case nm of None \<Rightarrow> h = 0 | Some x \<Rightarrow> h = hash_index x"
  shows "hash_inv (snd (sym_insert h nm fl st))"
proof -
  have h: "h < SYMBOL_HASHSIZE" using assms(2) hash_index_less by (auto simp: SYMBOL_HASHSIZE_def split: option.splits)
  show ?thesis
    using assms h
    by (auto simp: hash_inv_def sym_insert_def new_symbol_def less_Suc_eq split: option.splits) blast+
qed

lemma sym_lookup_inv: "hash_inv st \<Longrightarrow> hash_inv (snd (sym_lookup nm fl st))"
  by (auto simp: sym_lookup_def intro!: sym_insert_inv split: option.splits)

lemma find_concat:
  assumes "i < n" "\<And>j x. j < n \<Longrightarrow> x \<in> set (f j) \<Longrightarrow> P x \<Longrightarrow> j = i"
  shows "find P (concat (map f [0..<n])) = find P (f i)"
proof -
  have none: "find P (concat (map f js)) = None" if "\<forall>j \<in> set js. j < n \<and> j \<noteq> i" for js
    using assms(2) that by (auto simp: find_None_iff)
  have app: "find P (xs @ ys) = (case find P xs of None \<Rightarrow> find P ys | Some x \<Rightarrow> Some x)" for xs ys
    by (induction xs) auto
  have "[0..<n] = [0..<i] @ i # [Suc i..<n]"
    using assms(1) by (metis le_add1 less_imp_add_positive upt_add_eq_append upt_conv_Cons add.commute gr0_conv_Suc plus_nat.add_0)
  then show ?thesis using none [of "[0..<i]"] none [of "[Suc i..<n]"] assms(1)
    by (simp add: app split: option.splits)
qed

lemma lookup_match_hit:
  assumes "sym_lookup (Some nm) {} st = (s, st')" "const_name nm = None"
  shows "find (\<lambda>s. lookup_match nm {} (heap st' s)) (bucket st' (hash_index nm)) = Some s"
proof -
  have "lookup_match nm {} (new_symbol (Some nm) {})" by (simp add: lookup_match_def new_symbol_def)
  then show ?thesis using assms by (auto simp: sym_lookup_def sym_insert_def split: option.splits)
qed

section \<open>Properties\<close>

text \<open>
  C7. \<open>sym_find\<close> searches one bucket; it returns the first symbol with the name,
  other than a constant, in the order of \<open>for_all_symbols\<close>.
\<close>

theorem sym_find_refines_list:
  assumes "hash_inv st" "const_name nm = None"
  shows "sym_find nm st = find (\<lambda>s. find_match nm (heap st s)) (all_symbols st)"
proof -
  have "find (\<lambda>s. find_match nm (heap st s)) (all_symbols st) =
      find (\<lambda>s. find_match nm (heap st s)) (bucket st (hash_index nm))"
    unfolding all_symbols_def
  proof (rule find_concat [OF hash_index_less])
    fix j x
    assume "x \<in> set (bucket st j)" "find_match nm (heap st x)"
    with assms(1) show "j = hash_index nm" by (auto simp: hash_inv_def find_match_def)
  qed
  with assms(2) show ?thesis by (simp add: sym_find_def)
qed

text \<open>
  A symbol that was looked up by name is the one \<open>sym_find\<close> returns for that
  name, as long as no choice has the same name; looking it up again finds it and
  leaves the table as it is.
\<close>

theorem sym_lookup_then_find:
  assumes "hash_inv st" "sym_lookup (Some nm) {} st = (s, st')"
    and "\<forall>i. \<forall>x \<in> set (bucket st i). sym_name (heap st x) = Some nm \<longrightarrow> SYMBOL_CHOICE \<notin> flags (heap st x)"
  shows "hash_inv st' \<and> sym_find nm st' = Some s \<and> sym_lookup (Some nm) {} st' = (s, st')"
proof (cases "const_name nm")
  case (Some c)
  then show ?thesis using assms(1,2) by (auto simp: sym_lookup_def sym_find_def)
next
  case None
  have inv: "hash_inv st'" using sym_lookup_inv [OF assms(1), of "Some nm" "{}"] assms(2) by simp
  have hit: "find (\<lambda>s. lookup_match nm {} (heap st' s)) (bucket st' (hash_index nm)) = Some s"
    by (rule lookup_match_hit [OF assms(2) None])
  have same: "find_match nm (heap st' x) = lookup_match nm {} (heap st' x)"
    if "x \<in> set (bucket st' (hash_index nm))" for x
    using that assms(2,3) None
    by (auto simp: sym_lookup_def sym_insert_def find_match_def lookup_match_def new_symbol_def split: option.splits if_splits)
  have "find (\<lambda>s. find_match nm (heap st' s)) (bucket st' (hash_index nm)) = Some s"
    unfolding hit [symmetric] by (rule find_cong) (simp_all add: same)
  then show ?thesis using None inv hit by (simp add: sym_find_def sym_lookup_def)
qed

text \<open>One symbol entered in the empty table.\<close>

definition hash_demo :: symhash where
  "hash_demo = snd (sym_lookup (Some ''FOO'') {} empty_hash)"

lemma hash_demo_inv: "hash_inv hash_demo"
  unfolding hash_demo_def by (rule sym_lookup_inv [OF hash_inv_empty])

theorem sym_find_refines_list_witness:
  "sym_find ''FOO'' hash_demo = find (\<lambda>s. find_match ''FOO'' (heap hash_demo s)) (all_symbols hash_demo)"
  by (rule sym_find_refines_list [OF hash_demo_inv]) (simp add: const_name_def)

theorem sym_lookup_then_find_witness:
  "sym_find ''FOO'' (snd (sym_lookup (Some ''FOO'') {} empty_hash)) = Some (SymAt 0)"
proof -
  have "sym_lookup (Some ''FOO'') {} empty_hash = (SymAt 0, hash_demo)"
    by (simp add: hash_demo_def sym_lookup_def const_name_def empty_hash_def sym_insert_def)
  from sym_lookup_then_find [OF hash_inv_empty this] show ?thesis
    by (simp add: hash_demo_def empty_hash_def)
qed

end
