(* ===== verification/Kconfig_Confdata.thy ===== *)
theory Kconfig_Confdata
  imports Kconfig_User Kconfig_Hash
begin

text \<open>
  Reading and writing configuration files (scripts/config/confdata.c): the value of
  a line, the reset before a file is read, the lines of a \<open>.config\<close> file read as user
  values (\<open>S_DEF_USER\<close>), \<open>conf_read\<close>, and the printers of symbols and comments. A file
  is the list of its lines, each with its newline; \<open>pfx\<close> is the value of \<open>CONFIG_\<close>,
  which an environment variable can change. Reading and writing the file itself is not
  modelled.
\<close>

record confio =
  kc :: kconf
  conf_warnings :: nat

definition conf_warning :: "confio \<Rightarrow> confio" where
  "conf_warning c = c\<lparr>conf_warnings := Suc (conf_warnings c)\<rparr>"

definition on_kc :: "(kconf \<Rightarrow> kconf) \<Rightarrow> confio \<Rightarrow> confio" where
  "on_kc f c = c\<lparr>kc := f (kc c)\<rparr>"

section \<open>The value of a line\<close>

text \<open>
  The \<open>strpbrk\<close> loop after the opening quote: a backslash is removed and the next
  character kept, the first other quote ends the string; \<open>None\<close> if there is none.
\<close>

fun unescape :: "string \<Rightarrow> string option" where
  "unescape [] = None"
| "unescape (c # r) =
     (if c = CHR 0x22 then Some []
      else if c = CHR 0x5C then (case r of [] \<Rightarrow> None | d # q \<Rightarrow> map_option (Cons d) (unescape q))
      else map_option (Cons c) (unescape r))"

definition set_def_tri :: "symref \<Rightarrow> defslot \<Rightarrow> tristate \<Rightarrow> kconf \<Rightarrow> kconf" where
  "set_def_tri s d t k = set_flag s (SYMBOL_DEF d) (upd s (\<lambda>y. y\<lparr>def_tri := (def_tri y)(d := t)\<rparr>) k)"

definition set_def_val :: "symref \<Rightarrow> defslot \<Rightarrow> sval \<Rightarrow> kconf \<Rightarrow> kconf" where
  "set_def_val s d v k = upd s (\<lambda>y. y\<lparr>def_val := (def_val y)(d := v)\<rparr>) k"

text \<open>The warning for a value that is not accepted, and the result 1.\<close>

definition invalid_value :: "defslot \<Rightarrow> confio \<Rightarrow> bool \<times> confio" where
  "invalid_value d c = (True, if d \<noteq> S_DEF_AUTO then conf_warning c else c)"

definition set_checked_string :: "symref \<Rightarrow> defslot \<Rightarrow> string \<Rightarrow> confio \<Rightarrow> bool \<times> confio" where
  "set_checked_string s d p c =
     (if sym_string_valid (sym_type (syms (kc c) s)) p then
        (False, on_kc (\<lambda>k. set_flag s (SYMBOL_DEF d) (set_def_val s d (VStr p) k)) c)
      else invalid_value d c)"

definition conf_set_sym_val :: "symref \<Rightarrow> defslot \<Rightarrow> string \<Rightarrow> confio \<Rightarrow> bool \<times> confio" where
  "conf_set_sym_val s d p c =
     (let ty = sym_type (syms (kc c) s); ch = (case p of [] \<Rightarrow> CHR 0x00 | x # _ \<Rightarrow> x) in
      if ty = S_TRISTATE \<and> ch = CHR ''m'' then (False, on_kc (set_def_tri s d Mod) c)
      else if ty = S_TRISTATE \<or> ty = S_BOOLEAN then
        (if ch = CHR ''y'' then (False, on_kc (set_def_tri s d Yes) c)
         else if ch = CHR ''n'' then (False, on_kc (set_def_tri s d No) c)
         else invalid_value d c)
      else if ty = S_STRING then
        (if ch \<noteq> CHR 0x22 then (False, c)
         else case unescape (tl p) of
             None \<Rightarrow> invalid_value d c
           | Some v \<Rightarrow> set_checked_string s d v c)
      else if ty = S_INT \<or> ty = S_HEX then set_checked_string s d p c
      else (False, c))"

section \<open>Reading a file\<close>

definition reset_symbol :: "defslot \<Rightarrow> symbol \<Rightarrow> symbol" where
  "reset_symbol d y =
     (let fl = insert SYMBOL_CHANGED (flags y) - {SYMBOL_DEF d, SYMBOL_VALID} in
      y\<lparr>flags := (if SYMBOL_CHOICE \<in> fl then insert (SYMBOL_DEF d) fl else fl),
        def_val := (def_val y)(d := VNull), def_tri := (def_tri y)(d := No)\<rparr>)"

definition conf_reset :: "defslot \<Rightarrow> kconf \<Rightarrow> kconf" where
  "conf_reset d k = fold (\<lambda>s. upd s (reset_symbol d)) (all_syms k) k"

text \<open>\<open>sym_find\<close> on the symbols in the order of \<open>for_all_symbols\<close>.\<close>

definition find_symbol :: "string \<Rightarrow> kconf \<Rightarrow> symref option" where
  "find_symbol nm k =
     (case const_name nm of
        Some s \<Rightarrow> Some s
      | None \<Rightarrow> find (\<lambda>s. find_match nm (syms k s)) (all_syms k))"

text \<open>The two forms of a line: \<open># CONFIG_X is not set\<close> and \<open>CONFIG_X=value\<close>.\<close>

definition starts_with :: "string \<Rightarrow> string \<Rightarrow> bool" where
  "starts_with pre s \<longleftrightarrow> take (length pre) s = pre"

definition unset_name :: "string \<Rightarrow> string \<Rightarrow> string option" where
  "unset_name pfx line =
     (let body = drop 2 line; rest = drop (length pfx) body;
          nm = takeWhile (\<lambda>c. c \<noteq> CHR '' '') rest; p = dropWhile (\<lambda>c. c \<noteq> CHR '' '') rest in
      if starts_with pfx body \<and> p \<noteq> [] \<and> starts_with ''is not set'' (tl p) then Some nm else None)"

definition line_value :: "string \<Rightarrow> string" where
  "line_value p =
     (let v = takeWhile (\<lambda>c. c \<noteq> CHR 0x0A) p in
      if length v < length p \<and> v \<noteq> [] \<and> last v = CHR 0x0D then butlast v else v)"

definition assigned :: "string \<Rightarrow> string \<Rightarrow> (string \<times> string) option" where
  "assigned pfx line =
     (let rest = drop (length pfx) line;
          nm = takeWhile (\<lambda>c. c \<noteq> CHR ''='') rest; p = dropWhile (\<lambda>c. c \<noteq> CHR ''='') rest in
      if p \<noteq> [] then Some (nm, line_value (tl p)) else None)"

text \<open>What a value read for a choice value does to its choice.\<close>

definition read_choice :: "symref \<Rightarrow> confio \<Rightarrow> confio res" where
  "read_choice s c =
     (if sym_is_choice_value (syms (kc c) s) then
        rbind (choice_of (syms (kc c) s)) (\<lambda>cs.
        case cs of
          None \<Rightarrow> Inl Bad_access
        | Some cs \<Rightarrow>
            (let t = def_tri (syms (kc c) s) S_DEF_USER; ct = def_tri (syms (kc c) cs) S_DEF_USER;
                 c = (case t of
                        No \<Rightarrow> c
                      | Mod \<Rightarrow> if ct = Yes then on_kc (clear_flag cs SYMBOL_DEF_USER) (conf_warning c) else c
                      | Yes \<Rightarrow> on_kc (set_def_val cs S_DEF_USER (VSym s)) (if ct \<noteq> No then conf_warning c else c))
             in Inr (on_kc (upd cs (\<lambda>y. y\<lparr>def_tri := (def_tri y)(S_DEF_USER := EXPR_OR ct t)\<rparr>)) c)))
      else Inr c)"

definition read_unset :: "string \<Rightarrow> confio \<Rightarrow> confio res" where
  "read_unset nm c =
     (case find_symbol nm (kc c) of
        None \<Rightarrow> Inr (on_kc (conf_set_changed True) c)
      | Some s \<Rightarrow>
          read_choice s
            (if sym_type (syms (kc c) s) = S_BOOLEAN \<or> sym_type (syms (kc c) s) = S_TRISTATE
             then on_kc (set_def_tri s S_DEF_USER No) c else c))"

definition read_assigned :: "string \<Rightarrow> string \<Rightarrow> confio \<Rightarrow> confio res" where
  "read_assigned nm v c =
     (case find_symbol nm (kc c) of
        None \<Rightarrow> Inr (on_kc (conf_set_changed True) c)
      | Some s \<Rightarrow>
          (case conf_set_sym_val s S_DEF_USER v c of
             (True, c) \<Rightarrow> Inr c
           | (False, c) \<Rightarrow> read_choice s c))"

definition conf_read_line :: "string \<Rightarrow> string \<Rightarrow> confio \<Rightarrow> confio res" where
  "conf_read_line pfx line c =
     (if line \<noteq> [] \<and> hd line = CHR ''#'' then
        (case unset_name pfx line of None \<Rightarrow> Inr c | Some nm \<Rightarrow> read_unset nm c)
      else if starts_with pfx line then
        (case assigned pfx line of None \<Rightarrow> Inr c | Some (nm, v) \<Rightarrow> read_assigned nm v c)
      else Inr (if line \<noteq> [] \<and> hd line \<noteq> CHR 0x0D \<and> hd line \<noteq> CHR 0x0A then conf_warning c else c))"

text \<open>\<open>conf_read_simple\<close> from the label \<open>load\<close> on.\<close>

definition conf_read_simple :: "string \<Rightarrow> string list \<Rightarrow> kconf \<Rightarrow> confio res" where
  "conf_read_simple pfx lns k =
     rfold (conf_read_line pfx) lns \<lparr>kc = conf_reset S_DEF_USER k, conf_warnings = 0\<rparr>"

section \<open>Comparing the file with the calculated values\<close>

text \<open>The first loop of \<open>conf_read\<close>: the symbols whose saved and calculated values differ.\<close>

definition symbol_saved :: "kconf \<Rightarrow> symref \<Rightarrow> bool res" where
  "symbol_saved k s =
     (let y = syms k s in
      if sym_is_choice y \<or> SYMBOL_NO_WRITE \<in> flags y then Inr True
      else if sym_has_value y \<and> SYMBOL_WRITE \<in> flags y then
        (if sym_type y = S_BOOLEAN \<or> sym_type y = S_TRISTATE then
           Inr (def_tri y S_DEF_USER = curr_tri y)
         else rbind (read_string (curr_val y)) (\<lambda>a.
              rbind (read_string (def_val y S_DEF_USER)) (\<lambda>b. Inr (a = b))))
      else Inr (\<not> sym_has_value y \<and> SYMBOL_WRITE \<notin> flags y))"

primrec count_unsaved :: "calc \<Rightarrow> symref list \<Rightarrow> nat \<times> kconf \<Rightarrow> (nat \<times> kconf) res" where
  "count_unsaved calc [] st = Inr st"
| "count_unsaved calc (s # l) st =
     rbind (calc s (snd st)) (\<lambda>k.
     rbind (symbol_saved k s) (\<lambda>b. count_unsaved calc l (if b then fst st else Suc (fst st), k)))"

text \<open>
  The second loop: user values that are invisible or out of range are dropped;
  every string is within range for a string symbol.
\<close>

definition drop_bad_value :: "calc \<Rightarrow> symref \<Rightarrow> nat \<times> kconf \<Rightarrow> (nat \<times> kconf) res" where
  "drop_bad_value calc s st =
     (let u = fst st; k = snd st in
      if sym_has_value (syms k s) \<and> \<not> sym_is_choice_value (syms k s) then
        (let k = (if visible (syms k s) = No \<and> u = 0 then clear_flag s SYMBOL_DEF_USER k else k);
             ty = sym_type (syms k s)
         in if ty = S_INT \<or> ty = S_HEX then
              rbind (read_string (def_val (syms k s) S_DEF_USER)) (\<lambda>v.
              rbind (sym_string_within_range calc s v k) (\<lambda>(ok, k).
                if ok then Inr (u, k)
                else Inr (Suc u, clear_flag s SYMBOL_VALID (clear_flag s SYMBOL_DEF_USER k))))
            else Inr (u, k))
      else Inr (u, k))"

text \<open>\<open>conf_read\<close>; \<open>None\<close> for the lines if \<open>conf_read_simple\<close> could not open the file.\<close>

definition conf_read :: "calc \<Rightarrow> string \<Rightarrow> string list option \<Rightarrow> kconf \<Rightarrow> (bool \<times> kconf) res" where
  "conf_read calc pfx lns k =
     (let k = conf_set_changed False k in
      case lns of
        None \<Rightarrow> rbind (calc (modules_sym k) k) (\<lambda>k. Inr (True, k))
      | Some l \<Rightarrow>
          rbind (conf_read_simple pfx l k) (\<lambda>c.
          rbind (calc (modules_sym (kc c)) (kc c)) (\<lambda>k.
          rbind (count_unsaved calc (all_syms k) (0, k)) (\<lambda>(u, k).
          rbind (rfold (drop_bad_value calc) (all_syms k) (u, k)) (\<lambda>(u, k).
            Inr (False, if conf_warnings c \<noteq> 0 \<or> u \<noteq> 0 then conf_set_changed True k else k))))))"

section \<open>Printing\<close>

definition nl :: string where
  "nl = [CHR 0x0A]"

definition kconfig_print_symbol :: "string \<Rightarrow> symbol_type \<Rightarrow> string \<Rightarrow> string \<Rightarrow> bool \<Rightarrow> string" where
  "kconfig_print_symbol pfx ty nm value skip_unset =
     (if (ty = S_BOOLEAN \<or> ty = S_TRISTATE) \<and> value \<noteq> [] \<and> hd value = CHR ''n'' then
        (if skip_unset then [] else ''# '' @ pfx @ nm @ '' is not set'' @ nl)
      else pfx @ nm @ ''='' @ value @ nl)"

definition header_print_symbol :: "string \<Rightarrow> symbol_type \<Rightarrow> string \<Rightarrow> string \<Rightarrow> string" where
  "header_print_symbol pfx ty nm value =
     (case ty of
        S_HEX \<Rightarrow> ''#define '' @ pfx @ nm @ '' '' @ (if has_hex_prefix value then [] else ''0x'') @ value @ nl
      | S_STRING \<Rightarrow> ''#define '' @ pfx @ nm @ '' '' @ value @ nl
      | S_INT \<Rightarrow> ''#define '' @ pfx @ nm @ '' '' @ value @ nl
      | S_UNKNOWN \<Rightarrow> []
      | _ \<Rightarrow>
          (if value \<noteq> [] \<and> hd value = CHR ''n'' then []
           else ''#define '' @ pfx @ nm @ (if value \<noteq> [] \<and> hd value = CHR ''m'' then ''_MODULE'' else []) @ '' 1'' @ nl))"

fun split_lines :: "string \<Rightarrow> string list" where
  "split_lines [] = [[]]"
| "split_lines (c # r) = (if c = CHR 0x0A then [] # split_lines r
     else (case split_lines r of [] \<Rightarrow> [[c]] | l # ls \<Rightarrow> (c # l) # ls))"

definition comment_lines :: "string \<Rightarrow> string \<Rightarrow> string" where
  "comment_lines lead value = concat (map (\<lambda>l. lead @ (if l = [] then [] else '' '' @ l) @ nl) (split_lines value))"

definition kconfig_print_comment :: "string \<Rightarrow> string" where
  "kconfig_print_comment value = comment_lines ''#'' value"

definition header_print_comment :: "string \<Rightarrow> string" where
  "header_print_comment value = ''/*'' @ nl @ comment_lines '' *'' value @ '' */'' @ nl"

definition conf_write_symbol ::
  "calc \<Rightarrow> (symbol_type \<Rightarrow> string \<Rightarrow> string \<Rightarrow> string) \<Rightarrow> symref \<Rightarrow> kconf \<Rightarrow> (string \<times> kconf) res" where
  "conf_write_symbol calc print_symbol s k =
     (let ty = sym_type (syms k s) in
      if ty = S_UNKNOWN then Inr ([], k)
      else
        rbind (sym_get_string_value calc s k) (\<lambda>(v, k).
        rbind (read_string v) (\<lambda>str.
        rbind (read_string (case sym_name (syms k s) of None \<Rightarrow> VNull | Some nm \<Rightarrow> VStr nm)) (\<lambda>nm.
          Inr (print_symbol ty nm (if ty = S_STRING then sym_escape_string_value str else str), k)))))"

end
