(* ===== verification/Kconfig_Menu.thy ===== *)
theory Kconfig_Menu
  imports Kconfig_User
begin

text \<open>
  The menu tree (scripts/config/menu.c): the operations the parser calls to build it
  and \<open>menu_finalize\<close>, which propagates dependencies to the properties of the symbols,
  creates submenus, sets up choices and flattens \<open>if\<close> blocks. A \<open>struct menu *\<close> is an
  address in a store, address 0 is \<open>rootmenu\<close>. The \<open>prompt\<close> of a menu entry with a
  symbol is a property of that symbol, so it is an index into its property list.
  Warnings go to the terminal and are left out, and so are the help texts.
  Loops along the \<open>next\<close> and \<open>parent\<close> pointers take fuel.
\<close>

datatype prompt_ref = NoPrompt | SymPrompt nat | OwnPrompt property

record menu =
  m_next :: "nat option"
  m_parent :: "nat option"
  m_list :: "nat option"
  m_sym :: "symref option"
  m_prompt :: prompt_ref
  m_visibility :: "expr option"
  m_dep :: "expr option"

text \<open>\<open>last_entry_ptr\<close> is the address of the \<open>next\<close> or the \<open>list\<close> field of a menu.\<close>

datatype entry_ptr = NextOf nat | ListOf nat

record mstate =
  mk :: kconf
  mn :: "nat \<Rightarrow> menu"
  mbrk :: nat
  current_entry :: nat
  current_menu :: nat
  last_entry_ptr :: entry_ptr

definition on_mk :: "(kconf \<Rightarrow> kconf) \<Rightarrow> mstate \<Rightarrow> mstate" where
  "on_mk f st = st\<lparr>mk := f (mk st)\<rparr>"

definition mupd :: "nat \<Rightarrow> (menu \<Rightarrow> menu) \<Rightarrow> mstate \<Rightarrow> mstate" where
  "mupd m f st = st\<lparr>mn := (mn st)(m := f (mn st m))\<rparr>"

definition get_prompt :: "mstate \<Rightarrow> nat \<Rightarrow> property option" where
  "get_prompt st m =
     (case m_prompt (mn st m) of
        NoPrompt \<Rightarrow> None
      | OwnPrompt p \<Rightarrow> Some p
      | SymPrompt i \<Rightarrow> (case m_sym (mn st m) of None \<Rightarrow> None | Some s \<Rightarrow> Some (props (syms (mk st) s) ! i)))"

section \<open>Building the tree\<close>

definition menu_init :: "mstate \<Rightarrow> mstate" where
  "menu_init st = st\<lparr>current_entry := 0, current_menu := 0, last_entry_ptr := ListOf 0\<rparr>"

definition new_prop :: "prop_type \<Rightarrow> string option \<Rightarrow> payload option \<Rightarrow> expr option \<Rightarrow> nat \<Rightarrow> property" where
  "new_prop ty txt e dep m =
     \<lparr>prop_type = ty, prop_text = txt, vis_expr = dep, vis_tri = No, prop_expr = e, prop_menu = Some m\<rparr>"

text \<open>
  \<open>menu_add_prop\<close> appends to the properties of the symbol of the current entry; the
  result is the reference the caller gets.
\<close>

definition append_prop :: "property \<Rightarrow> mstate \<Rightarrow> prompt_ref \<times> mstate" where
  "append_prop p st =
     (case m_sym (mn st (current_entry st)) of
        None \<Rightarrow> (OwnPrompt p, st)
      | Some s \<Rightarrow> (SymPrompt (length (props (syms (mk st) s))),
                   on_mk (upd s (\<lambda>y. y\<lparr>props := props y @ [p]\<rparr>)) st))"

definition menu_add_prop :: "prop_type \<Rightarrow> payload option \<Rightarrow> expr option \<Rightarrow> mstate \<Rightarrow> prompt_ref \<times> mstate" where
  "menu_add_prop ty e dep st = append_prop (new_prop ty None e dep (current_entry st)) st"

definition menu_add_expr :: "prop_type \<Rightarrow> payload option \<Rightarrow> expr option \<Rightarrow> mstate \<Rightarrow> mstate" where
  "menu_add_expr ty e dep st = snd (menu_add_prop ty e dep st)"

definition menu_add_symbol :: "prop_type \<Rightarrow> symref \<Rightarrow> expr option \<Rightarrow> mstate \<Rightarrow> mstate" where
  "menu_add_symbol ty s dep st = snd (menu_add_prop ty (Some (PL_EXPR (E_SYMBOL s))) dep st)"

definition set_entry_ptr :: "entry_ptr \<Rightarrow> nat \<Rightarrow> mstate \<Rightarrow> mstate" where
  "set_entry_ptr p m st =
     (case p of NextOf i \<Rightarrow> mupd i (\<lambda>x. x\<lparr>m_next := Some m\<rparr>) st | ListOf i \<Rightarrow> mupd i (\<lambda>x. x\<lparr>m_list := Some m\<rparr>) st)"

definition menu_add_entry :: "symref option \<Rightarrow> mstate \<Rightarrow> mstate" where
  "menu_add_entry s st =
     (let m = mbrk st;
          st = st\<lparr>mbrk := Suc m, mn := (mn st)(m := \<lparr>m_next = None, m_parent = Some (current_menu st), m_list = None,
                 m_sym = s, m_prompt = NoPrompt, m_visibility = None, m_dep = None\<rparr>)\<rparr>;
          st = (set_entry_ptr (last_entry_ptr st) m st)\<lparr>last_entry_ptr := NextOf m, current_entry := m\<rparr>
      in case s of None \<Rightarrow> st | Some y \<Rightarrow> menu_add_symbol P_SYMBOL y None st)"

definition menu_add_menu :: "mstate \<Rightarrow> mstate" where
  "menu_add_menu st = st\<lparr>last_entry_ptr := ListOf (current_entry st), current_menu := current_entry st\<rparr>"

definition menu_end_menu :: "mstate \<Rightarrow> mstate res" where
  "menu_end_menu st =
     (case m_parent (mn st (current_menu st)) of
        None \<Rightarrow> Inl Bad_access
      | Some p \<Rightarrow> Inr (st\<lparr>last_entry_ptr := NextOf (current_menu st), current_menu := p\<rparr>))"

definition menu_add_dep :: "expr option \<Rightarrow> mstate \<Rightarrow> mstate" where
  "menu_add_dep d st = mupd (current_entry st) (\<lambda>x. x\<lparr>m_dep := expr_alloc_and (m_dep x) d\<rparr>) st"

definition menu_add_visibility :: "expr option \<Rightarrow> mstate \<Rightarrow> mstate" where
  "menu_add_visibility e st = mupd (current_entry st) (\<lambda>x. x\<lparr>m_visibility := expr_alloc_and (m_visibility x) e\<rparr>) st"

definition menu_set_type :: "symbol_type \<Rightarrow> mstate \<Rightarrow> mstate res" where
  "menu_set_type ty st =
     (case m_sym (mn st (current_entry st)) of
        None \<Rightarrow> Inl Bad_access
      | Some s \<Rightarrow> Inr (if sym_type (syms (mk st) s) = S_UNKNOWN
                       then on_mk (upd s (\<lambda>y. y\<lparr>sym_type := ty\<rparr>)) st else st))"

text \<open>The loop over the enclosing menus in \<open>menu_add_prompt\<close>.\<close>

primrec upper_visibility :: "nat \<Rightarrow> mstate \<Rightarrow> nat \<Rightarrow> expr option \<Rightarrow> expr option res" where
  "upper_visibility 0 st m e = Inl Out_of_fuel"
| "upper_visibility (Suc n) st m e =
     (case m_parent (mn st m) of
        None \<Rightarrow> Inr e
      | Some p \<Rightarrow> upper_visibility n st p
          (case m_visibility (mn st p) of
             None \<Rightarrow> e
           | Some v \<Rightarrow> expr_alloc_and e (Some (expr_copy v))))"

definition menu_add_prompt :: "nat \<Rightarrow> prop_type \<Rightarrow> string \<Rightarrow> expr option \<Rightarrow> mstate \<Rightarrow> mstate res" where
  "menu_add_prompt n ty prompt dep st =
     (let m = current_entry st in
      rbind (if ty = P_PROMPT then upper_visibility n st m dep else Inr dep) (\<lambda>v.
        (let (r, st) = append_prop (new_prop ty (Some (dropWhile isspace prompt)) None v m) st
         in Inr (mupd m (\<lambda>x. x\<lparr>m_prompt := r\<rparr>) st))))"

section \<open>Dependencies\<close>

text \<open>\<open>m\<close> becomes \<open>m && MODULES\<close>.\<close>

fun rewrite_m :: "symref \<Rightarrow> expr \<Rightarrow> expr" where
  "rewrite_m ms (E_NOT e) = E_NOT (rewrite_m ms e)"
| "rewrite_m ms (E_BIN j l r) = E_BIN j (rewrite_m ms l) (rewrite_m ms r)"
| "rewrite_m ms (E_SYMBOL s) = (if s = symbol_mod then E_AND (E_SYMBOL s) (E_SYMBOL ms) else E_SYMBOL s)"
| "rewrite_m ms e = e"

definition dups_res :: "symtab \<Rightarrow> expr option \<Rightarrow> expr option res" where
  "dups_res tab e = (case expr_eliminate_dups tab e of None \<Rightarrow> Inl Out_of_fuel | Some x \<Rightarrow> Inr x)"

text \<open>An own dependency below the dependency of the parent, rewritten and simplified.\<close>

definition below_dep :: "kconf \<Rightarrow> expr option \<Rightarrow> expr option \<Rightarrow> expr option res" where
  "below_dep k parentdep own =
     dups_res (syms k)
       (expr_alloc_and (map_option expr_copy parentdep)
         (expr_transform (syms k) (map_option (rewrite_m (modules_sym k)) own)))"

definition prop_dep :: "kconf \<Rightarrow> symref option \<Rightarrow> expr option \<Rightarrow> expr option \<Rightarrow> expr option res" where
  "prop_dep k s basedep own =
     rbind (below_dep k basedep own) (\<lambda>dep.
       Inr (case s of
              Some y \<Rightarrow> if sym_type (syms k y) \<noteq> S_TRISTATE then map_option (expr_trans_bool (syms k)) dep else dep
            | None \<Rightarrow> dep))"

text \<open>A \<open>select\<close> or \<open>imply\<close> of a symbol that holds under \<open>dep\<close>.\<close>

definition add_reverse :: "property \<Rightarrow> symref option \<Rightarrow> expr option \<Rightarrow> kconf \<Rightarrow> kconf res" where
  "add_reverse p s dep k =
     (if prop_type p = P_SELECT \<or> prop_type p = P_IMPLY then
        rbind (prop_get_symbol p) (\<lambda>e.
        case (e, s) of
          (Some es, Some y) \<Rightarrow>
            (let r = expr_alloc_and (Some (E_SYMBOL y)) (map_option expr_copy dep) in
             Inr (upd es (\<lambda>x. if prop_type p = P_SELECT
                              then x\<lparr>rev_dep_expr := expr_alloc_or (rev_dep_expr x) r\<rparr>
                              else x\<lparr>implied_expr := expr_alloc_or (implied_expr x) r\<rparr>) k))
        | _ \<Rightarrow> Inl Bad_access)
      else Inr k)"

definition finalize_sym_prop :: "nat \<Rightarrow> symref \<Rightarrow> expr option \<Rightarrow> nat \<Rightarrow> kconf \<Rightarrow> kconf res" where
  "finalize_sym_prop m s basedep i k =
     (let p = props (syms k s) ! i in
      if prop_menu p \<noteq> Some m then Inr k
      else
        rbind (prop_dep k (Some s) basedep (vis_expr p)) (\<lambda>dep.
          add_reverse p (Some s) dep
            (upd s (\<lambda>y. y\<lparr>props := (props y)[i := (props y ! i)\<lparr>vis_expr := dep\<rparr>]\<rparr>) k)))"

text \<open>The body of the loop over the children of a menu.\<close>

definition finalize_child :: "expr option \<Rightarrow> nat \<Rightarrow> mstate \<Rightarrow> mstate res" where
  "finalize_child parentdep m st =
     rbind (below_dep (mk st) parentdep (m_dep (mn st m))) (\<lambda>basedep.
       (let st = mupd m (\<lambda>x. x\<lparr>m_dep := basedep\<rparr>) st in
        case m_sym (mn st m) of
          Some s \<Rightarrow>
            rbind (rfold (finalize_sym_prop m s basedep) [0..<length (props (syms (mk st) s))] (mk st)) (\<lambda>k.
              Inr (st\<lparr>mk := k\<rparr>))
        | None \<Rightarrow>
            (case m_prompt (mn st m) of
               OwnPrompt p \<Rightarrow>
                 if prop_menu p \<noteq> Some m then Inr st
                 else
                   rbind (prop_dep (mk st) None basedep (vis_expr p)) (\<lambda>dep.
                   rbind (add_reverse p None dep (mk st)) (\<lambda>k.
                     Inr ((mupd m (\<lambda>x. x\<lparr>m_prompt := OwnPrompt (p\<lparr>vis_expr := dep\<rparr>)\<rparr>) st)\<lparr>mk := k\<rparr>)))
             | _ \<Rightarrow> Inr st)))"

section \<open>Checks of numbers\<close>

definition menu_validate_number :: "kconf \<Rightarrow> symref \<Rightarrow> symref \<Rightarrow> bool res" where
  "menu_validate_number k s s2 =
     (let y = syms k s2 in
      if sym_type y = S_INT \<or> sym_type y = S_HEX then Inr True
      else if sym_type y = S_UNKNOWN then
        (case sym_name y of None \<Rightarrow> Inl Bad_access | Some nm \<Rightarrow> Inr (sym_string_valid (sym_type (syms k s)) nm))
      else Inr False)"

end
