(* ===== verification/Kconfig_Finalize.thy ===== *)
theory Kconfig_Finalize
  imports Kconfig_Menu
begin

text \<open>
  \<open>menu_finalize\<close> (scripts/config/menu.c) and the visibility of menus. The recursive
  call is a parameter \<open>fin\<close> of the parts of \<open>menu_finalize\<close> and the knot is tied with
  fuel, one unit for each nested activation. Every loop along \<open>next\<close> has the fuel \<open>n\<close>.
\<close>

type_synonym finalizer = "nat \<Rightarrow> mstate \<Rightarrow> mstate res"

section \<open>Checks of the properties of a symbol\<close>

datatype warning =
    W_default_not_symbol | W_number_invalid | W_default_outside_choice | W_uses_select
  | W_wrong_type | W_range_type | W_range_invalid

text \<open>\<open>prop_warn\<close> prints a message; here the messages are the result.\<close>

definition warn_if :: "bool \<Rightarrow> warning \<Rightarrow> warning list" where
  "warn_if b w = (if b then [w] else [])"

definition deref :: "'a option \<Rightarrow> 'a res" where
  "deref x = (case x of None \<Rightarrow> Inl Bad_access | Some y \<Rightarrow> Inr y)"

definition check_default_symbol :: "kconf \<Rightarrow> symref \<Rightarrow> symref \<Rightarrow> warning list res" where
  "check_default_symbol k s s2 =
     rbind (if sym_type (syms k s) = S_HEX \<or> sym_type (syms k s) = S_INT
            then rbind (menu_validate_number k s s2) (\<lambda>ok. Inr (warn_if (\<not> ok) W_number_invalid))
            else Inr []) (\<lambda>w1.
     rbind (if sym_is_choice (syms k s)
            then (case sym_get_choice_prop (syms k s2) of
                    None \<Rightarrow> Inr [W_default_outside_choice]
                  | Some p \<Rightarrow> rbind (prop_get_symbol p) (\<lambda>c. Inr (warn_if (c \<noteq> Some s) W_default_outside_choice)))
            else Inr []) (\<lambda>w2.
       Inr (w1 @ w2)))"

definition check_default :: "kconf \<Rightarrow> symref \<Rightarrow> property \<Rightarrow> warning list res" where
  "check_default k s p =
     rbind (deref (prop_expr p)) (\<lambda>e.
       case e of
         PL_EXPR (E_SYMBOL s2) \<Rightarrow> check_default_symbol k s s2
       | _ \<Rightarrow> Inr (warn_if (sym_type (syms k s) \<in> {S_STRING, S_INT, S_HEX}) W_default_not_symbol))"

definition check_select :: "kconf \<Rightarrow> symref \<Rightarrow> property \<Rightarrow> warning list res" where
  "check_select k s p =
     rbind (prop_get_symbol p) (\<lambda>s2.
       if sym_type (syms k s) \<noteq> S_BOOLEAN \<and> sym_type (syms k s) \<noteq> S_TRISTATE then Inr [W_uses_select]
       else rbind (deref s2) (\<lambda>y.
         Inr (warn_if (sym_type (syms k y) \<notin> {S_UNKNOWN, S_BOOLEAN, S_TRISTATE}) W_wrong_type)))"

definition check_range :: "kconf \<Rightarrow> symref \<Rightarrow> property \<Rightarrow> warning list res" where
  "check_range k s p =
     (case prop_expr p of
        Some (PL_RANGE a b) \<Rightarrow>
          rbind (menu_validate_number k s a) (\<lambda>va.
          rbind (if va then menu_validate_number k s b else Inr False) (\<lambda>vb.
            Inr (warn_if (sym_type (syms k s) \<noteq> S_INT \<and> sym_type (syms k s) \<noteq> S_HEX) W_range_type
                 @ warn_if (\<not> vb) W_range_invalid)))
      | _ \<Rightarrow> Inl Bad_access)"

definition check_prop :: "kconf \<Rightarrow> symref \<Rightarrow> property \<Rightarrow> warning list res" where
  "check_prop k s p =
     (if prop_type p = P_DEFAULT then check_default k s p
      else if prop_type p = P_SELECT \<or> prop_type p = P_IMPLY then check_select k s p
      else if prop_type p = P_RANGE then check_range k s p
      else Inr [])"

definition sym_check_prop :: "kconf \<Rightarrow> symref \<Rightarrow> warning list res" where
  "sym_check_prop k s =
     rfold (\<lambda>p ws. rbind (check_prop k s p) (\<lambda>w. Inr (ws @ w))) (props (syms k s)) []"

section \<open>Loops over menu entries\<close>

text \<open>\<open>for (menu = p; menu; menu = menu->next)\<close>: the body may change \<open>next\<close>.\<close>

primrec for_menus :: "nat \<Rightarrow> finalizer \<Rightarrow> nat option \<Rightarrow> mstate \<Rightarrow> mstate res" where
  "for_menus 0 body p st = (if p = None then Inr st else Inl Out_of_fuel)"
| "for_menus (Suc n) body p st =
     (case p of
        None \<Rightarrow> Inr st
      | Some m \<Rightarrow> rbind (body m st) (\<lambda>st. for_menus n body (m_next (mn st m)) st))"

text \<open>The type of the first entry whose symbol has one.\<close>

primrec first_type :: "nat \<Rightarrow> mstate \<Rightarrow> nat option \<Rightarrow> symbol_type option res" where
  "first_type 0 st p = (if p = None then Inr None else Inl Out_of_fuel)"
| "first_type (Suc n) st p =
     (case p of
        None \<Rightarrow> Inr None
      | Some m \<Rightarrow>
          (case m_sym (mn st m) of
             Some y \<Rightarrow> if sym_type (syms (mk st) y) \<noteq> S_UNKNOWN then Inr (Some (sym_type (syms (mk st) y)))
                      else first_type n st (m_next (mn st m))
           | None \<Rightarrow> first_type n st (m_next (mn st m))))"

section \<open>The types of choices\<close>

definition infer_choice_type :: "nat \<Rightarrow> nat \<Rightarrow> symref \<Rightarrow> mstate \<Rightarrow> mstate res" where
  "infer_choice_type n parent s st =
     (if sym_type (syms (mk st) s) = S_UNKNOWN then
        (let st = st\<lparr>current_entry := parent\<rparr> in
         rbind (first_type n st (m_list (mn st parent))) (\<lambda>ty.
           case ty of None \<Rightarrow> Inr st | Some t \<Rightarrow> menu_set_type t st))
      else Inr st)"

definition inherit_choice_type :: "symref \<Rightarrow> finalizer" where
  "inherit_choice_type s m st =
     (let st = st\<lparr>current_entry := m\<rparr> in
      case m_sym (mn st m) of
        Some y \<Rightarrow> if sym_type (syms (mk st) y) = S_UNKNOWN then menu_set_type (sym_type (syms (mk st) s)) st
                 else Inr st
      | None \<Rightarrow> Inr st)"

definition set_choice_types :: "nat \<Rightarrow> nat \<Rightarrow> symref \<Rightarrow> mstate \<Rightarrow> mstate res" where
  "set_choice_types n parent s st =
     rbind (infer_choice_type n parent s st) (\<lambda>st.
       for_menus n (inherit_choice_type s) (m_list (mn st parent)) st)"

section \<open>Children of a menu\<close>

definition is_choice_menu :: "mstate \<Rightarrow> nat \<Rightarrow> symref option" where
  "is_choice_menu st m =
     (case m_sym (mn st m) of
        Some s \<Rightarrow> if sym_is_choice (syms (mk st) s) then Some s else None
      | None \<Rightarrow> None)"

definition finalize_children :: "nat \<Rightarrow> finalizer \<Rightarrow> finalizer" where
  "finalize_children n fin parent st =
     rbind (case is_choice_menu st parent of
              Some s \<Rightarrow> rbind (set_choice_types n parent s st) (\<lambda>st. Inr (Some (E_SYMBOL s), st))
            | None \<Rightarrow> Inr (m_dep (mn st parent), st)) (\<lambda>(parentdep, st).
     rbind (for_menus n (finalize_child parentdep) (m_list (mn st parent)) st) (\<lambda>st.
       for_menus n fin (m_list (mn st parent)) st))"

section \<open>Automatic submenus\<close>

text \<open>The condition in a form that compares every symbol with \<open>n\<close>, simplified.\<close>

definition not_no_dep :: "kconf \<Rightarrow> expr option \<Rightarrow> expr option res" where
  "not_no_dep k e = dups_res (syms k) (expr_transform (syms k) (expr_trans_compare e True symbol_no))"

definition prompt_dep :: "mstate \<Rightarrow> nat \<Rightarrow> expr option" where
  "prompt_dep st m = (case get_prompt st m of Some p \<Rightarrow> vis_expr p | None \<Rightarrow> m_dep (mn st m))"

text \<open>Whether the entry \<open>m\<close> goes into the submenu of the symbol \<open>s\<close> with the condition \<open>basedep\<close>.\<close>

definition in_submenu :: "mstate \<Rightarrow> symref \<Rightarrow> expr option \<Rightarrow> nat \<Rightarrow> bool res" where
  "in_submenu st s basedep m =
     (case prompt_dep st m of
        None \<Rightarrow> Inr False
      | Some dep \<Rightarrow>
          if \<not> expr_contains_symbol dep s then Inr False
          else if expr_depends_symbol dep s then Inr True
          else rbind (not_no_dep (mk st) (Some dep)) (\<lambda>d.
            Inr (expr_is_yes (snd (expr_eliminate_eq d (map_option expr_copy basedep))))))"

text \<open>The loop over the entries after \<open>parent\<close>; the result is \<open>last_menu\<close>.\<close>

primrec collect_submenu ::
  "nat \<Rightarrow> finalizer \<Rightarrow> nat \<Rightarrow> symref \<Rightarrow> expr option \<Rightarrow> nat option \<Rightarrow> nat option \<Rightarrow> mstate \<Rightarrow> (nat option \<times> mstate) res" where
  "collect_submenu 0 fin parent s basedep p lst st = (if p = None then Inr (lst, st) else Inl Out_of_fuel)"
| "collect_submenu (Suc n) fin parent s basedep p lst st =
     (case p of
        None \<Rightarrow> Inr (lst, st)
      | Some m \<Rightarrow>
          rbind (in_submenu st s basedep m) (\<lambda>b.
            if b then
              rbind (fin m st) (\<lambda>st.
                (let st = mupd m (\<lambda>x. x\<lparr>m_parent := Some parent\<rparr>) st in
                 collect_submenu n fin parent s basedep (m_next (mn st m)) (Some m) st))
            else Inr (lst, st)))"

definition hang_submenu :: "nat \<Rightarrow> nat option \<Rightarrow> mstate \<Rightarrow> mstate" where
  "hang_submenu parent lst st =
     (case lst of
        None \<Rightarrow> st
      | Some l \<Rightarrow>
          (let st = mupd parent (\<lambda>x. x\<lparr>m_list := m_next x\<rparr>) st;
               st = mupd parent (\<lambda>x. x\<lparr>m_next := m_next (mn st l)\<rparr>) st
           in mupd l (\<lambda>x. x\<lparr>m_next := None\<rparr>) st))"

definition create_submenu :: "nat \<Rightarrow> finalizer \<Rightarrow> nat \<Rightarrow> symref \<Rightarrow> mstate \<Rightarrow> mstate res" where
  "create_submenu n fin parent s st =
     rbind (not_no_dep (mk st) (case get_prompt st parent of Some p \<Rightarrow> vis_expr p | None \<Rightarrow> None)) (\<lambda>basedep.
     rbind (collect_submenu n fin parent s basedep (m_next (mn st parent)) None st) (\<lambda>(lst, st).
       (let st = hang_submenu parent lst st in
        Inr (on_mk (upd s (\<lambda>y. y\<lparr>dir_dep_expr := expr_alloc_or (dir_dep_expr y) (m_dep (mn st parent))\<rparr>)) st))))"

section \<open>Choice values and flattening\<close>

text \<open>A choice value that is not tristate depends on its tristate choice being \<open>y\<close>.\<close>

definition require_yes :: "nat \<Rightarrow> symref \<Rightarrow> symref \<Rightarrow> mstate \<Rightarrow> mstate" where
  "require_yes m s y st =
     (if sym_type (syms (mk st) s) = S_TRISTATE \<and> sym_type (syms (mk st) y) \<noteq> S_TRISTATE then
        (let basedep = Some (E_COMP E_EQUAL s symbol_yes) in
         on_mk (upd y (\<lambda>x. x\<lparr>props := map (\<lambda>p. if prop_menu p = Some m
                             then p\<lparr>vis_expr := expr_alloc_and (map_option expr_copy basedep) (vis_expr p)\<rparr> else p)
                           (props x)\<rparr>))
           (mupd m (\<lambda>x. x\<lparr>m_dep := expr_alloc_and basedep (m_dep x)\<rparr>) st))
      else st)"

text \<open>Appending to the \<open>E_LIST\<close> chain of the first \<open>P_CHOICE\<close> property.\<close>

fun append_value :: "symref \<Rightarrow> property list \<Rightarrow> property list res" where
  "append_value y [] = Inl Bad_access"
| "append_value y (p # ps) =
     (if prop_type p = P_CHOICE then
        (case prop_expr p of
           None \<Rightarrow> Inr (p\<lparr>prop_expr := Some (PL_LIST [y])\<rparr> # ps)
         | Some (PL_LIST l) \<Rightarrow> Inr (p\<lparr>prop_expr := Some (PL_LIST (l @ [y]))\<rparr> # ps)
         | _ \<Rightarrow> Inl Bad_access)
      else rbind (append_value y ps) (\<lambda>ps. Inr (p # ps)))"

definition add_choice_value :: "nat \<Rightarrow> symref \<Rightarrow> symref \<Rightarrow> mstate \<Rightarrow> mstate res" where
  "add_choice_value m s y st =
     (let st = on_mk (set_flag y SYMBOL_CHOICEVAL) (st\<lparr>current_entry := m\<rparr>);
          st = menu_add_symbol P_CHOICE s None (require_yes m s y st)
      in rbind (append_value y (props (syms (mk st) s))) (\<lambda>ps.
           Inr (on_mk (upd s (\<lambda>x. x\<lparr>props := ps\<rparr>)) st)))"

definition setup_choice_value :: "symref option \<Rightarrow> finalizer" where
  "setup_choice_value s m st =
     (case (s, m_sym (mn st m)) of
        (Some c, Some y) \<Rightarrow>
          if sym_is_choice (syms (mk st) c) \<and> \<not> sym_is_choice_value (syms (mk st) y)
          then add_choice_value m c y st else Inr st
      | _ \<Rightarrow> Inr st)"

text \<open>The inner loop sets \<open>parent\<close> along the list and ends at its last entry.\<close>

primrec adopt :: "nat \<Rightarrow> nat \<Rightarrow> nat \<Rightarrow> mstate \<Rightarrow> (nat \<times> mstate) res" where
  "adopt 0 parent l st = Inl Out_of_fuel"
| "adopt (Suc n) parent l st =
     (let st = mupd l (\<lambda>x. x\<lparr>m_parent := Some parent\<rparr>) st in
      case m_next (mn st l) of None \<Rightarrow> Inr (l, st) | Some l' \<Rightarrow> adopt n parent l' st)"

definition has_prompt_text :: "mstate \<Rightarrow> nat \<Rightarrow> bool" where
  "has_prompt_text st m = (case get_prompt st m of None \<Rightarrow> False | Some p \<Rightarrow> prop_text p \<noteq> None)"

definition flatten_entry :: "nat \<Rightarrow> nat \<Rightarrow> finalizer" where
  "flatten_entry n parent m st =
     (case m_list (mn st m) of
        None \<Rightarrow> Inr st
      | Some l \<Rightarrow>
          if has_prompt_text st m then Inr st
          else rbind (adopt n parent l st) (\<lambda>(lst, st).
            (let st = mupd lst (\<lambda>x. x\<lparr>m_next := m_next (mn st m)\<rparr>) st
             in Inr (mupd m (\<lambda>x. x\<lparr>m_next := m_list x, m_list := None\<rparr>) st))))"

definition finalize_entry :: "nat \<Rightarrow> nat \<Rightarrow> symref option \<Rightarrow> finalizer" where
  "finalize_entry n parent s m st = rbind (setup_choice_value s m st) (flatten_entry n parent m)"

section \<open>The whole function\<close>

definition finalize_warnings :: "symref option \<Rightarrow> mstate \<Rightarrow> mstate res" where
  "finalize_warnings s st =
     (case s of
        None \<Rightarrow> Inr st
      | Some y \<Rightarrow>
          if SYMBOL_WARNED \<in> flags (syms (mk st) y) then Inr st
          else rbind (sym_check_prop (mk st) y) (\<lambda>ws. Inr (on_mk (set_flag y SYMBOL_WARNED) st)))"

definition force_choice_mode :: "nat \<Rightarrow> symref option \<Rightarrow> mstate \<Rightarrow> mstate" where
  "force_choice_mode parent s st =
     (case (s, get_prompt st parent) of
        (Some y, Some p) \<Rightarrow>
          if sym_is_optional (syms (mk st) y) then st
          else on_mk (upd y (\<lambda>x. x\<lparr>rev_dep_expr := expr_alloc_or (rev_dep_expr x)
                               (expr_alloc_and (vis_expr p) (Some (E_SYMBOL symbol_mod)))\<rparr>)) st
      | _ \<Rightarrow> st)"

definition finalize_body :: "nat \<Rightarrow> finalizer \<Rightarrow> finalizer" where
  "finalize_body n fin parent st =
     (let s = m_sym (mn st parent) in
      rbind (if m_list (mn st parent) \<noteq> None then finalize_children n fin parent st
             else (case s of Some y \<Rightarrow> create_submenu n fin parent y st | None \<Rightarrow> Inr st)) (\<lambda>st.
      rbind (for_menus n (finalize_entry n parent s) (m_list (mn st parent)) st) (\<lambda>st.
      rbind (finalize_warnings s st) (\<lambda>st.
        Inr (force_choice_mode parent s st)))))"

primrec menu_finalize :: "nat \<Rightarrow> nat \<Rightarrow> finalizer" where
  "menu_finalize 0 n parent st = Inl Out_of_fuel"
| "menu_finalize (Suc d) n parent st = finalize_body n (menu_finalize d n) parent st"

section \<open>Visibility of menus\<close>

definition menu_has_prompt :: "mstate \<Rightarrow> nat \<Rightarrow> bool" where
  "menu_has_prompt st m = (m_prompt (mn st m) \<noteq> NoPrompt)"

definition menu_get_prompt :: "mstate \<Rightarrow> nat \<Rightarrow> string option" where
  "menu_get_prompt st m =
     (case get_prompt st m of
        Some p \<Rightarrow> prop_text p
      | None \<Rightarrow> (case m_sym (mn st m) of Some s \<Rightarrow> sym_name (syms (mk st) s) | None \<Rightarrow> None))"

text \<open>The nearest entry at or above \<open>m\<close> that is a menu, or the root.\<close>

primrec menu_get_parent_menu :: "nat \<Rightarrow> mstate \<Rightarrow> nat \<Rightarrow> nat res" where
  "menu_get_parent_menu 0 st m = Inl Out_of_fuel"
| "menu_get_parent_menu (Suc n) st m =
     (if m = 0 then Inr m
      else if (case get_prompt st m of Some p \<Rightarrow> prop_type p = P_MENU | None \<Rightarrow> False) then Inr m
      else rbind (deref (m_parent (mn st m))) (menu_get_parent_menu n st))"

definition run_k :: "('a \<times> kconf) res \<Rightarrow> mstate \<Rightarrow> ('a \<times> mstate) res" where
  "run_k r st = rbind r (\<lambda>(x, k). Inr (x, st\<lparr>mk := k\<rparr>))"

text \<open>The value of the condition of the prompt, stored in the property.\<close>

definition prompt_visible :: "calc \<Rightarrow> nat \<Rightarrow> mstate \<Rightarrow> (tristate \<times> mstate) res" where
  "prompt_visible calc m st =
     (case m_sym (mn st m) of
        Some s \<Rightarrow>
          rbind (calc s (mk st)) (\<lambda>k.
            (let st = st\<lparr>mk := k\<rparr> in
             rbind (deref (get_prompt st m)) (\<lambda>p. Inr (vis_tri p, st))))
      | None \<Rightarrow>
          rbind (deref (get_prompt st m)) (\<lambda>p.
          rbind (run_k (expr_calc_ptr calc (vis_expr p) (mk st)) st) (\<lambda>(t, st).
            Inr (t, mupd m (\<lambda>x. x\<lparr>m_prompt := OwnPrompt (p\<lparr>vis_tri := t\<rparr>)\<rparr>) st))))"

text \<open>The loop \<open>for (child = menu->list; ...) if (menu_is_visible(child))\<close>.\<close>

primrec any_visible ::
  "nat \<Rightarrow> (nat \<Rightarrow> mstate \<Rightarrow> (bool \<times> mstate) res) \<Rightarrow> nat option \<Rightarrow> mstate \<Rightarrow> (bool \<times> mstate) res" where
  "any_visible 0 vis p st = (if p = None then Inr (False, st) else Inl Out_of_fuel)"
| "any_visible (Suc n) vis p st =
     (case p of
        None \<Rightarrow> Inr (False, st)
      | Some m \<Rightarrow> rbind (vis m st) (\<lambda>(b, st). if b then Inr (True, st) else any_visible n vis (m_next (mn st m)) st))"

definition visible_body ::
  "calc \<Rightarrow> nat \<Rightarrow> (nat \<Rightarrow> mstate \<Rightarrow> (bool \<times> mstate) res) \<Rightarrow> nat \<Rightarrow> mstate \<Rightarrow> (bool \<times> mstate) res" where
  "visible_body calc n vis m st =
     (if \<not> menu_has_prompt st m then Inr (False, st)
      else
        rbind (case m_visibility (mn st m) of
                 None \<Rightarrow> Inr (Yes, st)
               | Some e \<Rightarrow> run_k (expr_calc_value calc e (mk st)) st) (\<lambda>(v, st).
        if v = No then Inr (False, st)
        else
          rbind (prompt_visible calc m st) (\<lambda>(t, st).
          if t \<noteq> No then Inr (True, st)
          else
            (case m_sym (mn st m) of
               None \<Rightarrow> Inr (False, st)
             | Some s \<Rightarrow>
                 if curr_tri (syms (mk st) s) = No then Inr (False, st)
                 else
                   rbind (any_visible n vis (m_list (mn st m)) st) (\<lambda>(b, st).
                     Inr (if b then (True, on_mk (set_flag s SYMBOL_DEF_USER) st) else (False, st)))))))"

primrec menu_is_visible :: "calc \<Rightarrow> nat \<Rightarrow> nat \<Rightarrow> nat \<Rightarrow> mstate \<Rightarrow> (bool \<times> mstate) res" where
  "menu_is_visible calc 0 n m st = Inl Out_of_fuel"
| "menu_is_visible calc (Suc d) n m st = visible_body calc n (menu_is_visible calc d n) m st"

definition menu_is_empty :: "calc \<Rightarrow> nat \<Rightarrow> nat \<Rightarrow> nat \<Rightarrow> mstate \<Rightarrow> (bool \<times> mstate) res" where
  "menu_is_empty calc d n m st =
     rbind (any_visible n (menu_is_visible calc d n) (m_list (mn st m)) st) (\<lambda>(b, st). Inr (\<not> b, st))"

end
