(* ===== verification/Kconfig_Write.thy ===== *)
theory Kconfig_Write
  imports Kconfig_Confdata Kconfig_Finalize
begin

text \<open>
  Writing configuration files (scripts/config/confdata.c): \<open>conf_write\<close> with the files
  it replaces, and \<open>conf_write_defconfig\<close>. Both walk the menu tree along its \<open>list\<close>,
  \<open>next\<close> and \<open>parent\<close> pointers, which takes fuel. What is written to a stream is collected
  as text; the file system is a map from paths to contents with the answers of the system
  to \<open>mkdir\<close>, \<open>fopen\<close>, \<open>fstat\<close> and \<open>rename\<close>. \<open>compat_getline\<close> cuts a text into the lines that
  \<open>conf_read_simple\<close> gets; a file has no NUL characters.
\<close>

section \<open>Lines of a file\<close>

text \<open>A line with its newline, or what is left at the end of the file, and the rest.\<close>

fun compat_getline :: "string \<Rightarrow> string \<times> string" where
  "compat_getline [] = ([], [])"
| "compat_getline (c # r) =
     (if c = CHR 0x0A then ([c], r)
      else let (line, rest) = compat_getline r in (c # line, rest))"

lemma compat_getline_rest: "t \<noteq> [] \<Longrightarrow> length (snd (compat_getline t)) < length t"
proof (induction t rule: compat_getline.induct)
  case (2 c r)
  then show ?case by (cases "r = []") (auto simp: split_beta)
qed simp

function getlines :: "string \<Rightarrow> string list" where
  "getlines t =
     (if t = [] then [] else fst (compat_getline t) # getlines (snd (compat_getline t)))"
  by pat_completeness auto

termination getlines
  by (relation "measure length") (simp_all add: compat_getline_rest)

declare getlines.simps [simp del]

section \<open>Walking the menu tree\<close>

text \<open>
  The step from an entry to the next one, and the loop. \<open>up\<close> is what is done with an
  enclosing menu when all its entries are done.
\<close>

primrec walk_up ::
  "nat \<Rightarrow> ('w \<Rightarrow> mstate) \<Rightarrow> (nat \<Rightarrow> 'w \<Rightarrow> 'w res) \<Rightarrow> nat \<Rightarrow> 'w \<Rightarrow> (nat option \<times> 'w) res" where
  "walk_up 0 tree up m w = Inl Out_of_fuel"
| "walk_up (Suc n) tree up m w =
     (case m_parent (mn (tree w) m) of
        None \<Rightarrow> Inr (None, w)
      | Some p \<Rightarrow>
          rbind (up p w) (\<lambda>w.
            case m_next (mn (tree w) p) of
              Some q \<Rightarrow> Inr (Some q, w)
            | None \<Rightarrow> walk_up n tree up p w))"

definition walk_next ::
  "nat \<Rightarrow> ('w \<Rightarrow> mstate) \<Rightarrow> (nat \<Rightarrow> 'w \<Rightarrow> 'w res) \<Rightarrow> nat \<Rightarrow> 'w \<Rightarrow> (nat option \<times> 'w) res" where
  "walk_next n tree up m w =
     (case m_list (mn (tree w) m) of
        Some c \<Rightarrow> Inr (Some c, w)
      | None \<Rightarrow>
          (case m_next (mn (tree w) m) of
             Some q \<Rightarrow> Inr (Some q, w)
           | None \<Rightarrow> walk_up n tree up m w))"

primrec menu_walk ::
  "nat \<Rightarrow> nat \<Rightarrow> ('w \<Rightarrow> mstate) \<Rightarrow> (nat \<Rightarrow> 'w \<Rightarrow> 'w res) \<Rightarrow> (nat \<Rightarrow> 'w \<Rightarrow> 'w res) \<Rightarrow> nat option \<Rightarrow> 'w \<Rightarrow> 'w res" where
  "menu_walk 0 n tree visit up p w = (if p = None then Inr w else Inl Out_of_fuel)"
| "menu_walk (Suc f) n tree visit up p w =
     (case p of
        None \<Rightarrow> Inr w
      | Some m \<Rightarrow>
          rbind (visit m w) (\<lambda>w.
          rbind (walk_next n tree up m w) (\<lambda>(q, w). menu_walk f n tree visit up q w)))"

section \<open>The text of a configuration\<close>

record conf_out =
  out_text :: string
  need_newline :: bool
  out_tree :: mstate

definition emit :: "string \<Rightarrow> mstate \<Rightarrow> bool \<Rightarrow> conf_out \<Rightarrow> conf_out" where
  "emit txt st nn w = w\<lparr>out_text := out_text w @ txt, need_newline := nn, out_tree := st\<rparr>"

definition conf_write_heading :: "(string \<Rightarrow> string) \<Rightarrow> mstate \<Rightarrow> string res" where
  "conf_write_heading print_comment st =
     rbind (deref (get_prompt st 0)) (\<lambda>p.
     rbind (deref (prop_text p)) (\<lambda>title.
       Inr (print_comment (take 255 (nl @ ''Automatically generated file; DO NOT EDIT.'' @ nl @ title @ nl)))))"

text \<open>The body of the loop of \<open>conf_write\<close> up to the label \<open>next\<close>.\<close>

definition write_entry :: "calc \<Rightarrow> nat \<Rightarrow> string \<Rightarrow> nat \<Rightarrow> conf_out \<Rightarrow> conf_out res" where
  "write_entry calc n pfx m w =
     (let st = out_tree w in
      case m_sym (mn st m) of
        None \<Rightarrow>
          rbind (menu_is_visible calc n n m st) (\<lambda>(vis, st).
            if \<not> vis then Inr (w\<lparr>out_tree := st\<rparr>)
            else
              rbind (deref (menu_get_prompt st m)) (\<lambda>str.
                Inr (emit (nl @ ''#'' @ nl @ ''# '' @ str @ nl @ ''#'' @ nl) st False w)))
      | Some s \<Rightarrow>
          if SYMBOL_CHOICE \<in> flags (syms (mk st) s) \<or> SYMBOL_WRITTEN \<in> flags (syms (mk st) s) then Inr w
          else
            rbind (calc s (mk st)) (\<lambda>k.
              if SYMBOL_WRITE \<notin> flags (syms k s) then Inr (w\<lparr>out_tree := st\<lparr>mk := k\<rparr>\<rparr>)
              else
                rbind (conf_write_symbol calc (\<lambda>ty nm v. kconfig_print_symbol pfx ty nm v False) s
                        (set_flag s SYMBOL_WRITTEN k)) (\<lambda>(line, k).
                  Inr (emit ((if need_newline w then nl else []) @ line) (st\<lparr>mk := k\<rparr>) False w))))"

text \<open>The end of a menu.\<close>

definition write_menu_end :: "calc \<Rightarrow> nat \<Rightarrow> nat \<Rightarrow> conf_out \<Rightarrow> conf_out res" where
  "write_menu_end calc n m w =
     (if m_sym (mn (out_tree w) m) = None then
        rbind (menu_is_visible calc n n m (out_tree w)) (\<lambda>(vis, st).
          if vis \<and> m \<noteq> 0 then
            rbind (deref (menu_get_prompt st m)) (\<lambda>str.
              Inr (emit (''# end of '' @ str @ nl) st True w))
          else Inr (w\<lparr>out_tree := st\<rparr>))
      else Inr w)"

text \<open>What \<open>conf_write\<close> writes to its file; \<open>n\<close> bounds the depth and the number of entries.\<close>

definition conf_write_text :: "calc \<Rightarrow> nat \<Rightarrow> string \<Rightarrow> mstate \<Rightarrow> (string \<times> mstate) res" where
  "conf_write_text calc n pfx st =
     rbind (conf_write_heading kconfig_print_comment st) (\<lambda>h.
     rbind (if conf_changed (mk st) then Inr (mk st) else sym_clear_all_valid calc (mk st)) (\<lambda>k.
     rbind (menu_walk n n out_tree (write_entry calc n pfx) (write_menu_end calc n) (m_list (mn st 0))
             \<lparr>out_text = h, need_newline = False, out_tree = st\<lparr>mk := k\<rparr>\<rparr>) (\<lambda>w.
       Inr (out_text w, out_tree w))))"

section \<open>Files\<close>

record fsys =
  files :: "string \<Rightarrow> string option"
  dirs :: "string list"
  mkdir_ok :: "string \<Rightarrow> bool"
  open_ok :: "string \<Rightarrow> bool"
  stat_ok :: "string \<Rightarrow> bool"
  rename_ok :: "string \<Rightarrow> string \<Rightarrow> bool"

definition PATH_MAX :: nat where
  "PATH_MAX = 4096"

definition is_dir :: "fsys \<Rightarrow> string \<Rightarrow> bool" where
  "is_dir fs path \<longleftrightarrow> path \<in> set (dirs fs)"

text \<open>
  The files are compared through \<open>mmap\<close>, which fails for an empty file. If \<open>fstat\<close> fails,
  its result -1 becomes the result \<open>true\<close>.
\<close>

definition is_same :: "fsys \<Rightarrow> string \<Rightarrow> string \<Rightarrow> bool" where
  "is_same fs file1 file2 =
     (case files fs file1 of
        None \<Rightarrow> False
      | Some a \<Rightarrow>
          (case files fs file2 of
             None \<Rightarrow> False
           | Some b \<Rightarrow>
               if \<not> stat_ok fs file1 \<or> \<not> stat_ok fs file2 then True
               else if length a \<noteq> length b \<or> a = [] then False
               else a = b))"

text \<open>The directories above a path: every prefix before a slash, leading slashes apart.\<close>

definition parent_dirs :: "string \<Rightarrow> string list" where
  "parent_dirs path =
     (let lead = length (takeWhile (\<lambda>c. c = CHR ''/'') path) in
      map (\<lambda>i. take i path)
        (filter (\<lambda>i. lead \<le> i \<and> path ! i = CHR ''/'' \<and> (i = 0 \<or> path ! (i - 1) \<noteq> CHR ''/'')) [0..<length path]))"

fun make_dirs :: "string list \<Rightarrow> fsys \<Rightarrow> int \<times> fsys" where
  "make_dirs [] fs = (0, fs)"
| "make_dirs (d # ds) fs =
     (if is_dir fs d then make_dirs ds fs
      else if mkdir_ok fs d then make_dirs ds (fs\<lparr>dirs := d # dirs fs\<rparr>)
      else (- 1, fs))"

definition make_parent_dir :: "string \<Rightarrow> fsys \<Rightarrow> int \<times> fsys" where
  "make_parent_dir path fs = make_dirs (parent_dirs (take PATH_MAX path)) fs"

definition rename :: "string \<Rightarrow> string \<Rightarrow> fsys \<Rightarrow> bool \<times> fsys" where
  "rename old new fs =
     (case files fs old of
        None \<Rightarrow> (False, fs)
      | Some c \<Rightarrow>
          if rename_ok fs old new then (True, fs\<lparr>files := (files fs)(old := None, new := Some c)\<rparr>)
          else (False, fs))"

definition clear_written :: "kconf \<Rightarrow> kconf" where
  "clear_written k = fold (\<lambda>s. clear_flag s SYMBOL_WRITTEN) (all_syms k) k"

text \<open>
  The end of \<open>conf_write\<close>: the stream is closed, and the new file takes the place of the old
  one, of which a copy is kept. The result says whether the configuration was written.
\<close>

definition install_file :: "bool \<Rightarrow> string \<Rightarrow> string \<Rightarrow> string \<Rightarrow> fsys \<Rightarrow> bool \<times> fsys" where
  "install_file overwrite name tmpname txt fs =
     (if overwrite then (True, fs\<lparr>files := (files fs)(name := Some txt)\<rparr>)
      else
        let fs = fs\<lparr>files := (files fs)(tmpname := Some txt)\<rparr> in
        if is_same fs name tmpname then (True, fs\<lparr>files := (files fs)(tmpname := None)\<rparr>)
        else
          let (_, fs) = rename name (take PATH_MAX (name @ ''.old'')) fs in
          rename tmpname name fs)"

text \<open>
  \<open>overwrite\<close> is the environment variable KCONFIG_OVERWRITECONFIG, \<open>pid\<close> the number of the
  process in decimal.
\<close>

definition conf_write ::
  "calc \<Rightarrow> nat \<Rightarrow> string \<Rightarrow> bool \<Rightarrow> string \<Rightarrow> string \<Rightarrow> fsys \<Rightarrow> mstate \<Rightarrow> (int \<times> fsys \<times> mstate) res" where
  "conf_write calc n pfx overwrite pid name fs st =
     (if name = [] \<or> is_dir fs name then Inr (- 1, fs, st)
      else
        let (ret, fs) = make_parent_dir name fs;
            tmpname = take PATH_MAX (name @ ''.'' @ pid @ ''.tmp'')
        in
          if ret \<noteq> 0 then Inr (- 1, fs, st)
          else if \<not> open_ok fs (if overwrite then name else tmpname) then Inr (1, fs, st)
          else
            rbind (conf_write_text calc n pfx st) (\<lambda>(txt, st).
              let st = on_mk clear_written st; (ok, fs) = install_file overwrite name tmpname txt fs in
              if ok then Inr (0, fs, on_mk (conf_set_changed False) st) else Inr (1, fs, st)))"

section \<open>Minimal configurations\<close>

text \<open>A choice value that is the default of its choice need not be written.\<close>

definition default_choice_value :: "calc \<Rightarrow> symref \<Rightarrow> kconf \<Rightarrow> (bool \<times> kconf) res" where
  "default_choice_value calc s k =
     (if sym_is_choice_value (syms k s) then
        rbind (choice_of (syms k s)) (\<lambda>cs.
        rbind (deref cs) (\<lambda>cs.
        rbind (sym_choice_default calc cs k) (\<lambda>(ds, k).
          Inr (\<not> sym_is_optional (syms k cs) \<and> ds = Some s \<and>
               sym_type (syms k s) = S_BOOLEAN \<and> curr_tri (syms k s) = Yes, k))))
      else Inr (False, k))"

definition write_default :: "calc \<Rightarrow> nat \<Rightarrow> string \<Rightarrow> nat \<Rightarrow> conf_out \<Rightarrow> conf_out res" where
  "write_default calc n pfx m w =
     (let st = out_tree w in
      case m_sym (mn st m) of
        None \<Rightarrow> rbind (menu_is_visible calc n n m st) (\<lambda>(_, st). Inr (w\<lparr>out_tree := st\<rparr>))
      | Some s \<Rightarrow>
          if sym_is_choice (syms (mk st) s) then Inr w
          else
            rbind (calc s (mk st)) (\<lambda>k.
              if SYMBOL_WRITE \<notin> flags (syms k s) then Inr (w\<lparr>out_tree := st\<lparr>mk := k\<rparr>\<rparr>)
              else
                let k = clear_flag s SYMBOL_WRITE k in
                if \<not> sym_is_changeable (syms k s) then Inr (w\<lparr>out_tree := st\<lparr>mk := k\<rparr>\<rparr>)
                else
                  rbind (sym_get_string_value calc s k) (\<lambda>(v, k).
                  rbind (read_string v) (\<lambda>v.
                  rbind (sym_get_string_default calc s k) (\<lambda>(d, k).
                  rbind (read_string d) (\<lambda>d.
                    if v = d then Inr (w\<lparr>out_tree := st\<lparr>mk := k\<rparr>\<rparr>)
                    else
                      rbind (default_choice_value calc s k) (\<lambda>(dflt, k).
                        if dflt then Inr (w\<lparr>out_tree := st\<lparr>mk := k\<rparr>\<rparr>)
                        else
                          rbind (conf_write_symbol calc (\<lambda>ty nm v. kconfig_print_symbol pfx ty nm v False) s k)
                            (\<lambda>(line, k). Inr (emit line (st\<lparr>mk := k\<rparr>) (need_newline w) w)))))))))"

definition conf_write_defconfig ::
  "calc \<Rightarrow> nat \<Rightarrow> string \<Rightarrow> string \<Rightarrow> fsys \<Rightarrow> mstate \<Rightarrow> (int \<times> fsys \<times> mstate) res" where
  "conf_write_defconfig calc n pfx filename fs st =
     (if \<not> open_ok fs filename then Inr (1, fs, st)
      else
        rbind (sym_clear_all_valid calc (mk st)) (\<lambda>k.
        rbind (menu_walk n n out_tree (write_default calc n pfx) (\<lambda>_ w. Inr w) (m_list (mn st 0))
                \<lparr>out_text = [], need_newline = False, out_tree = st\<lparr>mk := k\<rparr>\<rparr>) (\<lambda>w.
          Inr (0, fs\<lparr>files := (files fs)(filename := Some (out_text w))\<rparr>, out_tree w))))"

end
