(* ===== verification/Kconfig_Tree.thy ===== *)
theory Kconfig_Tree
  imports Kconfig_Finalize
begin

text \<open>
  The shape of the menu tree: a \<open>forest\<close> is a chain of siblings with the chains of
  their children, \<open>seg\<close> relates it to the pointers of the store, and \<open>flat\<close> lists its
  entries in the order a front end shows them. The operations that build the tree keep
  it well linked, in the order the entries were declared.
\<close>

datatype forest = Leaf | Entry nat forest forest

fun flat :: "forest \<Rightarrow> nat list" where
  "flat Leaf = []"
| "flat (Entry m c s) = m # flat c @ flat s"

text \<open>
  \<open>seg st par p t q\<close>: the pointer \<open>p\<close> starts a chain of entries with the parent \<open>par\<close>
  that ends in the pointer \<open>q\<close>, and the chain and the lists below it are \<open>t\<close>.
\<close>

fun seg :: "mstate \<Rightarrow> nat option \<Rightarrow> nat option \<Rightarrow> forest \<Rightarrow> nat option \<Rightarrow> bool" where
  "seg st par p Leaf q \<longleftrightarrow> p = q"
| "seg st par p (Entry m c s) q \<longleftrightarrow>
     p = Some m \<and> m_parent (mn st m) = par \<and> seg st (Some m) (m_list (mn st m)) c None \<and>
     seg st par (m_next (mn st m)) s q"

definition links :: "menu \<Rightarrow> nat option \<times> nat option \<times> nat option" where
  "links x = (m_next x, m_parent x, m_list x)"

definition same_links :: "nat set \<Rightarrow> mstate \<Rightarrow> mstate \<Rightarrow> bool" where
  "same_links X st st' \<longleftrightarrow> (\<forall>x \<in> X. links (mn st' x) = links (mn st x))"

lemma same_links_refl [simp]: "same_links X st st"
  by (simp add: same_links_def)

lemma same_links_trans: "same_links X a b \<Longrightarrow> same_links X b c \<Longrightarrow> same_links X a c"
  by (simp add: same_links_def)

lemma same_links_mono: "same_links X a b \<Longrightarrow> Y \<subseteq> X \<Longrightarrow> same_links Y a b"
  by (auto simp: same_links_def)

lemma seg_cong:
  "same_links X st st' \<Longrightarrow> set (flat t) \<subseteq> X \<Longrightarrow> seg st' par p t q = seg st par p t q"
proof (induction t arbitrary: par p q)
  case (Entry m c s)
  then have "links (mn st' m) = links (mn st m)" by (simp add: same_links_def)
  with Entry show ?case by (auto simp: links_def)
qed simp

lemma seg_frame: "seg st par p t q \<Longrightarrow> same_links X st st' \<Longrightarrow> set (flat t) \<subseteq> X \<Longrightarrow> seg st' par p t q"
  by (simp add: seg_cong)

lemma seg_Some: "seg st par (Some m) t None \<Longrightarrow> \<exists>c s. t = Entry m c s"
  by (cases t) auto

lemma seg_None: "seg st par None t None \<Longrightarrow> t = Leaf"
  by (cases t) auto

section \<open>Chains\<close>

fun app :: "forest \<Rightarrow> forest \<Rightarrow> forest" where
  "app Leaf t = t"
| "app (Entry m c s) t = Entry m c (app s t)"

lemma flat_app [simp]: "flat (app a b) = flat a @ flat b"
  by (induction a) auto

lemma seg_app: "seg st par p (app a b) q \<longleftrightarrow> (\<exists>r. seg st par p a r \<and> seg st par r b q)"
  by (induction a arbitrary: p) auto

text \<open>The entries of the chain itself, without what hangs below them.\<close>

fun tops :: "forest \<Rightarrow> nat list" where
  "tops Leaf = []"
| "tops (Entry m c s) = m # tops s"

lemma tops_flat: "set (tops t) \<subseteq> set (flat t)"
  by (induction t) auto

lemma length_tops: "length (tops t) \<le> length (flat t)"
  by (induction t) auto

lemma tops_Nil [simp]: "tops t = [] \<longleftrightarrow> t = Leaf" "[] = tops t \<longleftrightarrow> t = Leaf"
  by (cases t; simp)+

lemma mn_mupd [simp]: "mn (mupd m f st) x = (if x = m then f (mn st m) else mn st x)"
  by (simp add: mupd_def)

lemma same_links_mupd: "m \<notin> X \<Longrightarrow> same_links X st (mupd m f st)"
  by (auto simp: same_links_def)

lemma same_links_upd: "links (f (mn st m)) = links (mn st m) \<Longrightarrow> same_links X st (mupd m f st)"
  by (auto simp: same_links_def)

lemma mn_on_mk [simp]: "mn (on_mk f st) = mn st"
  by (simp add: on_mk_def)

lemma same_links_mn: "mn st' = mn st \<Longrightarrow> same_links X st st'"
  by (simp add: same_links_def)

lemma seg_mn: "mn st' = mn st \<Longrightarrow> seg st' par p t q = seg st par p t q"
  by (rule seg_cong [of UNIV]) (simp_all add: same_links_def)

lemma seg_fields [simp]:
  "seg (last_entry_ptr_update f1 st) par p t q = seg st par p t q"
  "seg (current_menu_update f2 st) par p t q = seg st par p t q"
  "seg (current_entry_update f2 st) par p t q = seg st par p t q"
  "seg (mbrk_update f2 st) par p t q = seg st par p t q"
  "seg (mk_update f3 st) par p t q = seg st par p t q"
  "seg (on_mk f4 st) par p t q = seg st par p t q"
  by (simp_all add: seg_mn [of "last_entry_ptr_update f1 st"] seg_mn [of "current_menu_update f2 st"]
      seg_mn [of "current_entry_update f2 st"] seg_mn [of "mbrk_update f2 st"] seg_mn [of "mk_update f3 st"]
      seg_mn [of "on_mk f4 st"])

text \<open>The \<open>next\<close> pointer of the last entry of a chain is where the chain ends.\<close>

lemma seg_last_next: "seg st par p t q \<Longrightarrow> t \<noteq> Leaf \<Longrightarrow> m_next (mn st (last (tops t))) = q"
proof (induction t arbitrary: p)
  case (Entry m c s)
  then show ?case by (cases s) auto
qed simp

lemma seg_tops_parent: "seg st par p t q \<Longrightarrow> m \<in> set (tops t) \<Longrightarrow> m_parent (mn st m) = par"
  by (induction t arbitrary: p) auto

lemma seg_relink:
  assumes "seg st par p t q" "t \<noteq> Leaf" "distinct (flat t)" "l = last (tops t)"
  shows "seg (mupd l (\<lambda>x. x\<lparr>m_next := r\<rparr>) st) par p t r"
  using assms
proof (induction t arbitrary: p)
  case (Entry m c s)
  have c: "seg (mupd l (\<lambda>x. x\<lparr>m_next := r\<rparr>) st) (Some m) (m_list (mn st m)) c None" if "l \<notin> set (flat c)"
    using Entry.prems(1) that by (auto intro!: seg_frame [OF _ same_links_mupd [of l "set (flat c)"]])
  show ?case
  proof (cases "s = Leaf")
    case True
    with Entry.prems c show ?thesis by auto
  next
    case False
    with Entry.prems have l: "l \<in> set (flat s)"
      using tops_flat [of s] last_in_set [of "tops s"] by auto
    with Entry.prems(3) have "l \<noteq> m" "l \<notin> set (flat c)" by auto
    with Entry False c show ?thesis by auto
  qed
qed simp

lemma seg_not_end: "seg st par p t q \<Longrightarrow> t \<noteq> Leaf \<Longrightarrow> p = Some (hd (flat t))"
  by (cases t) auto

section \<open>Building the tree\<close>

text \<open>
  \<open>open_at par t e cm\<close>: the pointer \<open>e\<close>, at the end of \<open>t\<close> or of a list on its right
  border, is where an entry with the parent \<open>cm\<close> goes.
\<close>

fun open_at :: "nat option \<Rightarrow> forest \<Rightarrow> entry_ptr \<Rightarrow> nat \<Rightarrow> bool" where
  "open_at par Leaf e cm \<longleftrightarrow> False"
| "open_at par (Entry m c s) e cm \<longleftrightarrow>
     (if s = Leaf then
        e = NextOf m \<and> par = Some cm \<or> c = Leaf \<and> e = ListOf m \<and> cm = m \<or> open_at (Some m) c e cm
      else open_at par s e cm)"

fun insert_at :: "forest \<Rightarrow> entry_ptr \<Rightarrow> nat \<Rightarrow> forest" where
  "insert_at Leaf e x = Leaf"
| "insert_at (Entry m c s) e x =
     (if s = Leaf then
        if e = NextOf m then Entry m c (Entry x Leaf Leaf)
        else if e = ListOf m then Entry m (Entry x Leaf Leaf) s
        else Entry m (insert_at c e x) s
      else Entry m c (insert_at s e x))"

fun ptr_menu :: "entry_ptr \<Rightarrow> nat" where
  "ptr_menu (NextOf m) = m"
| "ptr_menu (ListOf m) = m"

lemma open_at_in: "open_at par t e cm \<Longrightarrow> ptr_menu e \<in> set (flat t)"
  by (induction t arbitrary: par) (auto split: if_splits)

lemma insert_at_not_Leaf [simp]: "insert_at t e x = Leaf \<longleftrightarrow> t = Leaf"
  by (cases t) auto

lemma flat_insert: "open_at par t e cm \<Longrightarrow> distinct (flat t) \<Longrightarrow> flat (insert_at t e x) = flat t @ [x]"
  by (induction t arbitrary: par) (auto split: if_splits dest: open_at_in)

lemma open_insert: "open_at par t e cm \<Longrightarrow> distinct (flat t @ [x]) \<Longrightarrow> open_at par (insert_at t e x) (NextOf x) cm"
  by (induction t arbitrary: par) (auto split: if_splits dest: open_at_in)

definition blank :: "nat option \<Rightarrow> menu \<Rightarrow> bool" where
  "blank par x \<longleftrightarrow> links x = (None, par, None)"

lemma seg_set_entry_ptr:
  assumes "seg st par p t None" "open_at par t e cm" "distinct (flat t)" "x \<notin> set (flat t)" "blank (Some cm) (mn st x)"
  shows "seg (set_entry_ptr e x st) par p (insert_at t e x) None"
  using assms
proof (induction t arbitrary: par p)
  case (Entry m c s)
  have same: "same_links X st (set_entry_ptr e x st)" if "ptr_menu e \<notin> X" for X
    using that by (cases e) (auto simp: set_entry_ptr_def intro: same_links_mupd)
  have x: "mn (set_entry_ptr e x st) x = mn st x"
    using Entry.prems(2,4) open_at_in [OF Entry.prems(2)]
    by (cases e) (auto simp: set_entry_ptr_def)
  have blank: "m_next (mn st x) = None" "m_parent (mn st x) = Some cm" "m_list (mn st x) = None"
    using Entry.prems(5) by (auto simp: blank_def links_def)
  have other: "mn (set_entry_ptr e x st) m = mn st m" if "ptr_menu e \<noteq> m"
    using that by (cases e) (auto simp: set_entry_ptr_def)
  show ?case
  proof (cases "s = Leaf")
    case False
    with Entry.prems(2) have "open_at par s e cm" by simp
    then have "ptr_menu e \<in> set (flat s)" by (rule open_at_in)
    with Entry.prems(3) have "ptr_menu e \<noteq> m" "ptr_menu e \<notin> set (flat c)" by auto
    with False Entry same [of "set (flat c)"] show ?thesis
      by (auto simp: other intro: seg_frame)
  next
    case s: True
    consider (nxt) "e = NextOf m" "par = Some cm" | (lst) "e = ListOf m" "c = Leaf" "cm = m"
      | (below) "e \<noteq> NextOf m" "e \<noteq> ListOf m" "open_at (Some m) c e cm"
      using Entry.prems(2,3) s open_at_in [of "Some m" c e cm] by (cases e) auto
    then show ?thesis
    proof cases
      case nxt
      with Entry.prems(3) have "ptr_menu e \<notin> set (flat c)" by simp
      from seg_frame [OF _ same [OF this]] Entry.prems(1)
      have "seg (set_entry_ptr e x st) (Some m) (m_list (mn st m)) c None" by simp
      with nxt s Entry.prems blank show ?thesis by (auto simp: set_entry_ptr_def)
    next
      case lst
      with s Entry.prems blank show ?thesis by (auto simp: set_entry_ptr_def)
    next
      case below
      then have "ptr_menu e \<noteq> m" by (cases e) auto
      with below s Entry show ?thesis by (auto simp: other)
    qed
  qed
qed simp

text \<open>
  The calls of the parser: entries, the begin and the end of a block, and the
  operations that add to the current entry. A block begins right after the entry that
  opens it.
\<close>

inductive builds :: "mstate \<Rightarrow> mstate \<Rightarrow> bool" for st0 where
  b_init: "builds st0 (menu_init st0)"
| b_entry: "builds st0 st \<Longrightarrow> builds st0 (menu_add_entry s st)"
| b_menu: "builds st0 st \<Longrightarrow> last_entry_ptr st = NextOf (current_entry st) \<Longrightarrow> builds st0 (menu_add_menu st)"
| b_end: "builds st0 st \<Longrightarrow> menu_end_menu st = Inr st' \<Longrightarrow> builds st0 st'"
| b_dep: "builds st0 st \<Longrightarrow> builds st0 (menu_add_dep d st)"
| b_visibility: "builds st0 st \<Longrightarrow> builds st0 (menu_add_visibility d st)"
| b_expr: "builds st0 st \<Longrightarrow> builds st0 (menu_add_expr ty e d st)"
| b_symbol: "builds st0 st \<Longrightarrow> builds st0 (menu_add_symbol ty s d st)"
| b_type: "builds st0 st \<Longrightarrow> menu_set_type ty st = Inr st' \<Longrightarrow> builds st0 st'"
| b_prompt: "builds st0 st \<Longrightarrow> menu_add_prompt n ty txt d st = Inr st' \<Longrightarrow> builds st0 st'"

definition built :: "forest \<Rightarrow> mstate \<Rightarrow> bool" where
  "built t st \<longleftrightarrow>
     seg st None (Some 0) t None \<and> flat t = [0..<mbrk st] \<and>
     open_at None t (last_entry_ptr st) (current_menu st) \<and> Suc (current_entry st) = mbrk st"

text \<open>An operation that only touches the contents of entries and symbols.\<close>

definition keeps_tree :: "mstate \<Rightarrow> mstate \<Rightarrow> bool" where
  "keeps_tree st st' \<longleftrightarrow>
     same_links UNIV st st' \<and> mbrk st' = mbrk st \<and> current_entry st' = current_entry st \<and>
     current_menu st' = current_menu st \<and> last_entry_ptr st' = last_entry_ptr st"

lemma built_keeps: "built t st \<Longrightarrow> keeps_tree st st' \<Longrightarrow> built t st'"
  using seg_cong [of UNIV st st' t] by (simp add: built_def keeps_tree_def)

lemma keeps_mupd: "(\<And>x. links (f x) = links x) \<Longrightarrow> keeps_tree st (mupd m f st)"
  by (simp add: keeps_tree_def same_links_upd) (simp add: mupd_def)

lemma keeps_menu_add_dep: "keeps_tree st (menu_add_dep d st)"
  unfolding menu_add_dep_def by (rule keeps_mupd) (simp add: links_def)

lemma keeps_menu_add_visibility: "keeps_tree st (menu_add_visibility d st)"
  unfolding menu_add_visibility_def by (rule keeps_mupd) (simp add: links_def)

lemma keeps_on_mk [simp]: "keeps_tree st (on_mk f st)"
  by (simp add: keeps_tree_def same_links_def) (simp add: on_mk_def)

lemma keeps_trans: "keeps_tree a b \<Longrightarrow> keeps_tree b c \<Longrightarrow> keeps_tree a c"
  by (auto simp: keeps_tree_def intro: same_links_trans)

lemma keeps_refl [simp]: "keeps_tree st st"
  by (simp add: keeps_tree_def)

lemma keeps_append_prop: "keeps_tree st (snd (append_prop p st))"
  by (simp add: append_prop_def split: option.split)

lemma keeps_menu_add_prop: "keeps_tree st (snd (menu_add_prop ty e d st))"
  by (simp add: menu_add_prop_def keeps_append_prop)

lemma keeps_menu_add_symbol: "keeps_tree st (menu_add_symbol ty s d st)"
  by (simp add: menu_add_symbol_def keeps_menu_add_prop)

lemma keeps_menu_set_type: "menu_set_type ty st = Inr st' \<Longrightarrow> keeps_tree st st'"
  by (auto simp: menu_set_type_def split: option.splits if_splits)

lemma keeps_menu_add_prompt:
  assumes "menu_add_prompt n ty txt d st = Inr st'"
  shows "keeps_tree st st'"
proof -
  obtain v r st1 where a: "append_prop (new_prop ty (Some (dropWhile isspace txt)) None v (current_entry st)) st = (r, st1)"
      and st': "st' = mupd (current_entry st) (\<lambda>x. x\<lparr>m_prompt := r\<rparr>) st1"
    using assms unfolding menu_add_prompt_def rbind_Inr_iff Let_def split_beta
    by (metis Inr_inject prod.collapse)
  from keeps_append_prop [of st] a have "keeps_tree st st1" by (metis snd_conv)
  then show ?thesis unfolding st' by (rule keeps_trans) (rule keeps_mupd, simp add: links_def)
qed

lemma open_at_end_menu:
  assumes "seg st par ptr t None" "open_at par t e cm" "par \<noteq> Some cm" "m_parent (mn st cm) = Some p"
  shows "open_at par t (NextOf cm) p"
  using assms by (induction t arbitrary: par ptr) (auto split: if_splits)

lemma open_at_menu:
  assumes "open_at par t (NextOf x) cm" "distinct (flat t)" "x = last (flat t)"
  shows "open_at par t (ListOf x) x"
  using assms
proof (induction t arbitrary: par)
  case (Entry m c s)
  have "flat a = [] \<longleftrightarrow> a = Leaf" for a by (cases a) auto
  with Entry show ?case by (auto split: if_splits)
qed simp

lemma built_init: "mbrk st = 1 \<Longrightarrow> blank None (mn st 0) \<Longrightarrow> built (Entry 0 Leaf Leaf) (menu_init st)"
  by (simp add: built_def menu_init_def blank_def links_def)

lemma built_entry:
  assumes "built t st"
  shows "\<exists>t'. built t' (menu_add_entry s st)"
proof -
  let ?m = "mbrk st" and ?e = "last_entry_ptr st"
  define st1 where "st1 = st\<lparr>mbrk := Suc ?m, mn := (mn st)(?m := \<lparr>m_next = None, m_parent = Some (current_menu st),
      m_list = None, m_sym = s, m_prompt = NoPrompt, m_visibility = None, m_dep = None\<rparr>)\<rparr>"
  from assms have b: "seg st None (Some 0) t None" "flat t = [0..<?m]" "open_at None t ?e (current_menu st)"
    by (auto simp: built_def)
  have "same_links {0..<?m} st st1" by (auto simp: st1_def same_links_def)
  with b have "seg st1 None (Some 0) t None" by (auto intro: seg_frame)
  moreover have "blank (Some (current_menu st)) (mn st1 ?m)" by (simp add: st1_def blank_def links_def)
  ultimately have "seg (set_entry_ptr ?e ?m st1) None (Some 0) (insert_at t ?e ?m) None"
    using b by (intro seg_set_entry_ptr) auto
  moreover have "flat (insert_at t ?e ?m) = [0..<Suc ?m]"
    using flat_insert [OF b(3)] b(2) by simp
  moreover have "open_at None (insert_at t ?e ?m) (NextOf ?m) (current_menu st)"
    using open_insert [OF b(3)] b(2) by simp
  moreover have "mbrk (set_entry_ptr ?e ?m st1) = Suc ?m" "current_menu (set_entry_ptr ?e ?m st1) = current_menu st"
    by (cases ?e; simp add: set_entry_ptr_def mupd_def st1_def)+
  ultimately have b2: "built (insert_at t ?e ?m) ((set_entry_ptr ?e ?m st1)\<lparr>last_entry_ptr := NextOf ?m, current_entry := ?m\<rparr>)"
    (is "built _ ?st2") by (simp add: built_def)
  have "menu_add_entry s st = (case s of None \<Rightarrow> ?st2 | Some y \<Rightarrow> menu_add_symbol P_SYMBOL y None ?st2)"
    by (cases s) (simp_all add: menu_add_entry_def st1_def Let_def)
  with b2 built_keeps [OF b2 keeps_menu_add_symbol] show ?thesis
    by (auto split: option.split)
qed

lemma built_menu:
  assumes "built t st" "last_entry_ptr st = NextOf (current_entry st)"
  shows "built t (menu_add_menu st)"
proof -
  have "current_entry st = last (flat t)"
    using assms(1) by (auto simp: built_def last_upt)
  with assms have "open_at None t (ListOf (current_entry st)) (current_entry st)"
    by (intro open_at_menu [of _ _ _ "current_menu st"]) (auto simp: built_def)
  with assms show ?thesis
    by (simp add: built_def menu_add_menu_def)
qed

lemma built_end:
  assumes "built t st" "menu_end_menu st = Inr st'"
  shows "built t st'"
proof -
  from assms(2) obtain p where p: "m_parent (mn st (current_menu st)) = Some p"
      and st': "st' = st\<lparr>last_entry_ptr := NextOf (current_menu st), current_menu := p\<rparr>"
    by (auto simp: menu_end_menu_def split: option.splits)
  have "open_at None t (NextOf (current_menu st)) p"
    using assms(1) p by (intro open_at_end_menu [of st _ "Some 0"]) (auto simp: built_def)
  with assms(1) show ?thesis
    by (simp add: built_def st')
qed

lemma builds_built:
  assumes "builds st0 st" "mbrk st0 = 1" "blank None (mn st0 0)"
  shows "\<exists>t. built t st"
  using assms
proof (induction rule: builds.induct)
  case b_init
  then show ?case using built_init by blast
next
  case (b_entry st s)
  then show ?case using built_entry by blast
next
  case (b_menu st)
  then show ?case using built_menu by blast
next
  case (b_end st st')
  then show ?case using built_end by blast
next
  case (b_dep st d)
  then show ?case by (auto intro: built_keeps [OF _ keeps_menu_add_dep])
next
  case (b_visibility st d)
  then show ?case by (auto intro: built_keeps [OF _ keeps_menu_add_visibility])
next
  case (b_expr st ty e d)
  then show ?case
    by (auto simp: menu_add_expr_def intro: built_keeps [OF _ keeps_menu_add_prop])
next
  case (b_symbol st ty s d)
  then show ?case by (auto intro: built_keeps [OF _ keeps_menu_add_symbol])
next
  case (b_type st ty st')
  then show ?case by (auto intro: built_keeps [OF _ keeps_menu_set_type])
next
  case (b_prompt st n ty x d st')
  then show ?case by (auto intro: built_keeps [OF _ keeps_menu_add_prompt])
qed

end
