(* ===== verification/Kconfig_Walk.thy ===== *)
theory Kconfig_Walk
  imports Kconfig_Write Kconfig_Tree
begin

text \<open>
  The walk along the pointers of the menu tree visits its entries in the order in which they
  are shown, and leaves a menu after its last entry: \<open>menu_walk\<close> runs the events of the
  tree one after the other. This is proved once, for every loop that keeps the links.
\<close>

datatype event = Visit nat | Leave nat

fun events :: "forest \<Rightarrow> event list" where
  "events Leaf = []"
| "events (Entry m c s) = Visit m # (if c = Leaf then [] else events c @ [Leave m]) @ events s"

definition run_event :: "(nat \<Rightarrow> 'w \<Rightarrow> 'w res) \<Rightarrow> (nat \<Rightarrow> 'w \<Rightarrow> 'w res) \<Rightarrow> event \<Rightarrow> 'w \<Rightarrow> 'w res" where
  "run_event visit up e = (case e of Visit m \<Rightarrow> visit m | Leave m \<Rightarrow> up m)"

lemma run_event_simps [simp]: "run_event visit up (Visit m) = visit m" "run_event visit up (Leave m) = up m"
  by (simp_all add: run_event_def)

text \<open>The events of the whole tree; the root is left but not visited.\<close>

definition tree_events :: "forest \<Rightarrow> event list" where
  "tree_events t = events t @ (if t = Leaf then [] else [Leave 0])"

lemma visit_events: "Visit m \<in> set (events t) \<longleftrightarrow> m \<in> set (flat t)"
  by (induction t) auto

lemma leave_events: "Leave m \<in> set (events t) \<Longrightarrow> m \<in> set (flat t)"
  by (induction t) (auto split: if_splits)

lemma tree_events_range: "e \<in> set (tree_events t) \<Longrightarrow> (case e of Visit m \<Rightarrow> m \<in> set (flat t) | Leave m \<Rightarrow> m = 0 \<or> m \<in> set (flat t))"
  by (auto simp: tree_events_def visit_events leave_events split: event.splits if_splits)

text \<open>\<open>h\<close> steps to the parent lead from \<open>p\<close> out of the tree.\<close>

primrec up_chain :: "mstate \<Rightarrow> nat \<Rightarrow> nat option \<Rightarrow> bool" where
  "up_chain st 0 p \<longleftrightarrow> p = None"
| "up_chain st (Suc h) p \<longleftrightarrow> (\<exists>m. p = Some m \<and> up_chain st h (m_parent (mn st m)))"

locale menu_walker =
  fixes tree :: "'w \<Rightarrow> mstate" and visit up :: "nat \<Rightarrow> 'w \<Rightarrow> 'w res" and st0 :: mstate and inv :: "'w \<Rightarrow> bool"
  assumes tree_links: "\<And>w. inv w \<Longrightarrow> same_links UNIV st0 (tree w)"
    and visit_inv: "\<And>m w. inv w \<Longrightarrow> wp UNIV (visit m w) inv"
    and up_inv: "\<And>m w. inv w \<Longrightarrow> wp UNIV (up m w) inv"
begin

lemma link_fields:
  assumes "inv w"
  shows "m_next (mn (tree w) m) = m_next (mn st0 m)" and "m_parent (mn (tree w) m) = m_parent (mn st0 m)"
    and "m_list (mn (tree w) m) = m_list (mn st0 m)"
  using tree_links [OF assms] by (simp_all add: same_links_def links_def)

lemma rfold_inv: "inv w \<Longrightarrow> wp UNIV (rfold (run_event visit up) es w) inv"
  by (rule wp_rfold) (auto simp: run_event_def visit_inv up_inv split: event.splits)

lemma walk_up_fuel:
  "inv w \<Longrightarrow> up_chain st0 h (Some m) \<Longrightarrow> h \<le> i \<Longrightarrow> h \<le> j \<Longrightarrow> walk_up i tree up m w = walk_up j tree up m w"
proof (induction h arbitrary: m w i j)
  case (Suc h)
  obtain i' j' where ij: "i = Suc i'" "j = Suc j'" "h \<le> i'" "h \<le> j'"
    using Suc.prems(3,4) by (cases i; cases j) auto
  show ?case
  proof (cases "m_parent (mn st0 m)")
    case (Some p)
    with Suc.prems(2) have p: "up_chain st0 h (Some p)" by simp
    have "walk_up i' tree up p v = walk_up j' tree up p v" if "inv v" for v
      by (rule Suc.IH [OF that p ij(3,4)])
    then show ?thesis
      using up_inv [OF Suc.prems(1), of p] Some link_fields [OF Suc.prems(1)]
      by (auto simp: ij intro!: rbind_cong_wp [of UNIV _ inv] split: option.splits)
  qed (use Suc.prems(1) link_fields in \<open>simp add: ij\<close>)
qed simp

text \<open>Leaving the last entry of a chain.\<close>

lemma walk_up_parent:
  assumes "inv w" and "m_parent (mn st0 m) = Some p" and "up_chain st0 h (Some p)" and "h < n"
  shows "walk_up n tree up m w =
    rbind (up p w) (\<lambda>w. if m_next (mn st0 p) = None then walk_up n tree up p w else Inr (m_next (mn st0 p), w))"
proof -
  obtain n' where n: "n = Suc n'" "h \<le> n'" using assms(4) by (cases n) auto
  have "walk_up n' tree up p v = walk_up n tree up p v" if "inv v" for v
    by (rule walk_up_fuel [OF that assms(3)]) (use n in simp_all)
  then show ?thesis
    using up_inv [OF assms(1), of p] link_fields [OF assms(1)] assms(2) link_fields(1)
    unfolding n(1) walk_up.simps
    by (auto simp flip: n(1) intro!: rbind_cong_wp [of UNIV _ inv] split: option.splits)
qed

lemma walk_chain:
  assumes "inv w" "seg st0 (Some par) p t None" "t \<noteq> Leaf" "up_chain st0 h (Some par)" "h + length (flat t) < n"
  shows "menu_walk (length (flat t) + f) n tree visit up p w =
    rbind (rfold (run_event visit up) (events t) w) (\<lambda>w.
    rbind (walk_up n tree up (last (tops t)) w) (\<lambda>(q, w). menu_walk f n tree visit up q w))"
  using assms
proof (induction t arbitrary: p par h f w)
  case (Entry m c s)
  note prems = Entry.prems
  from prems(2) have p: "p = Some m" and par: "m_parent (mn st0 m) = Some par"
    and c: "seg st0 (Some m) (m_list (mn st0 m)) c None" and s: "seg st0 (Some par) (m_next (mn st0 m)) s None"
    by simp_all
  let ?walk = "\<lambda>f. menu_walk f n tree visit up" and ?run = "rfold (run_event visit up)"
  have um: "up_chain st0 (Suc h) (Some m)" using prems(4) par by simp
  text \<open>From the siblings of \<open>m\<close> on.\<close>
  have rest: "rbind (if m_next (mn st0 m) = None then walk_up n tree up m v else Inr (m_next (mn st0 m), v))
        (\<lambda>(q, w). ?walk (length (flat s) + f) q w) =
      rbind (?run (events s) v) (\<lambda>v. rbind (walk_up n tree up (last (tops (Entry m c s))) v) (\<lambda>(q, w). ?walk f q w))"
    if v: "inv v" for v
  proof (cases "s = Leaf")
    case False
    then have "m_next (mn st0 m) \<noteq> None" using s by (cases s) auto
    with Entry.IH(2) [OF v s False prems(4)] prems(5) False show ?thesis by auto
  qed (use s in simp)
  have down: "rbind (walk_next n tree up m v) (\<lambda>(q, w). ?walk (length (flat c) + (length (flat s) + f)) q w) =
      rbind (?run ((if c = Leaf then [] else events c @ [Leave m]) @ events s) v)
        (\<lambda>v. rbind (walk_up n tree up (last (tops (Entry m c s))) v) (\<lambda>(q, w). ?walk f q w))"
    if v: "inv v" for v
  proof (cases "c = Leaf")
    case True
    then have "m_list (mn (tree v) m) = None" using c link_fields [OF v] by simp
    then have "walk_next n tree up m v = (if m_next (mn st0 m) = None then walk_up n tree up m v else Inr (m_next (mn st0 m), v))"
      using link_fields [OF v] by (auto simp: walk_next_def split: option.splits)
    with True rest [OF v] show ?thesis by simp
  next
    case False
    then have ml: "m_list (mn (tree v) m) = m_list (mn st0 m)" "m_list (mn st0 m) \<noteq> None"
      using c link_fields [OF v] by (cases c; simp)+
    then have "walk_next n tree up m v = Inr (m_list (mn st0 m), v)"
      by (auto simp: walk_next_def)
    moreover have "?walk (length (flat c) + (length (flat s) + f)) (m_list (mn st0 m)) v =
      rbind (?run (events c) v) (\<lambda>w. rbind (walk_up n tree up (last (tops c)) w) (\<lambda>(q, w). ?walk (length (flat s) + f) q w))"
      using prems(5) False by (intro Entry.IH(1) [OF v c _ um]) simp_all
    moreover have "\<dots> = rbind (?run (events c) v) (\<lambda>w. rbind (rbind (up m w) (\<lambda>w. ?run (events s) w))
        (\<lambda>v. rbind (walk_up n tree up (last (tops (Entry m c s))) v) (\<lambda>(q, w). ?walk f q w)))"
    proof (rule rbind_cong_wp [OF rfold_inv [OF v]])
      fix w assume w: "inv w"
      have "m_parent (mn st0 (last (tops c))) = Some m"
        using seg_tops_parent [OF c] False last_in_set [of "tops c"] by simp
      then have "walk_up n tree up (last (tops c)) w = rbind (up m w) (\<lambda>w.
          if m_next (mn st0 m) = None then walk_up n tree up m w else Inr (m_next (mn st0 m), w))"
        by (rule walk_up_parent [OF w _ um]) (use prems(5) in simp)
      then show "rbind (walk_up n tree up (last (tops c)) w) (\<lambda>(q, w). ?walk (length (flat s) + f) q w) =
          rbind (rbind (up m w) (\<lambda>w. ?run (events s) w))
            (\<lambda>v. rbind (walk_up n tree up (last (tops (Entry m c s))) v) (\<lambda>(q, w). ?walk f q w))"
        using rest up_inv [OF w, of m] by (auto simp: rbind_assoc intro!: rbind_cong_wp [of UNIV _ inv])
    qed
    ultimately show ?thesis using False by (simp add: rfold_append rbind_assoc)
  qed
  have "menu_walk (length (flat (Entry m c s)) + f) n tree visit up p w = rbind (visit m w) (\<lambda>v.
      rbind (walk_next n tree up m v) (\<lambda>(q, w). ?walk (length (flat c) + (length (flat s) + f)) q w))"
    by (simp add: p add.assoc)
  also have "\<dots> = rbind (visit m w) (\<lambda>v.
      rbind (?run ((if c = Leaf then [] else events c @ [Leave m]) @ events s) v)
        (\<lambda>v. rbind (walk_up n tree up (last (tops (Entry m c s))) v) (\<lambda>(q, w). ?walk f q w)))"
    by (rule rbind_cong_wp [OF visit_inv [OF prems(1)] down])
  finally show ?case by (simp add: rbind_assoc)
qed simp

lemma walk_events:
  assumes "inv w" and "seg st0 None (Some 0) (Entry 0 t Leaf) None" and "length (flat t) \<le> f" and "Suc (length (flat t)) < n"
  shows "menu_walk f n tree visit up (m_list (mn st0 0)) w = rfold (run_event visit up) (tree_events t) w"
proof -
  from assms(2) have root: "m_parent (mn st0 0) = None" "m_next (mn st0 0) = None" "seg st0 (Some 0) (m_list (mn st0 0)) t None"
    by simp_all
  have stop: "menu_walk g n tree visit up None v = Inr v" for g v by (cases g) simp_all
  show ?thesis
  proof (cases "t = Leaf")
    case False
    have u: "up_chain st0 1 (Some 0)" using root by simp
    obtain g where f: "f = length (flat t) + g" using assms(3) le_Suc_ex by blast
    have "m_parent (mn st0 (last (tops t))) = Some 0"
      using seg_tops_parent [OF root(3)] False last_in_set [of "tops t"] by simp
    then have "walk_up n tree up (last (tops t)) v = rbind (up 0 v) (\<lambda>v. Inr (None, v))" if "inv v" for v
      using walk_up_parent [OF that _ u, of "last (tops t)" n] assms(4) root(1,2) up_inv [OF that, of 0] link_fields(2)
      by (cases n) (auto intro!: rbind_cong_wp [of UNIV _ inv])
    with walk_chain [OF assms(1) root(3) False u, of n g] assms(4) rfold_inv [OF assms(1), of "events t"] False show ?thesis
      by (auto simp: f tree_events_def rfold_append rbind_assoc stop intro!: rbind_cong_wp [of UNIV _ inv] up_inv)
  qed (use root in \<open>simp add: tree_events_def stop\<close>)
qed

end

section \<open>The two walks of confdata.c\<close>

lemma visible_links:
  assumes "m_sym (mn st m) = None"
  shows "wp UNIV (menu_is_visible calc d n m st) (\<lambda>(_, st'). same_links UNIV st st')"
proof (cases d)
  case (Suc d')
  have run: "wp UNIV (run_k r st) (\<lambda>(_, st'). mn st' = mn st)" for r :: "('a \<times> kconf) res" and st
    by (cases r) (auto simp: run_k_def)
  have prompt: "wp UNIV (prompt_visible calc m st') (\<lambda>(_, st''). same_links UNIV st st'' \<and> m_sym (mn st'' m) = None)"
    if "mn st' = mn st" for st'
  proof (cases "get_prompt st' m")
    case (Some p)
    have "same_links UNIV st (mupd m (\<lambda>x. x\<lparr>m_prompt := r\<rparr>) st'')" if "mn st'' = mn st" for r st''
      using that by (auto simp: same_links_def links_def)
    with that assms run [of "expr_calc_ptr calc (vis_expr p) (mk st')" st'] show ?thesis
      by (auto simp: prompt_visible_def Some deref_def intro!: wp_rbindI)
  qed (simp add: prompt_visible_def that assms deref_def)
  have vis: "wp UNIV (case m_visibility (mn st m) of None \<Rightarrow> Inr (Yes, st) | Some e \<Rightarrow> run_k (expr_calc_value calc e (mk st)) st)
      (\<lambda>(_, st'). mn st' = mn st)"
    by (simp add: run split: option.splits)
  have "wp UNIV (visible_body calc n vis m st) (\<lambda>(_, st'). same_links UNIV st st')" for vis
    unfolding visible_body_def
    by (auto intro!: wp_rbindI [OF vis] wp_rbindI [OF prompt] simp: same_links_mn)
  then show ?thesis by (simp add: Suc)
qed simp

lemma wp_UNIV_rbind: "(\<And>x. wp UNIV (f x) Q) \<Longrightarrow> wp UNIV (rbind r f) Q"
  by (cases r) simp_all

lemma same_links_mk [simp]: "same_links X st (st'\<lparr>mk := k\<rparr>) = same_links X st st'" "same_links X (st\<lparr>mk := k\<rparr>) st' = same_links X st st'"
  by (simp_all add: same_links_def)

lemma write_entry_links:
  assumes "same_links UNIV st (out_tree w)"
  shows "wp UNIV (write_entry calc n pfx m w) (\<lambda>w'. same_links UNIV st (out_tree w'))"
proof (cases "m_sym (mn (out_tree w) m)")
  case None
  then show ?thesis
    using assms unfolding write_entry_def Let_def None option.case
    by (intro wp_rbindI [OF visible_links [OF None]])
      (auto simp: emit_def split_beta intro!: wp_UNIV_rbind intro: same_links_trans)
next
  case (Some s)
  then show ?thesis
    using assms unfolding write_entry_def Let_def Some option.case
    by (auto simp: emit_def split_beta intro!: wp_UNIV_rbind)
qed

lemma write_menu_end_links:
  assumes "same_links UNIV st (out_tree w)"
  shows "wp UNIV (write_menu_end calc n m w) (\<lambda>w'. same_links UNIV st (out_tree w'))"
proof (cases "m_sym (mn (out_tree w) m) = None")
  case True
  then show ?thesis
    using assms unfolding write_menu_end_def if_P [OF True]
    by (intro wp_rbindI [OF visible_links [OF True]])
      (auto simp: emit_def split_beta intro!: wp_UNIV_rbind intro: same_links_trans)
next
  case False
  then show ?thesis
    using assms unfolding write_menu_end_def if_not_P [OF False] by simp
qed

lemma write_default_links:
  assumes "same_links UNIV st (out_tree w)"
  shows "wp UNIV (write_default calc n pfx m w) (\<lambda>w'. same_links UNIV st (out_tree w'))"
proof (cases "m_sym (mn (out_tree w) m)")
  case None
  then show ?thesis
    using assms unfolding write_default_def Let_def None option.case
    by (intro wp_rbindI [OF visible_links [OF None]]) (auto intro: same_links_trans)
next
  case (Some s)
  then show ?thesis
    using assms unfolding write_default_def Let_def Some option.case
    by (auto simp: emit_def split_beta intro!: wp_UNIV_rbind)
qed

interpretation conf: menu_walker out_tree "write_entry calc n pfx" "write_menu_end calc n" st "\<lambda>w. same_links UNIV st (out_tree w)"
  for calc n pfx st
  by unfold_locales (simp_all add: write_entry_links write_menu_end_links)

interpretation minimal: menu_walker out_tree "write_default calc n pfx" "\<lambda>_ w. Inr w" st "\<lambda>w. same_links UNIV st (out_tree w)"
  for calc n pfx st
  by unfold_locales (simp_all add: write_default_links)

text \<open>The entries of a list of events, in the order in which they are visited.\<close>

fun visits :: "event list \<Rightarrow> nat list" where
  "visits [] = []"
| "visits (Visit m # es) = m # visits es"
| "visits (Leave m # es) = visits es"

lemma visits_append [simp]: "visits (a @ b) = visits a @ visits b"
  by (induction a rule: visits.induct) auto

lemma visits_flat: "visits (events t) = flat t"
  by (induction t) auto

text \<open>
  C10. \<open>conf_write\<close> and \<open>conf_write_defconfig\<close> walk the menu tree along its pointers, without recursion.
  On a well-linked tree this is the recursion over the tree: each entry is visited once, in the
  order in which the entries were declared, and \<open>conf_write\<close> leaves each menu after the last entry
  below it.
\<close>

theorem conf_walks_visit_tree:
  assumes "seg st None (Some 0) (Entry 0 t Leaf) None" and "Suc (length (flat t)) < n"
  shows "conf_write_text calc n pfx st =
      rbind (conf_write_heading kconfig_print_comment st) (\<lambda>h.
      rbind (if conf_changed (mk st) then Inr (mk st) else sym_clear_all_valid calc (mk st)) (\<lambda>k.
      rbind (rfold (run_event (write_entry calc n pfx) (write_menu_end calc n)) (tree_events t)
              \<lparr>out_text = h, need_newline = False, out_tree = st\<lparr>mk := k\<rparr>\<rparr>) (\<lambda>w.
        Inr (out_text w, out_tree w)))) \<and>
    (open_ok fs name \<longrightarrow> conf_write_defconfig calc n pfx name fs st =
      rbind (sym_clear_all_valid calc (mk st)) (\<lambda>k.
      rbind (rfold (run_event (write_default calc n pfx) (\<lambda>_ w. Inr w)) (tree_events t)
              \<lparr>out_text = [], need_newline = False, out_tree = st\<lparr>mk := k\<rparr>\<rparr>) (\<lambda>w.
        Inr (0, fs\<lparr>files := (files fs)(name := Some (out_text w))\<rparr>, out_tree w)))) \<and>
    visits (tree_events t) = flat t"
proof -
  have n: "length (flat t) \<le> n" using assms(2) by simp
  have l: "same_links UNIV st (out_tree \<lparr>out_text = h, need_newline = b, out_tree = st\<lparr>mk := k\<rparr>\<rparr>)" for h b k by simp
  note w1 = conf.walk_events [OF l assms(1) n assms(2)]
  note w2 = minimal.walk_events [OF l assms(1) n assms(2)]
  show ?thesis
    by (auto simp: conf_write_text_def w1 conf_write_defconfig_def w2 tree_events_def visits_flat)
qed

end
