(* ===== verification/Kconfig_Kept.thy ===== *)
theory Kconfig_Kept
  imports Kconfig_Walk Kconfig_Calc_Law
begin

text \<open>
  What writing a configuration keeps. Symbols are calculated on the way, so their values may
  be new, but a value once calculated stays; of the menu entries only the conditions
  calculated for their prompts change.
\<close>

section \<open>Symbols\<close>

definition WRITTEN :: "symbol \<Rightarrow> bool" where
  "WRITTEN y \<longleftrightarrow> SYMBOL_WRITTEN \<in> flags y"

definition WRITE :: "symbol \<Rightarrow> bool" where
  "WRITE y \<longleftrightarrow> SYMBOL_WRITE \<in> flags y"

text \<open>A value that does not change any more.\<close>

definition settled :: "symbol \<Rightarrow> bool" where
  "settled y \<longleftrightarrow> VALID y \<and> \<not> NEED y"

definition sym_stat :: "symbol \<Rightarrow> symbol \<Rightarrow> bool" where
  "sym_stat y z \<longleftrightarrow>
     sym_name z = sym_name y \<and> sym_type z = sym_type y \<and> sym_syms z = sym_syms y \<and>
     choice_values z = choice_values y \<and> choice_of z = choice_of y \<and>
     sym_is_choice z = sym_is_choice y \<and> sym_is_choice_value z = sym_is_choice_value y \<and>
     (SYMBOL_CONST \<in> flags z \<longleftrightarrow> SYMBOL_CONST \<in> flags y) \<and> (NEED z \<longrightarrow> NEED y) \<and>
     (sym_type y = S_BOOLEAN \<and> curr_tri y \<noteq> Mod \<longrightarrow> curr_tri z \<noteq> Mod)"

definition sym_kept :: "symbol \<Rightarrow> symbol \<Rightarrow> bool" where
  "sym_kept y z \<longleftrightarrow> sym_stat y z \<and>
     (settled y \<longrightarrow> settled z \<and> curr_val z = curr_val y \<and> curr_tri z = curr_tri y \<and>
       (\<not> sym_is_choice_value y \<longrightarrow> WRITE z = WRITE y))"

text \<open>\<open>W\<close> are the symbols that were written in between.\<close>

definition kept :: "symref set \<Rightarrow> kconf \<Rightarrow> kconf \<Rightarrow> bool" where
  "kept W k k' \<longleftrightarrow> all_syms k' = all_syms k \<and> modules_sym k' = modules_sym k \<and>
     (\<forall>s. sym_kept (syms k s) (syms k' s) \<and> (WRITTEN (syms k' s) \<longleftrightarrow> WRITTEN (syms k s) \<or> s \<in> W))"

lemma sym_stat_refl [simp]: "sym_stat y y"
  by (simp add: sym_stat_def)

lemma sym_stat_trans: "sym_stat x y \<Longrightarrow> sym_stat y z \<Longrightarrow> sym_stat x z"
  by (auto simp: sym_stat_def)

lemma sym_kept_refl [simp]: "sym_kept y y"
  by (simp add: sym_kept_def)

lemma sym_kept_trans: "sym_kept x y \<Longrightarrow> sym_kept y z \<Longrightarrow> sym_kept x z"
  by (auto simp: sym_kept_def intro: sym_stat_trans) (simp_all add: sym_stat_def)

lemma kept_refl [simp]: "kept {} k k"
  by (simp add: kept_def)

lemma kept_trans: "kept W k k' \<Longrightarrow> kept V k' k'' \<Longrightarrow> kept (W \<union> V) k k''"
  by (auto simp: kept_def intro: sym_kept_trans)

lemma kept_trans_empty: "kept {} k k' \<Longrightarrow> kept {} k' k'' \<Longrightarrow> kept {} k k''"
  using kept_trans [of "{}" k k' "{}" k''] by simp

lemma keptD:
  assumes "kept W k k'"
  shows "all_syms k' = all_syms k" and "modules_sym k' = modules_sym k" and "sym_kept (syms k s) (syms k' s)"
    and "WRITTEN (syms k' s) \<longleftrightarrow> WRITTEN (syms k s) \<or> s \<in> W"
  using assms by (simp_all add: kept_def)

lemma sym_keptD:
  assumes "sym_kept y z"
  shows "sym_name z = sym_name y" and "sym_type z = sym_type y" and "sym_syms z = sym_syms y"
    and "choice_values z = choice_values y" and "choice_of z = choice_of y"
    and "sym_is_choice z = sym_is_choice y" and "sym_is_choice_value z = sym_is_choice_value y"
    and "SYMBOL_CONST \<in> flags z \<longleftrightarrow> SYMBOL_CONST \<in> flags y" and "NEED z \<Longrightarrow> NEED y"
    and "settled y \<Longrightarrow> settled z" and "settled y \<Longrightarrow> curr_val z = curr_val y" and "settled y \<Longrightarrow> curr_tri z = curr_tri y"
    and "settled y \<Longrightarrow> \<not> sym_is_choice_value y \<Longrightarrow> WRITE z = WRITE y"
    and "sym_type y = S_BOOLEAN \<Longrightarrow> curr_tri y \<noteq> Mod \<Longrightarrow> curr_tri z \<noteq> Mod"
  using assms by (simp_all add: sym_kept_def sym_stat_def)

text \<open>What stays the same when the values are thrown away as well.\<close>

definition stat :: "kconf \<Rightarrow> kconf \<Rightarrow> bool" where
  "stat k k' \<longleftrightarrow> all_syms k' = all_syms k \<and> modules_sym k' = modules_sym k \<and> (\<forall>s. sym_stat (syms k s) (syms k' s))"

lemma kept_stat: "kept W k k' \<Longrightarrow> stat k k'"
  by (simp add: kept_def stat_def sym_kept_def)

lemma stat_trans: "stat k k' \<Longrightarrow> stat k' k'' \<Longrightarrow> stat k k''"
  by (auto simp: stat_def intro: sym_stat_trans)

lemma statD:
  assumes "stat k k'"
  shows "all_syms k' = all_syms k" and "modules_sym k' = modules_sym k" and "sym_name (syms k' s) = sym_name (syms k s)"
    and "sym_type (syms k' s) = sym_type (syms k s)" and "choice_of (syms k' s) = choice_of (syms k s)"
    and "sym_is_choice (syms k' s) = sym_is_choice (syms k s)" and "sym_is_choice_value (syms k' s) = sym_is_choice_value (syms k s)"
    and "SYMBOL_CONST \<in> flags (syms k' s) \<longleftrightarrow> SYMBOL_CONST \<in> flags (syms k s)"
    and "NEED (syms k' s) \<Longrightarrow> NEED (syms k s)"
    and "sym_type (syms k s) = S_BOOLEAN \<Longrightarrow> curr_tri (syms k s) \<noteq> Mod \<Longrightarrow> curr_tri (syms k' s) \<noteq> Mod"
  using assms by (simp_all add: stat_def sym_stat_def)

lemma closed_stat: "stat k k' \<Longrightarrow> closed U k \<Longrightarrow> closed U k'"
  by (simp add: closed_def stat_def sym_stat_def)

lemma closed_kept: "kept W k k' \<Longrightarrow> closed U k \<Longrightarrow> closed U k'"
  by (rule closed_stat [OF kept_stat])

lemma sym_step_kept:
  assumes step: "sym_step y z" and frame: "sym_frame y z"
  shows "sym_kept y z" and "WRITTEN z = WRITTEN y"
proof -
  from step have st: "same_struct y z" by (simp add: sym_step_def)
  then have fl: "flags z - calc_flags = flags y - calc_flags" by (simp add: same_struct_def)
  have fix_flag: "f \<in> flags z \<longleftrightarrow> f \<in> flags y" if "f \<notin> calc_flags" for f
    using fl that by blast
  have f: "SYMBOL_CHOICE \<in> flags z \<longleftrightarrow> SYMBOL_CHOICE \<in> flags y" "SYMBOL_CHOICEVAL \<in> flags z \<longleftrightarrow> SYMBOL_CHOICEVAL \<in> flags y"
      "SYMBOL_CONST \<in> flags z \<longleftrightarrow> SYMBOL_CONST \<in> flags y" "SYMBOL_WRITTEN \<in> flags z \<longleftrightarrow> SYMBOL_WRITTEN \<in> flags y"
    by (rule fix_flag, simp add: calc_flags_def)+
  have val: "settled z \<and> curr_val z = curr_val y \<and> curr_tri z = curr_tri y \<and> (\<not> sym_is_choice_value y \<longrightarrow> WRITE z = WRITE y)"
    if "settled y"
  proof -
    have "WRITE z = WRITE y" if "\<not> sym_is_choice_value y"
    proof -
      have "z\<lparr>flags := flags z - {SYMBOL_CHANGED}\<rparr> = y\<lparr>flags := flags y - {SYMBOL_CHANGED}\<rparr>"
        using frame that \<open>settled y\<close> by (simp add: sym_frame_def settled_def)
      then have "flags z - {SYMBOL_CHANGED} = flags y - {SYMBOL_CHANGED}"
        by (metis symbol.select_convs(8) symbol.simps(22) symbol.update_convs(8) symbol.surjective)
      then show ?thesis unfolding WRITE_def by blast
    qed
    then show ?thesis
      using step frame that by (auto simp: sym_step_def sym_frame_def settled_def)
  qed
  then show "sym_kept y z"
    using step st f by (simp add: sym_kept_def sym_stat_def sym_step_def sym_syms_static choice_values_static choice_of_static
        sym_is_choice_def sym_is_choice_value_def) (simp add: same_struct_def)
  show "WRITTEN z = WRITTEN y" using f(4) by (simp add: WRITTEN_def)
qed

lemma evolves_kept: "evolves {} k k' \<Longrightarrow> kept {} k k'"
  by (simp add: evolves_def kept_def sym_step_kept)

lemma kept_set_written: "kept {s} k (set_flag s SYMBOL_WRITTEN k)"
proof -
  have "sym_kept y (y\<lparr>flags := insert SYMBOL_WRITTEN (flags y)\<rparr>)" for y
    by (simp add: sym_kept_def sym_stat_def sym_syms_def choice_values_def choice_of_def sym_get_choice_prop_def settled_def VALID_def
        NEED_def sym_is_choice_def sym_is_choice_value_def WRITE_def)
  then show ?thesis by (auto simp: kept_def set_flag_def WRITTEN_def)
qed

section \<open>Calculating\<close>

text \<open>Three units of fuel for each symbol are enough from every state.\<close>

lemma pending_le: "finite U \<Longrightarrow> pending U k \<le> 3 * card U"
proof -
  have "pending U k \<le> (\<Sum>s \<in> U. 3)"
    unfolding pending_def by (rule sum_mono) (simp add: sym_weight_def)
  then show ?thesis by simp
qed

lemma calc_fuel: "closed U k \<Longrightarrow> 3 * card U < n \<Longrightarrow> pending U k < n"
  using pending_le [of U k] by (simp add: closed_def)

lemma calc_valid_after:
  assumes "closed U k" "s \<in> U" "pending U k < n" "\<not> NEED (syms k s)"
  shows "wp {Bad_access} (sym_calc_value n s k) (\<lambda>k'. evolves {} k k' \<and> settled (syms k' s))"
proof -
  have law: "wp {Bad_access} (sym_calc_value n s k) (evolves {} k)"
    by (rule sym_calc_value_law [OF assms(2,1,3)])
  obtain n' where n: "n = Suc n'" using assms(3) by (cases n) auto
  have valid: "wp {Bad_access} (sym_calc_value n s k) (\<lambda>k'. VALID (syms k' s))"
  proof (cases "VALID (syms k s)")
    case True
    then show ?thesis by (simp add: n calc_body_def VALID_def)
  next
    case False
    have "wp {Bad_access} (rbind (calc_choice_first (sym_calc_value n') s k) (\<lambda>k.
        (let k = set_flag s SYMBOL_VALID k; y = syms k s in
           if sym_type y = S_UNKNOWN then
             Inr (set_curr s (case sym_name y of None \<Rightarrow> VNull | Some nm \<Rightarrow> VStr nm) No k)
           else calc_typed (sym_calc_value n') s k))) (\<lambda>k'. VALID (syms k' s))"
    proof (rule wp_rbindI [OF choice_first_law [OF sym_calc_value_law assms(2,1) _ False]])
      show "pending U k < Suc n'" using assms(3) by (simp add: n)
      fix k1
      assume "evolves {} k k1 \<and> pending U (set_flag s SYMBOL_VALID k1) < n'"
      then have e: "evolves {} k k1" and w: "pending U (set_flag s SYMBOL_VALID k1) < n'" by simp_all
      let ?k = "set_flag s SYMBOL_VALID k1"
      have need: "\<not> NEED (syms k1 s)"
        using e assms(4) by (auto simp: evolves_def sym_step_def)
      have c: "closed U ?k"
        by (rule evolves_closed [OF evolves_set_valid(2)]) (rule evolves_closed [OF e assms(1)])
      have "wp {Bad_access} (calc_typed (sym_calc_value n') s ?k) (sc.St n' U {s} ?k)"
        using c w assms(2) by (intro sc.wp_typed) (simp_all add: sc.St_def)
      then have "wp {Bad_access} (calc_typed (sym_calc_value n') s ?k) (\<lambda>k'. VALID (syms k' s))"
      proof (rule wp_mono)
        fix k2 assume "sc.St n' U {s} ?k k2"
        then have "sym_step (syms ?k s) (syms k2 s)" by (simp add: sc.St_def evolves_def)
        moreover have "VALID (syms ?k s)" "\<not> NEED (syms ?k s)"
          using need by (simp_all add: set_flag_def VALID_def NEED_def)
        ultimately show "VALID (syms k2 s)" by (auto simp: sym_step_def)
      qed
      then show "wp {Bad_access} (let k = set_flag s SYMBOL_VALID k1; y = syms k s in
           if sym_type y = S_UNKNOWN then
             Inr (set_curr s (case sym_name y of None \<Rightarrow> VNull | Some nm \<Rightarrow> VStr nm) No k)
           else calc_typed (sym_calc_value n') s k) (\<lambda>k'. VALID (syms k' s))"
        by (simp add: Let_def set_curr_def) (simp add: set_flag_def VALID_def)
    qed
    then show ?thesis using False by (simp add: n calc_body_def VALID_def)
  qed
  from law valid show ?thesis
  proof (cases "sym_calc_value n s k")
    case (Inr k')
    with law valid have "evolves {} k k'" "VALID (syms k' s)" by simp_all
    moreover from this(1) assms(4) have "\<not> NEED (syms k' s)" by (auto simp: evolves_def sym_step_def)
    ultimately show ?thesis using Inr by (simp add: settled_def)
  qed simp
qed

section \<open>Menu entries\<close>

definition prompt_static :: "prompt_ref \<Rightarrow> prompt_ref" where
  "prompt_static r = (case r of OwnPrompt p \<Rightarrow> OwnPrompt (p\<lparr>vis_tri := No\<rparr>) | _ \<Rightarrow> r)"

definition menu_static :: "menu \<Rightarrow> (nat option \<times> nat option \<times> nat option) \<times> symref option \<times> prompt_ref \<times> expr option" where
  "menu_static x = (links x, m_sym x, prompt_static (m_prompt x), m_visibility x)"

definition menus_kept :: "mstate \<Rightarrow> mstate \<Rightarrow> bool" where
  "menus_kept st st' \<longleftrightarrow> (\<forall>m. menu_static (mn st' m) = menu_static (mn st m))"

lemma menus_kept_refl [simp]: "menus_kept st st"
  by (simp add: menus_kept_def)

lemma menus_kept_trans: "menus_kept a b \<Longrightarrow> menus_kept b c \<Longrightarrow> menus_kept a c"
  by (simp add: menus_kept_def)

lemma menus_kept_mk [simp]: "menus_kept st (st'\<lparr>mk := k\<rparr>) = menus_kept st st'" "menus_kept (st\<lparr>mk := k\<rparr>) st' = menus_kept st st'"
  by (simp_all add: menus_kept_def)

lemma menus_keptD:
  assumes "menus_kept st st'"
  shows "links (mn st' m) = links (mn st m)" and "m_sym (mn st' m) = m_sym (mn st m)"
    and "m_visibility (mn st' m) = m_visibility (mn st m)" and "prompt_static (m_prompt (mn st' m)) = prompt_static (m_prompt (mn st m))"
  using assms by (simp_all add: menus_kept_def menu_static_def)

lemma menus_kept_links: "menus_kept st st' \<Longrightarrow> same_links X st st'"
  by (simp add: same_links_def menus_keptD)

text \<open>The text of the prompt of an entry without a symbol.\<close>

definition own_text :: "menu \<Rightarrow> string option" where
  "own_text x = (case prompt_static (m_prompt x) of OwnPrompt p \<Rightarrow> prop_text p | _ \<Rightarrow> None)"

lemma own_text_kept: "menus_kept st st' \<Longrightarrow> own_text (mn st' m) = own_text (mn st m)"
  by (simp add: own_text_def menus_keptD(4))

lemma menu_get_prompt_own: "m_sym (mn st m) = None \<Longrightarrow> menu_get_prompt st m = own_text (mn st m)"
  by (simp add: menu_get_prompt_def get_prompt_def own_text_def prompt_static_def split: prompt_ref.splits)

text \<open>The symbols the entries refer to are in \<open>U\<close>.\<close>

definition menus_closed :: "symref set \<Rightarrow> mstate \<Rightarrow> bool" where
  "menus_closed U st \<longleftrightarrow> (\<forall>m. ptr_syms (m_visibility (mn st m)) \<subseteq> U \<and>
     (\<forall>p. m_prompt (mn st m) = OwnPrompt p \<longrightarrow> ptr_syms (vis_expr p) \<subseteq> U) \<and> (\<forall>s. m_sym (mn st m) = Some s \<longrightarrow> s \<in> U))"

lemma menus_closedD:
  assumes "menus_closed U st"
  shows "ptr_syms (m_visibility (mn st m)) \<subseteq> U" and "m_prompt (mn st m) = OwnPrompt p \<Longrightarrow> ptr_syms (vis_expr p) \<subseteq> U"
    and "m_sym (mn st m) = Some s \<Longrightarrow> s \<in> U"
  using assms unfolding menus_closed_def by blast+

lemma menus_closed_kept:
  assumes "menus_closed U st" "menus_kept st st'"
  shows "menus_closed U st'"
proof -
  have "\<exists>q. m_prompt (mn st m) = OwnPrompt q \<and> vis_expr q = vis_expr p" if "m_prompt (mn st' m) = OwnPrompt p" for m p
  proof (cases "m_prompt (mn st m)")
    case (OwnPrompt q)
    have "q\<lparr>vis_tri := No\<rparr> = p\<lparr>vis_tri := No\<rparr>"
      using menus_keptD(4) [OF assms(2), of m] that OwnPrompt by (simp add: prompt_static_def)
    then have "vis_expr (q\<lparr>vis_tri := No\<rparr>) = vis_expr (p\<lparr>vis_tri := No\<rparr>)" by simp
    with OwnPrompt show ?thesis by simp
  qed (use menus_keptD(4) [OF assms(2), of m] that in \<open>simp_all add: prompt_static_def\<close>)
  then show ?thesis
    using assms(1) menus_keptD(2,3) [OF assms(2)] unfolding menus_closed_def by metis
qed

text \<open>The visibility of an entry without a symbol.\<close>

lemma visible_wp:
  assumes "m_sym (mn st m) = None" "closed U (mk st)" "menus_closed U st" "3 * card U < f"
  shows "wp {Bad_access} (menu_is_visible (sym_calc_value f) (Suc d) n m st)
    (\<lambda>(b, st'). menus_kept st st' \<and> kept {} (mk st) (mk st'))"
proof -
  let ?calc = "sym_calc_value f" and ?k0 = "mk st"
  have pend: "pending U ?k0 < f" by (rule calc_fuel [OF assms(2,4)])
  have St0: "sc.St f U {} ?k0 ?k0" using assms(2) pend by (simp add: sc.St_def)
  let ?Q = "\<lambda>(b, st'). menus_kept st st' \<and> kept {} (mk st) (mk st')"
  have vis: "wp {Bad_access} (case m_visibility (mn st m) of None \<Rightarrow> Inr (Yes, st) | Some e \<Rightarrow> run_k (expr_calc_value ?calc e (mk st)) st)
      (\<lambda>(v, st'). st' = st\<lparr>mk := mk st'\<rparr> \<and> sc.St f U {} ?k0 (mk st'))"
  proof (cases "m_visibility (mn st m)")
    case (Some e)
    have "expr_syms e \<subseteq> U" using menus_closedD(1) [OF assms(3), of m] Some by (simp add: ptr_syms_def)
    from sc.wp_expr_value [OF this St0] show ?thesis
      by (auto simp: Some run_k_def intro!: wp_rbindI)
  qed (simp add: St0)
  have prompt: "wp {Bad_access} (prompt_visible ?calc m st') (\<lambda>(t, st'). menus_kept st st' \<and> kept {} (mk st) (mk st') \<and> m_sym (mn st' m) = None)"
    if st': "st' = st\<lparr>mk := k\<rparr>" "sc.St f U {} ?k0 k" for st' k
  proof (cases "m_prompt (mn st m)")
    case (OwnPrompt p)
    have "ptr_syms (vis_expr p) \<subseteq> U" by (rule menus_closedD(2) [OF assms(3) OwnPrompt])
    from sc.wp_expr_ptr [OF this st'(2)]
    have e: "wp {Bad_access} (expr_calc_ptr ?calc (vis_expr p) k) (\<lambda>(t, k'). kept {} ?k0 k')"
      by (rule wp_mono) (auto simp: sc.St_def intro: evolves_kept)
    have g: "get_prompt (st\<lparr>mk := k\<rparr>) m = Some p" by (simp add: get_prompt_def OwnPrompt)
    have mk: "menus_kept st ((mupd m (\<lambda>x. x\<lparr>m_prompt := OwnPrompt (p\<lparr>vis_tri := t\<rparr>)\<rparr>) (st\<lparr>mk := k\<rparr>))\<lparr>mk := k'\<rparr>)" for t k k'
      using OwnPrompt by (simp add: menus_kept_def menu_static_def links_def prompt_static_def split: prompt_ref.splits)
    have "mupd m g (st\<lparr>mk := k'\<rparr>) = (mupd m g (st\<lparr>mk := k\<rparr>))\<lparr>mk := k'\<rparr>" for g k k'
      by (simp add: mupd_def)
    with mk have "menus_kept st (mupd m (\<lambda>x. x\<lparr>m_prompt := OwnPrompt (p\<lparr>vis_tri := t\<rparr>)\<rparr>) (st\<lparr>mk := k'\<rparr>))" for t k'
      by metis
    moreover have "mk (mupd m g (st\<lparr>mk := k'\<rparr>)) = k'" for g k' by (simp add: mupd_def)
    ultimately show ?thesis
      using e assms(1) by (auto simp: st'(1) prompt_visible_def g deref_def run_k_def rbind_assoc intro!: wp_rbindI [OF e])
  qed (simp_all add: st'(1) prompt_visible_def assms(1) get_prompt_def deref_def)
  have keptI: "kept {} (mk st) k" if "sc.St f U {} ?k0 k" for k
    using that by (simp add: sc.St_def evolves_kept)
  have "wp {Bad_access} (visible_body ?calc n (menu_is_visible ?calc d n) m st) ?Q"
  proof (cases "menu_has_prompt st m")
    case True
    then show ?thesis
      unfolding visible_body_def
    proof (simp only: not_True_eq_False if_False, intro wp_rbindI [OF vis])
      fix x :: "tristate \<times> mstate"
      assume a: "case x of (v, st') \<Rightarrow> st' = st\<lparr>mk := mk st'\<rparr> \<and> sc.St f U {} ?k0 (mk st')"
      obtain v st' where x: "x = (v, st')" by (cases x)
      from a have b: "st' = st\<lparr>mk := mk st'\<rparr>" "sc.St f U {} ?k0 (mk st')" by (simp_all add: x)
      note p = prompt [OF b]
      have "menus_kept st st'" using b(1) by (metis menus_kept_mk(1) menus_kept_refl)
      then show "wp {Bad_access} (case x of (v, st) \<Rightarrow> if v = No then Inr (False, st)
          else rbind (prompt_visible ?calc m st) (\<lambda>(t, st). if t \<noteq> No then Inr (True, st)
            else (case m_sym (mn st m) of None \<Rightarrow> Inr (False, st)
              | Some s \<Rightarrow> if curr_tri (syms (mk st) s) = No then Inr (False, st)
                  else rbind (any_visible n (menu_is_visible ?calc d n) (m_list (mn st m)) st)
                    (\<lambda>(b, st). Inr (if b then (True, on_mk (set_flag s SYMBOL_DEF_USER) st) else (False, st)))))) ?Q"
        using keptI [OF b(2)] by (auto simp: x intro!: wp_rbindI [OF p])
    qed
  qed (simp add: visible_body_def)
  then show ?thesis by simp
qed

end
