(* ===== verification/Kconfig_Confdata_Props.thy ===== *)
theory Kconfig_Confdata_Props
  imports Kconfig_Confdata
begin

text \<open>
  Round trips between writing a configuration and reading it: strings through
  their escaped form, and whole lines through the printer and the reader.
\<close>

lemma unescape_escape: "unescape (escape_chars v @ CHR 0x22 # r) = Some v"
  by (induction v) auto

lemma escape_no_newline: "CHR 0x0A \<notin> set v \<Longrightarrow> CHR 0x0A \<notin> set (sym_escape_string_value v)"
proof -
  have "CHR 0x0A \<notin> set v \<Longrightarrow> CHR 0x0A \<notin> set (escape_chars v)" by (induction v) auto
  then show "CHR 0x0A \<notin> set v \<Longrightarrow> ?thesis" by (simp add: sym_escape_string_value_def)
qed

lemma set_string_escaped:
  assumes "sym_type (syms (kc c) s) = S_STRING"
  shows "conf_set_sym_val s d (sym_escape_string_value v) c =
     (False, on_kc (\<lambda>k. set_flag s (SYMBOL_DEF d) (set_def_val s d (VStr v) k)) c)"
  using assms by (simp add: conf_set_sym_val_def sym_escape_string_value_def unescape_escape
      set_checked_string_def sym_string_valid_def)

text \<open>
  A string that is written escaped is read back as itself: \<open>conf_set_sym_val\<close>
  undoes \<open>sym_escape_string_value\<close>, for every string and every symbol of type string.
\<close>

theorem escape_roundtrip:
  assumes "sym_type (syms (kc c) s) = S_STRING"
  shows "fst (conf_set_sym_val s d (sym_escape_string_value v) c) = False \<and>
     def_val (syms (kc (snd (conf_set_sym_val s d (sym_escape_string_value v) c))) s) d = VStr v \<and>
     SYMBOL_DEF d \<in> flags (syms (kc (snd (conf_set_sym_val s d (sym_escape_string_value v) c))) s)"
  using assms by (simp add: set_string_escaped on_kc_def set_flag_def set_def_val_def)

theorem escape_roundtrip_witness:
  "def_val (syms (kc (snd (conf_set_sym_val (SymAt 3) S_DEF_USER
     (sym_escape_string_value [CHR ''a'', CHR 0x22, CHR 0x5C])
     \<lparr>kc = demo_conf\<lparr>syms := \<lambda>_. plain_symbol ''S'' S_STRING VNull No\<rparr>, conf_warnings = 0\<rparr>))) (SymAt 3)) S_DEF_USER =
   VStr [CHR ''a'', CHR 0x22, CHR 0x5C]"
  using escape_roundtrip [of "\<lparr>kc = demo_conf\<lparr>syms := \<lambda>_. plain_symbol ''S'' S_STRING VNull No\<rparr>, conf_warnings = 0\<rparr>"
      "SymAt 3" S_DEF_USER "[CHR ''a'', CHR 0x22, CHR 0x5C]"]
  by simp

section \<open>Lines\<close>

lemma starts_with_append [simp]: "starts_with p (p @ r)"
  by (simp add: starts_with_def)

lemma takeWhile_until: "x \<notin> set a \<Longrightarrow> takeWhile (\<lambda>c. c \<noteq> x) (a @ x # r) = a"
  by (induction a) auto

lemma dropWhile_until: "x \<notin> set a \<Longrightarrow> dropWhile (\<lambda>c. c \<noteq> x) (a @ x # r) = x # r"
  by (induction a) auto

lemma assigned_line:
  assumes "CHR ''='' \<notin> set nm" "CHR 0x0A \<notin> set v" "v \<noteq> []" "last v \<noteq> CHR 0x0D"
  shows "assigned pfx (pfx @ nm @ ''='' @ v @ nl) = Some (nm, v)"
proof -
  have "takeWhile (\<lambda>c. c \<noteq> CHR 0x0A) (v @ CHR 0x0A # []) = v" by (rule takeWhile_until [OF assms(2)])
  then have "line_value (v @ nl) = v" using assms(4) by (simp add: line_value_def nl_def Let_def)
  with assms(1,2) show ?thesis
    by (simp add: assigned_def takeWhile_until dropWhile_until)
qed

lemma unset_line:
  assumes "CHR '' '' \<notin> set nm"
  shows "unset_name pfx (''# '' @ pfx @ nm @ '' is not set'' @ nl) = Some nm"
proof -
  have e: "nm @ '' is not set'' @ nl = nm @ CHR '' '' # (''is not set'' @ nl)" by simp
  show ?thesis
    unfolding unset_name_def Let_def e using assms by (simp add: takeWhile_until dropWhile_until, simp add: starts_with_def)
qed

text \<open>The names of symbols and the prefix, as the scanner admits them.\<close>

definition plain_name :: "string \<Rightarrow> bool" where
  "plain_name nm \<longleftrightarrow> CHR ''='' \<notin> set nm \<and> CHR '' '' \<notin> set nm"

definition plain_prefix :: "string \<Rightarrow> bool" where
  "plain_prefix pfx \<longleftrightarrow> pfx \<noteq> [] \<and> hd pfx \<noteq> CHR ''#''"

lemma read_assignment:
  assumes "plain_name nm" "plain_prefix pfx" "CHR 0x0A \<notin> set v" "v \<noteq> []" "last v \<noteq> CHR 0x0D"
    and "find_symbol nm (kc c) = Some s" "\<not> sym_is_choice_value (syms (kc c) s)"
    and "conf_set_sym_val s S_DEF_USER v c = (False, c')" "sym_is_choice_value (syms (kc c') s) = sym_is_choice_value (syms (kc c) s)"
  shows "conf_read_line pfx (pfx @ nm @ ''='' @ v @ nl) c = Inr c'"
proof -
  have a: "assigned pfx (pfx @ nm @ ''='' @ v @ nl) = Some (nm, v)"
    using assms(1,3-5) by (intro assigned_line) (auto simp: plain_name_def)
  have h: "hd (pfx @ nm @ ''='' @ v @ nl) \<noteq> CHR ''#''" using assms(2) by (simp add: plain_prefix_def)
  show ?thesis
    using a h assms(6-9) by (simp add: conf_read_line_def read_assigned_def read_choice_def del: append_assoc)
qed

text \<open>
  The line the printer writes for a bool or tristate symbol, read back, gives
  the symbol the printed value as its user value.
\<close>

theorem tristate_line_roundtrip:
  assumes "plain_name nm" "plain_prefix pfx" "find_symbol nm (kc c) = Some s"
    and "\<not> sym_is_choice_value (syms (kc c) s)"
    and "sym_type (syms (kc c) s) = S_TRISTATE \<or> sym_type (syms (kc c) s) = S_BOOLEAN \<and> t \<noteq> Mod"
  shows "\<exists>c'. conf_read_line pfx (kconfig_print_symbol pfx (sym_type (syms (kc c) s)) nm (tri_string t) False) c = Inr c' \<and>
     def_tri (syms (kc c') s) S_DEF_USER = t \<and> sym_has_value (syms (kc c') s)"
proof -
  have line: "conf_read_line pfx (pfx @ nm @ ''='' @ tri_string t @ nl) c = Inr (on_kc (set_def_tri s S_DEF_USER t) c)"
    if "t \<noteq> No"
  proof (rule read_assignment [OF assms(1,2) _ _ _ assms(3,4)])
    show "conf_set_sym_val s S_DEF_USER (tri_string t) c = (False, on_kc (set_def_tri s S_DEF_USER t) c)"
      using assms(5) that by (cases t) (auto simp: conf_set_sym_val_def tri_string_def)
    show "sym_is_choice_value (syms (kc (on_kc (set_def_tri s S_DEF_USER t) c)) s) = sym_is_choice_value (syms (kc c) s)"
      by (simp add: on_kc_def set_def_tri_def set_flag_def sym_is_choice_value_def)
  qed (cases t, simp_all add: tri_string_def)+
  have unset: "conf_read_line pfx (''# '' @ pfx @ nm @ '' is not set'' @ nl) c = Inr (on_kc (set_def_tri s S_DEF_USER No) c)"
    using assms unset_line [of nm pfx]
    by (auto simp: conf_read_line_def read_unset_def read_choice_def plain_name_def on_kc_def set_def_tri_def
        set_flag_def sym_is_choice_value_def)
  have "def_tri (syms (kc (on_kc (set_def_tri s S_DEF_USER t) c)) s) S_DEF_USER = t"
    and "sym_has_value (syms (kc (on_kc (set_def_tri s S_DEF_USER t) c)) s)" for t
    by (simp_all add: on_kc_def set_def_tri_def set_flag_def sym_has_value_def)
  moreover have "kconfig_print_symbol pfx (sym_type (syms (kc c) s)) nm (tri_string t) False =
      (if t = No then ''# '' @ pfx @ nm @ '' is not set'' @ nl else pfx @ nm @ ''='' @ tri_string t @ nl)"
    using assms(5) by (cases t) (auto simp: kconfig_print_symbol_def tri_string_def)
  ultimately show ?thesis using line unset by (cases "t = No") auto
qed

text \<open>
  The line the printer writes for a string symbol, read back, gives the symbol
  the printed string, as long as it holds no newline.
\<close>

theorem string_line_roundtrip:
  assumes "plain_name nm" "plain_prefix pfx" "find_symbol nm (kc c) = Some s" "CHR 0x0A \<notin> set v"
    and "\<not> sym_is_choice_value (syms (kc c) s)" "sym_type (syms (kc c) s) = S_STRING"
  shows "\<exists>c'. conf_read_line pfx (kconfig_print_symbol pfx S_STRING nm (sym_escape_string_value v) False) c = Inr c' \<and>
     def_val (syms (kc c') s) S_DEF_USER = VStr v \<and> sym_has_value (syms (kc c') s)"
proof -
  let ?c = "on_kc (\<lambda>k. set_flag s SYMBOL_DEF_USER (set_def_val s S_DEF_USER (VStr v) k)) c"
  have "conf_read_line pfx (pfx @ nm @ ''='' @ sym_escape_string_value v @ nl) c = Inr ?c"
  proof (rule read_assignment [OF assms(1,2) escape_no_newline [OF assms(4)] _ _ assms(3,5)])
    show "conf_set_sym_val s S_DEF_USER (sym_escape_string_value v) c = (False, ?c)"
      using assms(6) by (simp add: set_string_escaped)
    show "sym_is_choice_value (syms (kc ?c) s) = sym_is_choice_value (syms (kc c) s)"
      by (simp add: on_kc_def set_def_val_def set_flag_def sym_is_choice_value_def)
  qed (simp_all add: sym_escape_string_value_def)
  then show ?thesis
    by (simp add: kconfig_print_symbol_def on_kc_def set_def_val_def set_flag_def sym_has_value_def)
qed

definition read_demo :: confio where
  "read_demo = \<lparr>kc = demo_conf\<lparr>all_syms := [SymAt 0, SymAt 7],
     syms := demo_syms(SymAt 7 := plain_symbol ''S'' S_STRING VNull No)\<rparr>, conf_warnings = 0\<rparr>"

lemma read_demo_find: "find_symbol ''A'' (kc read_demo) = Some (SymAt 0)" "find_symbol ''S'' (kc read_demo) = Some (SymAt 7)"
  by (simp_all add: read_demo_def find_symbol_def const_name_def find_match_def plain_symbol_def)

theorem tristate_line_roundtrip_witness:
  "\<exists>c'. conf_read_line ''CONFIG_'' (kconfig_print_symbol ''CONFIG_'' S_TRISTATE ''A'' ''m'' False) read_demo = Inr c' \<and>
     def_tri (syms (kc c') (SymAt 0)) S_DEF_USER = Mod"
proof -
  have ty: "sym_type (syms (kc read_demo) (SymAt 0)) = S_TRISTATE" by (simp add: read_demo_def)
  show ?thesis
    using tristate_line_roundtrip [of "''A''" "''CONFIG_''", OF _ _ read_demo_find(1), of Mod] ty
    by (auto simp: plain_name_def plain_prefix_def sym_is_choice_value_def read_demo_def tri_string_def)
qed

theorem string_line_roundtrip_witness:
  "\<exists>c'. conf_read_line ''CONFIG_'' (kconfig_print_symbol ''CONFIG_'' S_STRING ''S'' (sym_escape_string_value ''a b'') False) read_demo = Inr c' \<and>
     def_val (syms (kc c') (SymAt 7)) S_DEF_USER = VStr ''a b''"
  using string_line_roundtrip [of "''S''" "''CONFIG_''", OF _ _ read_demo_find(2), of "''a b''"]
  by (auto simp: plain_name_def plain_prefix_def sym_is_choice_value_def read_demo_def)

end
