(* ===== verification/Kconfig_Listing.thy ===== *)
theory Kconfig_Listing
  imports Kconfig_Kept Kconfig_Confdata_Props
begin

text \<open>
  The text \<open>conf_write\<close> produces, as a list of items: comments, which mean nothing to the
  reader, and one line for each symbol that was written, with the string of its value.
\<close>

datatype item = Note string | Line symref string

definition print_line :: "string \<Rightarrow> kconf \<Rightarrow> symref \<Rightarrow> string \<Rightarrow> string" where
  "print_line pfx k s v =
     kconfig_print_symbol pfx (sym_type (syms k s)) (the (sym_name (syms k s)))
       (if sym_type (syms k s) = S_STRING then sym_escape_string_value v else v) False"

fun render :: "string \<Rightarrow> kconf \<Rightarrow> item \<Rightarrow> string" where
  "render pfx k (Note l) = l @ nl"
| "render pfx k (Line s v) = print_line pfx k s v"

fun line_syms :: "item list \<Rightarrow> symref list" where
  "line_syms [] = []"
| "line_syms (Note l # is) = line_syms is"
| "line_syms (Line s v # is) = s # line_syms is"

lemma line_syms_append [simp]: "line_syms (a @ b) = line_syms a @ line_syms b"
  by (induction a rule: line_syms.induct) auto

lemma line_syms_set: "s \<in> set (line_syms is) \<longleftrightarrow> (\<exists>v. Line s v \<in> set is)"
  by (induction "is" rule: line_syms.induct) auto

definition harmless :: "string \<Rightarrow> string \<Rightarrow> bool" where
  "harmless pfx l \<longleftrightarrow> CHR 0x0A \<notin> set l \<and> (l = [] \<or> hd l = CHR ''#'' \<and> unset_name pfx (l @ nl) = None)"

definition line_ok :: "kconf \<Rightarrow> symref \<Rightarrow> string \<Rightarrow> bool" where
  "line_ok k s v \<longleftrightarrow>
     settled (syms k s) \<and> \<not> sym_is_choice (syms k s) \<and> sym_name (syms k s) \<noteq> None \<and> sym_type (syms k s) \<noteq> S_UNKNOWN \<and>
     sym_string k s = v \<and> (curr_tri (syms k s) = Mod \<longrightarrow> \<not> bool_or_tristate (syms k) s \<or> settled (syms k (modules_sym k))) \<and>
     (\<not> bool_or_tristate (syms k) s \<longrightarrow> curr_val (syms k s) = VStr v)"

fun item_ok :: "string \<Rightarrow> kconf \<Rightarrow> item \<Rightarrow> bool" where
  "item_ok pfx k (Note l) \<longleftrightarrow> harmless pfx l"
| "item_ok pfx k (Line s v) \<longleftrightarrow> line_ok k s v"

definition listing :: "string \<Rightarrow> kconf \<Rightarrow> string \<Rightarrow> item list \<Rightarrow> bool" where
  "listing pfx k txt is \<longleftrightarrow> txt = concat (map (render pfx k) is) \<and> list_all (item_ok pfx k) is \<and> distinct (line_syms is) \<and>
     set (line_syms is) = {s. WRITTEN (syms k s) \<and> sym_type (syms k s) \<noteq> S_UNKNOWN}"

section \<open>What a later calculation keeps\<close>

lemma bool_or_tristate_kept: "sym_kept (syms k s) (syms k' s) \<Longrightarrow> bool_or_tristate (syms k') s = bool_or_tristate (syms k) s"
  by (simp add: bool_or_tristate_def sym_keptD)

lemma line_ok_kept:
  assumes "kept W k k'" "line_ok k s v"
  shows "line_ok k' s v"
proof -
  note K = sym_keptD [OF keptD(3) [OF assms(1)]]
  have m: "modules_sym k' = modules_sym k" by (rule keptD(2) [OF assms(1)])
  have "sym_string k' s = sym_string k s"
    using assms(2) K(2) [of s] K(11,12) [of s] K(12) [of "modules_sym k"]
    by (auto simp: sym_string_def line_ok_def m Let_def bool_or_tristate_def split: tristate.splits)
  then show ?thesis
    using assms(2) K(1,2,6,10,11,12) [of s] K(10) [of "modules_sym k"] bool_or_tristate_kept [OF keptD(3) [OF assms(1)], of s]
    by (simp add: line_ok_def m)
qed

lemma render_kept:
  assumes "kept W k k'"
  shows "render pfx k' = render pfx k"
proof
  show "render pfx k' it = render pfx k it" for it
    using sym_keptD(1,2) [OF keptD(3) [OF assms]] by (cases it) (auto simp: print_line_def)
qed

lemma item_ok_kept: "kept W k k' \<Longrightarrow> item_ok pfx k it \<Longrightarrow> item_ok pfx k' it"
  by (cases it) (auto intro: line_ok_kept)

lemma listing_kept:
  assumes "kept {} k k'" "listing pfx k txt is"
  shows "listing pfx k' txt is"
proof -
  have "list_all (item_ok pfx k') is"
    using assms item_ok_kept [OF assms(1)] by (auto simp: listing_def list_all_iff)
  then show ?thesis
    using assms sym_keptD(2) [OF keptD(3) [OF assms(1)]] keptD(4) [OF assms(1)] by (simp add: listing_def render_kept [OF assms(1)])
qed

lemma listing_notes:
  assumes "listing pfx k txt is" "list_all (harmless pfx) ls"
  shows "listing pfx k (txt @ concat (map (\<lambda>l. l @ nl) ls)) (is @ map Note ls)"
proof -
  have "line_syms (map Note ls) = []" "concat (map (render pfx k) (map Note ls)) = concat (map (\<lambda>l. l @ nl) ls)"
    by (induction ls) auto
  with assms show ?thesis by (auto simp: listing_def list_all_iff)
qed

lemma listing_line:
  assumes "listing pfx k txt is" "kept {s} k k'" "line_ok k' s v" "\<not> WRITTEN (syms k s)"
  shows "listing pfx k' (txt @ print_line pfx k' s v) (is @ [Line s v])"
proof -
  have "list_all (item_ok pfx k') is"
    using assms item_ok_kept [OF assms(2)] by (auto simp: listing_def list_all_iff)
  moreover have "set (line_syms is) \<union> {s} = {s. WRITTEN (syms k' s) \<and> sym_type (syms k' s) \<noteq> S_UNKNOWN}"
    using assms sym_keptD(2) [OF keptD(3) [OF assms(2)]] keptD(4) [OF assms(2)] by (auto simp: listing_def line_ok_def)
  ultimately show ?thesis
    using assms fun_cong [OF render_kept [OF assms(2)], of pfx "Line s v", unfolded render.simps]
    by (auto simp: listing_def render_kept [OF assms(2)])
qed

lemma listing_unknown:
  assumes "listing pfx k txt is" "kept {s} k k'" "sym_type (syms k s) = S_UNKNOWN"
  shows "listing pfx k' txt is"
proof -
  have "list_all (item_ok pfx k') is"
    using assms item_ok_kept [OF assms(2)] by (auto simp: listing_def list_all_iff)
  then show ?thesis
    using assms sym_keptD(2) [OF keptD(3) [OF assms(2)]] keptD(4) [OF assms(2)] by (auto simp: listing_def render_kept [OF assms(2)])
qed

section \<open>Writing one symbol\<close>

lemma string_value_wp:
  assumes "closed U k" "3 * card U < f" "settled (syms k s)" "\<not> NEED (syms k (modules_sym k))"
  shows "wp {Bad_access} (sym_get_string_value (sym_calc_value f) s k) (\<lambda>(v, k'). evolves {} k k' \<and>
    (if bool_or_tristate (syms k) s then v = VStr (sym_string k' s) \<and> (curr_tri (syms k s) = Mod \<longrightarrow> settled (syms k' (modules_sym k)))
     else v = curr_val (syms k s) \<and> k' = k))"
proof (cases "bool_or_tristate (syms k) s \<and> curr_tri (syms k s) = Mod")
  case True
  have m: "modules_sym k \<in> U" using assms(1) by (simp add: closed_def)
  have "wp {Bad_access} (sym_calc_value f (modules_sym k) k) (\<lambda>k'. evolves {} k k' \<and> settled (syms k' (modules_sym k)))"
    by (rule calc_valid_after [OF assms(1) m calc_fuel [OF assms(1,2)] assms(4)])
  then have "wp {Bad_access} (rbind (sym_calc_value f (modules_sym k) k) (\<lambda>k'.
      Inr (VStr (if curr_tri (syms k' (modules_sym k')) = No then ''n'' else ''m''), k')))
    (\<lambda>(v, k'). evolves {} k k' \<and> v = VStr (sym_string k' s) \<and> settled (syms k' (modules_sym k)))"
  proof (rule wp_rbindI)
    fix k' assume k': "evolves {} k k' \<and> settled (syms k' (modules_sym k))"
    note K = evolves_kept [OF conjunct1 [OF k']]
    have "curr_tri (syms k' s) = Mod" "bool_or_tristate (syms k') s"
      using sym_keptD(12) [OF keptD(3) [OF K] assms(3)] bool_or_tristate_kept [OF keptD(3) [OF K], of s] True by simp_all
    then have "sym_string k' s = (if curr_tri (syms k' (modules_sym k')) = No then ''n'' else ''m'')"
      by (simp add: sym_string_def Let_def bool_or_tristate_def)
    then show "wp {Bad_access} (Inr (VStr (if curr_tri (syms k' (modules_sym k')) = No then ''n'' else ''m''), k'))
        (\<lambda>(v, k'). evolves {} k k' \<and> v = VStr (sym_string k' s) \<and> settled (syms k' (modules_sym k)))"
      using k' by simp
  qed
  with True show ?thesis by (simp add: sym_get_string_value_def bool_or_tristate_def)
next
  case False
  then show ?thesis
    by (auto simp: sym_get_string_value_def bool_or_tristate_def sym_string_def Let_def split: tristate.splits)
qed

lemma write_symbol_wp:
  assumes "closed U k" "3 * card U < f" "settled (syms k s)" "\<not> NEED (syms k (modules_sym k))" "\<not> sym_is_choice (syms k s)"
  shows "wp {Bad_access} (conf_write_symbol (sym_calc_value f) (\<lambda>ty nm v. kconfig_print_symbol pfx ty nm v False) s k)
    (\<lambda>(l, k'). kept {} k k' \<and> (if sym_type (syms k s) = S_UNKNOWN then l = []
       else \<exists>v. line_ok k' s v \<and> l = print_line pfx k' s v))"
proof (cases "sym_type (syms k s) = S_UNKNOWN")
  case False
  have "wp {Bad_access} (rbind (sym_get_string_value (sym_calc_value f) s k) (\<lambda>(v, k').
      rbind (read_string v) (\<lambda>str.
      rbind (read_string (case sym_name (syms k' s) of None \<Rightarrow> VNull | Some nm \<Rightarrow> VStr nm)) (\<lambda>nm.
        Inr (kconfig_print_symbol pfx (sym_type (syms k s)) nm
          (if sym_type (syms k s) = S_STRING then sym_escape_string_value str else str) False, k')))))
    (\<lambda>(l, k'). kept {} k k' \<and> (\<exists>v. line_ok k' s v \<and> l = print_line pfx k' s v))"
  proof (rule wp_rbindI [OF string_value_wp [OF assms(1-4)]])
    fix x :: "sval \<times> kconf"
    assume a: "case x of (v, k') \<Rightarrow> evolves {} k k' \<and>
      (if bool_or_tristate (syms k) s then v = VStr (sym_string k' s) \<and> (curr_tri (syms k s) = Mod \<longrightarrow> settled (syms k' (modules_sym k)))
       else v = curr_val (syms k s) \<and> k' = k)"
    obtain v k' where x: "x = (v, k')" by (cases x)
    from a have K: "kept {} k k'" by (simp add: x evolves_kept)
    note S = sym_keptD [OF keptD(3) [OF K]]
    have b: "bool_or_tristate (syms k') s = bool_or_tristate (syms k) s" by (rule bool_or_tristate_kept [OF keptD(3) [OF K]])
    have ok: "line_ok k' s str" if "v = VStr str" "sym_name (syms k' s) \<noteq> None" for str
      using a that S(2,6,10,12) [of s] assms(3,5) False b keptD(2) [OF K]
      by (cases "bool_or_tristate (syms k) s")
         (auto simp: x line_ok_def sym_string_def sval_str_def bool_or_tristate_def split: sval.splits)
    show "wp {Bad_access} (case x of (v, k') \<Rightarrow> rbind (read_string v) (\<lambda>str.
        rbind (read_string (case sym_name (syms k' s) of None \<Rightarrow> VNull | Some nm \<Rightarrow> VStr nm)) (\<lambda>nm.
          Inr (kconfig_print_symbol pfx (sym_type (syms k s)) nm
            (if sym_type (syms k s) = S_STRING then sym_escape_string_value str else str) False, k'))))
      (\<lambda>(l, k'). kept {} k k' \<and> (\<exists>v. line_ok k' s v \<and> l = print_line pfx k' s v))"
    proof (cases v)
      case (VStr str)
      then show ?thesis
      proof (cases "sym_name (syms k' s)")
        case (Some nm)
        with ok [OF VStr] K S(2) [of s] VStr show ?thesis
          by (auto simp: x read_string_def print_line_def intro!: exI [of _ str])
      qed (simp add: x read_string_def)
    qed (simp_all add: x read_string_def)
  qed
  with False show ?thesis by (simp add: conf_write_symbol_def Let_def)
qed (simp add: conf_write_symbol_def)

end
