(* ===== verification/Kconfig_Write_Inv.thy ===== *)
theory Kconfig_Write_Inv
  imports Kconfig_Listing
begin

text \<open>
  The steps of \<open>conf_write\<close>: each keeps the tree and the calculated values, and the text so
  far stays a listing of the symbols written so far. The walk over the menu tree visits every
  entry, so that at its end every symbol with a value to save has been written.
\<close>

section \<open>Comments\<close>

abbreviation CONFIG :: string where
  "CONFIG \<equiv> ''CONFIG_''"

text \<open>A text that can stand in a comment: no line of it is taken for a value.\<close>

definition plain_text :: "string \<Rightarrow> bool" where
  "plain_text t \<longleftrightarrow> CHR 0x0A \<notin> set t \<and> \<not> starts_with CONFIG t"

lemma starts_with_before:
  assumes "starts_with p (t @ r)" and "hd r \<notin> set p"
  shows "starts_with p t"
proof (cases "length p \<le> length t")
  case False
  let ?q = "take (length p - length t) r"
  from assms(1) False have p: "p = t @ ?q" by (simp add: starts_with_def)
  then have "length ?q = length p - length t" by (metis diff_add_inverse length_append)
  with False have "?q \<noteq> []" by auto
  then have "hd r \<in> set ?q" using False by (cases r) (simp_all add: take_Cons')
  with p assms(2) show ?thesis by (metis Un_iff set_append)
qed (use assms in \<open>simp add: starts_with_def\<close>)

lemma plain_text_nl: "plain_text t \<Longrightarrow> \<not> starts_with CONFIG (t @ nl)"
  using starts_with_before [of CONFIG t nl] by (auto simp: plain_text_def nl_def)

lemma harmless_empty [simp]: "harmless pfx []"
  by (simp add: harmless_def)

lemma harmless_hash [simp]: "harmless CONFIG ''#''"
  by (simp add: harmless_def unset_name_def starts_with_def nl_def)

lemma harmless_text: "plain_text t \<Longrightarrow> harmless CONFIG (''# '' @ t)"
  using plain_text_nl [of t] by (simp add: harmless_def unset_name_def plain_text_def nl_def)

lemma harmless_end: "plain_text t \<Longrightarrow> harmless CONFIG (''# end of '' @ t)"
  by (simp add: harmless_def unset_name_def plain_text_def starts_with_def)

section \<open>The invariant\<close>

text \<open>What the symbols and the menus bring along.\<close>

definition write_env :: "nat \<Rightarrow> symref set \<Rightarrow> mstate \<Rightarrow> bool" where
  "write_env f U st \<longleftrightarrow> closed U (mk st) \<and> 3 * card U < f \<and> menus_closed U st \<and> \<not> NEED (syms (mk st) (modules_sym (mk st))) \<and>
     (\<forall>m s. m_sym (mn st m) = Some s \<longrightarrow> \<not> sym_is_choice (syms (mk st) s) \<longrightarrow> \<not> NEED (syms (mk st) s)) \<and>
     (\<forall>m t. m_sym (mn st m) = None \<longrightarrow> own_text (mn st m) = Some t \<longrightarrow> plain_text t)"

definition menu_syms :: "mstate \<Rightarrow> symref set" where
  "menu_syms st = {s. \<exists>m. m_sym (mn st m) = Some s}"

definition writing :: "mstate \<Rightarrow> conf_out \<Rightarrow> bool" where
  "writing st w \<longleftrightarrow> menus_kept st (out_tree w) \<and> (\<exists>W. W \<subseteq> menu_syms st \<and> kept W (mk st) (mk (out_tree w))) \<and>
     (\<exists>is. listing CONFIG (mk (out_tree w)) (out_text w) is)"

text \<open>A symbol there is nothing left to do for.\<close>

definition written_off :: "symbol \<Rightarrow> bool" where
  "written_off y \<longleftrightarrow> sym_is_choice y \<or> WRITTEN y \<or> settled y \<and> \<not> WRITE y"

lemma written_off_kept:
  assumes "kept W k k'" "written_off (syms k s)" "\<not> sym_is_choice_value (syms k s)"
  shows "written_off (syms k' s)"
  using assms(2,3) sym_keptD(6,10,13) [OF keptD(3) [OF assms(1)], of s] keptD(4) [OF assms(1), of s]
  by (auto simp: written_off_def)

lemma writing_env:
  assumes "write_env f U st" "writing st w"
  shows "closed U (mk (out_tree w))" and "menus_closed U (out_tree w)" and "3 * card U < f"
    and "\<not> NEED (syms (mk (out_tree w)) (modules_sym (mk (out_tree w))))"
    and "\<And>m s. m_sym (mn (out_tree w) m) = Some s \<Longrightarrow> \<not> sym_is_choice (syms (mk (out_tree w)) s) \<Longrightarrow> \<not> NEED (syms (mk (out_tree w)) s)"
    and "\<And>m t. m_sym (mn (out_tree w) m) = None \<Longrightarrow> menu_get_prompt (out_tree w) m = Some t \<Longrightarrow> plain_text t"
proof -
  obtain W where K: "kept W (mk st) (mk (out_tree w))" and M: "menus_kept st (out_tree w)"
    using assms(2) by (auto simp: writing_def)
  note D = statD [OF kept_stat [OF K]]
  show "closed U (mk (out_tree w))" using assms(1) by (intro closed_kept [OF K]) (simp add: write_env_def)
  show "menus_closed U (out_tree w)" using assms(1) by (intro menus_closed_kept [OF _ M]) (simp add: write_env_def)
  show "3 * card U < f" using assms(1) by (simp add: write_env_def)
  show "\<not> NEED (syms (mk (out_tree w)) (modules_sym (mk (out_tree w))))"
    using assms(1) D(9) [of "modules_sym (mk st)"] D(2) by (auto simp: write_env_def)
  show "\<not> NEED (syms (mk (out_tree w)) s)" if "m_sym (mn (out_tree w) m) = Some s" "\<not> sym_is_choice (syms (mk (out_tree w)) s)" for m s
    using assms(1) that D(6) [of s] D(9) [of s] menus_keptD(2) [OF M, of m] unfolding write_env_def by metis
  show "plain_text t" if "m_sym (mn (out_tree w) m) = None" "menu_get_prompt (out_tree w) m = Some t" for m t
    using assms(1) that menus_keptD(2) [OF M, of m] own_text_kept [OF M, of m] menu_get_prompt_own [OF that(1)]
    unfolding write_env_def by metis
qed

lemma writing_step:
  assumes "writing st w" "menus_kept (out_tree w) (out_tree w')" "kept V (mk (out_tree w)) (mk (out_tree w'))" "V \<subseteq> menu_syms st"
    and "listing CONFIG (mk (out_tree w')) (out_text w') is"
  shows "writing st w'"
  using assms unfolding writing_def by (meson Un_least kept_trans menus_kept_trans)

definition progress :: "conf_out \<Rightarrow> conf_out \<Rightarrow> bool" where
  "progress w w' \<longleftrightarrow> (\<exists>W. kept W (mk (out_tree w)) (mk (out_tree w')))"

lemma progress_refl [simp]: "progress w w"
  unfolding progress_def by (rule exI [of _ "{}"]) simp

lemma progress_trans: "progress a b \<Longrightarrow> progress b c \<Longrightarrow> progress a c"
  unfolding progress_def by (meson kept_trans)

text \<open>A menu whose visibility has been calculated, and comments about it.\<close>

lemma writing_notes:
  assumes "writing st w" "menus_kept (out_tree w) st'" "kept {} (mk (out_tree w)) (mk st')" "list_all (harmless CONFIG) ls"
  shows "writing st (emit (concat (map (\<lambda>l. l @ nl) ls)) st' nn w)" and "writing st (w\<lparr>out_tree := st'\<rparr>)"
    and "progress w (emit txt st' nn w)" and "progress w (w\<lparr>out_tree := st'\<rparr>)"
proof -
  obtain "is" where l: "listing CONFIG (mk (out_tree w)) (out_text w) is"
    using assms(1) by (auto simp: writing_def)
  note l' = listing_kept [OF assms(3) l]
  show "writing st (emit (concat (map (\<lambda>l. l @ nl) ls)) st' nn w)"
    using writing_step [OF assms(1), of "emit (concat (map (\<lambda>l. l @ nl) ls)) st' nn w"] assms(2,3)
      listing_notes [OF l' assms(4)] by (simp add: emit_def)
  show "writing st (w\<lparr>out_tree := st'\<rparr>)"
    using writing_step [OF assms(1), of "w\<lparr>out_tree := st'\<rparr>"] assms(2,3) l' by simp
  show "progress w (emit txt st' nn w)" "progress w (w\<lparr>out_tree := st'\<rparr>)"
    using assms(3) by (auto simp: progress_def emit_def)
qed

lemma end_wp:
  assumes "write_env f U st" "writing st w"
  shows "wp {Bad_access} (write_menu_end (sym_calc_value f) (Suc n) m w) (\<lambda>w'. writing st w' \<and> progress w w')"
proof (cases "m_sym (mn (out_tree w) m)")
  case None
  note E = writing_env [OF assms]
  show ?thesis
    unfolding write_menu_end_def
  proof (simp only: None simp_thms if_True, rule wp_rbindI [OF visible_wp [OF None E(1-3)]])
    fix x :: "bool \<times> mstate"
    assume a: "case x of (b, st') \<Rightarrow> menus_kept (out_tree w) st' \<and> kept {} (mk (out_tree w)) (mk st')"
    obtain b st' where x: "x = (b, st')" by (cases x)
    from a have K: "menus_kept (out_tree w) st'" "kept {} (mk (out_tree w)) (mk st')" by (simp_all add: x)
    have s': "m_sym (mn st' m) = None" using menus_keptD(2) [OF K(1)] None by simp
    have "plain_text t" if "menu_get_prompt st' m = Some t" for t
      using E(6) [OF None, of t] that menu_get_prompt_own [OF s'] menu_get_prompt_own [OF None] own_text_kept [OF K(1)] by simp
    then have "writing st (emit (''# end of '' @ t @ nl) st' True w)" if "menu_get_prompt st' m = Some t" for t
      using writing_notes(1) [OF assms(2) K, of "[''# end of '' @ t]" True] that harmless_end by simp
    then show "wp {Bad_access} (case x of (vis, st) \<Rightarrow> if vis \<and> m \<noteq> 0 then rbind (deref (menu_get_prompt st m))
        (\<lambda>str. Inr (emit (''# end of '' @ str @ nl) st True w)) else Inr (w\<lparr>out_tree := st\<rparr>))
        (\<lambda>w'. writing st w' \<and> progress w w')"
      using writing_notes(2-4) [OF assms(2) K, of "[]"] by (auto simp: x deref_def split: option.splits)
  qed
qed (simp add: write_menu_end_def assms(2))

lemma write_line_wp:
  assumes w: "writing st w" and k: "kept {} (mk (out_tree w)) k" and set: "settled (syms k s)" and c: "closed U k" "3 * card U < f"
    and need: "\<not> NEED (syms k (modules_sym k))" and s: "\<not> sym_is_choice (syms k s)" "\<not> WRITTEN (syms k s)" "s \<in> menu_syms st"
  shows "wp {Bad_access} (rbind (conf_write_symbol (sym_calc_value f) (\<lambda>ty nm v. kconfig_print_symbol CONFIG ty nm v False) s
        (set_flag s SYMBOL_WRITTEN k)) (\<lambda>(line, k). Inr (emit ((if need_newline w then nl else []) @ line) ((out_tree w)\<lparr>mk := k\<rparr>) False w)))
    (\<lambda>w'. writing st w' \<and> progress w w' \<and> WRITTEN (syms (mk (out_tree w')) s))"
proof -
  let ?k = "set_flag s SYMBOL_WRITTEN k" and ?ls = "if need_newline w then [[]] else []"
  note K = kept_set_written [of s k]
  obtain "is" where l: "listing CONFIG (mk (out_tree w)) (out_text w) is"
    using w by (auto simp: writing_def)
  have "list_all (harmless CONFIG) ?ls" by simp
  then obtain is' where l': "listing CONFIG k (out_text w @ (if need_newline w then nl else [])) is'"
    using listing_notes [OF listing_kept [OF k l], of ?ls] by (cases "need_newline w") auto
  have "wp {Bad_access} (conf_write_symbol (sym_calc_value f) (\<lambda>ty nm v. kconfig_print_symbol CONFIG ty nm v False) s ?k)
      (\<lambda>(l, k'). kept {} ?k k' \<and> (if sym_type (syms ?k s) = S_UNKNOWN then l = [] else \<exists>v. line_ok k' s v \<and> l = print_line CONFIG k' s v))"
    using keptD [OF K] sym_keptD [OF keptD(3) [OF K]] set need s(1)
    by (intro write_symbol_wp [OF closed_kept [OF K c(1)] c(2)]) auto
  then show ?thesis
  proof (rule wp_rbindI)
    fix x :: "string \<times> kconf"
    assume a: "case x of (l, k') \<Rightarrow> kept {} ?k k' \<and> (if sym_type (syms ?k s) = S_UNKNOWN then l = [] else \<exists>v. line_ok k' s v \<and> l = print_line CONFIG k' s v)"
    obtain line k' where x: "x = (line, k')" by (cases x)
    have K': "kept {s} k k'" using a kept_trans [OF K, of "{}" k'] by (simp add: x)
    have ty: "sym_type (syms ?k s) = sym_type (syms k s)" by (rule sym_keptD(2) [OF keptD(3) [OF K]])
    have "\<exists>is. listing CONFIG k' ((out_text w @ (if need_newline w then nl else [])) @ line) is"
    proof (cases "sym_type (syms k s) = S_UNKNOWN")
      case True
      then show ?thesis using a listing_unknown [OF l' K'] by (auto simp: x ty)
    next
      case False
      then obtain v where "line_ok k' s v" "line = print_line CONFIG k' s v" using a by (auto simp: x ty)
      with listing_line [OF l' K' _ s(2)] show ?thesis by blast
    qed
    moreover define w' where "w' = emit ((if need_newline w then nl else []) @ line) ((out_tree w)\<lparr>mk := k'\<rparr>) False w"
    moreover have t: "kept {s} (mk (out_tree w)) (mk (out_tree w'))"
      using kept_trans [OF k K'] by (simp add: w'_def emit_def)
    ultimately have "writing st w'"
      using writing_step [OF w, of w' "{s}"] s(3) by (auto simp: emit_def)
    moreover have "progress w w'" using t by (auto simp: progress_def)
    moreover have "WRITTEN (syms (mk (out_tree w')) s)" using keptD(4) [OF K', of s] by (simp add: w'_def emit_def)
    ultimately show "wp {Bad_access} (case x of (line, k) \<Rightarrow> Inr (emit ((if need_newline w then nl else []) @ line) ((out_tree w)\<lparr>mk := k\<rparr>) False w))
        (\<lambda>w'. writing st w' \<and> progress w w' \<and> WRITTEN (syms (mk (out_tree w')) s))"
      by (simp add: x w'_def)
  qed
qed

lemma entry_wp:
  assumes env: "write_env f U st" and w: "writing st w"
  shows "wp {Bad_access} (write_entry (sym_calc_value f) (Suc n) CONFIG m w)
    (\<lambda>w'. writing st w' \<and> progress w w' \<and> (\<forall>s. m_sym (mn st m) = Some s \<longrightarrow> written_off (syms (mk (out_tree w')) s)))"
proof (cases "m_sym (mn (out_tree w) m)")
  case None
  note E = writing_env [OF env w]
  have st_m: "m_sym (mn st m) = None"
    using w None menus_keptD(2) [of st "out_tree w" m] by (auto simp: writing_def)
  have "wp {Bad_access} (rbind (menu_is_visible (sym_calc_value f) (Suc n) (Suc n) m (out_tree w)) (\<lambda>(vis, st).
      if \<not> vis then Inr (w\<lparr>out_tree := st\<rparr>) else rbind (deref (menu_get_prompt st m)) (\<lambda>str.
        Inr (emit (nl @ ''#'' @ nl @ ''# '' @ str @ nl @ ''#'' @ nl) st False w)))) (\<lambda>w'. writing st w' \<and> progress w w')"
  proof (rule wp_rbindI [OF visible_wp [OF None E(1-3)]])
    fix x :: "bool \<times> mstate"
    assume a: "case x of (b, st') \<Rightarrow> menus_kept (out_tree w) st' \<and> kept {} (mk (out_tree w)) (mk st')"
    obtain b st' where x: "x = (b, st')" by (cases x)
    from a have K: "menus_kept (out_tree w) st'" "kept {} (mk (out_tree w)) (mk st')" by (simp_all add: x)
    have s': "m_sym (mn st' m) = None" using menus_keptD(2) [OF K(1)] None by simp
    have pt: "plain_text t" if "menu_get_prompt st' m = Some t" for t
      using E(6) [OF None, of t] that menu_get_prompt_own [OF s'] menu_get_prompt_own [OF None] own_text_kept [OF K(1)] by simp
    have "writing st (emit (nl @ ''#'' @ nl @ ''# '' @ t @ nl @ ''#'' @ nl) st' False w)" if "menu_get_prompt st' m = Some t" for t
      using writing_notes(1) [OF w K, of "[[], ''#'', ''# '' @ t, ''#'']" False] harmless_text [OF pt [OF that]] by simp
    then show "wp {Bad_access} (case x of (vis, st) \<Rightarrow> if \<not> vis then Inr (w\<lparr>out_tree := st\<rparr>)
        else rbind (deref (menu_get_prompt st m)) (\<lambda>str. Inr (emit (nl @ ''#'' @ nl @ ''# '' @ str @ nl @ ''#'' @ nl) st False w)))
        (\<lambda>w'. writing st w' \<and> progress w w')"
      using writing_notes(2-4) [OF w K, of "[]"] by (auto simp: x deref_def split: option.splits)
  qed
  with None st_m show ?thesis by (simp add: write_entry_def)
next
  case (Some s)
  note E = writing_env [OF env w]
  let ?k = "mk (out_tree w)"
  have st_m: "m_sym (mn st m) = Some s"
    using w Some menus_keptD(2) [of st "out_tree w" m] by (auto simp: writing_def)
  show ?thesis
  proof (cases "SYMBOL_CHOICE \<in> flags (syms ?k s) \<or> SYMBOL_WRITTEN \<in> flags (syms ?k s)")
    case True
    then show ?thesis
      using w st_m Some by (auto simp: write_entry_def written_off_def sym_is_choice_def WRITTEN_def)
  next
    case False
    then have nc: "\<not> sym_is_choice (syms ?k s)" "\<not> WRITTEN (syms ?k s)" by (auto simp: sym_is_choice_def WRITTEN_def)
    have sU: "s \<in> U" by (rule menus_closedD(3) [OF E(2) Some])
    have calc: "wp {Bad_access} (sym_calc_value f s ?k) (\<lambda>k'. evolves {} ?k k' \<and> settled (syms k' s))"
      by (rule calc_valid_after [OF E(1) sU calc_fuel [OF E(1,3)] E(5) [OF Some nc(1)]])
    have "wp {Bad_access} (rbind (sym_calc_value f s ?k) (\<lambda>k.
        if SYMBOL_WRITE \<notin> flags (syms k s) then Inr (w\<lparr>out_tree := (out_tree w)\<lparr>mk := k\<rparr>\<rparr>)
        else rbind (conf_write_symbol (sym_calc_value f) (\<lambda>ty nm v. kconfig_print_symbol CONFIG ty nm v False) s
                (set_flag s SYMBOL_WRITTEN k)) (\<lambda>(line, k).
              Inr (emit ((if need_newline w then nl else []) @ line) ((out_tree w)\<lparr>mk := k\<rparr>) False w))))
      (\<lambda>w'. writing st w' \<and> progress w w' \<and> written_off (syms (mk (out_tree w')) s))"
    proof (rule wp_rbindI [OF calc])
      fix k1 assume k1: "evolves {} ?k k1 \<and> settled (syms k1 s)"
      then have K: "kept {} ?k k1" by (simp add: evolves_kept)
      have off: "writing st (w\<lparr>out_tree := (out_tree w)\<lparr>mk := k1\<rparr>\<rparr>)" "progress w (w\<lparr>out_tree := (out_tree w)\<lparr>mk := k1\<rparr>\<rparr>)"
        using writing_notes(2,4) [OF w, of "(out_tree w)\<lparr>mk := k1\<rparr>" "[]"] K by simp_all
      have k1_need: "\<not> NEED (syms k1 (modules_sym k1))"
        using E(4) sym_keptD(9) [OF keptD(3) [OF K]] keptD(2) [OF K] by auto
      have line: "wp {Bad_access} (rbind (conf_write_symbol (sym_calc_value f) (\<lambda>ty nm v. kconfig_print_symbol CONFIG ty nm v False) s
                (set_flag s SYMBOL_WRITTEN k1)) (\<lambda>(line, k).
              Inr (emit ((if need_newline w then nl else []) @ line) ((out_tree w)\<lparr>mk := k\<rparr>) False w)))
          (\<lambda>w'. writing st w' \<and> progress w w' \<and> WRITTEN (syms (mk (out_tree w')) s))"
        by (rule write_line_wp [OF w K conjunct2 [OF k1] closed_kept [OF K E(1)] E(3) k1_need])
           (use nc sym_keptD(6) [OF keptD(3) [OF K], of s] keptD(4) [OF K, of s] st_m in \<open>auto simp: menu_syms_def\<close>)
      show "wp {Bad_access} (if SYMBOL_WRITE \<notin> flags (syms k1 s) then Inr (w\<lparr>out_tree := (out_tree w)\<lparr>mk := k1\<rparr>\<rparr>)
          else rbind (conf_write_symbol (sym_calc_value f) (\<lambda>ty nm v. kconfig_print_symbol CONFIG ty nm v False) s
                (set_flag s SYMBOL_WRITTEN k1)) (\<lambda>(line, k).
              Inr (emit ((if need_newline w then nl else []) @ line) ((out_tree w)\<lparr>mk := k\<rparr>) False w)))
        (\<lambda>w'. writing st w' \<and> progress w w' \<and> written_off (syms (mk (out_tree w')) s))"
        using off k1 wp_mono [OF line] by (auto simp: written_off_def WRITE_def)
    qed
    then have "wp {Bad_access} (write_entry (sym_calc_value f) (Suc n) CONFIG m w)
        (\<lambda>w'. writing st w' \<and> progress w w' \<and> written_off (syms (mk (out_tree w')) s))"
      unfolding write_entry_def Let_def Some option.case if_not_P [OF False] .
    then show ?thesis by (rule wp_mono) (simp add: st_m)
  qed
qed

section \<open>The walk\<close>

text \<open>Without the assumptions on symbols, a step keeps the links.\<close>

interpretation wr: menu_walker out_tree "write_entry (sym_calc_value f) (Suc n) CONFIG" "write_menu_end (sym_calc_value f) (Suc n)" st
  "\<lambda>w. write_env f U st \<and> writing st w" for f n st U
proof (unfold_locales, goal_cases)
  case (1 w)
  then show ?case by (auto simp: writing_def intro: menus_kept_links)
next
  case (2 m w)
  then have "wp {Bad_access} (write_entry (sym_calc_value f) (Suc n) CONFIG m w) (\<lambda>w'. write_env f U st \<and> writing st w')"
    by (auto intro: wp_mono [OF entry_wp])
  then show ?case by (cases "write_entry (sym_calc_value f) (Suc n) CONFIG m w") simp_all
next
  case (3 m w)
  then have "wp {Bad_access} (write_menu_end (sym_calc_value f) (Suc n) m w) (\<lambda>w'. write_env f U st \<and> writing st w')"
    by (auto intro: wp_mono [OF end_wp])
  then show ?case by (cases "write_menu_end (sym_calc_value f) (Suc n) m w") simp_all
qed

lemma events_wp:
  assumes env: "write_env f U st" and w: "writing st w"
  shows "wp {Bad_access} (rfold (run_event (write_entry (sym_calc_value f) (Suc n) CONFIG) (write_menu_end (sym_calc_value f) (Suc n))) es w)
    (\<lambda>w'. writing st w' \<and> progress w w' \<and> (\<forall>m s. Visit m \<in> set es \<and> m_sym (mn st m) = Some s \<and>
       \<not> sym_is_choice_value (syms (mk st) s) \<longrightarrow> written_off (syms (mk (out_tree w')) s)))"
  using w
proof (induction es arbitrary: w)
  case (Cons e es)
  let ?run = "run_event (write_entry (sym_calc_value f) (Suc n) CONFIG) (write_menu_end (sym_calc_value f) (Suc n))"
  let ?off = "\<lambda>w'. \<forall>m s. Visit m = e \<and> m_sym (mn st m) = Some s \<and> \<not> sym_is_choice_value (syms (mk st) s) \<longrightarrow> written_off (syms (mk (out_tree w')) s)"
  have step: "wp {Bad_access} (?run e w) (\<lambda>w'. writing st w' \<and> progress w w' \<and> ?off w')"
  proof (cases e)
    case (Visit m)
    have "wp {Bad_access} (?run e w) (\<lambda>w'. writing st w' \<and> progress w w' \<and> (\<forall>s. m_sym (mn st m) = Some s \<longrightarrow> written_off (syms (mk (out_tree w')) s)))"
      unfolding Visit run_event_simps by (rule entry_wp [OF env Cons.prems])
    then show ?thesis by (rule wp_mono) (simp add: Visit)
  next
    case (Leave m)
    have "wp {Bad_access} (?run e w) (\<lambda>w'. writing st w' \<and> progress w w')"
      unfolding Leave run_event_simps by (rule end_wp [OF env Cons.prems])
    then show ?thesis by (rule wp_mono) (simp add: Leave)
  qed
  show ?case
    unfolding rfold.simps
  proof (rule wp_rbindI [OF step])
    fix w1 assume w1: "writing st w1 \<and> progress w w1 \<and> ?off w1"
    then have cv: "sym_is_choice_value (syms (mk (out_tree w1)) s) = sym_is_choice_value (syms (mk st) s)" for s
      using statD(7) [OF kept_stat] unfolding writing_def by metis
    show "wp {Bad_access} (rfold ?run es w1) (\<lambda>w'. writing st w' \<and> progress w w' \<and>
        (\<forall>m s. Visit m \<in> set (e # es) \<and> m_sym (mn st m) = Some s \<and> \<not> sym_is_choice_value (syms (mk st) s) \<longrightarrow>
          written_off (syms (mk (out_tree w')) s)))"
    proof (rule wp_mono [OF Cons.IH [OF conjunct1 [OF w1]]], goal_cases)
      case (1 w2)
      then obtain W where K: "kept W (mk (out_tree w1)) (mk (out_tree w2))" by (auto simp: progress_def)
      have "written_off (syms (mk (out_tree w2)) s)" if "Visit m = e" "m_sym (mn st m) = Some s" "\<not> sym_is_choice_value (syms (mk st) s)" for m s
        using w1 that by (intro written_off_kept [OF K]) (simp_all add: cv)
      moreover have "progress w w2" using 1 w1 progress_trans by blast
      ultimately show ?case using 1 by (metis set_ConsD)
    qed
  qed
qed simp

end
