(* ===== verification/Kconfig_Readback.thy ===== *)
theory Kconfig_Readback
  imports Kconfig_Listing
begin

text \<open>
  Reading back what was printed: the line of a symbol gives it the printed value as its user
  value, changes its choice at most, and leaves the other symbols alone.
\<close>

section \<open>Reading one line\<close>

text \<open>The user value of a symbol as text, and the values that can be printed and read.\<close>

definition user_string :: "symbol \<Rightarrow> string" where
  "user_string y = (if sym_type y = S_BOOLEAN \<or> sym_type y = S_TRISTATE then tri_string (def_tri y S_DEF_USER)
     else sval_str (def_val y S_DEF_USER))"

definition printable :: "symbol_type \<Rightarrow> string \<Rightarrow> bool" where
  "printable ty v =
     (case ty of
        S_BOOLEAN \<Rightarrow> v = ''y'' \<or> v = ''n''
      | S_TRISTATE \<Rightarrow> v = ''y'' \<or> v = ''m'' \<or> v = ''n''
      | S_STRING \<Rightarrow> CHR 0x0A \<notin> set v
      | S_INT \<Rightarrow> sym_string_valid S_INT v
      | S_HEX \<Rightarrow> sym_string_valid S_HEX v
      | S_UNKNOWN \<Rightarrow> False)"

lemma digit_not_control: "isxdigit c \<Longrightarrow> c \<noteq> CHR 0x0A \<and> c \<noteq> CHR 0x0D"
  by (auto simp: isxdigit_def isdigit_def cbyte_def)

lemma number_chars:
  assumes "sym_string_valid ty v" "ty = S_INT \<or> ty = S_HEX"
  shows "v \<noteq> [] \<and> list_all (\<lambda>c. c \<noteq> CHR 0x0A \<and> c \<noteq> CHR 0x0D) v"
proof -
  have d: "list_all (\<lambda>c. c \<noteq> CHR 0x0A \<and> c \<noteq> CHR 0x0D) r" if "list_all isxdigit r" for r
    using that digit_not_control by (auto simp: list_all_iff)
  have i: "isxdigit c" if "isdigit c" for c using that by (simp add: isxdigit_def)
  from assms(2) show ?thesis
  proof
    assume ty: "ty = S_INT"
    with assms(1) have v: "int_string_valid v" by (simp add: sym_string_valid_def)
    obtain c r where cr: "v = c # r" using v by (cases v) (auto simp: int_string_valid_def)
    have "list_all isxdigit r \<and> (c = CHR ''-'' \<or> isxdigit c)"
      using v i by (cases r) (auto simp: cr int_string_valid_def Let_def list_all_iff split: if_splits)
    then show ?thesis using d digit_not_control [of c] by (auto simp: cr)
  next
    assume ty: "ty = S_HEX"
    with assms(1) have v: "hex_string_valid v" by (simp add: sym_string_valid_def)
    show ?thesis
    proof (cases "has_hex_prefix v")
      case True
      then obtain x r where "v = CHR ''0'' # x # r" "x = CHR ''x'' \<or> x = CHR ''X''"
        by (auto simp: has_hex_prefix_def split: list.splits)
      with v d True show ?thesis by (auto simp: hex_string_valid_def Let_def)
    qed (use v d in \<open>auto simp: hex_string_valid_def Let_def\<close>)
  qed
qed

lemma find_symbol_stat: "stat k k' \<Longrightarrow> find_symbol nm k' = find_symbol nm k"
  using statD [of k k'] by (simp add: find_symbol_def find_match_def cong: option.case_cong)

text \<open>The choice of a choice value.\<close>

definition choice_linked :: "kconf \<Rightarrow> symref \<Rightarrow> bool" where
  "choice_linked k s \<longleftrightarrow> (sym_is_choice_value (syms k s) \<longrightarrow> (\<exists>c. choice_of (syms k s) = Inr (Some c) \<and> sym_is_choice (syms k c)))"

lemma choice_linked_stat: "stat k k' \<Longrightarrow> choice_linked k' s = choice_linked k s"
  using statD(5-7) [of k k'] by (simp add: choice_linked_def)

lemma sym_stat_def_flag:
  "sym_stat y (y\<lparr>flags := insert (SYMBOL_DEF d) (flags y)\<rparr>)" "sym_stat y (y\<lparr>flags := flags y - {SYMBOL_DEF d}\<rparr>)"
  "sym_stat y (y\<lparr>def_tri := t\<rparr>)" "sym_stat y (y\<lparr>def_val := v\<rparr>)"
  by (simp_all add: sym_stat_def sym_syms_def choice_values_def choice_of_def sym_get_choice_prop_def NEED_def
      sym_is_choice_def sym_is_choice_value_def)

lemma stat_upd: "sym_stat (syms k s) (f (syms k s)) \<Longrightarrow> stat k (upd s f k)"
  by (simp add: stat_def)

lemma stat_refl [simp]: "stat k k"
  by (simp add: stat_def)

lemma stat_sets:
  "stat k (set_flag s (SYMBOL_DEF d) k)" "stat k (clear_flag s (SYMBOL_DEF d) k)" "stat k (set_def_val s d v k)"
  "stat k (upd s (\<lambda>y. y\<lparr>def_tri := t y\<rparr>) k)"
  by (simp_all add: set_flag_def clear_flag_def set_def_val_def stat_upd sym_stat_def_flag)

lemma stat_set_def_tri: "stat k (set_def_tri s d t k)"
  unfolding set_def_tri_def by (rule stat_trans [OF stat_sets(4) stat_sets(1)])

definition same_but :: "symref set \<Rightarrow> kconf \<Rightarrow> kconf \<Rightarrow> bool" where
  "same_but A k k' \<longleftrightarrow> (\<forall>t. t \<notin> A \<longrightarrow> syms k' t = syms k t)"

lemma read_choice_result:
  assumes "choice_linked (kc c) s"
  shows "\<exists>c'. read_choice s c = Inr c' \<and> stat (kc c) (kc c') \<and> same_but {t. sym_is_choice (syms (kc c) t)} (kc c) (kc c')"
proof (cases "sym_is_choice_value (syms (kc c) s)")
  case True
  with assms obtain cs where cs: "choice_of (syms (kc c) s) = Inr (Some cs)" "sym_is_choice (syms (kc c) cs)"
    by (auto simp: choice_linked_def)
  let ?t = "def_tri (syms (kc c) s) S_DEF_USER" and ?ct = "def_tri (syms (kc c) cs) S_DEF_USER"
  define c1 where "c1 = (case ?t of No \<Rightarrow> c
      | Mod \<Rightarrow> if ?ct = Yes then on_kc (clear_flag cs SYMBOL_DEF_USER) (conf_warning c) else c
      | Yes \<Rightarrow> on_kc (set_def_val cs S_DEF_USER (VSym s)) (if ?ct \<noteq> No then conf_warning c else c))"
  have "stat (kc c) (kc c1) \<and> same_but {cs} (kc c) (kc c1)"
    by (auto simp: c1_def on_kc_def conf_warning_def stat_upd sym_stat_def_flag same_but_def clear_flag_def set_def_val_def split: tristate.splits)
  then have "stat (kc c) (kc (on_kc (upd cs (\<lambda>y. y\<lparr>def_tri := (def_tri y)(S_DEF_USER := EXPR_OR ?ct ?t)\<rparr>)) c1))"
    "same_but {cs} (kc c) (kc (on_kc (upd cs (\<lambda>y. y\<lparr>def_tri := (def_tri y)(S_DEF_USER := EXPR_OR ?ct ?t)\<rparr>)) c1))"
    by (auto simp: on_kc_def same_but_def intro: stat_trans [OF _ stat_sets(4)])
  moreover have "read_choice s c = Inr (on_kc (upd cs (\<lambda>y. y\<lparr>def_tri := (def_tri y)(S_DEF_USER := EXPR_OR ?ct ?t)\<rparr>)) c1)"
    unfolding read_choice_def c1_def using True cs(1) by (simp add: Let_def)
  ultimately show ?thesis
    using cs(2) by (auto simp: same_but_def)
qed (simp add: read_choice_def same_but_def)

text \<open>The two forms of a line, whoever's symbol it is.\<close>

lemma read_line_assigned:
  assumes "plain_name nm" "CHR 0x0A \<notin> set v" "v \<noteq> []" "last v \<noteq> CHR 0x0D" "plain_prefix pfx"
  shows "conf_read_line pfx (pfx @ nm @ ''='' @ v @ nl) c = read_assigned nm v c"
proof -
  have "assigned pfx (pfx @ nm @ ''='' @ v @ nl) = Some (nm, v)"
    using assms(1-4) by (intro assigned_line) (auto simp: plain_name_def)
  moreover have "hd (pfx @ nm @ ''='' @ v @ nl) \<noteq> CHR ''#''" using assms(5) by (simp add: plain_prefix_def)
  ultimately show ?thesis by (simp add: conf_read_line_def del: append_assoc)
qed

lemma read_line_unset:
  assumes "plain_name nm"
  shows "conf_read_line pfx (''# '' @ pfx @ nm @ '' is not set'' @ nl) c = read_unset nm c"
proof -
  have "unset_name pfx (''# '' @ pfx @ nm @ '' is not set'' @ nl) = Some nm"
    using assms by (intro unset_line) (simp add: plain_name_def)
  then show ?thesis by (simp add: conf_read_line_def del: append_assoc)
qed

definition sets_user :: "symref \<Rightarrow> string \<Rightarrow> confio \<Rightarrow> confio \<Rightarrow> bool" where
  "sets_user s v c c' \<longleftrightarrow> stat (kc c) (kc c') \<and> same_but (insert s {t. sym_is_choice (syms (kc c) t)}) (kc c) (kc c') \<and>
     sym_has_value (syms (kc c') s) \<and> user_string (syms (kc c') s) = v"

lemma read_choice_user:
  assumes "sets_user s v c c1" "choice_linked (kc c) s" "\<not> sym_is_choice (syms (kc c) s)"
  shows "\<exists>c'. read_choice s c1 = Inr c' \<and> sets_user s v c c'"
proof -
  have S: "stat (kc c) (kc c1)" using assms(1) by (simp add: sets_user_def)
  obtain c' where c': "read_choice s c1 = Inr c'" "stat (kc c1) (kc c')" "same_but {t. sym_is_choice (syms (kc c1) t)} (kc c1) (kc c')"
    using read_choice_result [of c1 s] assms(2) choice_linked_stat [OF S] by auto
  have "{t. sym_is_choice (syms (kc c1) t)} = {t. sym_is_choice (syms (kc c) t)}" using statD(6) [OF S] by simp
  then show ?thesis
    using c' assms stat_trans [OF S c'(2)] by (auto simp: sets_user_def same_but_def)
qed

lemma value_sets_user:
  assumes "sym_type (syms (kc c) s) = ty" "printable ty v" "ty \<noteq> S_BOOLEAN" "ty \<noteq> S_TRISTATE"
  shows "conf_set_sym_val s S_DEF_USER (if ty = S_STRING then sym_escape_string_value v else v) c =
      (False, on_kc (\<lambda>k. set_flag s SYMBOL_DEF_USER (set_def_val s S_DEF_USER (VStr v) k)) c) \<and>
    sets_user s v c (on_kc (\<lambda>k. set_flag s SYMBOL_DEF_USER (set_def_val s S_DEF_USER (VStr v) k)) c)"
proof
  show "conf_set_sym_val s S_DEF_USER (if ty = S_STRING then sym_escape_string_value v else v) c =
      (False, on_kc (\<lambda>k. set_flag s SYMBOL_DEF_USER (set_def_val s S_DEF_USER (VStr v) k)) c)"
  proof (cases "ty = S_STRING")
    case False
    with assms show ?thesis
      by (cases ty) (simp_all add: conf_set_sym_val_def set_checked_string_def printable_def)
  qed (use assms set_string_escaped in simp)
  show "sets_user s v c (on_kc (\<lambda>k. set_flag s SYMBOL_DEF_USER (set_def_val s S_DEF_USER (VStr v) k)) c)"
    using assms stat_trans [OF stat_sets(3) stat_sets(1)]
    by (simp add: sets_user_def on_kc_def same_but_def set_flag_def set_def_val_def sym_has_value_def user_string_def sval_str_def)
qed

lemma tri_sets_user:
  assumes "sym_type (syms (kc c) s) = S_BOOLEAN \<or> sym_type (syms (kc c) s) = S_TRISTATE"
  shows "sets_user s (tri_string t) c (on_kc (set_def_tri s S_DEF_USER t) c)"
  using assms stat_set_def_tri
  by (auto simp: sets_user_def on_kc_def same_but_def set_def_tri_def set_flag_def sym_has_value_def user_string_def)

lemma print_line_read:
  assumes v: "printable (sym_type (syms k s)) v" and nm: "sym_name (syms k s) = Some nm" "plain_name nm"
    and c: "stat k (kc c)" "find_symbol nm k = Some s" "choice_linked k s" "\<not> sym_is_choice (syms k s)" and pfx: "plain_prefix pfx"
  shows "\<exists>c'. conf_read_line pfx (print_line pfx k s v) c = Inr c' \<and> sets_user s v c c'"
proof -
  note D = statD [OF c(1)]
  have f: "find_symbol nm (kc c) = Some s" using find_symbol_stat [OF c(1)] c(2) by simp
  have cl: "choice_linked (kc c) s" "\<not> sym_is_choice (syms (kc c) s)"
    using choice_linked_stat [OF c(1)] c(3,4) D(6) by simp_all
  let ?ty = "sym_type (syms k s)"
  show ?thesis
  proof (cases "?ty = S_BOOLEAN \<or> ?ty = S_TRISTATE")
    case True
    then have "v = tri_string Yes \<or> v = tri_string No \<or> v = tri_string Mod \<and> ?ty = S_TRISTATE"
      using v by (auto simp: printable_def tri_string_def)
    then obtain t where t: "v = tri_string t" "?ty = S_BOOLEAN \<longrightarrow> t \<noteq> Mod"
      by (elim disjE) auto
    have ty: "sym_type (syms (kc c) s) = S_BOOLEAN \<or> sym_type (syms (kc c) s) = S_TRISTATE" using True D(4) by simp
    have set: "conf_set_sym_val s S_DEF_USER (tri_string t) c = (False, on_kc (set_def_tri s S_DEF_USER t) c)" if "t \<noteq> No"
      using True t(2) that D(4) [of s] by (cases t) (auto simp: conf_set_sym_val_def tri_string_def)
    show ?thesis
    proof (cases "t = No")
      case True
      then have "print_line pfx k s v = ''# '' @ pfx @ nm @ '' is not set'' @ nl"
        using \<open>?ty = S_BOOLEAN \<or> ?ty = S_TRISTATE\<close> by (auto simp: print_line_def kconfig_print_symbol_def nm t tri_string_def)
      then have "conf_read_line pfx (print_line pfx k s v) c = read_unset nm c"
        by (simp only: read_line_unset [OF nm(2)])
      then show ?thesis
        using read_choice_user [OF tri_sets_user [OF ty, of No] cl] ty by (auto simp: read_unset_def f t(1) True)
    next
      case False
      then have l: "print_line pfx k s v = pfx @ nm @ ''='' @ v @ nl" "CHR 0x0A \<notin> set v" "v \<noteq> []" "last v \<noteq> CHR 0x0D"
        using \<open>?ty = S_BOOLEAN \<or> ?ty = S_TRISTATE\<close>
        by (cases t; auto simp: print_line_def kconfig_print_symbol_def nm t tri_string_def)+
      have "conf_read_line pfx (print_line pfx k s v) c = read_assigned nm v c"
        unfolding l(1) by (rule read_line_assigned [OF nm(2) l(2-4) pfx])
      then show ?thesis
        using read_choice_user [OF tri_sets_user [OF ty, of t] cl] set [OF False] by (simp add: read_assigned_def f t(1))
    qed
  next
    case False
    let ?v = "if ?ty = S_STRING then sym_escape_string_value v else v"
    have line: "print_line pfx k s v = pfx @ nm @ ''='' @ ?v @ nl"
      using False by (simp add: print_line_def kconfig_print_symbol_def nm)
    have "CHR 0x0A \<notin> set ?v \<and> ?v \<noteq> [] \<and> last ?v \<noteq> CHR 0x0D"
    proof (cases "?ty = S_STRING")
      case True
      then show ?thesis using v escape_no_newline [of v] by (simp add: printable_def) (simp add: sym_escape_string_value_def)
    next
      case ns: False
      then have "sym_string_valid ?ty v" "?ty = S_INT \<or> ?ty = S_HEX" using v False by (cases ?ty; simp add: printable_def)+
      from number_chars [OF this] ns show ?thesis by (auto simp: list_all_iff)
    qed
    then have "conf_read_line pfx (print_line pfx k s v) c = read_assigned nm ?v c"
      unfolding line by (intro read_line_assigned [OF nm(2) _ _ _ pfx]) (elim conjE, assumption)+
    with value_sets_user [OF D(4) v] False read_choice_user [OF _ cl] show ?thesis
      by (simp add: read_assigned_def f del: if_split)
  qed
qed

end
