(* ===== verification/Kconfig_Write_Text.thy ===== *)
theory Kconfig_Write_Text
  imports Kconfig_Write_Inv Kconfig_Readback
begin

text \<open>
  The whole text: its heading, the walk over the menus, and what the reader makes of the
  lines.
\<close>

section \<open>The heading\<close>

lemma split_lines_Cons: "split_lines x \<noteq> []"
  by (cases x) (auto split: list.splits)

lemma split_lines_take:
  "\<exists>ls l m rest. split_lines x = ls @ l # rest \<and> split_lines (take n x) = ls @ [take m l]"
proof (induction x arbitrary: n)
  case (Cons c r)
  show ?case
  proof (cases n)
    case 0
    obtain l rest where "split_lines (c # r) = l # rest" by (metis split_lines_Cons neq_Nil_conv)
    then show ?thesis by (intro exI [of _ "[]"] exI [of _ l] exI [of _ 0] exI [of _ rest]) (simp add: 0)
  next
    case (Suc n')
    obtain ls l m rest where IH: "split_lines r = ls @ l # rest" "split_lines (take n' r) = ls @ [take m l]"
      using Cons.IH by blast
    show ?thesis
    proof (cases "c = CHR 0x0A")
      case True
      then show ?thesis
        using IH by (intro exI [of _ "[] # ls"] exI [of _ l] exI [of _ m] exI [of _ rest]) (simp add: Suc)
    next
      case False
      show ?thesis
      proof (cases ls)
        case Nil
        then show ?thesis
          using IH False by (intro exI [of _ "[]"] exI [of _ "c # l"] exI [of _ "Suc m"] exI [of _ rest]) (simp add: Suc)
      next
        case (Cons l0 ls')
        then show ?thesis
          using IH False by (intro exI [of _ "(c # l0) # ls'"] exI [of _ l] exI [of _ m] exI [of _ rest]) (simp add: Suc)
      qed
    qed
  qed
qed simp

lemma split_lines_append: "CHR 0x0A \<notin> set a \<Longrightarrow> split_lines (a @ nl @ r) = a # split_lines r"
  by (induction a) (auto simp: nl_def)

lemma plain_text_take: "plain_text l \<Longrightarrow> plain_text (take m l)"
proof -
  assume p: "plain_text l"
  have "starts_with CONFIG l" if "starts_with CONFIG (take m l)"
  proof -
    have "l = CONFIG @ drop (length CONFIG) (take m l) @ drop m l"
      using that unfolding starts_with_def by (metis append_assoc append_take_drop_id)
    then show ?thesis by (metis starts_with_append)
  qed
  with p show ?thesis by (auto simp: plain_text_def dest: in_set_takeD)
qed

lemma heading_harmless:
  assumes "plain_text title"
  shows "list_all (harmless CONFIG) (map (\<lambda>l. ''#'' @ (if l = [] then [] else '' '' @ l))
    (split_lines (take 255 (nl @ ''Automatically generated file; DO NOT EDIT.'' @ nl @ title @ nl))))"
proof -
  let ?A = "''Automatically generated file; DO NOT EDIT.''"
  have "split_lines ([] @ nl @ ?A @ nl @ title @ nl @ []) = [[], ?A, title, []]"
    using assms by (subst split_lines_append, simp add: plain_text_def)+ simp
  then have full: "split_lines (nl @ ?A @ nl @ title @ nl) = [[], ?A, title, []]" by simp
  have "plain_text []" "plain_text ?A" by (simp_all add: plain_text_def starts_with_def)
  with assms have all: "\<forall>l \<in> set (split_lines (nl @ ?A @ nl @ title @ nl)). plain_text l" by (simp only: full) simp
  obtain ls l m rest where s: "split_lines (nl @ ?A @ nl @ title @ nl) = ls @ l # rest"
      "split_lines (take 255 (nl @ ?A @ nl @ title @ nl)) = ls @ [take m l]"
    using split_lines_take by blast
  have "plain_text x" if "x \<in> set (ls @ [take m l])" for x
    using all [unfolded s(1)] that plain_text_take by auto
  moreover have "harmless CONFIG (''#'' @ (if x = [] then [] else '' '' @ x))" if "plain_text x" for x
    using harmless_text [OF that] by simp
  ultimately have "\<forall>x \<in> set (ls @ [take m l]). harmless CONFIG (''#'' @ (if x = [] then [] else '' '' @ x))" by blast
  then show ?thesis unfolding s(2) list_all_iff set_map by blast
qed

lemma comment_lines_notes: "comment_lines ''#'' x = concat (map (\<lambda>l. l @ nl) (map (\<lambda>l. ''#'' @ (if l = [] then [] else '' '' @ l)) (split_lines x)))"
  by (simp add: comment_lines_def comp_def)

lemma heading_listing:
  assumes "conf_write_heading kconfig_print_comment st = Inr h" "m_sym (mn st 0) = None"
    and "\<And>t. own_text (mn st 0) = Some t \<Longrightarrow> plain_text t" and "\<And>s. \<not> WRITTEN (syms k s)"
  shows "\<exists>is. listing CONFIG k h is"
proof -
  obtain p title where p: "get_prompt st 0 = Some p" "prop_text p = Some title"
      and h: "h = comment_lines ''#'' (take 255 (nl @ ''Automatically generated file; DO NOT EDIT.'' @ nl @ title @ nl))"
    using assms(1) unfolding conf_write_heading_def
    by (cases "get_prompt st 0"; cases "prop_text (the (get_prompt st 0))") (auto simp: deref_def kconfig_print_comment_def)
  have "own_text (mn st 0) = Some title"
    using p menu_get_prompt_own [OF assms(2)] by (simp add: menu_get_prompt_def)
  then have "list_all (harmless CONFIG) (map (\<lambda>l. ''#'' @ (if l = [] then [] else '' '' @ l))
      (split_lines (take 255 (nl @ ''Automatically generated file; DO NOT EDIT.'' @ nl @ title @ nl))))"
    using assms(3) heading_harmless by blast
  moreover have "listing CONFIG k [] []" using assms(4) by (simp add: listing_def)
  ultimately have "listing CONFIG k ([] @ h) ([] @ map Note (map (\<lambda>l. ''#'' @ (if l = [] then [] else '' '' @ l))
      (split_lines (take 255 (nl @ ''Automatically generated file; DO NOT EDIT.'' @ nl @ title @ nl)))))"
    unfolding h comment_lines_notes by (intro listing_notes)
  then show ?thesis by auto
qed

section \<open>Throwing the values away\<close>

lemma fold_clear_flag:
  "syms (fold (\<lambda>s. clear_flag s fl) xs k) t = (if t \<in> set xs then (syms k t)\<lparr>flags := flags (syms k t) - {fl}\<rparr> else syms k t)"
  "all_syms (fold (\<lambda>s. clear_flag s fl) xs k) = all_syms k" "modules_sym (fold (\<lambda>s. clear_flag s fl) xs k) = modules_sym k"
  by (induction xs arbitrary: k) (auto simp: clear_flag_def)

lemma sym_stat_clear:
  "fl = SYMBOL_VALID \<or> fl = SYMBOL_WRITTEN \<Longrightarrow> sym_stat y (y\<lparr>flags := flags y - {fl}\<rparr>)"
  by (auto simp: sym_stat_def sym_syms_def choice_values_def choice_of_def sym_get_choice_prop_def NEED_def
      sym_is_choice_def sym_is_choice_value_def)

lemma stat_clear_all: "fl = SYMBOL_VALID \<or> fl = SYMBOL_WRITTEN \<Longrightarrow> stat k (fold (\<lambda>s. clear_flag s fl) xs k)"
  by (simp add: stat_def fold_clear_flag sym_stat_clear)

lemma stat_changed [simp]: "stat k (conf_set_changed b k') = stat k k'"
  by (simp add: stat_def conf_set_changed_def)

lemma clear_all_valid_wp:
  assumes "closed U k" "3 * card U < f" "\<And>s. \<not> WRITTEN (syms k s)"
  shows "wp {Bad_access} (sym_clear_all_valid (sym_calc_value f) k) (\<lambda>k'. stat k k' \<and> (\<forall>s. \<not> WRITTEN (syms k' s)))"
proof -
  define k1 where "k1 = conf_set_changed True (fold (\<lambda>s. clear_flag s SYMBOL_VALID) (all_syms k) k)"
  have S: "stat k k1" unfolding k1_def stat_changed by (rule stat_clear_all) simp
  have nw: "\<not> WRITTEN (syms k1 s)" for s
    using assms(3) [of s] by (auto simp: k1_def conf_set_changed_def fold_clear_flag WRITTEN_def)
  have c: "closed U k1" by (rule closed_stat [OF S assms(1)])
  have "wp {Bad_access} (sym_calc_value f (modules_sym k1) k1) (evolves {} k1)"
    by (rule sym_calc_value_law [OF _ c calc_fuel [OF c assms(2)]]) (use c in \<open>simp add: closed_def\<close>)
  then have "wp {Bad_access} (sym_calc_value f (modules_sym k1) k1) (\<lambda>k'. stat k k' \<and> (\<forall>s. \<not> WRITTEN (syms k' s)))"
  proof (rule wp_mono)
    fix k' assume e: "evolves {} k1 k'"
    show "stat k k' \<and> (\<forall>s. \<not> WRITTEN (syms k' s))"
      using stat_trans [OF S kept_stat [OF evolves_kept [OF e]]] keptD(4) [OF evolves_kept [OF e]] nw by simp
  qed
  then show ?thesis by (simp add: sym_clear_all_valid_def Let_def k1_def)
qed

lemma write_env_stat:
  assumes "write_env f U st" "stat (mk st) k"
  shows "write_env f U (st\<lparr>mk := k\<rparr>)"
proof -
  note D = statD [OF assms(2)]
  have "closed U k" using assms closed_stat by (simp add: write_env_def)
  moreover have "\<not> NEED (syms k (modules_sym k))" using assms(1) D(2) D(9) by (auto simp: write_env_def)
  moreover have "\<not> NEED (syms k s)" if "m_sym (mn st m) = Some s" "\<not> sym_is_choice (syms k s)" for m s
    using assms(1) D(6) [of s] D(9) [of s] that unfolding write_env_def by metis
  ultimately show ?thesis using assms(1) by (simp add: write_env_def menus_closed_def)
qed

section \<open>The text\<close>

text \<open>The pointer walk of \<open>conf_write\<close> as the events of the tree.\<close>

lemma walk_as_events:
  assumes "write_env f U st" "writing st w" "seg st None (Some 0) (Entry 0 t Leaf) None" "Suc (length (flat t)) < Suc n"
  shows "menu_walk (Suc n) (Suc n) out_tree (write_entry (sym_calc_value f) (Suc n) CONFIG) (write_menu_end (sym_calc_value f) (Suc n))
      (m_list (mn st 0)) w =
    rfold (run_event (write_entry (sym_calc_value f) (Suc n) CONFIG) (write_menu_end (sym_calc_value f) (Suc n))) (tree_events t) w"
  using assms by (intro wr.walk_events) simp_all

definition fresh_marks :: "kconf \<Rightarrow> bool" where
  "fresh_marks k \<longleftrightarrow> (\<forall>s. \<not> WRITTEN (syms k s))"

definition text_of :: "forest \<Rightarrow> mstate \<Rightarrow> string \<Rightarrow> mstate \<Rightarrow> bool" where
  "text_of t st txt st' \<longleftrightarrow> menus_kept st st' \<and> stat (mk st) (mk st') \<and> (\<forall>s. WRITTEN (syms (mk st') s) \<longrightarrow> s \<in> menu_syms st) \<and>
     (\<exists>is. listing CONFIG (mk st') txt is) \<and>
     (\<forall>m \<in> set (flat t). \<forall>s. m_sym (mn st m) = Some s \<and> \<not> sym_is_choice_value (syms (mk st) s) \<longrightarrow> written_off (syms (mk st') s))"

lemma write_text_wp:
  assumes env: "write_env f U st" and tree: "seg st None (Some 0) (Entry 0 t Leaf) None" "m_sym (mn st 0) = None" "Suc (length (flat t)) < n"
    and fresh: "fresh_marks (mk st)"
  shows "wp {Bad_access} (conf_write_text (sym_calc_value f) n CONFIG st) (\<lambda>(txt, st'). text_of t st txt st')"
proof -
  obtain n' where n: "n = Suc n'" using tree(3) by (cases n) auto
  have "wp {Bad_access} (if conf_changed (mk st) then Inr (mk st) else sym_clear_all_valid (sym_calc_value f) (mk st))
      (\<lambda>k. stat (mk st) k \<and> (\<forall>s. \<not> WRITTEN (syms k s)))"
    using clear_all_valid_wp [of U "mk st" f] env fresh by (auto simp: write_env_def fresh_marks_def)
  note clear = this
  have walk: "wp {Bad_access} (menu_walk n n out_tree (write_entry (sym_calc_value f) n CONFIG) (write_menu_end (sym_calc_value f) n) (m_list (mn st 0))
        \<lparr>out_text = h, need_newline = False, out_tree = st\<lparr>mk := k\<rparr>\<rparr>) (\<lambda>w. text_of t st (out_text w) (out_tree w))"
    if h: "conf_write_heading kconfig_print_comment st = Inr h" and k: "stat (mk st) k" "\<forall>s. \<not> WRITTEN (syms k s)" for h k
  proof -
    let ?st = "st\<lparr>mk := k\<rparr>" and ?w = "\<lparr>out_text = h, need_newline = False, out_tree = st\<lparr>mk := k\<rparr>\<rparr>"
    have env': "write_env f U ?st" by (rule write_env_stat [OF env k(1)])
    obtain "is" where "listing CONFIG k h is"
      using heading_listing [OF h tree(2), of k] env tree(2) k(2) by (auto simp: write_env_def)
    then have w: "writing ?st ?w"
      by (auto simp: writing_def intro!: exI [of _ "{}"])
    have sg: "seg ?st None (Some 0) (Entry 0 t Leaf) None" using tree(1) by simp
    have eq: "menu_walk n n out_tree (write_entry (sym_calc_value f) n CONFIG) (write_menu_end (sym_calc_value f) n) (m_list (mn st 0)) ?w =
        rfold (run_event (write_entry (sym_calc_value f) n CONFIG) (write_menu_end (sym_calc_value f) n)) (tree_events t) ?w"
      using walk_as_events [OF env' w sg, of n'] tree(3) by (simp add: n)
    show ?thesis
      unfolding eq
    proof (rule wp_mono [OF events_wp [OF env' w, of n', folded n]], goal_cases)
      case (1 w')
      then obtain W where W: "W \<subseteq> menu_syms ?st" "kept W k (mk (out_tree w'))" and M: "menus_kept st (out_tree w')"
        and L: "\<exists>is. listing CONFIG (mk (out_tree w')) (out_text w') is"
        by (auto simp: writing_def)
      have "stat (mk st) (mk (out_tree w'))" by (rule stat_trans [OF k(1) kept_stat [OF W(2)]])
      moreover have "s \<in> menu_syms st" if "WRITTEN (syms (mk (out_tree w')) s)" for s
        using that keptD(4) [OF W(2), of s] k(2) W(1) by (auto simp: menu_syms_def)
      moreover have "written_off (syms (mk (out_tree w')) s)"
        if "m \<in> set (flat t)" "m_sym (mn st m) = Some s" "\<not> sym_is_choice_value (syms (mk st) s)" for m s
        using 1 that visit_events [of m t] statD(7) [OF k(1), of s] by (auto simp: tree_events_def)
      ultimately show ?case using M L by (auto simp: text_of_def)
    qed
  qed
  show ?thesis
    unfolding conf_write_text_def
  proof (rule wp_rbind_any)
    show "e \<in> {Bad_access}" if "conf_write_heading kconfig_print_comment st = Inl e" for e
      using that by (auto simp: conf_write_heading_def deref_def rbind_def split: option.splits)
    fix h assume h: "conf_write_heading kconfig_print_comment st = Inr h"
    show "wp {Bad_access} (rbind (if conf_changed (mk st) then Inr (mk st) else sym_clear_all_valid (sym_calc_value f) (mk st)) (\<lambda>k.
        rbind (menu_walk n n out_tree (write_entry (sym_calc_value f) n CONFIG) (write_menu_end (sym_calc_value f) n) (m_list (mn st 0))
          \<lparr>out_text = h, need_newline = False, out_tree = st\<lparr>mk := k\<rparr>\<rparr>) (\<lambda>w. Inr (out_text w, out_tree w))))
        (\<lambda>(txt, st'). text_of t st txt st')"
      by (rule wp_rbindI [OF clear]) (auto intro!: wp_rbindI [OF walk [OF h]])
  qed
qed

end
