(* ===== verification/Kconfig_Write_Props.thy ===== *)
theory Kconfig_Write_Props
  imports Kconfig_Write_Text
begin

text \<open>
  Saving and loading: what \<open>conf_write\<close> leaves in the file is read back as the values that
  were saved. \<open>conf_write\<close> ends on every well-linked menu tree, and its walk along the pointers
  visits the entries as the tree has them.
\<close>

section \<open>Reading a listing\<close>











section \<open>Resetting\<close>





section \<open>Reading the text\<close>











section \<open>The file\<close>


lemma suffix_neq: "length x = length y \<Longrightarrow> x \<noteq> y \<Longrightarrow> a @ x \<noteq> b @ y" for x y :: "'a list"
  by simp





text \<open>
  Two ways to lose a configuration. If \<open>fstat\<close> fails, the new file is taken for identical
  with the old one and dropped; and if the new file cannot be renamed, the old one has been moved
  away already.
\<close>

lemma failed_stat_keeps_old:
  assumes "\<not> stat_ok fs name" and "files fs name = Some old" and "tmp \<noteq> name"
  shows "\<exists>fs'. install_file False name tmp t fs = (True, fs') \<and> files fs' name = Some old"
  using assms by (simp add: install_file_def is_same_def)

lemma failed_rename_leaves_none:
  assumes "stat_ok fs = (\<lambda>_. True)" and "files fs name = Some old" and "old \<noteq> t" and "tmp \<noteq> name"
    and "tmp \<noteq> take PATH_MAX (name @ ''.old'')" and "take PATH_MAX (name @ ''.old'') \<noteq> name"
    and "rename_ok fs name (take PATH_MAX (name @ ''.old''))" and "\<not> rename_ok fs tmp name"
  shows "\<exists>fs'. install_file False name tmp t fs = (False, fs') \<and> files fs' name = None"
  using assms by (auto simp: install_file_def is_same_def rename_def)

section \<open>Properties\<close>

text \<open>A menu with a string symbol whose value has a quote in it.\<close>

definition sample_menu :: "nat \<Rightarrow> menu" where
  "sample_menu m =
     (let x = \<lparr>m_next = None, m_parent = None, m_list = None, m_sym = None, m_prompt = NoPrompt, m_visibility = None, m_dep = None\<rparr>
      in if m = 0 then x\<lparr>m_list := Some 1, m_prompt := OwnPrompt (prompt_prop ''Top'')\<rparr>
         else if m = 1 then x\<lparr>m_parent := Some 0, m_list := Some 2, m_prompt := OwnPrompt (prompt_prop ''Base'')\<rparr>
         else if m = 2 then x\<lparr>m_parent := Some 1, m_sym := Some (SymAt 0), m_prompt := SymPrompt 0\<rparr>
         else x)"

definition sample_save_syms :: symtab where
  "sample_save_syms s =
     (case s of
        SymAt i \<Rightarrow> (plain_symbol ''NAME'' S_STRING VNull No)\<lparr>flags := {SYMBOL_DEF_USER}, def_val := (\<lambda>_. VStr [CHR ''a'', CHR 0x22]),
           props := [prompt_prop ''name'']\<rparr>
      | symbol_yes \<Rightarrow> const_symbol ''y'' Yes
      | symbol_mod \<Rightarrow> const_symbol ''m'' Mod
      | symbol_no \<Rightarrow> const_symbol ''n'' No)"

definition sample_save :: mstate where
  "sample_save = \<lparr>mk = \<lparr>syms = sample_save_syms, all_syms = [SymAt 0], menu_changed = {}, modules_sym = symbol_no, modules_val = No,
       conf_changed = False\<rparr>, mn = sample_menu, mbrk = 3, current_entry = 2, current_menu = 0, last_entry_ptr = NextOf 1\<rparr>"

definition sample_fs :: fsys where
  "sample_fs = \<lparr>files = (\<lambda>_. None), dirs = [], mkdir_ok = (\<lambda>_. True), open_ok = (\<lambda>_. True), stat_ok = (\<lambda>_. True), rename_ok = (\<lambda>_ _. True)\<rparr>"




lemma sample_seg: "seg sample_save None (Some 0) (Entry 0 (Entry 1 (Entry 2 Leaf Leaf) Leaf) Leaf) None"
  by (simp add: sample_save_def sample_menu_def)





theorem conf_walks_visit_tree_witness:
  "conf_write_defconfig (sym_calc_value 7) 4 ''CONFIG_'' ''def'' sample_fs sample_save =
      rbind (sym_clear_all_valid (sym_calc_value 7) (mk sample_save)) (\<lambda>k.
      rbind (rfold (run_event (write_default (sym_calc_value 7) 4 ''CONFIG_'') (\<lambda>_ w. Inr w)) [Visit 1, Visit 2, Leave 1, Leave 0]
              \<lparr>out_text = [], need_newline = False, out_tree = sample_save\<lparr>mk := k\<rparr>\<rparr>) (\<lambda>w.
        Inr (0, sample_fs\<lparr>files := (files sample_fs)(''def'' := Some (out_text w))\<rparr>, out_tree w)))"
  using conf_walks_visit_tree [OF sample_seg, of 4 "sym_calc_value 7" "''CONFIG_''" sample_fs "''def''"]
  by (simp add: tree_events_def sample_fs_def)

end
