(* ===== verification/Kconfig_Preprocess.thy ===== *)
theory Kconfig_Preprocess
  imports CLib
begin

text \<open>
  The preprocessor (scripts/config/preprocess.c): references \<open>$(name,args)\<close> to variables,
  user-defined and built-in functions and environment variables, expanded while the
  \<open>Config.in\<close> files are scanned. \<open>pperror\<close> ends the program, which is the reason \<open>PP_exit\<close> to
  stop. A variable whose value has been freed, or not been set yet, has the value \<open>None\<close>;
  reading it stops with \<open>PP_memory\<close>, and so does leaving the array of arguments. What the
  system answers to \<open>getenv\<close> and \<open>popen\<close>, and the position in the file, are in a record.
\<close>

datatype pp_error =
    Too_few_args string | Too_many_args string | Recursive_variable string | Too_deep
  | Too_many_arguments | Error_if string | Unterminated string | Shell_failed string

datatype pp_stop = PP_fuel | PP_memory | PP_exit pp_error

type_synonym 'a pres = "pp_stop + 'a"

datatype variable_flavor = VAR_SIMPLE | VAR_RECURSIVE | VAR_APPEND

record pp_var =
  v_name :: string
  v_value :: "string option"
  v_flavor :: variable_flavor
  exp_count :: nat

record pp_host =
  pp_file :: string
  pp_lineno :: nat
  getenv :: "string \<Rightarrow> string option"
  popen :: "string \<Rightarrow> string option"

text \<open>\<open>env_list\<close>, \<open>variable_list\<close>, and what was printed.\<close>

record pp_state =
  env_list :: "(string \<times> string) list"
  variables :: "pp_var list"
  printed :: "string list"

section \<open>Environment variables\<close>

definition env_add :: "string \<Rightarrow> string \<Rightarrow> pp_state \<Rightarrow> pp_state" where
  "env_add name value st = st\<lparr>env_list := env_list st @ [(name, value)]\<rparr>"

definition env_expand :: "pp_host \<Rightarrow> string \<Rightarrow> pp_state \<Rightarrow> string option \<times> pp_state" where
  "env_expand h name st =
     (if name = [] then (None, st)
      else case find (\<lambda>e. fst e = name) (env_list st) of
        Some e \<Rightarrow> (Some (snd e), st)
      | None \<Rightarrow>
          (case getenv h name of
             None \<Rightarrow> (None, st)
           | Some v \<Rightarrow> (Some v, env_add name v st)))"

definition env_write_dep :: "string \<Rightarrow> pp_state \<Rightarrow> string \<times> pp_state" where
  "env_write_dep autoconfig_name st =
     (concat (map (\<lambda>(n, v). ''ifneq '' @ [CHR 0x22] @ ''$('' @ n @ '')'' @ [CHR 0x22] @ '' '' @ [CHR 0x22] @ v @ [CHR 0x22, CHR 0x0A] @
          autoconfig_name @ '': FORCE'' @ [CHR 0x0A] @ ''endif'' @ [CHR 0x0A]) (env_list st)),
      st\<lparr>env_list := []\<rparr>)"

section \<open>Built-in functions\<close>

definition do_error_if :: "string list \<Rightarrow> pp_state \<Rightarrow> (string \<times> pp_state) pres" where
  "do_error_if argv st = (if argv ! 0 = ''y'' then Inl (PP_exit (Error_if (argv ! 1))) else Inr ([], st))"

definition do_info :: "string list \<Rightarrow> pp_state \<Rightarrow> (string \<times> pp_state) pres" where
  "do_info argv st = Inr ([], st\<lparr>printed := printed st @ [argv ! 0]\<rparr>)"

definition do_warning_if :: "pp_host \<Rightarrow> string list \<Rightarrow> pp_state \<Rightarrow> (string \<times> pp_state) pres" where
  "do_warning_if h argv st =
     Inr ([], if argv ! 0 = ''y''
        then st\<lparr>printed := printed st @ [pp_file h @ '':'' @ nat_string 10 (pp_lineno h) @ '': '' @ argv ! 1]\<rparr> else st)"

text \<open>
  The output of a command: at most 256 bytes are read and the last of 256 is dropped; the
  newlines at the end go, the others become spaces, and the string ends at a NUL.
\<close>

definition shell_output :: "string \<Rightarrow> string" where
  "shell_output out =
     (let b = take 256 out; b = (if length b = 256 then take 255 b else b);
          b = rev (dropWhile (\<lambda>c. c = CHR 0x0A) (rev b))
      in takeWhile (\<lambda>c. c \<noteq> CHR 0x00) (map (\<lambda>c. if c = CHR 0x0A then CHR '' '' else c) b))"

definition do_shell :: "pp_host \<Rightarrow> string list \<Rightarrow> pp_state \<Rightarrow> (string \<times> pp_state) pres" where
  "do_shell h argv st =
     (case popen h (argv ! 0) of
        None \<Rightarrow> Inl (PP_exit (Shell_failed (argv ! 0)))
      | Some out \<Rightarrow> Inr (shell_output out, st))"

definition function_table ::
  "pp_host \<Rightarrow> (string \<times> nat \<times> nat \<times> (string list \<Rightarrow> pp_state \<Rightarrow> (string \<times> pp_state) pres)) list" where
  "function_table h =
     [(''error-if'', 2, 2, do_error_if),
      (''filename'', 0, 0, \<lambda>_ st. Inr (pp_file h, st)),
      (''info'', 1, 1, do_info),
      (''lineno'', 0, 0, \<lambda>_ st. Inr (nat_string 10 (pp_lineno h), st)),
      (''shell'', 1, 1, do_shell h),
      (''warning-if'', 2, 2, do_warning_if h)]"

definition function_expand :: "pp_host \<Rightarrow> string \<Rightarrow> string list \<Rightarrow> pp_state \<Rightarrow> (string option \<times> pp_state) pres" where
  "function_expand h name argv st =
     (case find (\<lambda>f. fst f = name) (function_table h) of
        None \<Rightarrow> Inr (None, st)
      | Some (_, min_args, max_args, func) \<Rightarrow>
          if length argv < min_args then Inl (PP_exit (Too_few_args name))
          else if length argv > max_args then Inl (PP_exit (Too_many_args name))
          else rbind (func argv st) (\<lambda>(s, st). Inr (Some s, st)))"

section \<open>Variables\<close>

type_synonym expander = "string \<Rightarrow> string list \<Rightarrow> pp_state \<Rightarrow> (string \<times> pp_state) pres"

definition variable_lookup :: "string \<Rightarrow> pp_state \<Rightarrow> pp_var option" where
  "variable_lookup name st = find (\<lambda>v. v_name v = name) (variables st)"

text \<open>A change of the variable a pointer refers to; names are unique.\<close>

definition upd_var :: "string \<Rightarrow> (pp_var \<Rightarrow> pp_var) \<Rightarrow> pp_state \<Rightarrow> pp_state" where
  "upd_var name f st = st\<lparr>variables := map (\<lambda>v. if v_name v = name then f v else v) (variables st)\<rparr>"

definition read_value :: "string \<Rightarrow> pp_state \<Rightarrow> string pres" where
  "read_value name st =
     (case variable_lookup name st of
        Some v \<Rightarrow> (case v_value v of Some s \<Rightarrow> Inr s | None \<Rightarrow> Inl PP_memory)
      | None \<Rightarrow> Inl PP_memory)"

definition variable_expand :: "expander \<Rightarrow> string \<Rightarrow> string list \<Rightarrow> pp_state \<Rightarrow> (string option \<times> pp_state) pres" where
  "variable_expand ex name argv st =
     (case variable_lookup name st of
        None \<Rightarrow> Inr (None, st)
      | Some v \<Rightarrow>
          if argv = [] \<and> exp_count v \<noteq> 0 then Inl (PP_exit (Recursive_variable name))
          else if exp_count v > 1000 then Inl (PP_exit Too_deep)
          else
            let st = upd_var name (\<lambda>v. v\<lparr>exp_count := exp_count v + 1\<rparr>) st in
            rbind (read_value name st) (\<lambda>value.
            rbind (if v_flavor v = VAR_RECURSIVE then ex value argv st else Inr (value, st)) (\<lambda>(res, st).
              Inr (Some res, upd_var name (\<lambda>v. v\<lparr>exp_count := exp_count v - 1\<rparr>) st))))"

section \<open>Clauses\<close>

definition FUNCTION_MAX_ARGS :: nat where
  "FUNCTION_MAX_ARGS = 16"

text \<open>
  The commas outside parentheses separate the tokens; \<open>argc\<close> is \<open>new_argc\<close>, \<open>tok\<close> the text from
  \<open>prev\<close> to \<open>p\<close>. The last token is stored without a check.
\<close>

fun split_clause :: "int \<Rightarrow> nat \<Rightarrow> string \<Rightarrow> string \<Rightarrow> string list pres" where
  "split_clause nest argc tok [] = (if argc \<ge> FUNCTION_MAX_ARGS then Inl PP_memory else Inr [tok])"
| "split_clause nest argc tok (c # r) =
     (if nest = 0 \<and> c = CHR '','' then
        if argc \<ge> FUNCTION_MAX_ARGS then Inl (PP_exit Too_many_arguments)
        else rbind (split_clause nest (Suc argc) [] r) (\<lambda>l. Inr (tok # l))
      else
        split_clause (if c = CHR ''('' then nest + 1 else if c = CHR '')'' then nest - 1 else nest) argc (tok @ [c]) r)"

text \<open>The arguments, expanded from left to right.\<close>

fun expand_args :: "expander \<Rightarrow> string list \<Rightarrow> string list \<Rightarrow> pp_state \<Rightarrow> (string list \<times> pp_state) pres" where
  "expand_args ex argv [] st = Inr ([], st)"
| "expand_args ex argv (a # as) st =
     rbind (ex a argv st) (\<lambda>(x, st).
     rbind (expand_args ex argv as st) (\<lambda>(xs, st). Inr (x # xs, st)))"

text \<open>A variable, then a built-in function, then the environment, and nothing otherwise.\<close>

definition resolve :: "pp_host \<Rightarrow> expander \<Rightarrow> string \<Rightarrow> string list \<Rightarrow> pp_state \<Rightarrow> (string \<times> pp_state) pres" where
  "resolve h ex name args st =
     rbind (variable_expand ex name args st) (\<lambda>(res, st).
       case res of
         Some s \<Rightarrow> Inr (s, st)
       | None \<Rightarrow>
           rbind (function_expand h name args st) (\<lambda>(res, st).
             case res of
               Some s \<Rightarrow> Inr (s, st)
             | None \<Rightarrow>
                 if args = [] then
                   (case env_expand h name st of (Some s, st) \<Rightarrow> Inr (s, st) | (None, st) \<Rightarrow> Inr ([], st))
                 else Inr ([], st)))"

text \<open>The number of an argument of the function that is being expanded.\<close>

definition arg_number :: "string \<Rightarrow> string list \<Rightarrow> nat option" where
  "arg_number clause argv =
     (let (n, e, _) = strtoull clause 10 in
      if e = length clause \<and> 0 < unat n \<and> unat n \<le> length argv then Some (unat n) else None)"

definition eval_clause :: "pp_host \<Rightarrow> expander \<Rightarrow> string \<Rightarrow> string list \<Rightarrow> pp_state \<Rightarrow> (string \<times> pp_state) pres" where
  "eval_clause h ex clause argv st =
     (case arg_number clause argv of
        Some n \<Rightarrow> Inr (argv ! (n - 1), st)
      | None \<Rightarrow>
          rbind (split_clause 0 0 [] clause) (\<lambda>toks.
          rbind (ex (hd toks) argv st) (\<lambda>(name, st).
          rbind (expand_args ex argv (tl toks) st) (\<lambda>(args, st).
            resolve h ex name args st))))"

section \<open>Strings\<close>

text \<open>The text up to the closing parenthesis that belongs to an opening one before, and the rest.\<close>

fun find_close :: "nat \<Rightarrow> string \<Rightarrow> (string \<times> string) option" where
  "find_close nest [] = None"
| "find_close nest (c # r) =
     (if c = CHR '')'' \<and> nest = 0 then Some ([], r)
      else map_option (\<lambda>(a, b). (c # a, b))
        (find_close (if c = CHR ''('' then nest + 1 else if c = CHR '')'' then nest - 1 else nest) r))"

lemma find_close_length: "find_close nest s = Some (a, b) \<Longrightarrow> length a + length b < length s"
  by (induction nest s arbitrary: a b rule: find_close.induct) (auto split: if_splits)

definition expand_dollar_with_args ::
  "pp_host \<Rightarrow> expander \<Rightarrow> string \<Rightarrow> string list \<Rightarrow> pp_state \<Rightarrow> ((string \<times> string) \<times> pp_state) pres" where
  "expand_dollar_with_args h ex str argv st =
     (case str of
        [] \<Rightarrow> Inr ((''$'', str), st)
      | c # p \<Rightarrow>
          if c \<noteq> CHR ''('' then Inr ((''$'', str), st)
          else
            (case find_close 0 p of
               None \<Rightarrow> Inl (PP_exit (Unterminated p))
             | Some (clause, rest) \<Rightarrow>
                 rbind (eval_clause h ex clause argv st) (\<lambda>(res, st). Inr ((res, rest), st))))"

lemma expand_dollar_rest:
  "expand_dollar_with_args h ex str argv st = Inr ((e, rest), st') \<Longrightarrow> length rest \<le> length str"
  by (auto simp: expand_dollar_with_args_def rbind_Inr_iff split: list.splits if_splits option.splits dest!: find_close_length)

lemma rbind_cong_value [fundef_cong]:
  "r = r' \<Longrightarrow> (\<And>x. r' = Inr x \<Longrightarrow> f x = g x) \<Longrightarrow> rbind r f = rbind r' g"
  by (cases r') auto

text \<open>The end of the string ends every token.\<close>

function expand_loop ::
  "pp_host \<Rightarrow> expander \<Rightarrow> (char \<Rightarrow> bool) \<Rightarrow> string list \<Rightarrow> string \<Rightarrow> pp_state \<Rightarrow> ((string \<times> string) \<times> pp_state) pres" where
  "expand_loop h ex is_end argv [] st = Inr (([], []), st)"
| "expand_loop h ex is_end argv (c # r) st =
     (if c = CHR ''$'' then
        rbind (expand_dollar_with_args h ex r argv st) (\<lambda>x.
        rbind (expand_loop h ex is_end argv (snd (fst x)) (snd x)) (\<lambda>((out, p), st).
          Inr ((fst (fst x) @ out, p), st)))
      else if is_end c then Inr (([], c # r), st)
      else rbind (expand_loop h ex is_end argv r st) (\<lambda>((out, p), st). Inr ((c # out, p), st)))"
  by pat_completeness auto

termination expand_loop
  by (relation "measure (\<lambda>(_, _, _, _, s, _). length s)") (auto dest: expand_dollar_rest)

definition is_end_of_str :: "char \<Rightarrow> bool" where
  "is_end_of_str c \<longleftrightarrow> c = CHR 0x00"

definition isalnum :: "char \<Rightarrow> bool" where
  "isalnum c \<longleftrightarrow> isdigit c \<or> 65 \<le> cbyte c \<and> cbyte c \<le> 90 \<or> 97 \<le> cbyte c \<and> cbyte c \<le> 122"

definition is_end_of_token :: "char \<Rightarrow> bool" where
  "is_end_of_token c \<longleftrightarrow> \<not> (isalnum c \<or> c = CHR ''_'' \<or> c = CHR ''-'' \<or> c = CHR ''.'' \<or> c = CHR ''/'')"

text \<open>\<open>expand_string_with_args\<close>, which all the others call, takes fuel.\<close>

primrec expand_string_with_args :: "nat \<Rightarrow> pp_host \<Rightarrow> expander" where
  "expand_string_with_args 0 h str argv st = Inl PP_fuel"
| "expand_string_with_args (Suc n) h str argv st =
     rbind (expand_loop h (expand_string_with_args n h) is_end_of_str argv str st) (\<lambda>((out, _), st). Inr (out, st))"

definition expand_string :: "nat \<Rightarrow> pp_host \<Rightarrow> string \<Rightarrow> pp_state \<Rightarrow> (string \<times> pp_state) pres" where
  "expand_string n h str st = expand_string_with_args n h str [] st"

definition expand_dollar :: "nat \<Rightarrow> pp_host \<Rightarrow> string \<Rightarrow> pp_state \<Rightarrow> ((string \<times> string) \<times> pp_state) pres" where
  "expand_dollar n h str st = expand_dollar_with_args h (expand_string_with_args n h) str [] st"

definition expand_one_token :: "nat \<Rightarrow> pp_host \<Rightarrow> string \<Rightarrow> pp_state \<Rightarrow> ((string \<times> string) \<times> pp_state) pres" where
  "expand_one_token n h str st = expand_loop h (expand_string_with_args n h) is_end_of_token [] str st"

section \<open>Definitions of variables\<close>

text \<open>
  The value of a variable that is assigned anew is freed before the new value is expanded,
  and a new variable is in the list before it has a value.
\<close>

definition variable_add :: "nat \<Rightarrow> pp_host \<Rightarrow> string \<Rightarrow> string \<Rightarrow> variable_flavor \<Rightarrow> pp_state \<Rightarrow> pp_state pres" where
  "variable_add n h name value flavor st =
     (let found = variable_lookup name st;
          append = (found \<noteq> None \<and> flavor = VAR_APPEND);
          fl = (if flavor = VAR_APPEND then (case found of Some v \<Rightarrow> v_flavor v | None \<Rightarrow> VAR_RECURSIVE) else flavor);
          st = (case found of
                  Some _ \<Rightarrow> if append then st else upd_var name (\<lambda>v. v\<lparr>v_value := None\<rparr>) st
                | None \<Rightarrow> st\<lparr>variables := variables st @ [\<lparr>v_name = name, v_value = None, v_flavor = fl, exp_count = 0\<rparr>]\<rparr>);
          st = upd_var name (\<lambda>v. v\<lparr>v_flavor := fl\<rparr>) st
      in
        rbind (if fl = VAR_SIMPLE then expand_string n h value st else Inr (value, st)) (\<lambda>(new_value, st).
          if append then
            rbind (read_value name st) (\<lambda>old.
              Inr (upd_var name (\<lambda>v. v\<lparr>v_value := Some (old @ '' '' @ new_value)\<rparr>) st))
          else Inr (upd_var name (\<lambda>v. v\<lparr>v_value := Some new_value\<rparr>) st)))"

definition variable_all_del :: "pp_state \<Rightarrow> pp_state" where
  "variable_all_del st = st\<lparr>variables := []\<rparr>"

end
