(* ===== verification/Kconfig_Expand.thy ===== *)
theory Kconfig_Expand
  imports Kconfig_Preprocess
begin

text \<open>
  Expansions always end, although functions may call
  themselves: the counters in the variables bound the nesting. The proof goes over the functions
  an expansion is made of, for any recursive call with the promise that it ends when the
  counters and the length of the string leave room, and keeps the variables.
\<close>

section \<open>Room for nested expansions\<close>

definition weight :: "pp_var list \<Rightarrow> nat" where
  "weight vs = sum_list (map (\<lambda>v. 1001 - exp_count v) vs)"

definition values_upto :: "nat \<Rightarrow> pp_var list \<Rightarrow> bool" where
  "values_upto L vs \<longleftrightarrow> list_all (\<lambda>v. case v_value v of Some s \<Rightarrow> length s \<le> L | None \<Rightarrow> True) vs"

text \<open>
  Room for \<open>k\<close> more steps, of \<open>n\<close>; without \<open>b\<close> the fuel may run out.
\<close>

definition room :: "bool \<Rightarrow> nat \<Rightarrow> nat \<Rightarrow> pp_var list \<Rightarrow> nat \<Rightarrow> bool" where
  "room b L n vs k \<longleftrightarrow> distinct (map v_name vs) \<and> (b \<longrightarrow> values_upto L vs \<and> weight vs * Suc L + k \<le> n)"

definition kept :: "pp_var list \<Rightarrow> 'a \<times> pp_state \<Rightarrow> bool" where
  "kept vs x \<longleftrightarrow> variables (snd x) = vs"

definition stops :: "bool \<Rightarrow> pp_stop set" where
  "stops b = (if b then UNIV - {PP_fuel} else UNIV)"

lemma stops_other [simp]: "PP_memory \<in> stops b" "PP_exit e \<in> stops b"
  by (simp_all add: stops_def)

lemma kept_pair [simp]: "kept vs (y, st) \<longleftrightarrow> variables st = vs"
  by (simp add: kept_def)

lemma room_mono: "room b L n vs k \<Longrightarrow> k' \<le> k \<Longrightarrow> room b L n vs k'"
  by (auto simp: room_def)

text \<open>A sequence of two steps that keep the variables.\<close>

lemma wp_bind_kept:
  assumes "wp (stops b) r (kept vs)" and "\<And>y st. variables st = vs \<Longrightarrow> wp (stops b) (f (y, st)) Q"
  shows "wp (stops b) (rbind r f) Q"
proof (rule wp_rbindI [OF assms(1)])
  fix x :: "'a \<times> pp_state"
  assume "kept vs x"
  then show "wp (stops b) (f x) Q" using assms(2) by (cases x) simp
qed

section \<open>Single variables\<close>

definition one_named :: "string \<Rightarrow> pp_var list \<Rightarrow> pp_var \<Rightarrow> pp_var list \<Rightarrow> bool" where
  "one_named name a v b \<longleftrightarrow> v_name v = name \<and> name \<notin> v_name ` set a \<and> name \<notin> v_name ` set b"

lemma lookup_split:
  assumes "variable_lookup name st = Some v" "distinct (map v_name (variables st))"
  obtains a b where "variables st = a @ v # b" "one_named name a v b"
proof -
  have "\<exists>a b. vs = a @ v # b \<and> one_named name a v b"
    if "find (\<lambda>v. v_name v = name) vs = Some v" "distinct (map v_name vs)" for vs
    using that
  proof (induction vs)
    case (Cons w vs)
    show ?case
    proof (cases "v_name w = name")
      case True
      then have "w = v" using Cons.prems(1) by simp
      then have "one_named name [] v vs" using True Cons.prems(2) by (auto simp: one_named_def)
      then show ?thesis using \<open>w = v\<close> by blast
    next
      case False
      then obtain a b where ab: "vs = a @ v # b" "one_named name a v b" using Cons by auto
      then have "one_named name (w # a) v b" using False by (simp add: one_named_def)
      then show ?thesis using ab(1) by (metis append_Cons)
    qed
  qed simp
  then show thesis using assms that unfolding variable_lookup_def by blast
qed

lemma map_other:
  assumes "name \<notin> v_name ` set xs"
  shows "map (\<lambda>v. if v_name v = name then f v else v) xs = xs"
  using assms by (induction xs) auto

lemma upd_var_split:
  assumes "variables st = a @ v # b" "one_named name a v b"
  shows "variables (upd_var name f st) = a @ f v # b"
  using assms by (simp add: upd_var_def map_other one_named_def)

lemma lookup_of_split:
  assumes "variables st = a @ v # b" "one_named name a v b"
  shows "variable_lookup name st = Some v"
proof -
  have "find (\<lambda>v. v_name v = name) (xs @ v # b) = Some v" if "name \<notin> v_name ` set xs" for xs
    using that assms(2) by (induction xs) (auto simp: one_named_def)
  with assms show ?thesis by (simp add: variable_lookup_def one_named_def)
qed

section \<open>Tokens\<close>

lemma split_clause_tokens:
  "split_clause nest argc tok s = Inr toks \<Longrightarrow> toks \<noteq> [] \<and> (\<forall>t \<in> set toks. length t \<le> length tok + length s)"
proof (induction nest argc tok s arbitrary: toks rule: split_clause.induct)
  case (2 nest argc tok c r)
  show ?case
  proof (cases "nest = 0 \<and> c = CHR '','' ")
    case True
    with 2(3) obtain l where "split_clause nest (Suc argc) [] r = Inr l" "toks = tok # l"
      by (auto simp: rbind_Inr_iff split: if_splits)
    with 2(1) [OF True] True 2(3) show ?thesis by (fastforce split: if_splits)
  next
    case False
    with 2(2,3) show ?thesis by fastforce
  qed
qed (auto split: if_splits)

lemma split_clause_stops: "split_clause nest argc tok s \<noteq> Inl PP_fuel"
proof (induction nest argc tok s rule: split_clause.induct)
  case (2 nest argc tok c r)
  then show ?case
    by (cases "split_clause nest (Suc argc) [] r") (auto split: if_splits)
qed simp

lemma function_law: "variables st = vs \<Longrightarrow> wp (stops b) (function_expand h name argv st) (kept vs)"
  by (simp add: function_expand_def function_table_def do_error_if_def do_info_def do_warning_if_def do_shell_def split: option.split)

lemma env_law: "env_expand h name st = (r, st') \<Longrightarrow> variables st' = variables st"
  by (auto simp: env_expand_def env_add_def split: option.splits if_splits)

section \<open>Clients of the recursive call\<close>

locale pp_client =
  fixes ex :: expander and b :: bool and n L :: nat
  assumes ex_law: "\<And>s argv st vs. variables st = vs \<Longrightarrow> room b L n vs (Suc (length s)) \<Longrightarrow> wp (stops b) (ex s argv st) (kept vs)"
begin

lemma args_law:
  assumes "list_all (\<lambda>a. room b L n vs (Suc (length a))) as" "variables st = vs"
  shows "wp (stops b) (expand_args ex argv as st) (kept vs)"
  using assms
proof (induction "as" arbitrary: st)
  case (Cons a "as")
  have a: "wp (stops b) (ex a argv st) (kept vs)" using Cons.prems by (intro ex_law) simp_all
  have more: "wp (stops b) (expand_args ex argv as st') (kept vs)" if "variables st' = vs" for st'
    using Cons.prems that by (intro Cons.IH) simp_all
  show ?case
    unfolding expand_args.simps by (rule wp_bind_kept [OF a], unfold prod.case, rule wp_bind_kept [OF more]) simp_all
qed simp

text \<open>The value of a variable is expanded with one more level used up.\<close>

lemma value_room:
  assumes "room b L n (p @ v # q) 0" "exp_count v \<le> 1000" "v_value v = Some x"
  shows "room b L n (p @ v\<lparr>exp_count := exp_count v + 1\<rparr> # q) (Suc (length x))"
proof (cases b)
  case True
  let ?w = "weight (p @ v\<lparr>exp_count := exp_count v + 1\<rparr> # q)"
  have "Suc ?w = weight (p @ v # q)" using assms(2) by (simp add: weight_def)
  then have "?w * Suc L + Suc L \<le> n" using True assms(1) by (metis add.commute add_0_right mult_Suc room_def)
  moreover have "length x \<le> L" using True assms(1,3) by (simp add: room_def values_upto_def)
  ultimately show ?thesis using assms(1) by (simp add: room_def values_upto_def)
qed (use assms(1) in \<open>simp add: room_def\<close>)

lemma variable_law:
  assumes "room b L n vs 0" "variables st = vs"
  shows "wp (stops b) (variable_expand ex name argv st) (kept vs)"
proof (cases "variable_lookup name st")
  case (Some v)
  obtain p q where s: "variables st = p @ v # q" and one: "one_named name p v q"
    using lookup_split [OF Some] assms by (auto simp: room_def)
  define v' where "v' = v\<lparr>exp_count := exp_count v + 1\<rparr>"
  define st1 where "st1 = upd_var name (\<lambda>v. v\<lparr>exp_count := exp_count v + 1\<rparr>) st"
  define down where "down st2 = upd_var name (\<lambda>v. v\<lparr>exp_count := exp_count v - 1\<rparr>) st2" for st2
  have s1: "variables st1 = p @ v' # q"
    unfolding st1_def v'_def by (rule upd_var_split [OF s one])
  have one': "one_named name p v' q" using one by (simp add: one_named_def v'_def)
  have val: "read_value name st1 = (case v_value v of Some x \<Rightarrow> Inr x | None \<Rightarrow> Inl PP_memory)"
    using lookup_of_split [OF s1 one'] by (simp add: read_value_def v'_def)
  have down: "variables (down st2) = vs" if "variables st2 = p @ v' # q" for st2
    using upd_var_split [OF that one'] s assms(2) by (simp add: v'_def down_def)
  have body: "wp (stops b) (rbind (read_value name st1) (\<lambda>value. rbind (if v_flavor v = VAR_RECURSIVE then ex value argv st1 else Inr (value, st1))
        (\<lambda>(res, st). Inr (Some res, down st)))) (kept vs)" if "exp_count v \<le> 1000"
  proof (cases "v_value v")
    case (Some x)
    have "room b L n (p @ v' # q) (Suc (length x))"
      unfolding v'_def using assms s that Some by (intro value_room) simp_all
    then have x: "wp (stops b) (if v_flavor v = VAR_RECURSIVE then ex x argv st1 else Inr (x, st1)) (kept (p @ v' # q))"
      using ex_law [OF s1] s1 by simp
    show ?thesis unfolding val Some option.case rbind_simps by (rule wp_bind_kept [OF x]) (simp add: down)
  qed (simp add: val)
  show ?thesis
    unfolding variable_expand_def Some option.case Let_def st1_def [symmetric] down_def [symmetric]
    using body by simp
qed (simp add: variable_expand_def assms(2))

lemma resolve_law:
  assumes "room b L n vs 0" "variables st = vs"
  shows "wp (stops b) (resolve h ex name args st) (kept vs)"
proof -
  have env: "wp (stops b) (case env_expand h name st2 of (Some s, st) \<Rightarrow> Inr (s, st) | (None, st) \<Rightarrow> Inr ([], st)) (kept vs)"
    if "variables st2 = vs" for st2
    using env_law [of h name st2] that by (simp split: prod.split option.split)
  show ?thesis
    unfolding resolve_def
  proof (rule wp_bind_kept [OF variable_law [OF assms]], unfold prod.case)
    fix r :: "string option" and st1 :: pp_state
    assume v1: "variables st1 = vs"
    show "wp (stops b) (case r of Some s \<Rightarrow> Inr (s, st1)
      | None \<Rightarrow> rbind (function_expand h name args st1) (\<lambda>(res, st). case res of Some s \<Rightarrow> Inr (s, st)
      | None \<Rightarrow> if args = [] then case env_expand h name st of (Some s, st) \<Rightarrow> Inr (s, st) | (None, st) \<Rightarrow> Inr ([], st) else Inr ([], st)))
      (kept vs)"
    proof (cases r)
      case None
      show ?thesis
        unfolding None option.case
        by (rule wp_bind_kept [OF function_law [OF v1]]) (simp add: env split: option.split)
    qed (simp add: v1)
  qed
qed

lemma clause_law:
  assumes "room b L n vs (Suc (length clause))" "variables st = vs"
  shows "wp (stops b) (eval_clause h ex clause argv st) (kept vs)"
proof (cases "arg_number clause argv")
  case None
  have w: "room b L n vs 0" by (rule room_mono [OF assms(1)]) simp
  have "wp (stops b) (rbind (split_clause 0 0 [] clause) (\<lambda>toks. rbind (ex (hd toks) argv st) (\<lambda>(name, st).
      rbind (expand_args ex argv (tl toks) st) (\<lambda>(args, st). resolve h ex name args st)))) (kept vs)"
  proof (cases "split_clause 0 0 [] clause")
    case (Inr toks)
    note T = split_clause_tokens [OF Inr]
    have short: "list_all (\<lambda>t. room b L n vs (Suc (length t))) toks"
      unfolding list_all_iff using T by (intro ballI room_mono [OF assms(1)]) simp
    obtain t ts where tt: "toks = t # ts" using T by (cases toks) auto
    have name: "wp (stops b) (ex t argv st) (kept vs)" using short tt assms(2) by (intro ex_law) simp_all
    have args: "wp (stops b) (expand_args ex argv ts st1) (kept vs)" if "variables st1 = vs" for st1
      using short tt that by (intro args_law) simp_all
    show ?thesis
      unfolding Inr rbind_simps tt list.sel
      by (rule wp_bind_kept [OF name], unfold prod.case, rule wp_bind_kept [OF args])
        (simp_all add: resolve_law [OF w])
  qed (use split_clause_stops [of 0 0 "[]" clause] in \<open>auto simp: stops_def\<close>)
  then show ?thesis by (simp add: eval_clause_def None)
qed (simp add: eval_clause_def assms(2))

lemma dollar_law:
  assumes "room b L n vs (Suc (length str))" "variables st = vs"
  shows "wp (stops b) (expand_dollar_with_args h ex str argv st) (kept vs)"
proof -
  have "wp (stops b) (rbind (eval_clause h ex clause argv st) (\<lambda>(res, st). Inr ((res, rest), st))) (kept vs)"
    if "find_close 0 p = Some (clause, rest)" "str = c # p" for clause rest c p
  proof (rule wp_bind_kept [OF clause_law [OF _ assms(2)]])
    show "room b L n vs (Suc (length clause))" using find_close_length [OF that(1)] that(2) by (intro room_mono [OF assms(1)]) simp
  qed simp
  then show ?thesis
    by (simp add: expand_dollar_with_args_def assms(2) split: list.split option.split)
qed

lemma loop_law:
  assumes "room b L n vs (length str)" "variables st = vs"
  shows "wp (stops b) (expand_loop h ex is_end argv str st) (kept vs)"
  using assms
proof (induction str arbitrary: st rule: length_induct)
  case (1 str)
  show ?case
  proof (cases str)
    case (Cons c r)
    have rm: "room b L n vs (Suc (length r))" using 1(2) Cons by simp
    have IH: "wp (stops b) (expand_loop h ex is_end argv s st') (kept vs)" if "length s \<le> length r" "variables st' = vs" for s st'
      using that Cons by (intro 1(1) [rule_format] room_mono [OF 1(2)]) simp_all
    show ?thesis
    proof (cases "c = CHR ''$''")
      case True
      let ?d = "expand_dollar_with_args h ex r argv st"
      have d: "wp (stops b) ?d (\<lambda>x. kept vs x \<and> length (snd (fst x)) \<le> length r)"
        using dollar_law [OF rm 1(3), of h argv] expand_dollar_rest [of h ex r argv st]
        by (cases ?d) auto
      have "wp (stops b) (rbind ?d (\<lambda>x. rbind (expand_loop h ex is_end argv (snd (fst x)) (snd x)) (\<lambda>((out, p), st).
          Inr ((fst (fst x) @ out, p), st)))) (kept vs)"
        by (rule wp_rbindI [OF d], rule wp_bind_kept, rule IH) (auto simp: kept_def split: prod.split)
      then show ?thesis by (simp add: Cons True)
    next
      case False
      have "wp (stops b) (rbind (expand_loop h ex is_end argv r st) (\<lambda>((out, p), st). Inr ((c # out, p), st))) (kept vs)"
        by (rule wp_bind_kept, rule IH) (auto simp: 1(3) split: prod.split)
      then show ?thesis using False by (simp add: Cons 1(3))
    qed
  qed (simp add: 1(3))
qed

end

text \<open>The recursive call keeps the promise when it has as much fuel as there is room.\<close>

lemma expand_string_with_args_law:
  "variables st = vs \<Longrightarrow> room b L n vs (Suc (length s)) \<Longrightarrow> wp (stops b) (expand_string_with_args n h s argv st) (kept vs)"
proof (induction n arbitrary: s argv st vs)
  case (Suc n)
  have pc: "pp_client (expand_string_with_args n h) b n L" by unfold_locales (rule Suc.IH)
  have "room b L n vs (length s)" using Suc.prems(2) by (simp add: room_def)
  from pp_client.loop_law [OF pc this Suc.prems(1)]
  have l: "wp (stops b) (expand_loop h (expand_string_with_args n h) is_end_of_str argv s st) (kept vs)" .
  show ?case
    unfolding expand_string_with_args.simps by (rule wp_bind_kept [OF l]) (auto split: prod.split)
qed (simp add: room_def stops_def)

interpretation pp: pp_client "expand_string_with_args n h" b n L for n h b L
  by unfold_locales (rule expand_string_with_args_law)

end
