(* ===== verification/Kconfig_Preprocess_Props.thy ===== *)
theory Kconfig_Preprocess_Props
  imports Kconfig_Expand
begin

text \<open>
  Properties of the preprocessor: assignments keep the list of variables well formed, so that
  every expansion ends; what a reference to a variable becomes after an assignment; the limit
  on the arguments of a function, and variables that are defined by themselves.
\<close>

section \<open>Plain text and references\<close>

text \<open>A name holds none of the characters of the syntax, a plain string no \<open>$\<close>.\<close>

definition plain :: "string \<Rightarrow> bool" where
  "plain s \<longleftrightarrow> CHR ''$'' \<notin> set s \<and> CHR 0x00 \<notin> set s"

definition pp_name :: "string \<Rightarrow> bool" where
  "pp_name s \<longleftrightarrow> plain s \<and> CHR ''('' \<notin> set s \<and> CHR '')'' \<notin> set s \<and> CHR '','' \<notin> set s"

lemma expand_loop_plain: "plain s \<Longrightarrow> expand_loop h ex is_end_of_str argv s st = Inr ((s, []), st)"
  by (induction s) (auto simp: plain_def is_end_of_str_def)

lemma expand_plain: "plain s \<Longrightarrow> expand_string_with_args (Suc n) h s argv st = Inr (s, st)"
  by (simp add: expand_loop_plain)

lemma find_close_word:
  "CHR ''('' \<notin> set s \<Longrightarrow> CHR '')'' \<notin> set s \<Longrightarrow> find_close 0 (s @ CHR '')'' # rest) = Some (s, rest)"
  by (induction s) auto

lemma split_clause_word:
  "CHR '','' \<notin> set s \<Longrightarrow> CHR ''('' \<notin> set s \<Longrightarrow> CHR '')'' \<notin> set s \<Longrightarrow>
     split_clause 0 k tok (s @ r) = split_clause 0 k (tok @ s) r"
  by (induction s arbitrary: tok) auto

lemma arg_number_none [simp]: "arg_number clause [] = None"
  by (auto simp: arg_number_def split: prod.split)

text \<open>A reference to a name, without arguments.\<close>

lemma dollar_reference:
  assumes "pp_name name"
  shows "expand_dollar_with_args h (expand_string_with_args (Suc n) h) (''('' @ name @ '')'' @ rest) [] st =
    rbind (resolve h (expand_string_with_args (Suc n) h) name [] st) (\<lambda>(s, st). Inr ((s, rest), st))"
proof -
  let ?ex = "expand_string_with_args (Suc n) h"
  have t: "split_clause 0 0 [] name = Inr [name]"
    using split_clause_word [of name 0 "[]" "[]"] assms by (simp add: pp_name_def FUNCTION_MAX_ARGS_def)
  have e: "?ex name [] st = Inr (name, st)" using assms by (intro expand_plain) (simp add: pp_name_def)
  have "eval_clause h ?ex name [] st = resolve h ?ex name [] st"
    by (simp only: eval_clause_def arg_number_none option.case t e rbind_simps list.sel expand_args.simps prod.case)
  moreover have "find_close 0 (name @ CHR '')'' # rest) = Some (name, rest)"
    using assms by (intro find_close_word) (simp_all add: pp_name_def)
  ultimately show ?thesis by (simp add: expand_dollar_with_args_def del: expand_string_with_args.simps)
qed

lemma expand_reference:
  assumes "pp_name name" "plain rest" "variable_expand (expand_string_with_args (Suc n) h) name [] st = Inr (Some s, st')"
  shows "expand_string (Suc (Suc n)) h (''$('' @ name @ '')'' @ rest) st = Inr (s @ rest, st')"
proof -
  let ?ex = "expand_string_with_args (Suc n) h"
  have "resolve h ?ex name [] st = Inr (s, st')"
    by (simp only: resolve_def assms(3) rbind_simps prod.case option.case)
  with dollar_reference [OF assms(1)]
  have "expand_dollar_with_args h ?ex (''('' @ name @ '')'' @ rest) [] st = Inr ((s, rest), st')" by (simp only: rbind_simps prod.case)
  then have "expand_loop h ?ex is_end_of_str [] (''$('' @ name @ '')'' @ rest) st = Inr ((s @ rest, []), st')"
    using expand_loop_plain [OF assms(2)] by (simp del: expand_string_with_args.simps)
  then show ?thesis by (simp only: expand_string_def expand_string_with_args.simps(2) [of "Suc n"] rbind_simps prod.case)
qed

lemma expand_reference_stops:
  assumes "pp_name name" "variable_expand (expand_string_with_args (Suc n) h) name [] st = Inl e"
  shows "expand_string (Suc (Suc n)) h (''$('' @ name @ '')'' @ rest) st = Inl e"
proof -
  let ?ex = "expand_string_with_args (Suc n) h"
  have "resolve h ?ex name [] st = Inl e"
    by (simp only: resolve_def assms(2) rbind_simps)
  with dollar_reference [OF assms(1)]
  have "expand_dollar_with_args h ?ex (''('' @ name @ '')'' @ rest) [] st = Inl e" by (simp only: rbind_simps)
  then have "expand_loop h ?ex is_end_of_str [] (''$('' @ name @ '')'' @ rest) st = Inl e"
    by (simp del: expand_string_with_args.simps)
  then show ?thesis by (simp only: expand_string_def expand_string_with_args.simps(2) [of "Suc n"] rbind_simps)
qed

section \<open>Assignments\<close>

text \<open>Between expansions names are unique, every counter is zero and every variable has a value.\<close>

definition pp_inv :: "pp_state \<Rightarrow> bool" where
  "pp_inv st \<longleftrightarrow> distinct (map v_name (variables st)) \<and> list_all (\<lambda>v. exp_count v = 0 \<and> v_value v \<noteq> None) (variables st)"

lemma expand_string_kept:
  assumes "distinct (map v_name (variables st))" "expand_string n h s st = Inr (out, st')"
  shows "variables st' = variables st"
  using expand_string_with_args_law [of st "variables st" False 0 n s h "[]"] assms
  by (simp add: room_def expand_string_def)

text \<open>
  While the new value is expanded the variable is in the list, with the new flavor; it has its
  old value when text is appended, and none otherwise.
\<close>

definition being_set :: "string \<Rightarrow> variable_flavor \<Rightarrow> pp_state \<Rightarrow> pp_var" where
  "being_set name flavor st =
     (case variable_lookup name st of
        Some v \<Rightarrow> if flavor = VAR_APPEND then v else v\<lparr>v_value := None, v_flavor := flavor\<rparr>
      | None \<Rightarrow> \<lparr>v_name = name, v_value = None, v_flavor = (if flavor = VAR_APPEND then VAR_RECURSIVE else flavor), exp_count = 0\<rparr>)"

definition old_text :: "pp_var \<Rightarrow> string" where
  "old_text v = (case v_value v of Some old \<Rightarrow> old @ '' '' | None \<Rightarrow> [])"

definition add_form :: "nat \<Rightarrow> pp_host \<Rightarrow> string \<Rightarrow> string \<Rightarrow> pp_var \<Rightarrow> pp_state \<Rightarrow> pp_state pres" where
  "add_form n h name value v st =
     rbind (if v_flavor v = VAR_SIMPLE then expand_string n h value st else Inr (value, st)) (\<lambda>(new, st).
       Inr (upd_var name (\<lambda>w. w\<lparr>v_value := Some (old_text v @ new)\<rparr>) st))"

lemma lookup_none: "variable_lookup name st = None \<Longrightarrow> name \<notin> v_name ` set (variables st)"
  by (auto simp: variable_lookup_def find_None_iff)

lemma variable_add_new:
  assumes "variable_lookup name st = None"
  shows "\<exists>st1. variables st1 = variables st @ [being_set name flavor st] \<and> variable_add n h name value flavor st = add_form n h name value (being_set name flavor st) st1"
  using map_other [OF lookup_none [OF assms]]
  by (intro exI [where x = "upd_var name (\<lambda>v. v\<lparr>v_flavor := v_flavor (being_set name flavor st)\<rparr>) (st\<lparr>variables := variables st @ [being_set name flavor st]\<rparr>)"])
    (simp add: variable_add_def add_form_def being_set_def old_text_def upd_var_def assms)

lemma variable_add_again:
  assumes "variable_lookup name st = Some v" "variables st = p @ v # q" "one_named name p v q" "flavor \<noteq> VAR_APPEND"
  shows "\<exists>st1. variables st1 = p @ being_set name flavor st # q \<and> variable_add n h name value flavor st = add_form n h name value (being_set name flavor st) st1"
proof -
  let ?st = "upd_var name (\<lambda>v. v\<lparr>v_value := None\<rparr>) st" and ?v = "being_set name flavor st"
  have v: "?v = v\<lparr>v_value := None, v_flavor := flavor\<rparr>" using assms(1,4) by (simp add: being_set_def)
  have "variables ?st = p @ v\<lparr>v_value := None\<rparr> # q" by (rule upd_var_split [OF assms(2,3)])
  moreover have "one_named name p (v\<lparr>v_value := None\<rparr>) q" using assms(3) by (simp add: one_named_def)
  ultimately have "variables (upd_var name (\<lambda>v. v\<lparr>v_flavor := flavor\<rparr>) ?st) = p @ ?v # q" using upd_var_split v by simp
  moreover have "variable_add n h name value flavor st = add_form n h name value ?v (upd_var name (\<lambda>v. v\<lparr>v_flavor := flavor\<rparr>) ?st)"
    using assms(4) by (simp add: variable_add_def assms(1) add_form_def v old_text_def)
  ultimately show ?thesis by blast
qed

lemma variable_add_append:
  assumes "variable_lookup name st = Some v" "variables st = p @ v # q" "one_named name p v q" "v_value v = Some old"
    "distinct (map v_name (variables st))"
  shows "\<exists>st1. variables st1 = p @ v # q \<and> variable_add n h name value VAR_APPEND st = add_form n h name value v st1"
proof -
  define st1 where "st1 = upd_var name (\<lambda>w. w\<lparr>v_flavor := v_flavor v\<rparr>) st"
  have s1: "variables st1 = p @ v # q" unfolding st1_def using upd_var_split [OF assms(2,3)] by simp
  have rd: "read_value name st2 = Inr old" if "variables st2 = p @ v # q" for st2
    using lookup_of_split [OF that assms(3)] assms(4) by (simp add: read_value_def)
  have "variable_add n h name value VAR_APPEND st =
      rbind (if v_flavor v = VAR_SIMPLE then expand_string n h value st1 else Inr (value, st1)) (\<lambda>(new, st).
        rbind (read_value name st) (\<lambda>old. Inr (upd_var name (\<lambda>v. v\<lparr>v_value := Some (old @ '' '' @ new)\<rparr>) st)))"
    by (simp add: variable_add_def assms(1) st1_def Let_def)
  also have "\<dots> = add_form n h name value v st1"
    unfolding add_form_def
  proof (rule rbind_cong_value [OF refl])
    fix x
    assume x: "(if v_flavor v = VAR_SIMPLE then expand_string n h value st1 else Inr (value, st1)) = Inr x"
    obtain new st2 where xx: "x = (new, st2)" by (cases x)
    have "variables st2 = p @ v # q"
      using x xx s1 assms(2,5) expand_string_kept [of st1 n h "value" new st2] by (auto split: if_splits)
    then show "(case x of (new, st) \<Rightarrow> rbind (read_value name st) (\<lambda>old. Inr (upd_var name (\<lambda>v. v\<lparr>v_value := Some (old @ '' '' @ new)\<rparr>) st))) =
      (case x of (new, st) \<Rightarrow> Inr (upd_var name (\<lambda>w. w\<lparr>v_value := Some (old_text v @ new)\<rparr>) st))"
      by (simp add: xx rd old_text_def assms(4))
  qed
  finally show ?thesis using s1 by blast
qed

lemma variable_add_form:
  assumes inv: "pp_inv st" and v: "v = being_set name flavor st"
  obtains p q st1 where "variables st1 = p @ v # q" "one_named name p v q"
    "variables st = p @ q \<or> (\<exists>v'. variables st = p @ v' # q \<and> v_name v' = name)"
    "variable_add n h name value flavor st = add_form n h name value v st1"
proof (cases "variable_lookup name st")
  case None
  then have "one_named name (variables st) v []" using lookup_none [OF None] by (simp add: one_named_def v being_set_def)
  then show thesis using variable_add_new [OF None, of flavor n h "value"] v that by fastforce
next
  case (Some w)
  have d: "distinct (map v_name (variables st))" using inv by (simp add: pp_inv_def)
  obtain p q where s: "variables st = p @ w # q" and one: "one_named name p w q" by (rule lookup_split [OF Some d])
  have nm: "v_name w = name" using one by (simp add: one_named_def)
  show thesis
  proof (cases "flavor = VAR_APPEND")
    case True
    have "v = w" using True Some v by (simp add: being_set_def)
    moreover obtain old where "v_value w = Some old" using inv s by (auto simp: pp_inv_def)
    ultimately show thesis using variable_add_append [OF Some s one _ d, of old n h "value"] that one s nm True by blast
  next
    case False
    have "one_named name p v q" using one Some False by (simp add: one_named_def v being_set_def)
    then show thesis using variable_add_again [OF Some s one False, of n h "value"] that s nm v by blast
  qed
qed

lemma pp_inv_lookup:
  assumes "pp_inv st" "variable_lookup name st = Some v"
  shows "v \<in> set (variables st)" "exp_count v = 0" "v_value v \<noteq> None"
proof -
  show "v \<in> set (variables st)" using assms(2) unfolding variable_lookup_def find_Some_iff by (metis nth_mem)
  then show "exp_count v = 0" "v_value v \<noteq> None" using assms(1) by (simp_all add: pp_inv_def list_all_iff)
qed

lemma being_set_idle: "pp_inv st \<Longrightarrow> exp_count (being_set name flavor st) = 0"
  by (simp add: being_set_def pp_inv_lookup split: option.split)

definition all_but :: "pp_var list \<Rightarrow> pp_var \<Rightarrow> pp_var list \<Rightarrow> pp_state \<Rightarrow> bool" where
  "all_but p v q st \<longleftrightarrow> variables st = p @ q \<or> (\<exists>v'. variables st = p @ v' # q \<and> v_name v' = v_name v)"

lemma all_but_inv:
  assumes "pp_inv st" "all_but p v q st" "one_named name p v q"
  shows "distinct (map v_name (p @ v # q))" "list_all (\<lambda>v. exp_count v = 0 \<and> v_value v \<noteq> None) (p @ q)"
  using assms unfolding pp_inv_def all_but_def one_named_def by (elim conjE disjE exE; simp)+

text \<open>The result of an assignment.\<close>

lemma variable_add_result:
  assumes "pp_inv st" "variable_add n h name value flavor st = Inr st'" "v = being_set name flavor st"
  obtains p q new where "variables st' = p @ v\<lparr>v_value := Some (old_text v @ new)\<rparr> # q" "one_named name p v q"
    "all_but p v q st" "v_flavor v \<noteq> VAR_SIMPLE \<Longrightarrow> new = value"
proof -
  obtain p q st1 where s1: "variables st1 = p @ v # q" and one: "one_named name p v q"
    and b: "variables st = p @ q \<or> (\<exists>v'. variables st = p @ v' # q \<and> v_name v' = name)"
    and f: "variable_add n h name value flavor st = add_form n h name value v st1"
    by (rule variable_add_form [OF assms(1,3)])
  have ab: "all_but p v q st" using b one by (auto simp: all_but_def one_named_def)
  have "add_form n h name value v st1 = Inr st'" using f assms(2) by simp
  then obtain new st2 where x: "(if v_flavor v = VAR_SIMPLE then expand_string n h value st1 else Inr (value, st1)) = Inr (new, st2)"
    and st': "st' = upd_var name (\<lambda>w. w\<lparr>v_value := Some (old_text v @ new)\<rparr>) st2"
    by (auto simp: add_form_def rbind_Inr_iff)
  have "variables st2 = p @ v # q"
    using x s1 all_but_inv(1) [OF assms(1) ab one] expand_string_kept [of st1 n h "value" new st2] by (auto split: if_splits)
  then have "variables st' = p @ v\<lparr>v_value := Some (old_text v @ new)\<rparr> # q" unfolding st' by (rule upd_var_split [OF _ one])
  then show thesis using one ab x by (intro that) (auto split: if_splits)
qed

lemma variable_add_inv:
  assumes "pp_inv st" "variable_add n h name value flavor st = Inr st'"
  shows "pp_inv st'"
proof -
  obtain v where v: "v = being_set name flavor st" by blast
  obtain p q new where "variables st' = p @ v\<lparr>v_value := Some (old_text v @ new)\<rparr> # q" "one_named name p v q" "all_but p v q st"
    by (rule variable_add_result [OF assms v])
  then show ?thesis using all_but_inv [OF assms(1)] being_set_idle [OF assms(1), of name flavor] v by (simp add: pp_inv_def)
qed

section \<open>Fuel\<close>

definition longest :: "pp_var list \<Rightarrow> nat" where
  "longest vs = foldr (\<lambda>v. max (case v_value v of Some s \<Rightarrow> length s | None \<Rightarrow> 0)) vs 0"

definition fuel_for :: "pp_state \<Rightarrow> string \<Rightarrow> nat" where
  "fuel_for st str = 1001 * Suc (length (variables st)) * Suc (longest (variables st)) + Suc (length str)"

lemma longest_upto: "values_upto (longest vs) vs"
proof -
  have "values_upto L vs" if "longest vs \<le> L" for L
    using that by (induction vs) (auto simp: values_upto_def longest_def split: option.splits)
  then show ?thesis by simp
qed

lemma weight_le: "weight vs \<le> 1001 * length vs"
  by (induction vs) (auto simp: weight_def)

lemma room_enough:
  assumes "values_upto (longest (variables st)) vs" "length vs \<le> Suc (length (variables st))" "distinct (map v_name vs)" "fuel_for st str \<le> n"
  shows "room True (longest (variables st)) n vs (Suc (length str))"
proof -
  have "weight vs \<le> 1001 * Suc (length (variables st))" using weight_le [of vs] mult_le_mono2 [OF assms(2), of 1001] by (rule le_trans)
  then have "weight vs * Suc (longest (variables st)) \<le> 1001 * Suc (length (variables st)) * Suc (longest (variables st))"
    by (rule mult_le_mono1)
  then show ?thesis using assms unfolding room_def fuel_for_def by linarith
qed

lemma expand_string_ends:
  assumes "pp_inv st" "fuel_for st str \<le> n"
  shows "wp (stops True) (expand_string n h str st) (kept (variables st))"
  unfolding expand_string_def
  using assms room_enough [OF longest_upto, of st str n]
  by (intro expand_string_with_args_law [where L = "longest (variables st)"]) (simp_all add: pp_inv_def)

lemma variable_add_ends:
  assumes "pp_inv st" "fuel_for st value \<le> n"
  shows "wp (stops True) (variable_add n h name value flavor st) pp_inv"
proof -
  obtain v where v: "v = being_set name flavor st" by blast
  obtain p q st1 where s1: "variables st1 = p @ v # q" and one: "one_named name p v q"
    and b: "variables st = p @ q \<or> (\<exists>v'. variables st = p @ v' # q \<and> v_name v' = name)"
    and f: "variable_add n h name value flavor st = add_form n h name value v st1"
    by (rule variable_add_form [OF assms(1) v])
  have ab: "all_but p v q st" using b one by (auto simp: all_but_def one_named_def)
  have "v_value v = None \<or> v \<in> set (variables st)"
    using pp_inv_lookup(1) [OF assms(1)] unfolding v being_set_def by (simp split: option.split)
  then have "values_upto (longest (variables st)) (p @ v # q)"
    using longest_upto [of "variables st"] ab unfolding values_upto_def all_but_def list_all_iff by (auto split: option.splits)
  then have "room True (longest (variables st)) n (p @ v # q) (Suc (length value))"
    using ab all_but_inv(1) [OF assms(1) ab one] assms(2) by (intro room_enough) (auto simp: all_but_def)
  then have "wp (stops True) (expand_string n h value st1) (kept (p @ v # q))"
    unfolding expand_string_def using s1 by (intro expand_string_with_args_law)
  then have "variable_add n h name value flavor st \<noteq> Inl PP_fuel"
    unfolding f add_form_def by (cases "expand_string n h value st1") (auto simp: stops_def)
  then show ?thesis
    using variable_add_inv [OF assms(1)] by (cases "variable_add n h name value flavor st") (auto simp: stops_def)
qed

lemma expand_one_token_ends:
  assumes "pp_inv st" "fuel_for st str \<le> n"
  shows "wp (stops True) (expand_one_token n h str st) (kept (variables st))"
proof -
  have "room True (longest (variables st)) n (variables st) (Suc (length str))"
    using assms by (intro room_enough longest_upto) (simp_all add: pp_inv_def)
  then have "room True (longest (variables st)) n (variables st) (length str)" by (rule room_mono) simp
  then show ?thesis unfolding expand_one_token_def by (intro pp.loop_law) simp_all
qed

lemma assignments_inv:
  assumes "rfold (\<lambda>(name, value, flavor). variable_add m h name value flavor) defs st0 = Inr st" "variables st0 = []"
  shows "pp_inv st"
proof -
  have "wp UNIV (rfold (\<lambda>(name, value, flavor). variable_add m h name value flavor) defs st0) pp_inv"
  proof (rule wp_rfold)
    fix d :: "string \<times> string \<times> variable_flavor" and s :: pp_state
    assume s: "pp_inv s"
    obtain name val flavor where d: "d = (name, val, flavor)" by (cases d)
    show "wp UNIV ((case d of (name, value, flavor) \<Rightarrow> variable_add m h name value flavor) s) pp_inv"
      using variable_add_inv [OF s, of m h name val flavor]
      by (cases "variable_add m h name val flavor s") (simp_all add: d)
  qed (simp add: pp_inv_def assms(2))
  then show ?thesis by (simp add: assms(1))
qed

section \<open>The properties\<close>

definition example_host :: pp_host where
  "example_host = \<lparr>pp_file = ''Config.in'', pp_lineno = 1, getenv = (\<lambda>_. None), popen = (\<lambda>_. None)\<rparr>"

definition example_defs :: "(string \<times> string \<times> variable_flavor) list" where
  "example_defs = [(''F'', ''$(F,$(1)x)'', VAR_RECURSIVE), (''G'', ''a'', VAR_RECURSIVE), (''G'', ''$(F,b)'', VAR_APPEND)]"

definition example_vars :: pp_state where
  "example_vars = \<lparr>env_list = [], variables =
     [\<lparr>v_name = ''F'', v_value = Some ''$(F,$(1)x)'', v_flavor = VAR_RECURSIVE, exp_count = 0\<rparr>,
      \<lparr>v_name = ''G'', v_value = Some ''a $(F,b)'', v_flavor = VAR_RECURSIVE, exp_count = 0\<rparr>], printed = []\<rparr>"

lemma example_assignments:
  "rfold (\<lambda>(name, value, flavor). variable_add 1 example_host name value flavor) example_defs
     \<lparr>env_list = [], variables = [], printed = []\<rparr> = Inr example_vars"
  by (simp add: example_defs_def example_vars_def variable_add_def variable_lookup_def upd_var_def read_value_def)

text \<open>
  C11. Expansions end. After any assignments, with fuel for the nesting the counters allow
  (the functions may call themselves, up to a thousand levels), the expansion of a string, of a
  token and an assignment return a value or stop the program with an error; an expansion leaves
  the variables, their counters included, as they were, and an assignment keeps the names unique,
  the counters at zero and every variable with a value.
\<close>

theorem preprocessor_ends:
  assumes "rfold (\<lambda>(name, value, flavor). variable_add m h name value flavor) defs st0 = Inr st" "variables st0 = []"
    and "fuel_for st str \<le> n"
  shows "(case expand_string n h str st of Inl e \<Rightarrow> e \<noteq> PP_fuel | Inr (_, st') \<Rightarrow> variables st' = variables st) \<and>
    (case expand_one_token n h str st of Inl e \<Rightarrow> e \<noteq> PP_fuel | Inr (_, st') \<Rightarrow> variables st' = variables st) \<and>
    (case variable_add n h name str flavor st of Inl e \<Rightarrow> e \<noteq> PP_fuel | Inr st' \<Rightarrow> pp_inv st')"
  using expand_string_ends [OF assignments_inv [OF assms(1,2)] assms(3), of h]
    expand_one_token_ends [OF assignments_inv [OF assms(1,2)] assms(3), of h]
    variable_add_ends [OF assignments_inv [OF assms(1,2)] assms(3), of h name flavor]
  by (auto simp: wp_def stops_def kept_def split: sum.splits prod.splits)

lemma preprocessor_ends_witness:
  "(case expand_string 33046 example_host ''$(G)'' example_vars of
      Inl e \<Rightarrow> e \<noteq> PP_fuel | Inr (_, st') \<Rightarrow> variables st' = variables example_vars) \<and>
    (case variable_add 33046 example_host ''H'' ''$(G)'' VAR_SIMPLE example_vars of
      Inl e \<Rightarrow> e \<noteq> PP_fuel | Inr st' \<Rightarrow> pp_inv st')"
proof -
  have "fuel_for example_vars ''$(G)'' \<le> 33046" by (simp add: fuel_for_def example_vars_def longest_def)
  from preprocessor_ends [OF example_assignments _ this, of "''H''" VAR_SIMPLE] show ?thesis by simp
qed

text \<open>Two changes of a variable, where the second undoes the first.\<close>

lemma upd_var_undo:
  assumes "\<And>v. g (f v) = v" "\<And>v. v_name (f v) = v_name v"
  shows "upd_var name g (upd_var name f st) = st"
proof -
  have "map (\<lambda>v. if v_name v = name then g v else v) (map (\<lambda>v. if v_name v = name then f v else v) vs) = vs" for vs
    by (induction vs) (auto simp: assms)
  then show ?thesis by (simp add: upd_var_def)
qed

lemma lookup_counted:
  assumes "variables st = p @ v # q" "one_named name p v q"
  shows "variable_lookup name (upd_var name (\<lambda>v. v\<lparr>exp_count := exp_count v + 1\<rparr>) st) = Some (v\<lparr>exp_count := exp_count v + 1\<rparr>)"
  using assms by (intro lookup_of_split [OF upd_var_split [OF assms]]) (simp add: one_named_def)

lemma variable_expand_idle:
  assumes "variables st = p @ v # q" "one_named name p v q" "exp_count v = 0"
  shows "variable_expand (expand_string_with_args (Suc n) h) name [] st =
    (case v_value v of None \<Rightarrow> Inl PP_memory
     | Some s \<Rightarrow> rbind (if v_flavor v = VAR_RECURSIVE
           then expand_string_with_args (Suc n) h s [] (upd_var name (\<lambda>v. v\<lparr>exp_count := exp_count v + 1\<rparr>) st)
           else Inr (s, upd_var name (\<lambda>v. v\<lparr>exp_count := exp_count v + 1\<rparr>) st))
         (\<lambda>(res, st). Inr (Some res, upd_var name (\<lambda>v. v\<lparr>exp_count := exp_count v - 1\<rparr>) st)))"
  using lookup_of_split [OF assms(1,2)] lookup_counted [OF assms(1,2)] assms(3)
  by (simp add: variable_expand_def read_value_def Let_def split: option.split del: expand_string_with_args.simps)

lemma variable_expand_plain:
  assumes "variables st = p @ v # q" "one_named name p v q" "exp_count v = 0" "v_value v = Some s" "plain s"
  shows "variable_expand (expand_string_with_args (Suc n) h) name [] st = Inr (Some s, st)"
proof -
  have "upd_var name (\<lambda>v. v\<lparr>exp_count := exp_count v - 1\<rparr>) (upd_var name (\<lambda>v. v\<lparr>exp_count := exp_count v + 1\<rparr>) st) = st"
    by (rule upd_var_undo) simp_all
  then show ?thesis
    unfolding variable_expand_idle [OF assms(1-3)]
    using assms(4) by (simp add: expand_plain [OF assms(5)] del: expand_string_with_args.simps)
qed

text \<open>The text a variable holds after an assignment of text without references.\<close>

definition assigned :: "string \<Rightarrow> string \<Rightarrow> variable_flavor \<Rightarrow> pp_state \<Rightarrow> string" where
  "assigned name value flavor st =
     (case variable_lookup name st of
        Some v \<Rightarrow> if flavor = VAR_APPEND then the (v_value v) @ '' '' @ value else value
      | None \<Rightarrow> value)"

lemma assigned_old_text: "pp_inv st \<Longrightarrow> assigned name value flavor st = old_text (being_set name flavor st) @ value"
  by (auto simp: assigned_def old_text_def being_set_def pp_inv_lookup split: option.split)

text \<open>
  C12. An assignment of text without references, then a reference to the variable. The assignment
  returns; the reference becomes the text that was assigned, or with \<open>+=\<close> on a variable that was
  defined the old text, a space and the new, and leaves the state as it is.
\<close>

theorem variable_add_then_expand:
  assumes "pp_inv st" "pp_name name" "plain (assigned name value flavor st)" "plain rest"
  shows "\<exists>st'. variable_add (Suc n) h name value flavor st = Inr st' \<and>
    expand_string (Suc (Suc n)) h (''$('' @ name @ '')'' @ rest) st' = Inr (assigned name value flavor st @ rest, st')"
proof -
  obtain v where v: "v = being_set name flavor st" by blast
  obtain p q st1 where s1: "variables st1 = p @ v # q" and one: "one_named name p v q"
    and f: "variable_add (Suc n) h name value flavor st = add_form (Suc n) h name value v st1"
    by (rule variable_add_form [OF assms(1) v])
  have held: "assigned name value flavor st = old_text v @ value" using assigned_old_text [OF assms(1)] v by simp
  then have "plain value" using assms(3) by (simp add: plain_def)
  then have e: "expand_string (Suc n) h value st1 = Inr (value, st1)" unfolding expand_string_def by (rule expand_plain)
  define st' where "st' = upd_var name (\<lambda>w. w\<lparr>v_value := Some (old_text v @ value)\<rparr>) st1"
  have a: "variable_add (Suc n) h name value flavor st = Inr st'" by (simp add: f add_form_def e st'_def)
  let ?v = "v\<lparr>v_value := Some (old_text v @ value)\<rparr>"
  have s': "variables st' = p @ ?v # q" unfolding st'_def by (rule upd_var_split [OF s1 one])
  have "variable_expand (expand_string_with_args (Suc n) h) name [] st' = Inr (Some (assigned name value flavor st), st')"
    using one being_set_idle [OF assms(1)] assms(3) held v
    by (intro variable_expand_plain [OF s']) (simp_all add: one_named_def)
  from expand_reference [OF assms(2,4) this] a show ?thesis by blast
qed

lemma variable_add_then_expand_witness:
  "\<exists>st'. variable_add 1 example_host ''F'' ''x y'' VAR_SIMPLE example_vars = Inr st' \<and>
    expand_string 2 example_host ''$(F).o'' st' = Inr (''x y.o'', st')"
proof -
  have "pp_inv example_vars" by (simp add: pp_inv_def example_vars_def)
  moreover have "pp_name ''F''" "plain ''.o''" by (simp_all add: pp_name_def plain_def)
  moreover have a: "assigned ''F'' ''x y'' VAR_SIMPLE example_vars = ''x y''" by (simp add: assigned_def split: option.split)
  moreover have "plain ''x y''" by (simp add: plain_def)
  ultimately show ?thesis using variable_add_then_expand [of example_vars "''F''" "''x y''" VAR_SIMPLE "''.o''" 0 example_host]
    by (simp add: a numeral_2_eq_2 del: expand_string_with_args.simps)
qed

text \<open>
  C13. A variable that is assigned with \<open>:=\<close> and refers to itself first, as in
  \<open>CFLAGS := $(CFLAGS) -g\<close>. The old value was freed, or a new variable has no value yet, when the
  reference is expanded: the program reads memory that is not valid.
\<close>

theorem simple_self_reference_reads_freed:
  assumes "pp_inv st" "pp_name name"
  shows "variable_add (Suc (Suc n)) h name (''$('' @ name @ '')'' @ rest) VAR_SIMPLE st = Inl PP_memory"
proof -
  obtain v where v: "v = being_set name VAR_SIMPLE st" by blast
  obtain p q st1 where s1: "variables st1 = p @ v # q" and one: "one_named name p v q"
    and f: "variable_add (Suc (Suc n)) h name (''$('' @ name @ '')'' @ rest) VAR_SIMPLE st =
      add_form (Suc (Suc n)) h name (''$('' @ name @ '')'' @ rest) v st1"
    by (rule variable_add_form [OF assms(1) v])
  have nv: "v_value v = None" "v_flavor v = VAR_SIMPLE" unfolding v being_set_def by (simp_all split: option.split)
  have "variable_expand (expand_string_with_args (Suc n) h) name [] st1 = Inl PP_memory"
    using variable_expand_idle [OF s1 one] being_set_idle [OF assms(1)] v nv by simp
  from expand_reference_stops [OF assms(2) this] show ?thesis unfolding f add_form_def nv by (simp del: append_Cons append_assoc)
qed

lemma simple_self_reference_reads_freed_witness:
  "variable_add 2 example_host ''G'' ''$(G) c'' VAR_SIMPLE example_vars = Inl PP_memory"
  using simple_self_reference_reads_freed [of example_vars "''G''" 0 example_host "'' c''"]
  by (simp add: pp_inv_def example_vars_def pp_name_def plain_def numeral_2_eq_2 del: expand_string_with_args.simps)

text \<open>A call with a name and arguments, without parentheses and commas in them.\<close>

fun joined :: "string list \<Rightarrow> string" where
  "joined [] = []"
| "joined [t] = t"
| "joined (t # u # r) = t @ CHR '','' # joined (u # r)"

definition word_token :: "string \<Rightarrow> bool" where
  "word_token t \<longleftrightarrow> CHR '','' \<notin> set t \<and> CHR ''('' \<notin> set t \<and> CHR '')'' \<notin> set t"

lemma split_clause_joined:
  assumes "list_all word_token (t # ts)" "k \<le> FUNCTION_MAX_ARGS"
  shows "split_clause 0 k tok (joined (t # ts)) =
    (if k + length ts < FUNCTION_MAX_ARGS then Inr ((tok @ t) # ts)
     else Inl (if k + length ts = FUNCTION_MAX_ARGS then PP_memory else PP_exit Too_many_arguments))"
  using assms
proof (induction ts arbitrary: t k tok)
  case Nil
  then show ?case using split_clause_word [of t k tok "[]"] by (simp add: word_token_def)
next
  case (Cons u r)
  have "split_clause 0 k tok (joined (t # u # r)) = split_clause 0 k (tok @ t) (CHR '','' # joined (u # r))"
    using Cons.prems(1) by (simp add: split_clause_word word_token_def)
  then show ?case using Cons.IH [of u "Suc k" "[]"] Cons.prems by simp
qed

lemma joined_no_paren:
  assumes "list_all word_token toks"
  shows "CHR ''('' \<notin> set (joined toks)" "CHR '')'' \<notin> set (joined toks)"
  using assms by (induction toks rule: joined.induct) (auto simp: word_token_def)

text \<open>
  The limit on arguments. A call of up to fifteen arguments is split into its name and its
  arguments. With more than sixteen the program stops with an error; with exactly sixteen the
  last token is stored behind the end of the array, because the limit is checked at commas only.
\<close>

theorem function_argument_limit:
  assumes "list_all word_token (t # ts)"
  shows "(length ts < 16 \<longrightarrow> split_clause 0 0 [] (joined (t # ts)) = Inr (t # ts)) \<and>
    (length ts = 16 \<longrightarrow> expand_string (Suc n) h (''$('' @ joined (t # ts) @ '')'' @ rest) st = Inl PP_memory) \<and>
    (16 < length ts \<longrightarrow> expand_string (Suc n) h (''$('' @ joined (t # ts) @ '')'' @ rest) st = Inl (PP_exit Too_many_arguments))"
proof -
  let ?ex = "expand_string_with_args n h" and ?c = "joined (t # ts)"
  note sp = split_clause_joined [OF assms, of 0 "[]"]
  have fc: "find_close 0 (?c @ CHR '')'' # rest) = Some (?c, rest)" by (rule find_close_word [OF joined_no_paren [OF assms]])
  have "expand_string (Suc n) h (''$('' @ ?c @ '')'' @ rest) st = Inl e" if "split_clause 0 0 [] ?c = Inl e" for e
  proof -
    have "eval_clause h ?ex ?c [] st = Inl e" by (simp only: eval_clause_def arg_number_none option.case that rbind_simps)
    then have "expand_dollar_with_args h ?ex (''('' @ ?c @ '')'' @ rest) [] st = Inl e" using fc by (simp add: expand_dollar_with_args_def)
    then show ?thesis by (simp add: expand_string_def)
  qed
  then show ?thesis using sp by (simp add: FUNCTION_MAX_ARGS_def)
qed

lemma function_argument_limit_witness:
  "expand_string 1 example_host ''$(f,a,a,a,a,a,a,a,a,a,a,a,a,a,a,a,a)'' example_vars = Inl PP_memory"
proof -
  have w: "list_all word_token (''f'' # replicate 16 ''a'')" by (simp add: word_token_def list_all_iff)
  have j: "joined (''f'' # replicate 16 ''a'') = ''f,a,a,a,a,a,a,a,a,a,a,a,a,a,a,a,a''" by (simp add: numeral_eq_Suc)
  show ?thesis using function_argument_limit [OF w, of 0 example_host "[]" example_vars] unfolding j by simp
qed

end
