(* ===== verification/Kconfig_Deps.thy ===== *)
theory Kconfig_Deps
  imports Kconfig_Calc_Total
begin

text \<open>
  The check for recursive dependencies (\<open>sym_check_deps\<close> and the functions below it
  in scripts/config/symbol.c), a depth-first search that marks symbols with
  \<open>SYMBOL_CHECK\<close> while they are on the path and \<open>SYMBOL_CHECKED\<close> for good. The
  result is the symbol a cycle was found at, \<open>None\<close> for NULL. The stack of
  \<open>struct dep_stack\<close> frames only serves the message that
  \<open>sym_check_print_recursive\<close> prints and is left out.
\<close>

type_synonym chk = "symref \<Rightarrow> kconf \<Rightarrow> (symref option \<times> kconf) res"

text \<open>The next check, if the one before found nothing.\<close>

definition or_else :: "(symref option \<times> kconf) res \<Rightarrow> (kconf \<Rightarrow> (symref option \<times> kconf) res) \<Rightarrow> (symref option \<times> kconf) res" where
  "or_else m f = rbind m (\<lambda>(r, k). case r of Some s \<Rightarrow> Inr (Some s, k) | None \<Rightarrow> f k)"

fun sym_check_expr_deps :: "chk \<Rightarrow> expr \<Rightarrow> kconf \<Rightarrow> (symref option \<times> kconf) res" where
  "sym_check_expr_deps chk (E_BIN j l r) k = or_else (sym_check_expr_deps chk l k) (sym_check_expr_deps chk r)"
| "sym_check_expr_deps chk (E_NOT e) k = sym_check_expr_deps chk e k"
| "sym_check_expr_deps chk (E_COMP c a b) k = or_else (chk a k) (chk b)"
| "sym_check_expr_deps chk (E_SYMBOL s) k = chk s k"

definition check_ptr :: "chk \<Rightarrow> expr option \<Rightarrow> kconf \<Rightarrow> (symref option \<times> kconf) res" where
  "check_ptr chk e k = (case e of None \<Rightarrow> Inr (None, k) | Some x \<Rightarrow> sym_check_expr_deps chk x k)"

definition check_payload :: "chk \<Rightarrow> payload option \<Rightarrow> kconf \<Rightarrow> (symref option \<times> kconf) res" where
  "check_payload chk e k = (case e of Some (PL_EXPR x) \<Rightarrow> sym_check_expr_deps chk x k | _ \<Rightarrow> Inr (None, k))"

fun check_props :: "chk \<Rightarrow> bool \<Rightarrow> property list \<Rightarrow> kconf \<Rightarrow> (symref option \<times> kconf) res" where
  "check_props chk ch [] k = Inr (None, k)"
| "check_props chk ch (p # ps) k =
     (if prop_type p = P_CHOICE \<or> prop_type p = P_SELECT \<or> prop_type p = P_IMPLY then check_props chk ch ps k
      else or_else (check_ptr chk (vis_expr p) k) (\<lambda>k.
        if prop_type p \<noteq> P_DEFAULT \<or> ch then check_props chk ch ps k
        else or_else (check_payload chk (prop_expr p) k) (check_props chk ch ps)))"

definition sym_check_sym_deps :: "chk \<Rightarrow> symref \<Rightarrow> kconf \<Rightarrow> (symref option \<times> kconf) res" where
  "sym_check_sym_deps chk s k =
     (let y = syms k s in
      or_else (check_ptr chk (dir_dep_expr y) k) (\<lambda>k.
      or_else (check_ptr chk (rev_dep_expr y) k) (\<lambda>k.
      or_else (check_ptr chk (implied_expr y) k) (check_props chk (sym_is_choice y) (props y)))))"

definition mark_check :: "symref \<Rightarrow> kconf \<Rightarrow> kconf" where
  "mark_check s k = set_flag s SYMBOL_CHECKED (set_flag s SYMBOL_CHECK k)"

fun check_values :: "chk \<Rightarrow> symref list \<Rightarrow> kconf \<Rightarrow> (symref option \<times> kconf) res" where
  "check_values chk [] k = Inr (None, k)"
| "check_values chk (v # vs) k = or_else (sym_check_sym_deps chk v k) (check_values chk vs)"

text \<open>A cycle through a value of the choice is reported for the choice.\<close>

definition blame_choice :: "symref \<Rightarrow> symref option \<times> kconf \<Rightarrow> (symref option \<times> kconf) res" where
  "blame_choice c rk =
     (case fst rk of
        Some s2 \<Rightarrow>
          if sym_is_choice_value (syms (snd rk) s2) then
            rbind (choice_of (syms (snd rk) s2)) (\<lambda>d. Inr (Some (if d = Some c then c else s2), snd rk))
          else Inr rk
      | None \<Rightarrow> Inr rk)"

definition sym_check_choice_deps :: "chk \<Rightarrow> symref \<Rightarrow> kconf \<Rightarrow> (symref option \<times> kconf) res" where
  "sym_check_choice_deps chk c k =
     rbind (choice_values (syms k c)) (\<lambda>l.
     rbind (sym_check_sym_deps chk c (mark_check c (fold mark_check l k))) (\<lambda>(r, k).
       (let k = clear_flag c SYMBOL_CHECK k in
        rbind (case r of Some s2 \<Rightarrow> Inr (Some s2, k) | None \<Rightarrow> check_values chk l k) (\<lambda>(r, k).
          blame_choice c (r, fold (\<lambda>v. clear_flag v SYMBOL_CHECK) l k)))))"

definition check_deps_body :: "chk \<Rightarrow> bool \<Rightarrow> symref \<Rightarrow> kconf \<Rightarrow> (symref option \<times> kconf) res" where
  "check_deps_body chk recursive_is_error s k =
     (let y = syms k s in
      if SYMBOL_CHECK \<in> flags y then Inr (Some s, k)
      else if SYMBOL_CHECKED \<in> flags y then Inr (None, k)
      else
        rbind
          (if sym_is_choice_value y then
             rbind (choice_of y) (\<lambda>c. case c of None \<Rightarrow> Inl Bad_access | Some cs \<Rightarrow> chk cs k)
           else if sym_is_choice y then sym_check_choice_deps chk s k
           else
             rbind (sym_check_sym_deps chk s (mark_check s k)) (\<lambda>(r, k).
               Inr (r, clear_flag s SYMBOL_CHECK k)))
          (\<lambda>(r, k). Inr (if \<not> recursive_is_error \<and> r = Some s then None else r, k)))"

primrec sym_check_deps :: "nat \<Rightarrow> bool \<Rightarrow> chk" where
  "sym_check_deps 0 err s k = Inl Out_of_fuel"
| "sym_check_deps (Suc n) err s k = check_deps_body (sym_check_deps n err) err s k"

section \<open>The dependencies that are checked\<close>

definition checked_prop :: "property \<Rightarrow> bool" where
  "checked_prop p \<longleftrightarrow> prop_type p \<noteq> P_CHOICE \<and> prop_type p \<noteq> P_SELECT \<and> prop_type p \<noteq> P_IMPLY"

definition prop_deps :: "bool \<Rightarrow> property \<Rightarrow> symref set" where
  "prop_deps ch p =
     (if checked_prop p then
        ptr_syms (vis_expr p) \<union>
        (if prop_type p = P_DEFAULT \<and> \<not> ch
         then (case prop_expr p of Some (PL_EXPR e) \<Rightarrow> expr_syms e | _ \<Rightarrow> {}) else {})
      else {})"

definition dep_syms :: "symbol \<Rightarrow> symref set" where
  "dep_syms y = ptr_syms (dir_dep_expr y) \<union> ptr_syms (rev_dep_expr y) \<union> ptr_syms (implied_expr y) \<union>
     (\<Union>p \<in> set (props y). prop_deps (sym_is_choice y) p)"

definition done_syms :: "kconf \<Rightarrow> symref set" where
  "done_syms k = {s. SYMBOL_CHECKED \<in> flags (syms k s) \<and> SYMBOL_CHECK \<notin> flags (syms k s)}"

definition path_syms :: "kconf \<Rightarrow> symref set" where
  "path_syms k = {s. SYMBOL_CHECK \<in> flags (syms k s)}"

definition dep_rel :: "kconf \<Rightarrow> symref set \<Rightarrow> (symref \<times> symref) set" where
  "dep_rel k D = {(a, b). a \<in> D \<and> b \<in> dep_syms (syms k a)}"

text \<open>Choices and their values refer to each other, as \<open>menu_finalize\<close> leaves them.\<close>

definition choice_wf :: "kconf \<Rightarrow> bool" where
  "choice_wf k \<longleftrightarrow>
     (\<forall>c l v. choice_values (syms k c) = Inr l \<and> sym_is_choice (syms k c) \<and> v \<in> set l \<longrightarrow>
        sym_is_choice_value (syms k v) \<and> choice_of (syms k v) = Inr (Some c)) \<and>
     (\<forall>v c. sym_is_choice_value (syms k v) \<and> choice_of (syms k v) = Inr (Some c) \<longrightarrow>
        sym_is_choice (syms k c) \<and> \<not> sym_is_choice_value (syms k c) \<and>
        (\<exists>l. choice_values (syms k c) = Inr l \<and> v \<in> set l))"

text \<open>The two flags of the search are all that changes.\<close>

definition same_but_check :: "kconf \<Rightarrow> kconf \<Rightarrow> bool" where
  "same_but_check k k' \<longleftrightarrow> (\<forall>s. \<exists>fl. syms k' s = (syms k s)\<lparr>flags := fl\<rparr> \<and>
     fl - {SYMBOL_CHECK, SYMBOL_CHECKED} = flags (syms k s) - {SYMBOL_CHECK, SYMBOL_CHECKED})"

definition search_inv :: "kconf \<Rightarrow> bool" where
  "search_inv k \<longleftrightarrow> choice_wf k \<and>
     (\<forall>s. SYMBOL_CHECK \<in> flags (syms k s) \<longrightarrow> SYMBOL_CHECKED \<in> flags (syms k s)) \<and>
     (\<forall>s \<in> done_syms k. dep_syms (syms k s) \<subseteq> done_syms k) \<and> acyclic (dep_rel k (done_syms k)) \<and>
     (\<forall>v c. sym_is_choice_value (syms k v) \<and> choice_of (syms k v) = Inr (Some c) \<longrightarrow>
        SYMBOL_CHECKED \<in> flags (syms k v) \<longleftrightarrow> SYMBOL_CHECKED \<in> flags (syms k c))"

section \<open>Facts about the marks\<close>

lemma same_but_check_refl [simp]: "same_but_check k k"
  unfolding same_but_check_def
proof
  fix s
  show "\<exists>fl. syms k s = (syms k s)\<lparr>flags := fl\<rparr> \<and>
      fl - {SYMBOL_CHECK, SYMBOL_CHECKED} = flags (syms k s) - {SYMBOL_CHECK, SYMBOL_CHECKED}"
    by (rule exI [of _ "flags (syms k s)"]) simp
qed

lemma same_but_check_trans:
  assumes "same_but_check a b" "same_but_check b c"
  shows "same_but_check a c"
  unfolding same_but_check_def
proof
  fix s
  obtain f where f: "syms b s = (syms a s)\<lparr>flags := f\<rparr>"
    "f - {SYMBOL_CHECK, SYMBOL_CHECKED} = flags (syms a s) - {SYMBOL_CHECK, SYMBOL_CHECKED}"
    using assms(1) unfolding same_but_check_def by metis
  obtain g where g: "syms c s = (syms b s)\<lparr>flags := g\<rparr>"
    "g - {SYMBOL_CHECK, SYMBOL_CHECKED} = flags (syms b s) - {SYMBOL_CHECK, SYMBOL_CHECKED}"
    using assms(2) unfolding same_but_check_def by metis
  have "syms c s = (syms a s)\<lparr>flags := g\<rparr>" using f(1) g(1) by simp
  moreover have "g - {SYMBOL_CHECK, SYMBOL_CHECKED} = flags (syms a s) - {SYMBOL_CHECK, SYMBOL_CHECKED}"
    using f g(2) by simp
  ultimately show "\<exists>fl. syms c s = (syms a s)\<lparr>flags := fl\<rparr> \<and>
      fl - {SYMBOL_CHECK, SYMBOL_CHECKED} = flags (syms a s) - {SYMBOL_CHECK, SYMBOL_CHECKED}" by blast
qed

lemma same_but_check_upd:
  assumes "\<And>F. g F - {SYMBOL_CHECK, SYMBOL_CHECKED} = F - {SYMBOL_CHECK, SYMBOL_CHECKED}"
  shows "same_but_check k (upd s (\<lambda>y. y\<lparr>flags := g (flags y)\<rparr>) k)"
  unfolding same_but_check_def
proof
  fix t
  show "\<exists>fl. syms (upd s (\<lambda>y. y\<lparr>flags := g (flags y)\<rparr>) k) t = (syms k t)\<lparr>flags := fl\<rparr> \<and>
      fl - {SYMBOL_CHECK, SYMBOL_CHECKED} = flags (syms k t) - {SYMBOL_CHECK, SYMBOL_CHECKED}"
    by (rule exI [of _ "if t = s then g (flags (syms k t)) else flags (syms k t)"]) (simp add: assms)
qed

lemma same_but_check_flags:
  "same_but_check k (mark_check s k)" "same_but_check k (clear_flag s SYMBOL_CHECK k)"
  unfolding mark_check_def set_flag_def clear_flag_def
  by (rule same_but_check_trans [OF same_but_check_upd same_but_check_upd], blast, blast)
     (rule same_but_check_upd, blast)

lemma same_but_check_fold:
  assumes "\<And>x k. same_but_check k (f x k)"
  shows "same_but_check k (fold f xs k)"
  by (induction xs arbitrary: k) (auto intro: same_but_check_trans assms)

lemma same_but_check_fields:
  assumes "same_but_check k k'"
  shows "dep_syms (syms k' s) = dep_syms (syms k s)" "sym_syms (syms k' s) = sym_syms (syms k s)"
    "sym_is_choice (syms k' s) = sym_is_choice (syms k s)"
    "sym_is_choice_value (syms k' s) = sym_is_choice_value (syms k s)"
    "choice_of (syms k' s) = choice_of (syms k s)" "choice_values (syms k' s) = choice_values (syms k s)"
proof -
  obtain fl where y: "syms k' s = (syms k s)\<lparr>flags := fl\<rparr>"
    "fl - {SYMBOL_CHECK, SYMBOL_CHECKED} = flags (syms k s) - {SYMBOL_CHECK, SYMBOL_CHECKED}"
    using assms unfolding same_but_check_def by metis
  have f: "SYMBOL_CHOICE \<in> fl \<longleftrightarrow> SYMBOL_CHOICE \<in> flags (syms k s)" "SYMBOL_CHOICEVAL \<in> fl \<longleftrightarrow> SYMBOL_CHOICEVAL \<in> flags (syms k s)"
    using y(2) by blast+
  show "dep_syms (syms k' s) = dep_syms (syms k s)" "sym_syms (syms k' s) = sym_syms (syms k s)"
    "sym_is_choice (syms k' s) = sym_is_choice (syms k s)"
    "sym_is_choice_value (syms k' s) = sym_is_choice_value (syms k s)"
    "choice_of (syms k' s) = choice_of (syms k s)" "choice_values (syms k' s) = choice_values (syms k s)"
    by (simp_all add: y(1) f dep_syms_def sym_syms_def sym_is_choice_def sym_is_choice_value_def choice_of_def
        choice_values_def sym_get_choice_prop_def)
qed

lemma checked_split: "search_inv k \<Longrightarrow> SYMBOL_CHECKED \<in> flags (syms k s) \<longleftrightarrow> s \<in> done_syms k \<union> path_syms k"
  by (auto simp: search_inv_def done_syms_def path_syms_def)

text \<open>Adding symbols whose dependencies are done keeps the done symbols free of cycles.\<close>

lemma acyclic_extend:
  assumes "acyclic (dep_rel k D)" "\<forall>s \<in> D. dep_syms (syms k s) \<subseteq> D" "L \<inter> D = {}" "\<forall>s \<in> L. dep_syms (syms k s) \<subseteq> D"
  shows "acyclic (dep_rel k (D \<union> L))"
proof -
  let ?R = "dep_rel k (D \<union> L)"
  have inD: "(a, b) \<in> ?R\<^sup>+ \<Longrightarrow> b \<in> D" for a b
    by (induction rule: trancl_induct) (use assms in \<open>auto simp: dep_rel_def\<close>)
  have sub: "(a, b) \<in> ?R\<^sup>+ \<Longrightarrow> a \<in> D \<Longrightarrow> (a, b) \<in> (dep_rel k D)\<^sup>+" for a b
  proof (induction rule: trancl_induct)
    case (base y)
    then show ?case by (auto simp: dep_rel_def)
  next
    case (step y z)
    then have "(y, z) \<in> dep_rel k D" using inD [OF step(1)] by (auto simp: dep_rel_def)
    then show ?case using step by (meson trancl.trancl_into_trancl)
  qed
  show ?thesis
    unfolding acyclic_def using assms(1) inD sub by (meson acyclic_def)
qed

end
