(* ===== verification/Kconfig_Deps_Props.thy ===== *)
theory Kconfig_Deps_Props
  imports Kconfig_Deps Kconfig_Calc_Law
begin

text \<open>
  The search for recursive dependencies ends and is sound: where it reports no
  symbol, the dependencies that can be reached have no cycle. The functions below
  \<open>sym_check_deps\<close> are treated once, over any recursive call that keeps the
  invariant of the search on configurations with fewer unchecked symbols.
\<close>

definition to_check :: "symref set \<Rightarrow> kconf \<Rightarrow> nat" where
  "to_check U k = card {s \<in> U. SYMBOL_CHECKED \<notin> flags (syms k s)}"

text \<open>What a check that found nothing leaves: \<open>S\<close> is done, and the path is as before.\<close>

definition Found :: "symref set \<Rightarrow> kconf \<Rightarrow> symref option \<times> kconf \<Rightarrow> bool" where
  "Found S k rk \<longleftrightarrow> same_but_check k (snd rk) \<and>
     (fst rk = None \<longrightarrow> search_inv (snd rk) \<and> S \<subseteq> done_syms (snd rk) \<and> done_syms k \<subseteq> done_syms (snd rk) \<and>
        path_syms (snd rk) = path_syms k)"

lemma Found_refl: "search_inv k \<Longrightarrow> S \<subseteq> done_syms k \<Longrightarrow> Found S k (None, k)"
  by (simp add: Found_def)

lemma Found_trans:
  assumes "Found S k (None, k')" "Found T k' rk"
  shows "Found (S \<union> T) k rk"
  using assms by (auto simp: Found_def intro: same_but_check_trans)

lemma Found_unchecked:
  assumes "Found S k (None, k')" "search_inv k" "finite U"
  shows "to_check U k' \<le> to_check U k"
  unfolding to_check_def
proof (rule card_mono)
  show "{s \<in> U. SYMBOL_CHECKED \<notin> flags (syms k' s)} \<subseteq> {s \<in> U. SYMBOL_CHECKED \<notin> flags (syms k s)}"
    using assms(1,2) checked_split [of k] checked_split [of k'] by (auto simp: Found_def)
qed (use assms(3) in simp)

lemma same_but_check_closed: "same_but_check k k' \<Longrightarrow> modules_sym k' = modules_sym k \<Longrightarrow> closed U k \<Longrightarrow> closed U k'"
  by (simp add: closed_def same_but_check_fields)

text \<open>The part of \<open>closed\<close> the search needs.\<close>

definition dclosed :: "symref set \<Rightarrow> kconf \<Rightarrow> bool" where
  "dclosed U k \<longleftrightarrow> finite U \<and> (\<forall>s \<in> U. sym_syms (syms k s) \<subseteq> U)"

lemma dclosed_same: "same_but_check k k' \<Longrightarrow> dclosed U k \<Longrightarrow> dclosed U k'"
  by (simp add: dclosed_def same_but_check_fields)

lemma prop_deps_syms: "prop_deps ch p \<subseteq> prop_syms p"
  by (auto simp: prop_deps_def prop_syms_def payload_syms_def split: option.splits payload.splits if_splits)

lemma dep_syms_sym_syms: "dep_syms y \<subseteq> sym_syms y"
  using prop_deps_syms by (fastforce simp: dep_syms_def sym_syms_def)

locale deps_client =
  fixes chk :: chk and n :: nat and U :: "symref set"
  assumes chk_law: "\<And>s k. s \<in> U \<Longrightarrow> dclosed U k \<Longrightarrow> search_inv k \<Longrightarrow>
      2 * to_check U k + (if sym_is_choice_value (syms k s) then 1 else 0) < n \<Longrightarrow> wp {Bad_access} (chk s k) (Found {s} k)"
begin

definition ready :: "kconf \<Rightarrow> bool" where
  "ready k \<longleftrightarrow> dclosed U k \<and> search_inv k \<and> 2 * to_check U k + 1 < n"

lemma ready_chk: "ready k \<Longrightarrow> s \<in> U \<Longrightarrow> wp {Bad_access} (chk s k) (Found {s} k)"
  unfolding ready_def by (rule chk_law) auto

lemma ready_step:
  assumes "ready k" "Found S k (None, k')"
  shows "ready k'"
  using assms Found_unchecked [of S k k' U] dclosed_same [of k k' U] by (auto simp: ready_def Found_def dclosed_def)

lemma wp_or_else:
  assumes "ready k" "wp {Bad_access} m (Found S k)" "\<And>k'. ready k' \<Longrightarrow> Found S k (None, k') \<Longrightarrow> wp {Bad_access} (f k') (Found T k')"
  shows "wp {Bad_access} (or_else m f) (Found (S \<union> T) k)"
  unfolding or_else_def
proof (rule wp_rbindI [OF assms(2)])
  fix rk
  assume rk: "Found S k rk"
  show "wp {Bad_access} (case rk of (r, k) \<Rightarrow> (case r of Some s \<Rightarrow> Inr (Some s, k) | None \<Rightarrow> f k)) (Found (S \<union> T) k)"
  proof (cases rk)
    case (Pair r k')
    show ?thesis
    proof (cases r)
      case None
      with rk Pair have r: "Found S k (None, k')" by simp
      from wp_mono [OF assms(3) [OF ready_step [OF assms(1) r] r]] Found_trans [OF r] show ?thesis
        by (simp add: Pair None)
    qed (use rk in \<open>simp add: Pair Found_def\<close>)
  qed
qed

lemma wp_check_expr:
  assumes "ready k" "expr_syms e \<subseteq> U"
  shows "wp {Bad_access} (sym_check_expr_deps chk e k) (Found (expr_syms e) k)"
  using assms
proof (induction e arbitrary: k)
  case (E_BIN j l r)
  then show ?case by (auto intro!: wp_or_else)
next
  case (E_COMP c a b)
  then have "wp {Bad_access} (or_else (chk a k) (chk b)) (Found ({a} \<union> {b}) k)"
    by (intro wp_or_else ready_chk) auto
  then show ?case by (simp add: insert_commute)
qed (simp_all add: ready_chk)

lemma wp_check_ptr:
  "ready k \<Longrightarrow> ptr_syms e \<subseteq> U \<Longrightarrow> wp {Bad_access} (check_ptr chk e k) (Found (ptr_syms e) k)"
  by (auto simp: check_ptr_def ptr_syms_def ready_def Found_refl split: option.splits intro!: wp_check_expr)

lemma wp_check_payload:
  "ready k \<Longrightarrow> payload_syms e \<subseteq> U \<Longrightarrow>
   wp {Bad_access} (check_payload chk e k) (Found (case e of Some (PL_EXPR x) \<Rightarrow> expr_syms x | _ \<Rightarrow> {}) k)"
  by (auto simp: check_payload_def payload_syms_def ready_def Found_refl split: option.splits payload.splits
      intro!: wp_check_expr)

lemma wp_check_props:
  assumes "ready k" "\<forall>p \<in> set ps. prop_syms p \<subseteq> U"
  shows "wp {Bad_access} (check_props chk ch ps k) (Found (\<Union>p \<in> set ps. prop_deps ch p) k)"
  using assms
proof (induction ps arbitrary: k)
  case (Cons p ps)
  have v: "ptr_syms (vis_expr p) \<subseteq> U" "payload_syms (prop_expr p) \<subseteq> U"
    using Cons.prems(2) by (auto simp: prop_syms_def)
  show ?case
  proof (cases "checked_prop p")
    case False
    then show ?thesis using Cons by (auto simp: checked_prop_def prop_deps_def)
  next
    case True
    let ?P = "case prop_expr p of Some (PL_EXPR x) \<Rightarrow> expr_syms x | _ \<Rightarrow> {}" and ?R = "\<Union>p \<in> set ps. prop_deps ch p"
    have rest: "wp {Bad_access} (check_props chk ch ps k) (Found ?R k)" if "ready k" for k
      using Cons.IH [OF that] Cons.prems(2) by simp
    have "wp {Bad_access} (check_props chk ch (p # ps) k)
        (Found (ptr_syms (vis_expr p) \<union> (if prop_type p \<noteq> P_DEFAULT \<or> ch then ?R else ?P \<union> ?R)) k)"
    proof -
      have n: "\<not> (prop_type p = P_CHOICE \<or> prop_type p = P_SELECT \<or> prop_type p = P_IMPLY)"
        using True by (simp add: checked_prop_def)
      have "wp {Bad_access} (if prop_type p \<noteq> P_DEFAULT \<or> ch then check_props chk ch ps k
          else or_else (check_payload chk (prop_expr p) k) (check_props chk ch ps))
          (Found (if prop_type p \<noteq> P_DEFAULT \<or> ch then ?R else ?P \<union> ?R) k)" if "ready k" for k
        by (cases "prop_type p \<noteq> P_DEFAULT \<or> ch")
           (simp_all only: if_P if_not_P not_False_eq_True rest [OF that]
             wp_or_else [OF that wp_check_payload [OF that v(2)] rest])
      then show ?thesis
        unfolding check_props.simps if_not_P [OF n] by (intro wp_or_else Cons.prems(1) wp_check_ptr v(1))
    qed
    moreover have "(\<Union>q \<in> set (p # ps). prop_deps ch q) =
        ptr_syms (vis_expr p) \<union> (if prop_type p \<noteq> P_DEFAULT \<or> ch then ?R else ?P \<union> ?R)"
      using True by (auto simp: prop_deps_def)
    ultimately show ?thesis by simp
  qed
qed (simp add: ready_def Found_refl)

lemma wp_sym_deps:
  assumes "ready k" "s \<in> U"
  shows "wp {Bad_access} (sym_check_sym_deps chk s k) (Found (dep_syms (syms k s)) k)"
proof -
  have "sym_syms (syms k s) \<subseteq> U" using assms by (simp add: ready_def dclosed_def)
  then have d: "ptr_syms (dir_dep_expr (syms k s)) \<subseteq> U" "ptr_syms (rev_dep_expr (syms k s)) \<subseteq> U"
    "ptr_syms (implied_expr (syms k s)) \<subseteq> U" "\<forall>p \<in> set (props (syms k s)). prop_syms p \<subseteq> U"
    by (auto simp: sym_syms_def)
  have "wp {Bad_access} (sym_check_sym_deps chk s k)
      (Found (ptr_syms (dir_dep_expr (syms k s)) \<union> (ptr_syms (rev_dep_expr (syms k s)) \<union>
        (ptr_syms (implied_expr (syms k s)) \<union> (\<Union>p \<in> set (props (syms k s)). prop_deps (sym_is_choice (syms k s)) p)))) k)"
    unfolding sym_check_sym_deps_def Let_def
    using d assms(1) by (intro wp_or_else wp_check_ptr wp_check_props)
  then show ?thesis by (simp add: dep_syms_def Un_assoc)
qed

lemma wp_check_values:
  assumes "ready k" "set l \<subseteq> U"
  shows "wp {Bad_access} (check_values chk l k) (Found (\<Union>v \<in> set l. dep_syms (syms k v)) k)"
  using assms
proof (induction l arbitrary: k)
  case (Cons v l)
  have "wp {Bad_access} (check_values chk l k') (Found (\<Union>v \<in> set l. dep_syms (syms k v)) k')"
    if "ready k'" "same_but_check k k'" for k'
    using Cons.IH [OF that(1)] Cons.prems(2) same_but_check_fields(1) [OF that(2)] by simp
  then have "wp {Bad_access} (check_values chk (v # l) k)
      (Found (dep_syms (syms k v) \<union> (\<Union>v \<in> set l. dep_syms (syms k v))) k)"
    using Cons.prems by (auto simp: Found_def [of _ k] intro!: wp_or_else wp_sym_deps)
  then show ?case by simp
qed (simp add: ready_def Found_refl)

end

section \<open>Marking and unmarking\<close>

lemma choice_wf_same: "same_but_check k k' \<Longrightarrow> choice_wf k' = choice_wf k"
  by (simp add: choice_wf_def same_but_check_fields)

lemma dep_rel_same: "same_but_check k k' \<Longrightarrow> dep_rel k' D = dep_rel k D"
  by (simp add: dep_rel_def same_but_check_fields)

lemma search_choice_wf: "search_inv k \<Longrightarrow> choice_wf k"
  unfolding search_inv_def by (rule conjunct1)

lemma choice_wfD:
  assumes "choice_wf k" "sym_is_choice_value (syms k v)" "choice_of (syms k v) = Inr (Some c)"
  shows "sym_is_choice (syms k c)" "\<not> sym_is_choice_value (syms k c)"
    "\<exists>l. choice_values (syms k c) = Inr l \<and> v \<in> set l"
  using assms unfolding choice_wf_def by metis+

lemma choice_wf_member:
  assumes "choice_wf k" "choice_values (syms k c) = Inr l" "sym_is_choice (syms k c)" "v \<in> set l"
  shows "sym_is_choice_value (syms k v)" "choice_of (syms k v) = Inr (Some c)"
  using assms unfolding choice_wf_def by metis+

lemma mark_inv:
  assumes "search_inv k" "same_but_check k k1" "\<forall>t \<in> L. SYMBOL_CHECKED \<notin> flags (syms k t)"
    and ck: "\<And>t. SYMBOL_CHECK \<in> flags (syms k1 t) \<longleftrightarrow> SYMBOL_CHECK \<in> flags (syms k t) \<or> t \<in> L"
    and cd: "\<And>t. SYMBOL_CHECKED \<in> flags (syms k1 t) \<longleftrightarrow> SYMBOL_CHECKED \<in> flags (syms k t) \<or> t \<in> L"
    and ch: "\<And>v c. sym_is_choice_value (syms k v) \<Longrightarrow> choice_of (syms k v) = Inr (Some c) \<Longrightarrow> v \<in> L \<longleftrightarrow> c \<in> L"
  shows "search_inv k1 \<and> done_syms k1 = done_syms k \<and> path_syms k1 = path_syms k \<union> L"
proof -
  have d: "done_syms k1 = done_syms k" using assms(3) by (auto simp: done_syms_def ck cd)
  have "path_syms k1 = path_syms k \<union> L" by (auto simp: path_syms_def ck)
  with d assms(1) ch show ?thesis
    unfolding search_inv_def d
    by (simp add: choice_wf_same [OF assms(2)] dep_rel_same [OF assms(2)] same_but_check_fields [OF assms(2)] ck cd)
qed

lemma unmark_inv:
  assumes "search_inv k" "same_but_check k k1" "L \<subseteq> path_syms k" "\<forall>t \<in> L. dep_syms (syms k t) \<subseteq> done_syms k"
    and ck: "\<And>t. SYMBOL_CHECK \<in> flags (syms k1 t) \<longleftrightarrow> SYMBOL_CHECK \<in> flags (syms k t) \<and> t \<notin> L"
    and cd: "\<And>t. SYMBOL_CHECKED \<in> flags (syms k1 t) \<longleftrightarrow> SYMBOL_CHECKED \<in> flags (syms k t)"
  shows "search_inv k1 \<and> done_syms k1 = done_syms k \<union> L \<and> path_syms k1 = path_syms k - L"
proof -
  have d: "done_syms k1 = done_syms k \<union> L"
    using assms(1,3) by (auto simp: done_syms_def path_syms_def search_inv_def ck cd)
  have p: "path_syms k1 = path_syms k - L" by (auto simp: path_syms_def ck)
  have "L \<inter> done_syms k = {}" using assms(3) by (auto simp: done_syms_def path_syms_def)
  then have a: "acyclic (dep_rel k (done_syms k \<union> L))"
    using assms(1,4) by (intro acyclic_extend) (auto simp: search_inv_def)
  have c: "\<forall>s \<in> done_syms k \<union> L. dep_syms (syms k s) \<subseteq> done_syms k \<union> L"
    using assms(1,4) by (auto simp: search_inv_def)
  have "search_inv k1"
    unfolding search_inv_def d using assms(1) a c
    by (simp add: choice_wf_same [OF assms(2)] dep_rel_same [OF assms(2)] same_but_check_fields [OF assms(2)] ck cd
        search_inv_def)
  with d p show ?thesis by simp
qed

lemma mark_check_flags:
  "f \<in> flags (syms (mark_check s k) t) \<longleftrightarrow> f \<in> flags (syms k t) \<or> t = s \<and> (f = SYMBOL_CHECK \<or> f = SYMBOL_CHECKED)"
  by (auto simp: mark_check_def set_flag_def)

lemma fold_mark_flags:
  "f \<in> flags (syms (fold mark_check l k) t) \<longleftrightarrow>
   f \<in> flags (syms k t) \<or> t \<in> set l \<and> (f = SYMBOL_CHECK \<or> f = SYMBOL_CHECKED)"
  by (induction l arbitrary: k) (auto simp: mark_check_flags)

lemma fold_clear_flags:
  "f \<in> flags (syms (fold (\<lambda>v. clear_flag v SYMBOL_CHECK) l k) t) \<longleftrightarrow>
   f \<in> flags (syms k t) \<and> \<not> (t \<in> set l \<and> f = SYMBOL_CHECK)"
  by (induction l arbitrary: k) (auto simp: clear_flag_def)

lemma clear_check_flags:
  "f \<in> flags (syms (clear_flag s SYMBOL_CHECK k) t) \<longleftrightarrow> f \<in> flags (syms k t) \<and> \<not> (t = s \<and> f = SYMBOL_CHECK)"
  by (auto simp: clear_flag_def)

lemma to_check_less:
  assumes "finite U" "s \<in> U" "SYMBOL_CHECKED \<notin> flags (syms k s)" "SYMBOL_CHECKED \<in> flags (syms k1 s)"
    and "\<And>t. SYMBOL_CHECKED \<in> flags (syms k t) \<Longrightarrow> SYMBOL_CHECKED \<in> flags (syms k1 t)"
  shows "to_check U k1 < to_check U k"
  unfolding to_check_def
proof (rule psubset_card_mono)
  show "{t \<in> U. SYMBOL_CHECKED \<notin> flags (syms k1 t)} \<subset> {t \<in> U. SYMBOL_CHECKED \<notin> flags (syms k t)}"
    using assms by auto
qed (use assms(1) in simp)

section \<open>The search\<close>

context deps_client
begin

lemma wp_plain_symbol:
  assumes "dclosed U k" "search_inv k" "2 * to_check U k < Suc n" "s \<in> U"
    and "SYMBOL_CHECKED \<notin> flags (syms k s)" "\<not> sym_is_choice_value (syms k s)" "\<not> sym_is_choice (syms k s)"
  shows "wp {Bad_access} (rbind (sym_check_sym_deps chk s (mark_check s k)) (\<lambda>(r, k). Inr (r, clear_flag s SYMBOL_CHECK k)))
    (Found {s} k)"
proof -
  let ?k = "mark_check s k"
  have c: "\<not> (sym_is_choice_value (syms k v) \<and> choice_of (syms k v) = Inr (Some s))" for v
    using choice_wfD(1) [OF search_choice_wf [OF assms(2)]] assms(7) by blast
  have m: "search_inv ?k \<and> done_syms ?k = done_syms k \<and> path_syms ?k = path_syms k \<union> {s}"
  proof (rule mark_inv [OF assms(2) same_but_check_flags(1)])
    fix v d
    assume "sym_is_choice_value (syms k v)" "choice_of (syms k v) = Inr (Some d)"
    then have "v \<noteq> s" "d \<noteq> s" using assms(6) c by auto
    then show "v \<in> {s} \<longleftrightarrow> d \<in> {s}" by simp
  qed (simp_all add: assms(5) mark_check_flags)
  have "to_check U ?k < to_check U k"
    by (rule to_check_less [of U s]) (use assms in \<open>auto simp: mark_check_flags dclosed_def\<close>)
  then have r: "ready ?k"
    using assms(3) m dclosed_same [OF same_but_check_flags(1) assms(1)] by (simp add: ready_def)
  show ?thesis
  proof (rule wp_rbindI [OF wp_sym_deps [OF r assms(4)]])
    fix rk
    assume f: "Found (dep_syms (syms ?k s)) ?k rk"
    obtain r k2 where rk: "rk = (r, k2)" by (cases rk)
    let ?k3 = "clear_flag s SYMBOL_CHECK k2"
    have "same_but_check ?k k2" using f rk by (simp add: Found_def)
    then have sm: "same_but_check k ?k3"
      by (rule same_but_check_trans [OF same_but_check_trans [OF same_but_check_flags(1)] same_but_check_flags(2)])
    have "search_inv ?k3 \<and> done_syms ?k3 = done_syms k2 \<union> {s} \<and> path_syms ?k3 = path_syms k2 - {s}" if "r = None"
      by (rule unmark_inv [OF _ same_but_check_flags(2)])
         (use f rk that m in \<open>auto simp: Found_def clear_check_flags same_but_check_fields(1) [of ?k k2]\<close>)
    moreover have "s \<notin> path_syms k" using assms(2,5) by (auto simp: search_inv_def path_syms_def)
    ultimately have "Found {s} k (r, ?k3)"
      using f rk m sm by (auto simp: Found_def)
    then show "wp {Bad_access} (case rk of (r, k) \<Rightarrow> Inr (r, clear_flag s SYMBOL_CHECK k)) (Found {s} k)"
      by (simp add: rk)
  qed
qed

text \<open>What is left after the choice itself was checked, with the values still on the path.\<close>

lemma wp_choice_values:
  assumes "ready k" "set l \<subseteq> U" "set l \<subseteq> path_syms k"
  shows "wp {Bad_access} (rbind (check_values chk l k) (\<lambda>(r, k). Inr (r, fold (\<lambda>v. clear_flag v SYMBOL_CHECK) l k)))
    (\<lambda>(r, k'). same_but_check k k' \<and> (r = None \<longrightarrow> search_inv k' \<and> set l \<subseteq> done_syms k' \<and>
       done_syms k \<subseteq> done_syms k' \<and> path_syms k' = path_syms k - set l))"
proof (rule wp_rbindI [OF wp_check_values [OF assms(1,2)]])
  fix rk
  assume f: "Found (\<Union>v \<in> set l. dep_syms (syms k v)) k rk"
  obtain r k2 where rk: "rk = (r, k2)" by (cases rk)
  let ?k3 = "fold (\<lambda>v. clear_flag v SYMBOL_CHECK) l k2"
  have s23: "same_but_check k2 ?k3" by (rule same_but_check_fold) (rule same_but_check_flags(2))
  have s2: "same_but_check k k2" using f rk by (simp add: Found_def)
  have "search_inv ?k3 \<and> done_syms ?k3 = done_syms k2 \<union> set l \<and> path_syms ?k3 = path_syms k2 - set l" if "r = None"
  proof (rule unmark_inv [OF _ s23])
    show "\<forall>t \<in> set l. dep_syms (syms k2 t) \<subseteq> done_syms k2"
      using f rk that same_but_check_fields(1) [OF s2] by (auto simp: Found_def)
  qed (use f rk that assms(3) in \<open>auto simp: Found_def fold_clear_flags\<close>)
  moreover have "same_but_check k ?k3" using s2 s23 by (rule same_but_check_trans)
  ultimately show "wp {Bad_access} (case rk of (r, k) \<Rightarrow> Inr (r, fold (\<lambda>v. clear_flag v SYMBOL_CHECK) l k))
    (\<lambda>(r, k'). same_but_check k k' \<and> (r = None \<longrightarrow> search_inv k' \<and> set l \<subseteq> done_syms k' \<and>
       done_syms k \<subseteq> done_syms k' \<and> path_syms k' = path_syms k - set l))"
    using f rk by (auto simp: Found_def)
qed

lemma wp_blame: "wp {Bad_access} (blame_choice c rk) (\<lambda>rk'. snd rk' = snd rk \<and> (fst rk' = None \<longrightarrow> fst rk = None))"
  by (auto simp: blame_choice_def split: option.splits intro!: wp_rbind_any dest: stops)

lemma wp_choice_symbol:
  assumes "dclosed U k" "search_inv k" "2 * to_check U k < Suc n" "c \<in> U"
    and "SYMBOL_CHECKED \<notin> flags (syms k c)" "\<not> sym_is_choice_value (syms k c)" "sym_is_choice (syms k c)"
  shows "wp {Bad_access} (sym_check_choice_deps chk c k) (Found {c} k)"
  unfolding sym_check_choice_deps_def
proof (rule wp_rbind_any)
  fix l
  assume l: "choice_values (syms k c) = Inr l"
  note cw = search_choice_wf [OF assms(2)]
  let ?k1 = "mark_check c (fold mark_check l k)" and ?L = "insert c (set l)"
  have s1: "same_but_check k ?k1"
    by (rule same_but_check_trans [OF same_but_check_fold same_but_check_flags(1)]) (rule same_but_check_flags(1))
  have lU: "set l \<subseteq> U"
  proof -
    have "set l \<subseteq> sym_syms (syms k c)"
      using l by (auto simp: choice_values_def sym_get_choice_prop_def find_Some_iff sym_syms_def prop_syms_def
          payload_syms_def split: option.splits payload.splits expr.splits) (metis nth_mem)
    then show ?thesis using assms(1,4) by (auto simp: dclosed_def)
  qed
  have un: "\<forall>t \<in> ?L. SYMBOL_CHECKED \<notin> flags (syms k t)"
    using assms(2,5) choice_wf_member [OF cw l assms(7)] by (auto simp: search_inv_def)
  have nl: "c \<notin> set l" using choice_wf_member(1) [OF cw l assms(7)] assms(6) by blast
  have m: "search_inv ?k1 \<and> done_syms ?k1 = done_syms k \<and> path_syms ?k1 = path_syms k \<union> ?L"
  proof (rule mark_inv [OF assms(2) s1 un])
    fix v d
    assume v: "sym_is_choice_value (syms k v)" "choice_of (syms k v) = Inr (Some d)"
    show "v \<in> ?L \<longleftrightarrow> d \<in> ?L"
      using choice_wfD [OF cw v] choice_wf_member [OF cw l assms(7)] v assms(6) l by auto
  qed (auto simp: mark_check_flags fold_mark_flags)
  have "to_check U ?k1 < to_check U k"
    by (rule to_check_less [of U c]) (use assms in \<open>auto simp: mark_check_flags fold_mark_flags dclosed_def\<close>)
  then have r: "ready ?k1"
    using assms(3) m dclosed_same [OF s1 assms(1)] by (simp add: ready_def)
  show "wp {Bad_access} (rbind (sym_check_sym_deps chk c ?k1) (\<lambda>(r, k).
       (let k = clear_flag c SYMBOL_CHECK k in
        rbind (case r of Some s2 \<Rightarrow> Inr (Some s2, k) | None \<Rightarrow> check_values chk l k) (\<lambda>(r, k).
          blame_choice c (r, fold (\<lambda>v. clear_flag v SYMBOL_CHECK) l k))))) (Found {c} k)"
  proof (rule wp_rbindI [OF wp_sym_deps [OF r assms(4)]])
    fix rk
    assume f: "Found (dep_syms (syms ?k1 c)) ?k1 rk"
    obtain r k2 where rk: "rk = (r, k2)" by (cases rk)
    let ?k3 = "clear_flag c SYMBOL_CHECK k2"
    have "same_but_check ?k1 k2" using f rk by (simp add: Found_def)
    then have s3: "same_but_check k ?k3"
      by (rule same_but_check_trans [OF same_but_check_trans [OF s1] same_but_check_flags(2)])
    have vals: "wp {Bad_access} (rbind (check_values chk l ?k3) (\<lambda>(r, k).
        blame_choice c (r, fold (\<lambda>v. clear_flag v SYMBOL_CHECK) l k))) (Found {c} k)" if rn: "r = None"
    proof -
      have f2: "search_inv k2" "dep_syms (syms ?k1 c) \<subseteq> done_syms k2" "done_syms k \<subseteq> done_syms k2"
        "path_syms k2 = path_syms k \<union> ?L" "same_but_check ?k1 k2"
        using f rk rn m by (auto simp: Found_def)
      have u: "search_inv ?k3 \<and> done_syms ?k3 = done_syms k2 \<union> {c} \<and> path_syms ?k3 = path_syms k2 - {c}"
        by (rule unmark_inv [OF f2(1) same_but_check_flags(2)])
           (use f2 in \<open>auto simp: clear_check_flags same_but_check_fields(1) [OF f2(5)]\<close>)
      have "to_check U ?k3 \<le> to_check U ?k1"
        unfolding to_check_def
      proof (rule card_mono)
        show "{s \<in> U. SYMBOL_CHECKED \<notin> flags (syms ?k3 s)} \<subseteq> {s \<in> U. SYMBOL_CHECKED \<notin> flags (syms ?k1 s)}"
          using u m f2 checked_split [of ?k1] checked_split [of ?k3] by auto
      qed (use assms(1) in \<open>simp add: dclosed_def\<close>)
      then have r3: "ready ?k3" using r u dclosed_same [OF s3 assms(1)] by (simp add: ready_def)
      have lp: "set l \<subseteq> path_syms ?k3" using u f2(4) nl by auto
      have pk: "path_syms ?k3 - set l = path_syms k"
        using u f2(4) un nl assms(2) by (auto simp: search_inv_def path_syms_def)
      have eq: "rbind (check_values chk l ?k3) (\<lambda>(r, k). blame_choice c (r, fold (\<lambda>v. clear_flag v SYMBOL_CHECK) l k)) =
          rbind (rbind (check_values chk l ?k3) (\<lambda>(r, k). Inr (r, fold (\<lambda>v. clear_flag v SYMBOL_CHECK) l k))) (blame_choice c)"
        by (cases "check_values chk l ?k3") auto
      show ?thesis
        unfolding eq
        by (rule wp_rbindI [OF wp_choice_values [OF r3 lU lp]], rule wp_mono [OF wp_blame])
           (use s3 u f2 pk in \<open>auto simp: Found_def intro: same_but_check_trans\<close>)
    qed
    have s4: "same_but_check k (fold (\<lambda>v. clear_flag v SYMBOL_CHECK) l ?k3)"
      by (rule same_but_check_trans [OF s3 same_but_check_fold]) (rule same_but_check_flags(2))
    have bad: "wp {Bad_access} (blame_choice c (Some s2, fold (\<lambda>v. clear_flag v SYMBOL_CHECK) l ?k3)) (Found {c} k)" for s2
      by (rule wp_mono [OF wp_blame]) (use s4 in \<open>auto simp: Found_def\<close>)
    show "wp {Bad_access} (case rk of (r, k) \<Rightarrow>
       (let k = clear_flag c SYMBOL_CHECK k in
        rbind (case r of Some s2 \<Rightarrow> Inr (Some s2, k) | None \<Rightarrow> check_values chk l k) (\<lambda>(r, k).
          blame_choice c (r, fold (\<lambda>v. clear_flag v SYMBOL_CHECK) l k)))) (Found {c} k)"
      using vals bad by (cases r) (simp_all add: rk)
  qed
qed (auto dest: stops)

lemma wp_check_body:
  assumes "dclosed U k" "search_inv k" "s \<in> U"
    and "2 * to_check U k + (if sym_is_choice_value (syms k s) then 1 else 0) < Suc n"
  shows "wp {Bad_access} (check_deps_body chk True s k) (Found {s} k)"
proof (cases "SYMBOL_CHECKED \<in> flags (syms k s)")
  case True
  then show ?thesis
    using assms(2) by (auto simp: check_deps_body_def Let_def Found_def done_syms_def)
next
  case False
  then have nc: "SYMBOL_CHECK \<notin> flags (syms k s)" using assms(2) by (auto simp: search_inv_def)
  have "wp {Bad_access} (if sym_is_choice_value (syms k s) then
             rbind (choice_of (syms k s)) (\<lambda>c. case c of None \<Rightarrow> Inl Bad_access | Some cs \<Rightarrow> chk cs k)
           else if sym_is_choice (syms k s) then sym_check_choice_deps chk s k
           else rbind (sym_check_sym_deps chk s (mark_check s k)) (\<lambda>(r, k). Inr (r, clear_flag s SYMBOL_CHECK k)))
         (Found {s} k)"
  proof (cases "sym_is_choice_value (syms k s)")
    case cv: True
    have "wp {Bad_access} (chk c k) (Found {s} k)" if c: "choice_of (syms k s) = Inr (Some c)" for c
    proof -
      have cU: "c \<in> U" using choice_of_syms [OF c] assms(1,3) by (auto simp: dclosed_def)
      note w = choice_wfD [OF search_choice_wf [OF assms(2)] cv c]
      have "wp {Bad_access} (chk c k) (Found {c} k)"
        using assms(4) cv w(2) by (intro chk_law cU assms(1,2)) simp
      then show ?thesis
      proof (rule wp_mono)
        fix rk
        assume f: "Found {c} k rk"
        obtain r k' where rk: "rk = (r, k')" by (cases rk)
        have sm: "same_but_check k k'" using f rk by (simp add: Found_def)
        have "s \<in> done_syms k'" if "r = None"
        proof -
          have i: "search_inv k'" "c \<in> done_syms k'" "path_syms k' = path_syms k" using f rk that by (auto simp: Found_def)
          then have "SYMBOL_CHECKED \<in> flags (syms k' c)" by (simp add: done_syms_def)
          then have "SYMBOL_CHECKED \<in> flags (syms k' s)"
            using i(1) cv c same_but_check_fields(4,5) [OF sm] unfolding search_inv_def by metis
          moreover have "s \<notin> path_syms k'" using i(3) nc by (simp add: path_syms_def)
          ultimately show ?thesis using checked_split [OF i(1)] by blast
        qed
        then show "Found {s} k rk" using f rk by (auto simp: Found_def)
      qed
    qed
    then show ?thesis using cv by (auto split: option.splits intro!: wp_rbind_any dest: stops)
  next
    case False
    then show ?thesis
      using wp_choice_symbol [OF assms(1,2) _ assms(3)] wp_plain_symbol [OF assms(1,2) _ assms(3)]
        assms(4) \<open>SYMBOL_CHECKED \<notin> flags (syms k s)\<close> by simp
  qed
  moreover have "rbind m (\<lambda>(r, k). Inr (if \<not> True \<and> r = Some s then None else r, k)) = m"
    for m :: "(symref option \<times> kconf) res"
    by (cases m) auto
  ultimately show ?thesis using False nc by (simp add: check_deps_body_def Let_def)
qed

end

lemma sym_check_deps_law:
  "s \<in> U \<Longrightarrow> dclosed U k \<Longrightarrow> search_inv k \<Longrightarrow>
   2 * to_check U k + (if sym_is_choice_value (syms k s) then 1 else 0) < n \<Longrightarrow>
   wp {Bad_access} (sym_check_deps n True s k) (Found {s} k)"
proof (induction n arbitrary: s k)
  case (Suc n)
  have "deps_client (sym_check_deps n True) n U"
    by unfold_locales (rule Suc.IH)
  from deps_client.wp_check_body [OF this] Suc.prems show ?case by simp
qed simp

interpretation dc: deps_client "sym_check_deps n True" n U for n U
  by unfold_locales (rule sym_check_deps_law)

section \<open>Properties\<close>










end
