(* ===== verification/Kconfig_Finalize_Props.thy ===== *)
theory Kconfig_Finalize_Props
  imports Kconfig_Tree Kconfig_Expr_Props
begin

text \<open>
  \<open>menu_finalize\<close> moves entries into submenus and out of \<open>if\<close> blocks. It ends, and it
  neither loses nor duplicates nor reorders an entry: the tree stays well linked and its
  entries in preorder stay the same. The contract of the recursive call is a locale.
\<close>

section \<open>Loops over entries\<close>

text \<open>The chain from \<open>p\<close> was \<open>t\<close> in \<open>st\<close> and has the same entries in \<open>st'\<close>; no other entry moved.\<close>

definition Kept :: "mstate \<Rightarrow> nat option \<Rightarrow> nat option \<Rightarrow> forest \<Rightarrow> mstate \<Rightarrow> bool" where
  "Kept st par p t st' \<longleftrightarrow>
     (\<exists>t'. seg st' par p t' None \<and> flat t' = flat t) \<and> same_links (- set (flat t)) st st'"

definition chain :: "mstate \<Rightarrow> nat option \<Rightarrow> nat option \<Rightarrow> forest \<Rightarrow> nat \<Rightarrow> bool" where
  "chain st par p t n \<longleftrightarrow> seg st par p t None \<and> distinct (flat t) \<and> length (flat t) \<le> n"

definition keeps :: "nat option \<Rightarrow> nat \<Rightarrow> finalizer \<Rightarrow> bool" where
  "keeps par n body \<longleftrightarrow>
     (\<forall>m t st. chain st par (Some m) t n \<longrightarrow> wp {Bad_access} (body m st) (Kept st par (Some m) t))"

lemma keepsD: "keeps par n body \<Longrightarrow> chain st par (Some m) t n \<Longrightarrow> wp {Bad_access} (body m st) (Kept st par (Some m) t)"
  by (simp add: keeps_def)

lemma chain_mono: "chain st par p t n \<Longrightarrow> n \<le> k \<Longrightarrow> chain st par p t k"
  by (simp add: chain_def)

lemma Kept_refl: "chain st par p t n \<Longrightarrow> Kept st par p t st"
  by (auto simp: Kept_def chain_def)

lemma Kept_same: "chain st par p t n \<Longrightarrow> same_links UNIV st st' \<Longrightarrow> Kept st par p t st'"
  using seg_cong [of UNIV st st' t] by (auto simp: Kept_def chain_def intro: same_links_mono)

lemma Kept_trans: "flat t' = flat t \<Longrightarrow> Kept st par p t st' \<Longrightarrow> Kept st' par p t' st'' \<Longrightarrow> Kept st par p t st''"
  by (auto simp: Kept_def intro: same_links_trans)

lemma KeptE:
  assumes "Kept st par p t st'" "distinct (flat t)" "length (flat t) \<le> n"
  obtains t' where "chain st' par p t' n" "flat t' = flat t"
  using assms by (auto simp: Kept_def chain_def)

lemma Kept_children:
  assumes "chain st par (Some m) (Entry m c s) n" "Kept st (Some m) (m_list (mn st m)) c st'"
  shows "\<exists>c'. chain st' par (Some m) (Entry m c' s) n \<and> flat c' = flat c \<and> Kept st par (Some m) (Entry m c s) st'"
proof -
  from assms(2) obtain c' where c': "seg st' (Some m) (m_list (mn st m)) c' None" "flat c' = flat c"
      and same: "same_links (- set (flat c)) st st'"
    by (auto simp: Kept_def)
  from assms(1) have out: "m \<notin> set (flat c)" "set (flat s) \<subseteq> - set (flat c)" by (auto simp: chain_def)
  then have "links (mn st' m) = links (mn st m)" using same by (simp add: same_links_def)
  moreover have "seg st' par (m_next (mn st m)) s None"
    using seg_frame [OF _ same out(2)] assms(1) by (simp add: chain_def)
  ultimately have "chain st' par (Some m) (Entry m c' s) n"
    using assms(1) c' by (auto simp: chain_def links_def)
  moreover from this have "Kept st par (Some m) (Entry m c s) st'"
    using c'(2) same by (auto simp: Kept_def chain_def intro!: exI [of _ "Entry m c' s"] intro: same_links_mono)
  ultimately show ?thesis using c'(2) by blast
qed

lemma Kept_rest:
  assumes "chain st par (Some m) (Entry m c s) n" "Kept st par (m_next (mn st m)) s st'"
  shows "Kept st par (Some m) (Entry m c s) st'"
proof -
  from assms(2) obtain s' where s': "seg st' par (m_next (mn st m)) s' None" "flat s' = flat s"
      and same: "same_links (- set (flat s)) st st'"
    by (auto simp: Kept_def)
  from assms(1) have out: "m \<notin> set (flat s)" "set (flat c) \<subseteq> - set (flat s)" by (auto simp: chain_def)
  then have "links (mn st' m) = links (mn st m)" using same by (simp add: same_links_def)
  moreover have "seg st' (Some m) (m_list (mn st m)) c None"
    using seg_frame [OF _ same out(2)] assms(1) by (simp add: chain_def)
  ultimately have "seg st' par (Some m) (Entry m c s') None"
    using assms(1) s' by (auto simp: chain_def links_def)
  then show ?thesis
    using s'(2) same by (auto simp: Kept_def intro!: exI [of _ "Entry m c s'"] intro: same_links_mono)
qed

lemma for_menus_kept:
  assumes "keeps par n body" "chain st par p t n" "length (flat t) \<le> k"
  shows "wp {Bad_access} (for_menus k body p st) (Kept st par p t)"
  using assms(2,3)
proof (induction k arbitrary: p t st)
  case 0
  then have "t = Leaf" by (cases t) auto
  with 0 have "p = None" by (simp add: chain_def)
  with 0 show ?case by (simp add: Kept_refl)
next
  case (Suc k)
  show ?case
  proof (cases p)
    case None
    with Suc.prems show ?thesis by (simp add: Kept_refl)
  next
    case (Some m)
    have "wp {Bad_access} (body m st) (Kept st par (Some m) t)"
      using keepsD [OF assms(1)] Suc.prems(1) Some by blast
    then have "wp {Bad_access} (rbind (body m st) (\<lambda>st. for_menus k body (m_next (mn st m)) st)) (Kept st par p t)"
    proof (rule wp_rbindI)
      fix st1
      assume k1: "Kept st par (Some m) t st1"
      then obtain t1 where t1: "chain st1 par (Some m) t1 n" "flat t1 = flat t"
        using Suc.prems(1) by (auto simp: chain_def elim: KeptE)
      from t1(1) obtain c s where e: "t1 = Entry m c s" using seg_Some [of st1 par m t1] by (auto simp: chain_def)
      from t1 e have "chain st1 par (m_next (mn st1 m)) s n" by (auto simp: chain_def)
      moreover have "length (flat s) \<le> k"
        using Suc.prems(2) unfolding t1(2) [symmetric] e by simp
      ultimately have "wp {Bad_access} (for_menus k body (m_next (mn st1 m)) st1) (Kept st1 par (m_next (mn st1 m)) s)"
        by (rule Suc.IH)
      then show "wp {Bad_access} (for_menus k body (m_next (mn st1 m)) st1) (Kept st par p t)"
        using Kept_rest [OF t1(1) [unfolded e]] Kept_trans [OF t1(2) k1] e Some
        by (auto elim: wp_mono)
    qed
    with Some show ?thesis by simp
  qed
qed

lemma keeps_links:
  assumes "\<And>m st. wp {Bad_access} (body m st) (same_links UNIV st)"
  shows "keeps par n body"
  using wp_mono [OF assms Kept_same] by (auto simp: keeps_def)

section \<open>Operations that leave the links alone\<close>

lemma eliminate_dups_total: "\<exists>x. eliminate_dups st e = Some x"
proof (induction st e rule: eliminate_dups.induct)
  case (1 st e)
  show ?case
  proof (cases e)
    case (E_BIN j l r)
    then have "is_junct j e" by simp
    then obtain e' c where d: "expr_eliminate_dups1 (Suc (size e)) st j e = Some (e', c)"
      using lessI by (rule dups1_total)
    with E_BIN "1.IH" [OF E_BIN d refl] show ?thesis
      by (subst eliminate_dups.simps) auto
  qed (subst eliminate_dups.simps, simp)+
qed

lemma wp_dups_res [simp]: "wp A (dups_res st e) (\<lambda>_. True)"
  using eliminate_dups_total [of st "the e"] by (cases e) (auto simp: dups_res_def expr_eliminate_dups_def)

lemma wp_below_dep: "wp A (below_dep k d e) (\<lambda>_. True)"
  by (simp add: below_dep_def)

lemma wp_prop_dep: "wp A (prop_dep k s d e) (\<lambda>_. True)"
  unfolding prop_dep_def by (rule wp_rbindI [OF wp_below_dep]) simp

lemma wp_not_no_dep: "wp A (not_no_dep k e) (\<lambda>_. True)"
  by (simp add: not_no_dep_def)

lemma wp_prop_get_symbol: "wp {Bad_access} (prop_get_symbol p) (\<lambda>_. True)"
  by (auto simp: prop_get_symbol_def split: option.splits payload.splits expr.splits list.splits)

lemma wp_add_reverse: "wp {Bad_access} (add_reverse p s d k) (\<lambda>_. True)"
  unfolding add_reverse_def
  by (auto intro!: wp_rbindI [OF wp_prop_get_symbol] split: option.splits)

lemma wp_finalize_sym_prop: "wp {Bad_access} (finalize_sym_prop m s d i k) (\<lambda>_. True)"
  unfolding finalize_sym_prop_def Let_def
  by (auto intro!: wp_rbindI [OF wp_prop_dep] wp_add_reverse)

lemma wp_finalize_child: "wp {Bad_access} (finalize_child d m st) (same_links UNIV st)"
proof -
  have 1: "same_links UNIV st (mupd m (\<lambda>x. x\<lparr>m_dep := b\<rparr>) st)" for b
    by (rule same_links_upd) (simp add: links_def)
  show ?thesis
    unfolding finalize_child_def Let_def
  proof (rule wp_rbindI [OF wp_below_dep], goal_cases)
    case (1 b)
    let ?st = "mupd m (\<lambda>x. x\<lparr>m_dep := b\<rparr>) st"
    have st1: "same_links UNIV st ?st"
      by (rule same_links_upd) (simp add: links_def)
    have k: "same_links UNIV st (?st\<lparr>mk := k\<rparr>)" for k
      using st1 by (simp add: same_links_def)
    have r: "same_links UNIV st ((mupd m (\<lambda>x. x\<lparr>m_prompt := q\<rparr>) ?st)\<lparr>mk := k\<rparr>)" for q k
      using st1 by (simp add: same_links_def links_def)
    show ?case
      using st1 k r
      by (auto split: option.split prompt_ref.split
          intro!: wp_rbindI [OF wp_rfold [where I = "\<lambda>_. True"]] wp_finalize_sym_prop
            wp_rbindI [OF wp_prop_dep] wp_rbindI [OF wp_add_reverse])
  qed
qed

lemma wp_menu_set_type: "wp {Bad_access} (menu_set_type t st) (\<lambda>st'. mn st' = mn st)"
  by (auto simp: menu_set_type_def split: option.split)

lemma wp_inherit: "wp {Bad_access} (inherit_choice_type s m st) (same_links UNIV st)"
proof -
  have "wp {Bad_access} (menu_set_type t (st\<lparr>current_entry := m\<rparr>)) (same_links UNIV st)" for t
    using wp_menu_set_type [of t "st\<lparr>current_entry := m\<rparr>"] by (rule wp_mono) (simp add: same_links_def)
  then show ?thesis
    by (auto simp: inherit_choice_type_def Let_def same_links_def split: option.split)
qed

lemma wp_first_type:
  "seg st par p t None \<Longrightarrow> length (flat t) \<le> n \<Longrightarrow> wp {Bad_access} (first_type n st p) (\<lambda>_. True)"
proof (induction n arbitrary: p t)
  case 0
  then have "t = Leaf" by (cases t) auto
  with 0 show ?case by auto
next
  case (Suc n)
  then show ?case by (cases t) (auto split: option.split)
qed

lemma wp_infer_choice_type:
  assumes "chain st par (m_list (mn st m)) c n"
  shows "wp {Bad_access} (infer_choice_type n m s st) (\<lambda>st'. mn st' = mn st)"
proof -
  let ?st = "st\<lparr>current_entry := m\<rparr>"
  have "wp {Bad_access} (first_type n ?st (m_list (mn ?st m))) (\<lambda>_. True)"
    using assms by (auto simp: chain_def intro!: wp_first_type)
  moreover have "wp {Bad_access} (menu_set_type t ?st) (\<lambda>st'. mn st' = mn st)" for t
    using wp_menu_set_type [of t ?st] by (rule wp_mono) simp
  ultimately show ?thesis
    unfolding infer_choice_type_def Let_def
    by (auto intro!: wp_rbindI [where P = "\<lambda>_. True"] split: option.split)
qed

lemma mn_require_yes: "same_links UNIV st (require_yes m s y st)"
  by (auto simp: require_yes_def Let_def same_links_def links_def)

lemma wp_append_value: "wp {Bad_access} (append_value y ps) (\<lambda>_. True)"
  by (induction ps) (auto intro!: wp_rbindI [where P = "\<lambda>_. True"] split: option.split payload.split)

lemma wp_setup_choice_value: "wp {Bad_access} (setup_choice_value s m st) (same_links UNIV st)"
proof -
  have "wp {Bad_access} (add_choice_value m c y st) (same_links UNIV st)" for c y
  proof -
    let ?st = "require_yes m c y (on_mk (set_flag y SYMBOL_CHOICEVAL) (st\<lparr>current_entry := m\<rparr>))"
    have "same_links UNIV st ?st"
      using mn_require_yes [of "on_mk (set_flag y SYMBOL_CHOICEVAL) (st\<lparr>current_entry := m\<rparr>)"]
      by (simp add: same_links_def)
    moreover have "same_links UNIV ?st (menu_add_symbol P_CHOICE c None ?st)"
      using keeps_menu_add_symbol by (simp add: keeps_tree_def)
    ultimately have "same_links UNIV st (menu_add_symbol P_CHOICE c None ?st)"
      by (rule same_links_trans)
    then show ?thesis
      unfolding add_choice_value_def Let_def
      by (intro wp_rbindI [OF wp_append_value]) (simp add: same_links_def)
  qed
  then show ?thesis
    by (auto simp: setup_choice_value_def split: option.split)
qed

section \<open>Flattening\<close>

lemma wp_adopt:
  assumes "seg st par (Some l) t None" "distinct (flat t)" "length (flat t) \<le> n"
  shows "wp {Bad_access} (adopt n parent l st)
    (\<lambda>(z, st'). seg st' (Some parent) (Some l) t None \<and> z = last (tops t) \<and> same_links (- set (flat t)) st st')"
  using assms
proof (induction n arbitrary: l t st)
  case 0
  then show ?case by (cases t) auto
next
  case (Suc n)
  from Suc.prems(1) obtain c s where t: "t = Entry l c s" using seg_Some by blast
  let ?st = "mupd l (\<lambda>x. x\<lparr>m_parent := Some parent\<rparr>) st"
  from Suc.prems t have out: "l \<notin> set (flat c)" "l \<notin> set (flat s)" by auto
  have c: "seg ?st (Some l) (m_list (mn st l)) c None" and s: "seg ?st par (m_next (mn st l)) s None"
    using Suc.prems t seg_frame [OF _ same_links_mupd [OF out(1)]] seg_frame [OF _ same_links_mupd [OF out(2)]]
    by auto
  have l: "same_links (- set (flat t)) st ?st" using t by (auto intro: same_links_mupd)
  show ?case
  proof (cases "m_next (mn st l)")
    case None
    with s have "s = Leaf" using seg_None by auto
    with t c l None Suc.prems show ?thesis by auto
  next
    case (Some l')
    have "wp {Bad_access} (adopt n parent l' ?st)
      (\<lambda>(z, st'). seg st' (Some parent) (Some l') s None \<and> z = last (tops s) \<and> same_links (- set (flat s)) ?st st')"
      using s Some Suc.prems t by (intro Suc.IH) auto
    moreover have "seg st' (Some parent) (Some l) t None \<and> last (tops s) = last (tops t) \<and> same_links (- set (flat t)) st st'"
      if "seg st' (Some parent) (Some l') s None" "same_links (- set (flat s)) ?st st'" for st'
    proof -
      have "links (mn st' l) = links (mn ?st l)" using that(2) out(2) by (simp add: same_links_def)
      moreover have "seg st' (Some l) (m_list (mn st l)) c None"
        using c that(2) Suc.prems(2) t by (auto intro: seg_frame)
      moreover have "same_links (- set (flat t)) st st'"
        by (rule same_links_trans [OF l same_links_mono [OF that(2)]]) (use t in auto)
      moreover have "s \<noteq> Leaf" using s Some by auto
      ultimately show ?thesis using that(1) Some t by (auto simp: links_def)
    qed
    ultimately show ?thesis using Some by (auto elim!: wp_mono)
  qed
qed

lemma wp_flatten_entry:
  assumes "chain st (Some parent) (Some m) t n"
  shows "wp {Bad_access} (flatten_entry n parent m st) (Kept st (Some parent) (Some m) t)"
proof (cases "m_list (mn st m) = None \<or> has_prompt_text st m")
  case True
  with assms show ?thesis by (auto simp: flatten_entry_def Kept_refl split: option.split)
next
  case False
  then obtain l where l: "m_list (mn st m) = Some l" by auto
  from assms obtain c s where t: "t = Entry m c s" using seg_Some [of st "Some parent" m t] by (auto simp: chain_def)
  have d: "distinct (flat c)" "distinct (flat s)" "m \<notin> set (flat c)" "m \<notin> set (flat s)"
      "set (flat c) \<inter> set (flat s) = {}" "length (flat c) \<le> n"
    and c: "seg st (Some m) (Some l) c None" and s: "seg st (Some parent) (m_next (mn st m)) s None"
    and par: "m_parent (mn st m) = Some parent"
    using assms t l by (auto simp: chain_def)
  have "c \<noteq> Leaf" using c by auto
  then have lastc: "last (tops c) \<in> set (flat c)" using tops_flat [of c] last_in_set [of "tops c"] by auto
  have "Kept st (Some parent) (Some m) t
      (mupd m (\<lambda>x. x\<lparr>m_next := m_list x, m_list := None\<rparr>)
        (mupd (last (tops c)) (\<lambda>x. x\<lparr>m_next := m_next (mn st1 m)\<rparr>) st1))" (is "Kept _ _ _ _ (mupd m ?f ?st2)")
    if st1: "seg st1 (Some parent) (Some l) c None" and same: "same_links (- set (flat c)) st st1" for st1
  proof -
    have m1: "links (mn st1 m) = links (mn st m)" using same d by (simp add: same_links_def)
    have "seg ?st2 (Some parent) (Some l) c (m_next (mn st m))"
      using seg_relink [OF st1 \<open>c \<noteq> Leaf\<close> d(1) refl] m1 by (simp add: links_def)
    moreover have same2: "same_links (- set (flat c)) st ?st2"
      using same_links_trans [OF same same_links_mupd] lastc by blast
    then have "seg ?st2 (Some parent) (m_next (mn st m)) s None"
      using s d(5) by (intro seg_frame [OF s same2]) auto
    ultimately have "seg ?st2 (Some parent) (Some l) (app c s) None" by (auto simp: seg_app)
    then have a: "seg (mupd m ?f ?st2) (Some parent) (Some l) (app c s) None"
      using d by (auto intro: seg_frame [OF _ same_links_mupd [of m "set (flat (app c s))"]])
    have "m \<noteq> last (tops c)" using lastc d by auto
    with a m1 l par have "seg (mupd m ?f ?st2) (Some parent) (Some m) (Entry m Leaf (app c s)) None"
      by (simp add: links_def)
    moreover have "same_links (- set (flat t)) st (mupd m ?f ?st2)"
      using same_links_trans [OF same_links_mono [OF same2] same_links_mupd [of m "- set (flat t)"]] t by auto
    ultimately show ?thesis
      using t by (auto simp: Kept_def intro!: exI [of _ "Entry m Leaf (app c s)"])
  qed
  with wp_adopt [OF c d(1,6), of parent] l False show ?thesis
    by (auto simp: flatten_entry_def Let_def intro!: wp_rbindI)
qed

lemma keeps_finalize_entry: "keeps (Some parent) n (finalize_entry n parent s)"
  unfolding keeps_def
proof (intro allI impI)
  fix m t st
  assume c: "chain st (Some parent) (Some m) t n"
  show "wp {Bad_access} (finalize_entry n parent s m st) (Kept st (Some parent) (Some m) t)"
    unfolding finalize_entry_def
  proof (rule wp_rbindI [OF wp_setup_choice_value])
    fix st1
    assume same: "same_links UNIV st st1"
    then have "chain st1 (Some parent) (Some m) t n"
      using c seg_cong [OF same] by (simp add: chain_def)
    then show "wp {Bad_access} (flatten_entry n parent m st1) (Kept st (Some parent) (Some m) t)"
      using Kept_trans [OF refl Kept_same [OF c same]] by (blast intro: wp_mono wp_flatten_entry)
  qed
qed

section \<open>The contract of the recursive call\<close>

text \<open>
  What the body of \<open>menu_finalize\<close> relies on when it calls itself for entries of the
  chains below and after its own: those calls keep the entries of chains that are
  shorter than the bound.
\<close>

locale finalizer_client =
  fixes fin :: finalizer and k :: nat and n :: nat
  assumes fin_keeps: "keeps par k fin"
    and bound: "k \<le> n"
begin

text \<open>What the loop over the following entries has moved, and what it has left.\<close>

definition Collected :: "mstate \<Rightarrow> nat option \<Rightarrow> nat \<Rightarrow> nat option \<Rightarrow> forest \<Rightarrow> nat option \<Rightarrow> nat option \<times> mstate \<Rightarrow> bool" where
  "Collected st par parent p t l0 r \<longleftrightarrow>
     (\<exists>mv rest q. seg (snd r) (Some parent) p mv q \<and> seg (snd r) par q rest None \<and>
        flat mv @ flat rest = flat t \<and> fst r = (if mv = Leaf then l0 else Some (last (tops mv)))) \<and>
     same_links (- set (flat t)) st (snd r)"

lemma Collected_stop: "chain st par p t j \<Longrightarrow> Collected st par parent p t l0 (l0, st)"
  unfolding Collected_def
  by (intro conjI exI [of _ Leaf] exI [of _ t] exI [of _ p]) (auto simp: chain_def)

lemma Collected_step:
  assumes t1: "chain st1 par (Some m) (Entry m c s) j" "m # flat c @ flat s = flat t"
    and same1: "same_links (- set (flat t)) st st1"
    and r: "Collected (mupd m (\<lambda>x. x\<lparr>m_parent := Some parent\<rparr>) st1) par parent (m_next (mn st1 m)) s (Some m) r"
  shows "Collected st par parent (Some m) t l0 r"
proof -
  let ?st = "mupd m (\<lambda>x. x\<lparr>m_parent := Some parent\<rparr>) st1"
  from r obtain mv rest q where mv: "seg (snd r) (Some parent) (m_next (mn st1 m)) mv q" "seg (snd r) par q rest None"
      "flat mv @ flat rest = flat s" "fst r = (if mv = Leaf then Some m else Some (last (tops mv)))"
      and same: "same_links (- set (flat s)) ?st (snd r)"
    unfolding Collected_def by blast
  from t1 have out: "m \<notin> set (flat c)" "m \<notin> set (flat s)" "set (flat c) \<subseteq> - set (flat s)" "m \<in> set (flat t)"
      "set (flat s) \<subseteq> set (flat t)"
    unfolding t1(2) [symmetric] by (auto simp: chain_def)
  have "links (mn (snd r) m) = links (mn ?st m)" using same out by (simp add: same_links_def)
  moreover have "seg (snd r) (Some m) (m_list (mn st1 m)) c None"
    using t1 out by (auto simp: chain_def intro!: seg_frame [OF seg_frame [OF _ same_links_mupd [OF out(1)]] same])
  ultimately have "seg (snd r) (Some parent) (Some m) (Entry m c mv) q"
    using mv(1) by (simp add: links_def)
  moreover have "same_links (- set (flat t)) st (snd r)"
    using same_links_trans [OF same_links_trans [OF same1 same_links_mupd] same_links_mono [OF same]] out
    by (simp add: Compl_anti_mono)
  moreover have "flat (Entry m c mv) @ flat rest = flat t" using mv(3) t1(2) by simp
  moreover have "fst r = Some (last (tops (Entry m c mv)))" using mv(4) by simp
  ultimately show ?thesis
    unfolding Collected_def using mv(2) by (metis forest.distinct(1))
qed

lemma wp_in_submenu: "wp {Bad_access} (in_submenu st s b m) (\<lambda>_. True)"
  unfolding in_submenu_def by (auto intro!: wp_rbindI [OF wp_not_no_dep] split: option.split)

lemma wp_collect:
  assumes "chain st par p t k" "length (flat t) \<le> j"
  shows "wp {Bad_access} (collect_submenu j fin parent s b p l0 st) (Collected st par parent p t l0)"
  using assms
proof (induction j arbitrary: st p t l0)
  case 0
  then have "t = Leaf" by (cases t) auto
  with 0 have "p = None" by (simp add: chain_def)
  with 0 show ?case by (simp add: Collected_stop)
next
  case (Suc j)
  show ?case
  proof (cases p)
    case None
    with Suc.prems show ?thesis by (simp add: Collected_stop)
  next
    case (Some m)
    have fin: "wp {Bad_access} (fin m st) (Kept st par (Some m) t)"
      using keepsD [OF fin_keeps] Suc.prems(1) Some by blast
    have "wp {Bad_access} (collect_submenu j fin parent s b (m_next (mn st1 m)) (Some m)
        (mupd m (\<lambda>x. x\<lparr>m_parent := Some parent\<rparr>) st1)) (Collected st par parent p t l0)"
      if k1: "Kept st par (Some m) t st1" for st1
    proof -
      let ?st = "mupd m (\<lambda>x. x\<lparr>m_parent := Some parent\<rparr>) st1"
      obtain t1 where t1: "chain st1 par (Some m) t1 k" "flat t1 = flat t"
        using Suc.prems(1) k1 by (auto simp: chain_def elim: KeptE)
      from t1(1) obtain c r where e: "t1 = Entry m c r"
        using seg_Some [of st1 par m t1] by (auto simp: chain_def)
      have out: "m \<notin> set (flat r)" using t1(1) e by (auto simp: chain_def)
      have "chain ?st par (m_next (mn st1 m)) r k"
        using t1(1) e seg_frame [OF _ same_links_mupd [OF out]] by (auto simp: chain_def)
      moreover have "length (flat r) \<le> j"
        using Suc.prems(2) unfolding t1(2) [symmetric] e by simp
      ultimately have "wp {Bad_access} (collect_submenu j fin parent s b (m_next (mn st1 m)) (Some m) ?st)
          (Collected ?st par parent (m_next (mn st1 m)) r (Some m))"
        by (rule Suc.IH)
      then show ?thesis
      proof (rule wp_mono)
        show "Collected st par parent p t l0 x" if "Collected ?st par parent (m_next (mn st1 m)) r (Some m) x" for x
          unfolding Some
        proof (rule Collected_step [OF t1(1) [unfolded e] _ _ that])
          show "m # flat c @ flat r = flat t" using t1(2) e by simp
          show "same_links (- set (flat t)) st st1" using k1 by (simp add: Kept_def)
        qed
      qed
    qed
    with fin Some Suc.prems(1) show ?thesis
      by (auto intro!: wp_rbindI [OF wp_in_submenu] wp_rbindI [OF fin] Collected_stop simp: Let_def)
  qed
qed

lemma Kept_hang:
  assumes ch: "chain st par (Some m) (Entry m Leaf s) j"
    and col: "Collected st par m (m_next (mn st m)) s None (lst, st1)"
  shows "Kept st par (Some m) (Entry m Leaf s) (hang_submenu m lst st1)"
proof -
  from col obtain mv rest q where mv: "seg st1 (Some m) (m_next (mn st m)) mv q" "seg st1 par q rest None"
      "flat mv @ flat rest = flat s" "lst = (if mv = Leaf then None else Some (last (tops mv)))"
      and same: "same_links (- set (flat s)) st st1"
    unfolding Collected_def by auto
  from ch have d: "m \<notin> set (flat s)" "distinct (flat s)" "m_list (mn st m) = None" "m_parent (mn st m) = par"
    by (auto simp: chain_def)
  then have m1: "links (mn st1 m) = links (mn st m)" using same by (simp add: same_links_def)
  from d(1,2) have d2: "distinct (flat mv)" "m \<notin> set (flat mv)" "m \<notin> set (flat rest)"
      "set (flat mv) \<inter> set (flat rest) = {}"
    unfolding mv(3) [symmetric] by auto
  show ?thesis
  proof (cases "mv = Leaf")
    case True
    with mv same have "Kept st par (m_next (mn st m)) s st1" by (auto simp: Kept_def)
    with Kept_rest [OF ch] mv(4) True show ?thesis by (simp add: hang_submenu_def)
  next
    case False
    let ?l = "last (tops mv)"
    have l: "?l \<in> set (flat mv)" using False tops_flat [of mv] last_in_set [of "tops mv"] by auto
    let ?st2 = "mupd m (\<lambda>x. x\<lparr>m_list := m_next x\<rparr>) st1"
    let ?st3 = "mupd m (\<lambda>x. x\<lparr>m_next := m_next (mn ?st2 ?l)\<rparr>) ?st2"
    let ?st4 = "mupd ?l (\<lambda>x. x\<lparr>m_next := None\<rparr>) ?st3"
    have h: "hang_submenu m lst st1 = ?st4" using mv(4) False by (simp add: hang_submenu_def Let_def)
    have lm: "?l \<noteq> m" using l d2 by auto
    have q: "m_next (mn st1 ?l) = q" by (rule seg_last_next [OF mv(1) False])
    have s13: "same_links (- {m}) st1 ?st3"
      by (rule same_links_trans [OF same_links_mupd same_links_mupd]) auto
    have s14: "same_links (- {m, ?l}) st1 ?st4"
      by (rule same_links_trans [OF same_links_mono [OF s13] same_links_mupd]) auto
    have "seg ?st3 (Some m) (m_next (mn st m)) mv q"
      by (rule seg_frame [OF mv(1) s13]) (use d2 in auto)
    then have "seg ?st4 (Some m) (m_next (mn st m)) mv None"
      by (rule seg_relink [OF _ False d2(1) refl])
    moreover have "seg ?st4 par q rest None"
      by (rule seg_frame [OF mv(2) s14]) (use d2 l in auto)
    ultimately have "seg ?st4 par (Some m) (Entry m mv rest) None"
      using m1 d(4) lm q by (simp add: links_def)
    moreover have "same_links (- set (flat (Entry m Leaf s))) st ?st4"
      by (rule same_links_trans [OF same_links_mono [OF same] same_links_mono [OF s14]])
        (use l in \<open>auto simp: mv(3) [symmetric]\<close>)
    ultimately show ?thesis
      unfolding h Kept_def using mv(3) by (auto intro!: exI [of _ "Entry m mv rest"])
  qed
qed

lemma wp_create_submenu:
  assumes ch: "chain st par (Some m) (Entry m Leaf s) (Suc k)"
  shows "wp {Bad_access} (create_submenu n fin m y st) (Kept st par (Some m) (Entry m Leaf s))"
proof -
  have c: "chain st par (m_next (mn st m)) s k" using ch by (auto simp: chain_def)
  have len: "length (flat s) \<le> n" using c bound by (simp add: chain_def)
  have "Kept st par (Some m) (Entry m Leaf s) (on_mk f (hang_submenu m l st1))"
    if "Collected st par m (m_next (mn st m)) s None (l, st1)" for l st1 f
    using Kept_hang [OF ch that] unfolding Kept_def by (auto simp: same_links_def)
  then show ?thesis
    unfolding create_submenu_def Let_def
    by (auto intro!: wp_rbindI [OF wp_not_no_dep] wp_rbindI [OF wp_collect [OF c len]])
qed

text \<open>The lists below the entry \<open>m\<close> have changed, but not their entries.\<close>

definition Below :: "mstate \<Rightarrow> nat option \<Rightarrow> nat \<Rightarrow> forest \<Rightarrow> forest \<Rightarrow> mstate \<Rightarrow> bool" where
  "Below st par m c s st' \<longleftrightarrow>
     (\<exists>c'. chain st' par (Some m) (Entry m c' s) (Suc k) \<and> flat c' = flat c) \<and> Kept st par (Some m) (Entry m c s) st'"

lemma Below_same:
  assumes "chain st par (Some m) (Entry m c s) (Suc k)" "mn st' = mn st"
  shows "Below st par m c s st'"
proof -
  have "seg st' par (Some m) (Entry m c s) None = seg st par (Some m) (Entry m c s) None"
    by (rule seg_mn [OF assms(2)])
  with assms Kept_same [OF assms(1) same_links_mn [OF assms(2)]] show ?thesis
    unfolding Below_def chain_def by blast
qed

lemma wp_Below_loop:
  assumes "Below st par m c s st1" "keeps (Some m) n body"
  shows "wp {Bad_access} (for_menus n body (m_list (mn st1 m)) st1) (Below st par m c s)"
proof -
  from assms(1) obtain c1 where c1: "chain st1 par (Some m) (Entry m c1 s) (Suc k)" "flat c1 = flat c"
    by (auto simp: Below_def)
  then have "chain st1 (Some m) (m_list (mn st1 m)) c1 n" "length (flat c1) \<le> n"
    using bound by (auto simp: chain_def)
  from for_menus_kept [OF assms(2) this] show ?thesis
  proof (rule wp_mono)
    fix st2
    assume "Kept st1 (Some m) (m_list (mn st1 m)) c1 st2"
    with Kept_children [OF c1(1)] obtain c2 where "chain st2 par (Some m) (Entry m c2 s) (Suc k)" "flat c2 = flat c1"
        "Kept st1 par (Some m) (Entry m c1 s) st2" by blast
    with c1(2) assms(1) show "Below st par m c s st2"
      by (auto simp: Below_def intro: Kept_trans [of "Entry m c1 s" "Entry m c s" st _ _ st1])
  qed
qed

lemma wp_set_choice_types:
  assumes "chain st par (Some m) (Entry m c s) (Suc k)"
  shows "wp {Bad_access} (set_choice_types n m y st) (Below st par m c s)"
proof -
  have "chain st (Some m) (m_list (mn st m)) c n" using assms bound by (auto simp: chain_def)
  from wp_infer_choice_type [OF this] show ?thesis
    unfolding set_choice_types_def
  proof (rule wp_rbindI)
    fix st1 :: mstate
    assume "mn st1 = mn st"
    with Below_same [OF assms] have "Below st par m c s st1" by blast
    then show "wp {Bad_access} (for_menus n (inherit_choice_type y) (m_list (mn st1 m)) st1) (Below st par m c s)"
      using keeps_links [OF wp_inherit] by (rule wp_Below_loop)
  qed
qed

lemma keeps_fin_loop:
  assumes "Below st par m c s st1"
  shows "wp {Bad_access} (for_menus n fin (m_list (mn st1 m)) st1) (Kept st par (Some m) (Entry m c s))"
proof -
  from assms obtain c1 where c1: "chain st1 par (Some m) (Entry m c1 s) (Suc k)" "flat c1 = flat c"
      and k1: "Kept st par (Some m) (Entry m c s) st1"
    by (auto simp: Below_def)
  then have "chain st1 (Some m) (m_list (mn st1 m)) c1 k" "length (flat c1) \<le> n"
    using bound by (auto simp: chain_def)
  from for_menus_kept [OF fin_keeps this] show ?thesis
    by (rule wp_mono) (use Kept_children [OF c1(1)] Kept_trans [OF _ k1, of "Entry m c1 s"] c1(2) in auto)
qed

lemma wp_finalize_children:
  assumes ch: "chain st par (Some m) (Entry m c s) (Suc k)"
  shows "wp {Bad_access} (finalize_children n fin m st) (Kept st par (Some m) (Entry m c s))"
proof -
  let ?start = "case is_choice_menu st m of
      Some y \<Rightarrow> rbind (set_choice_types n m y st) (\<lambda>st. Inr (Some (E_SYMBOL y), st))
    | None \<Rightarrow> Inr (m_dep (mn st m), st)"
  have "wp {Bad_access} ?start (\<lambda>(d, st1). Below st par m c s st1)"
    using Below_same [OF ch refl]
    by (auto split: option.split intro!: wp_rbindI [OF wp_set_choice_types [OF ch]])
  then show ?thesis
    unfolding finalize_children_def
  proof (rule wp_rbindI)
    fix x :: "expr option \<times> mstate"
    assume "case x of (d, st1) \<Rightarrow> Below st par m c s st1"
    then obtain d st1 where x: "x = (d, st1)" and b: "Below st par m c s st1" by (cases x) auto
    have "wp {Bad_access} (for_menus n (finalize_child d) (m_list (mn st1 m)) st1) (Below st par m c s)"
      using b keeps_links [OF wp_finalize_child] by (rule wp_Below_loop)
    then have "wp {Bad_access} (rbind (for_menus n (finalize_child d) (m_list (mn st1 m)) st1)
        (\<lambda>st. for_menus n fin (m_list (mn st m)) st)) (Kept st par (Some m) (Entry m c s))"
      by (rule wp_rbindI) (rule keeps_fin_loop)
    then show "wp {Bad_access} (case x of (d, st) \<Rightarrow> rbind (for_menus n (finalize_child d) (m_list (mn st m)) st)
        (\<lambda>st. for_menus n fin (m_list (mn st m)) st)) (Kept st par (Some m) (Entry m c s))"
      by (simp add: x)
  qed
qed

lemma wp_finalize_entries:
  assumes ch: "chain st par (Some m) t (Suc k)"
  shows "wp {Bad_access} (for_menus n (finalize_entry n m y) (m_list (mn st m)) st) (Kept st par (Some m) t)"
proof -
  from ch obtain c s where t: "t = Entry m c s" using seg_Some [of st par m t] by (auto simp: chain_def)
  from wp_Below_loop [OF Below_same [OF ch [unfolded t] refl] keeps_finalize_entry] show ?thesis
    unfolding t by (rule wp_mono) (simp add: Below_def)
qed

end

section \<open>The whole function\<close>

lemma wp_check_prop: "wp {Bad_access} (sym_check_prop k s) (\<lambda>_. True)"
proof -
  have number: "wp {Bad_access} (menu_validate_number k s b) (\<lambda>_. True)" for b
    by (auto simp: menu_validate_number_def Let_def split: option.split)
  have default: "wp {Bad_access} (check_default_symbol k s b) (\<lambda>_. True)" for b
    unfolding check_default_symbol_def
    by (auto intro!: wp_rbindI [where P = "\<lambda>_. True"] number wp_prop_get_symbol split: option.split)
  have "wp {Bad_access} (check_prop k s p) (\<lambda>_. True)" for p
    unfolding check_prop_def check_default_def check_select_def check_range_def
    by (auto intro!: wp_rbindI [where P = "\<lambda>_. True"] number default wp_prop_get_symbol
        simp: deref_def split: option.split payload.split expr.split)
  then show ?thesis
    unfolding sym_check_prop_def by (auto intro!: wp_rfold wp_rbindI [where P = "\<lambda>_. True"])
qed

lemma wp_finalize_warnings: "wp {Bad_access} (finalize_warnings y st) (\<lambda>st'. mn st' = mn st)"
  unfolding finalize_warnings_def by (auto split: option.split intro!: wp_rbindI [OF wp_check_prop])

lemma mn_force_choice_mode: "mn (force_choice_mode m y st) = mn st"
  by (auto simp: force_choice_mode_def split: option.split)

context finalizer_client
begin

lemma body_keeps: "keeps par (min (Suc k) n) (finalize_body n fin)"
  unfolding keeps_def
proof (intro allI impI)
  fix m t st
  assume "chain st par (Some m) t (min (Suc k) n)"
  then have ch: "chain st par (Some m) t (Suc k)" by (rule chain_mono) simp
  then obtain c s where t: "t = Entry m c s" using seg_Some [of st par m t] by (auto simp: chain_def)
  let ?first = "if m_list (mn st m) \<noteq> None then finalize_children n fin m st
      else (case m_sym (mn st m) of Some y \<Rightarrow> create_submenu n fin m y st | None \<Rightarrow> Inr st)"
  have first: "wp {Bad_access} ?first (Kept st par (Some m) t)"
  proof (cases "m_list (mn st m)")
    case None
    then have "c = Leaf" using ch t seg_None by (auto simp: chain_def)
    with None ch t wp_create_submenu [of st par m s] Kept_refl [OF ch] show ?thesis
      by (auto split: option.split)
  next
    case (Some l)
    with ch t wp_finalize_children [of st par m c s] show ?thesis by simp
  qed
  show "wp {Bad_access} (finalize_body n fin m st) (Kept st par (Some m) t)"
    unfolding finalize_body_def Let_def
  proof (rule wp_rbindI [OF first])
    fix st1
    assume k1: "Kept st par (Some m) t st1"
    then obtain t1 where t1: "chain st1 par (Some m) t1 (Suc k)" "flat t1 = flat t"
      using ch by (auto simp: chain_def elim: KeptE)
    have "wp {Bad_access} (for_menus n (finalize_entry n m (m_sym (mn st m))) (m_list (mn st1 m)) st1) (Kept st par (Some m) t)"
      using wp_finalize_entries [OF t1(1)] by (rule wp_mono) (rule Kept_trans [OF t1(2) k1])
    then show "wp {Bad_access} (rbind (for_menus n (finalize_entry n m (m_sym (mn st m))) (m_list (mn st1 m)) st1) (\<lambda>st'.
        rbind (finalize_warnings (m_sym (mn st m)) st') (\<lambda>st'. Inr (force_choice_mode m (m_sym (mn st m)) st'))))
        (Kept st par (Some m) t)"
    proof (rule wp_rbindI)
      fix st2
      assume k2: "Kept st par (Some m) t st2"
      have "Kept st par (Some m) t st'" if "mn st' = mn st2" for st'
        using k2 seg_mn [OF that] unfolding Kept_def same_links_def by (simp add: that)
      then show "wp {Bad_access} (rbind (finalize_warnings (m_sym (mn st m)) st2)
          (\<lambda>st'. Inr (force_choice_mode m (m_sym (mn st m)) st'))) (Kept st par (Some m) t)"
        by (auto intro!: wp_rbindI [OF wp_finalize_warnings] simp: mn_force_choice_mode)
    qed
  qed
qed

end

lemma menu_finalize_keeps: "keeps par (min d n) (menu_finalize d n)"
proof (induction d arbitrary: par)
  case 0
  then show ?case by (auto simp: keeps_def chain_def dest: seg_Some)
next
  case (Suc d)
  then have "finalizer_client (menu_finalize d n) (min d n) n" by unfold_locales auto
  from finalizer_client.body_keeps [OF this, of par] show ?case
    by (auto simp: keeps_def min_def split: if_splits)
qed

interpretation mf: finalizer_client "menu_finalize d n" "min d n" n for d n
  by unfold_locales (auto intro: menu_finalize_keeps)

end
