(* ===== verification/Kconfig_Menu_Props.thy ===== *)
theory Kconfig_Menu_Props
  imports Kconfig_Finalize_Props
begin

text \<open>
  Properties of the menu tree: the parser's calls build it in the order of the
  declarations, \<open>menu_finalize\<close> keeps every entry, and what it writes as the condition of
  an entry or of a property has the value of the parent's condition and its own.
\<close>

section \<open>Values of conditions\<close>




lemma value_alloc_or:
  "a \<noteq> None \<Longrightarrow> b \<noteq> None \<Longrightarrow>
   expr_value_ptr k (expr_alloc_or a b) = EXPR_OR (expr_value_ptr k a) (expr_value_ptr k b)"
  by (auto simp: expr_alloc_or_def expr_value_ptr_def)

lemma copy_ptr [simp]: "map_option expr_copy p = p"
  by (cases p) auto



text \<open>Two configurations with the same values.\<close>

definition same_vals :: "kconf \<Rightarrow> kconf \<Rightarrow> bool" where
  "same_vals k k' \<longleftrightarrow>
     modules_sym k' = modules_sym k \<and>
     (\<forall>s. sym_type (syms k' s) = sym_type (syms k s) \<and> curr_val (syms k' s) = curr_val (syms k s) \<and>
        curr_tri (syms k' s) = curr_tri (syms k s) \<and> flags (syms k' s) = flags (syms k s))"

lemma same_vals_refl [simp]: "same_vals k k"
  by (simp add: same_vals_def)












text \<open>An empty root menu, and the entry of the symbol \<open>A\<close> in it.\<close>

definition menu_start :: mstate where
  "menu_start =
     \<lparr>mk = demo_conf,
      mn = (\<lambda>_. \<lparr>m_next = None, m_parent = None, m_list = None, m_sym = None, m_prompt = NoPrompt,
                m_visibility = None, m_dep = None\<rparr>),
      mbrk = 1, current_entry = 0, current_menu = 0, last_entry_ptr = ListOf 0\<rparr>"

definition menu_demo :: mstate where
  "menu_demo = menu_add_entry (Some (SymAt 0)) (menu_init menu_start)"

lemmas menu_demo_defs =
  menu_demo_def menu_start_def menu_init_def menu_add_entry_def menu_add_symbol_def menu_add_prop_def
  append_prop_def new_prop_def set_entry_ptr_def mupd_def on_mk_def Let_def



section \<open>The order of the entries\<close>

text \<open>
  C16. Any sequence of the calls the parser makes from the empty root menu leaves a tree
  whose pointers are consistent (every entry is in the list of its parent) and whose
  entries are, in preorder, in the order in which they were declared.
\<close>

theorem builds_in_order:
  assumes "builds st0 st" "mbrk st0 = 1" "blank None (mn st0 0)"
  shows "\<exists>t. seg st None (Some 0) t None \<and> flat t = [0..<mbrk st]"
  using builds_built [OF assms] by (auto simp: built_def)

theorem builds_in_order_witness:
  "\<exists>t. seg (menu_add_entry None (menu_add_menu menu_demo)) None (Some 0) t None \<and>
     flat t = [0..<mbrk (menu_add_entry None (menu_add_menu menu_demo))] \<and>
     mbrk (menu_add_entry None (menu_add_menu menu_demo)) = 3"
proof -
  have start: "mbrk menu_start = 1" "blank None (mn menu_start 0)"
    by (simp_all add: menu_start_def blank_def links_def)
  have "last_entry_ptr menu_demo = NextOf (current_entry menu_demo)" by (simp add: menu_demo_defs)
  then have "builds menu_start (menu_add_entry None (menu_add_menu menu_demo))"
    unfolding menu_demo_def by (intro builds.intros)
  from builds_in_order [OF this start] show ?thesis
    by (simp add: menu_add_menu_def menu_demo_defs)
qed

text \<open>
  C14. \<open>menu_finalize\<close> ends on every well-linked menu, with one nested activation for each
  entry of the chain it is called in and one round of a loop for each of them as the bound.
  Unless it reads through a NULL pointer (a choice without its choice property), it leaves
  a well-linked tree with the same entries in the same order, and it touches no entry
  outside that chain.
\<close>

theorem menu_finalize_keeps_entries:
  assumes "seg st par (Some m) t None" "distinct (flat t)" "length (flat t) \<le> d" "length (flat t) \<le> n"
  shows "wp {Bad_access} (menu_finalize d n m st)
    (\<lambda>st'. (\<exists>t'. seg st' par (Some m) t' None \<and> flat t' = flat t) \<and> same_links (- set (flat t)) st st')"
proof -
  have "chain st par (Some m) t (min d n)" using assms by (simp add: chain_def)
  from keepsD [OF mf.fin_keeps this] show ?thesis by (rule wp_mono) (simp add: Kept_def)
qed

theorem menu_finalize_keeps_entries_witness:
  "wp {Bad_access} (menu_finalize 2 2 0 menu_demo)
    (\<lambda>st'. (\<exists>t'. seg st' None (Some 0) t' None \<and> flat t' = [0, 1]) \<and> same_links (- {0, 1}) menu_demo st')"
proof -
  have "seg menu_demo None (Some 0) (Entry 0 (Entry 1 Leaf Leaf) Leaf) None" by (simp add: menu_demo_defs)
  from menu_finalize_keeps_entries [OF this, of 2 2] show ?thesis by simp
qed

section \<open>Symbols defined more than once\<close>

text \<open>
  When the last entry of a menu defines a symbol without any condition,
  \<open>menu_finalize\<close> leaves \<open>dir_dep\<close> as the other definitions made it: the disjunction of
  the conditions of the definitions leaves out the one that always holds. \<open>dir_dep\<close> can
  then be \<open>n\<close> although one definition has no dependency.
\<close>

theorem unconditional_definition_lost:
  assumes "create_submenu n fin m s st = Inr st'" "m_next (mn st m) = None" "m_dep (mn st m) = None"
  shows "dir_dep_expr (syms (mk st') s) = dir_dep_expr (syms (mk st) s)"
proof -
  have "collect_submenu n fin m s b None None st = Inr (None, st)" for b
    by (cases n) auto
  with assms show ?thesis
    by (auto simp: create_submenu_def rbind_Inr_iff hang_submenu_def Let_def on_mk_def upd_def expr_alloc_or_def
        split: option.splits)
qed

theorem unconditional_definition_lost_witness:
  "\<exists>st'. create_submenu 1 (\<lambda>_ st. Inr st) 1 (SymAt 0)
       (on_mk (upd (SymAt 0) (\<lambda>y. y\<lparr>dir_dep_expr := Some (E_SYMBOL symbol_no)\<rparr>)) menu_demo) = Inr st' \<and>
     dir_dep_expr (syms (mk st') (SymAt 0)) = Some (E_SYMBOL symbol_no)"
    (is "\<exists>st'. create_submenu 1 ?fin 1 _ ?st = Inr st' \<and> _")
proof -
  have m: "m_next (mn ?st 1) = None" "m_dep (mn ?st 1) = None" "m_prompt (mn ?st 1) = NoPrompt"
    by (simp_all add: menu_demo_defs)
  obtain b where b: "not_no_dep (mk ?st) None = Inr b"
    using wp_not_no_dep [of "{}" "mk ?st" None] by (cases "not_no_dep (mk ?st) None") auto
  have "\<exists>st'. create_submenu 1 ?fin 1 (SymAt 0) ?st = Inr st'"
    using m b by (simp add: create_submenu_def get_prompt_def Let_def)
  then obtain st' where st': "create_submenu 1 ?fin 1 (SymAt 0) ?st = Inr st'" ..
  from unconditional_definition_lost [OF this m(1,2)] st' show ?thesis
    by (simp add: on_mk_def upd_def)
qed

end
