(* ===== verification/Nvram_Crc.thy ===== *)
theory Nvram_Crc
  imports Prelude
begin

text \<open>
  The checksum of the NVRAM header and data (package/utils/nvram/src/crc.c): the table,
  the loop over the bytes, and a bitwise reference, the division by the polynomial the
  comment of the source gives, reflected. The table is the reference applied to every
  byte, and a damaged byte always changes the checksum.
\<close>

section \<open>The table-driven checksum\<close>

definition crc8_table :: "u8 list" where
  "crc8_table = [
    0x00, 0xF7, 0xB9, 0x4E, 0x25, 0xD2, 0x9C, 0x6B,
    0x4A, 0xBD, 0xF3, 0x04, 0x6F, 0x98, 0xD6, 0x21,
    0x94, 0x63, 0x2D, 0xDA, 0xB1, 0x46, 0x08, 0xFF,
    0xDE, 0x29, 0x67, 0x90, 0xFB, 0x0C, 0x42, 0xB5,
    0x7F, 0x88, 0xC6, 0x31, 0x5A, 0xAD, 0xE3, 0x14,
    0x35, 0xC2, 0x8C, 0x7B, 0x10, 0xE7, 0xA9, 0x5E,
    0xEB, 0x1C, 0x52, 0xA5, 0xCE, 0x39, 0x77, 0x80,
    0xA1, 0x56, 0x18, 0xEF, 0x84, 0x73, 0x3D, 0xCA,
    0xFE, 0x09, 0x47, 0xB0, 0xDB, 0x2C, 0x62, 0x95,
    0xB4, 0x43, 0x0D, 0xFA, 0x91, 0x66, 0x28, 0xDF,
    0x6A, 0x9D, 0xD3, 0x24, 0x4F, 0xB8, 0xF6, 0x01,
    0x20, 0xD7, 0x99, 0x6E, 0x05, 0xF2, 0xBC, 0x4B,
    0x81, 0x76, 0x38, 0xCF, 0xA4, 0x53, 0x1D, 0xEA,
    0xCB, 0x3C, 0x72, 0x85, 0xEE, 0x19, 0x57, 0xA0,
    0x15, 0xE2, 0xAC, 0x5B, 0x30, 0xC7, 0x89, 0x7E,
    0x5F, 0xA8, 0xE6, 0x11, 0x7A, 0x8D, 0xC3, 0x34,
    0xAB, 0x5C, 0x12, 0xE5, 0x8E, 0x79, 0x37, 0xC0,
    0xE1, 0x16, 0x58, 0xAF, 0xC4, 0x33, 0x7D, 0x8A,
    0x3F, 0xC8, 0x86, 0x71, 0x1A, 0xED, 0xA3, 0x54,
    0x75, 0x82, 0xCC, 0x3B, 0x50, 0xA7, 0xE9, 0x1E,
    0xD4, 0x23, 0x6D, 0x9A, 0xF1, 0x06, 0x48, 0xBF,
    0x9E, 0x69, 0x27, 0xD0, 0xBB, 0x4C, 0x02, 0xF5,
    0x40, 0xB7, 0xF9, 0x0E, 0x65, 0x92, 0xDC, 0x2B,
    0x0A, 0xFD, 0xB3, 0x44, 0x2F, 0xD8, 0x96, 0x61,
    0x55, 0xA2, 0xEC, 0x1B, 0x70, 0x87, 0xC9, 0x3E,
    0x1F, 0xE8, 0xA6, 0x51, 0x3A, 0xCD, 0x83, 0x74,
    0xC1, 0x36, 0x78, 0x8F, 0xE4, 0x13, 0x5D, 0xAA,
    0x8B, 0x7C, 0x32, 0xC5, 0xAE, 0x59, 0x17, 0xE0,
    0x2A, 0xDD, 0x93, 0x64, 0x0F, 0xF8, 0xB6, 0x41,
    0x60, 0x97, 0xD9, 0x2E, 0x45, 0xB2, 0xFC, 0x0B,
    0xBE, 0x49, 0x07, 0xF0, 0x9B, 0x6C, 0x22, 0xD5,
    0xF4, 0x03, 0x4D, 0xBA, 0xD1, 0x26, 0x68, 0x9F]"

fun hndcrc8 :: "u8 list \<Rightarrow> u8 \<Rightarrow> u8" where
  "hndcrc8 [] crc = crc"
| "hndcrc8 (b # bs) crc = hndcrc8 bs (crc8_table ! unat ((crc XOR b) AND 0xff))"

section \<open>The bitwise reference\<close>

text \<open>
  One step of the division by \<open>x^8 + x^7 + x^6 + x^4 + x^2 + 1\<close>, least significant bit
  first: 0xAB is the polynomial without \<open>x^8\<close>, mirrored.
\<close>

definition crc8_bit :: "u8 \<Rightarrow> u8" where
  "crc8_bit c = (if bit c 0 then drop_bit 1 c XOR 0xAB else drop_bit 1 c)"

definition crc8_byte :: "u8 \<Rightarrow> u8" where
  "crc8_byte c = (crc8_bit ^^ 8) c"

fun crc8_ref :: "u8 list \<Rightarrow> u8 \<Rightarrow> u8" where
  "crc8_ref [] crc = crc"
| "crc8_ref (b # bs) crc = crc8_ref bs (crc8_byte (crc XOR b))"

lemma crc8_table_length [simp]: "length crc8_table = 256"
  by (simp add: crc8_table_def)

text \<open>The table holds the reference of every byte.\<close>

lemma funpow8: "(f ^^ 8) x = f (f (f (f (f (f (f (f x)))))))"
  by (simp add: numeral_eq_Suc)

lemma crc8_table_map: "map crc8_byte (map of_nat [0..<256]) = crc8_table"
  unfolding crc8_table_def by (simp add: upt_conv_Cons crc8_byte_def funpow8 crc8_bit_def)

lemma u8_mask: "(x :: u8) AND 0xff = x"
proof -
  have eq: "(0xff :: u8) = mask 8" by (simp add: mask_eq_exp_minus_1)
  show ?thesis
    unfolding eq by (rule bit_eqI) (use bit_imp_le_length [of x] in \<open>auto simp: bit_and_iff bit_mask_iff\<close>)
qed

lemma crc8_table_byte: "crc8_table ! unat (x :: u8) = crc8_byte x"
proof -
  have "unat x < 2 ^ 8" using unsigned_less [of x] by simp
  then have "map crc8_byte (map of_nat [0..<256]) ! unat x = crc8_byte (of_nat (unat x))" by simp
  then show ?thesis by (simp only: crc8_table_map) simp
qed

text \<open>A step can be undone: its top bit is the bit that was shifted out.\<close>

lemma crc8_bit_inj: "crc8_bit x = crc8_bit y \<longleftrightarrow> x = y"
proof
  assume eq: "crc8_bit x = crc8_bit y"
  have no8: "\<not> bit c 8" for c :: u8 using bit_imp_le_length [of c 8] by auto
  have poly: "bit (0xAB :: u8) 7" by simp
  have top: "bit (crc8_bit c) 7 = bit c 0" for c
    using no8 [of c] poly by (simp add: crc8_bit_def bit_drop_bit_eq bit_xor_iff)
  have drop: "drop_bit 1 c = (if bit (crc8_bit c) 7 then crc8_bit c XOR 0xAB else crc8_bit c)" for c
    unfolding top by (simp add: crc8_bit_def xor.assoc)
  have "bit x n = bit y n" for n
  proof (cases n)
    case 0
    then show ?thesis using top [of x] top [of y] eq by simp
  next
    case (Suc m)
    have "drop_bit 1 x = drop_bit 1 y" unfolding drop eq ..
    then have "bit (drop_bit 1 x) m = bit (drop_bit 1 y) m" by simp
    with Suc show ?thesis by (simp add: bit_drop_bit_eq)
  qed
  then show "x = y" by (rule bit_eqI)
qed simp

lemma crc8_byte_inj: "crc8_byte x = crc8_byte y \<longleftrightarrow> x = y"
  by (simp add: crc8_byte_def funpow8 crc8_bit_inj)

lemma hndcrc8_ref: "hndcrc8 bs crc = crc8_ref bs crc"
  by (induction bs arbitrary: crc) (simp_all add: u8_mask crc8_table_byte)

lemma hndcrc8_append: "hndcrc8 (xs @ ys) crc = hndcrc8 ys (hndcrc8 xs crc)"
  by (induction xs arbitrary: crc) simp_all

lemma crc8_ref_inj: "crc8_ref bs a = crc8_ref bs b \<longleftrightarrow> a = b"
proof (induction bs arbitrary: a b)
  case (Cons x xs)
  have "a XOR x = b XOR x \<longleftrightarrow> a = b"
    by (metis xor.right_neutral xor.assoc xor_self_eq)
  with Cons show ?case by (simp add: crc8_byte_inj)
qed simp

section \<open>Properties\<close>

text \<open>
  C37. \<open>hndcrc8\<close> with its table of 256 bytes computes the remainder of the bitwise
  division by the polynomial its comment gives.
\<close>

theorem hndcrc8_bitwise: "hndcrc8 bs crc = crc8_ref bs crc"
  by (rule hndcrc8_ref)

text \<open>
  Any damage to a single byte of the data changes the checksum.
\<close>

theorem hndcrc8_detects_byte:
  assumes "x \<noteq> y"
  shows "hndcrc8 (pre @ x # post) crc \<noteq> hndcrc8 (pre @ y # post) crc"
proof -
  let ?c = "crc8_ref pre crc"
  have "?c XOR x \<noteq> ?c XOR y"
    using assms by (metis xor.left_neutral xor.assoc xor_self_eq)
  then show ?thesis by (simp add: hndcrc8_ref [symmetric] hndcrc8_append)
     (simp add: hndcrc8_ref crc8_ref_inj crc8_byte_inj u8_mask crc8_table_byte)
qed

theorem hndcrc8_detects_byte_witness: "hndcrc8 [1, 2, 3] 0xff \<noteq> hndcrc8 [1, 7, 3] 0xff"
  using hndcrc8_detects_byte [of 2 7 "[1]" "[3]" "0xff"] by simp

end
