(* ===== verification/Nvram.thy ===== *)
theory Nvram
  imports Nvram_Crc CLib
begin

text \<open>
  The NVRAM library (package/utils/nvram/src/nvram.c): the hash table of variables and the
  image they are stored in. The mapped partition is a list of characters of the size
  \<open>nvram_part_size\<close>, the \<open>length\<close> of the handle, and a pointer into it is an index; an
  access outside of it stops with \<open>Bad_access\<close>. The code runs on 32-bit little-endian
  routers: \<open>unsigned long\<close> has 32 bits and the header words are stored low byte first. The
  mapping starts at a page, so that an index is aligned as the pointer is.

  \<open>mem n\<close> says whether \<open>malloc\<close> or \<open>realloc\<close> of \<open>n\<close> bytes succeeds. The tuples of a bucket
  are a list; \<open>next\<close> is the order in it.
\<close>

section \<open>Data\<close>

record nvram_tuple =
  t_name :: string
  t_value :: "string option"

record nvram_handle =
  mmap :: string
  offset :: nat
  nvram_hash :: "nat \<Rightarrow> nvram_tuple list"
  nvram_dead :: "nvram_tuple list"

abbreviation NUL :: char where
  "NUL \<equiv> CHR 0x00"

definition HASHSIZE :: nat where
  "HASHSIZE = 257"

definition HEADER_SIZE :: nat where
  "HEADER_SIZE = 20"

definition NVRAM_MAGIC :: u32 where
  "NVRAM_MAGIC = 0x48534C46"

definition NVRAM_MIN_SPACE :: nat where
  "NVRAM_MIN_SPACE = 0x8000"

definition NVRAM_VERSION :: u32 where
  "NVRAM_VERSION = 1"

definition NVRAM_CRC_START_POSITION :: nat where
  "NVRAM_CRC_START_POSITION = 9"

definition NVRAM_ROUNDUP :: "nat \<Rightarrow> nat \<Rightarrow> nat" where
  "NVRAM_ROUNDUP x y = ((x + (y - 1)) div y) * y"

definition SDRAM_INIT :: u32 where
  "SDRAM_INIT = 0x419"

definition SDRAM_CONFIG :: u32 where
  "SDRAM_CONFIG = 0x0000"

definition SDRAM_REFRESH :: u32 where
  "SDRAM_REFRESH = (0x40 AND 0xff) OR 0x8000"

text \<open>Plain \<open>char\<close> is signed.\<close>

definition schar :: "char \<Rightarrow> u32" where
  "schar c = scast (of_char c :: u8)"

fun hash_from :: "u32 \<Rightarrow> string \<Rightarrow> u32" where
  "hash_from h [] = h"
| "hash_from h (c # s) = hash_from (31 * h + schar c) s"

definition hash :: "string \<Rightarrow> u32" where
  "hash s = hash_from 0 s"

definition bucket :: "string \<Rightarrow> nat" where
  "bucket s = unat (hash s) mod HASHSIZE"

section \<open>The hash table\<close>

definition nvram_free :: "nvram_handle \<Rightarrow> nvram_handle" where
  "nvram_free h = h\<lparr>nvram_hash := (\<lambda>_. []), nvram_dead := []\<rparr>"

definition tuple_size :: nat where
  "tuple_size = 12"

text \<open>
  \<open>_nvram_realloc\<close>: the tuple it returns, if any, and what has become of the tuple it was
  given. A tuple it was given is also the one it returns.
\<close>

definition nvram_realloc ::
  "(nat \<Rightarrow> bool) \<Rightarrow> nvram_handle \<Rightarrow> nvram_tuple option \<Rightarrow> string \<Rightarrow> string \<Rightarrow> nvram_tuple option \<times> nvram_tuple option" where
  "nvram_realloc mem h t name value =
     (if length value + 1 > length (mmap h) - offset h then (None, t)
      else
        case t of
          None \<Rightarrow>
            if mem (tuple_size + length name + 1) \<and> mem (length value + 1)
            then (Some \<lparr>t_name = name, t_value = Some value\<rparr>, None) else (None, None)
        | Some x \<Rightarrow>
            if t_value x = Some value then (Some x, Some x)
            else if mem (length value + 1)
            then (Some (x\<lparr>t_value := Some value\<rparr>), Some (x\<lparr>t_value := Some value\<rparr>))
            else (None, Some (x\<lparr>t_value := None\<rparr>)))"

definition find_tuple :: "nvram_handle \<Rightarrow> string \<Rightarrow> nvram_tuple option" where
  "find_tuple h name = find (\<lambda>t. t_name t = name) (nvram_hash h (bucket name))"

definition nvram_get :: "nvram_handle \<Rightarrow> string \<Rightarrow> string option" where
  "nvram_get h name = (case find_tuple h name of None \<Rightarrow> None | Some t \<Rightarrow> t_value t)"

text \<open>Changes to the first tuple of a name happen in place.\<close>

fun change_tuple :: "string \<Rightarrow> nvram_tuple \<Rightarrow> nvram_tuple list \<Rightarrow> nvram_tuple list" where
  "change_tuple name u [] = []"
| "change_tuple name u (t # ts) = (if t_name t = name then u # ts else t # change_tuple name u ts)"

definition set_bucket :: "nat \<Rightarrow> nvram_tuple list \<Rightarrow> nvram_handle \<Rightarrow> nvram_handle" where
  "set_bucket i ts h = h\<lparr>nvram_hash := (nvram_hash h)(i := ts)\<rparr>"

text \<open>
  The result is whether \<open>nvram_set\<close> returns 0 and not \<open>-ENOMEM\<close>. The branch that moves an
  old tuple to the dead table needs a result of \<open>_nvram_realloc\<close> other than the tuple it
  was given, which there is not.
\<close>

definition nvram_set :: "(nat \<Rightarrow> bool) \<Rightarrow> string \<Rightarrow> string \<Rightarrow> nvram_handle \<Rightarrow> bool \<times> nvram_handle" where
  "nvram_set mem name value h =
     (let i = bucket name in
      case find_tuple h name of
        Some t \<Rightarrow>
          (case nvram_realloc mem h (Some t) name value of
             (u, Some t') \<Rightarrow> (u \<noteq> None, set_bucket i (change_tuple name t' (nvram_hash h i)) h)
           | (u, None) \<Rightarrow> (u \<noteq> None, h))
      | None \<Rightarrow>
          (case nvram_realloc mem h None name value of
             (Some u, _) \<Rightarrow> (True, set_bucket i (u # nvram_hash h i) h)
           | (None, _) \<Rightarrow> (False, h)))"

fun remove_tuple :: "string \<Rightarrow> nvram_tuple list \<Rightarrow> nvram_tuple list" where
  "remove_tuple name [] = []"
| "remove_tuple name (t # ts) = (if t_name t = name then ts else t # remove_tuple name ts)"

definition nvram_unset :: "string \<Rightarrow> nvram_handle \<Rightarrow> nvram_handle" where
  "nvram_unset name h =
     (let i = bucket name in
      case find_tuple h name of
        None \<Rightarrow> h
      | Some t \<Rightarrow> (set_bucket i (remove_tuple name (nvram_hash h i)) h)\<lparr>nvram_dead := t # nvram_dead h\<rparr>)"

text \<open>
  A failing \<open>malloc\<close> ends the loop over a bucket, not the loop over the buckets; every
  allocation asks for the same size.
\<close>

definition nvram_getall :: "(nat \<Rightarrow> bool) \<Rightarrow> nvram_handle \<Rightarrow> nvram_tuple list" where
  "nvram_getall mem h = rev (if mem tuple_size then concat (map (nvram_hash h) [0..<HASHSIZE]) else [])"

section \<open>The image\<close>

definition load :: "nat \<Rightarrow> nat \<Rightarrow> string \<Rightarrow> string res" where
  "load p n m = (if p + n \<le> length m then Inr (take n (drop p m)) else Inl Bad_access)"

definition store :: "nat \<Rightarrow> string \<Rightarrow> string \<Rightarrow> string res" where
  "store p bs m =
     (if p + length bs \<le> length m then Inr (take p m @ bs @ drop (p + length bs) m) else Inl Bad_access)"

definition le32 :: "u32 \<Rightarrow> string" where
  "le32 v = map (\<lambda>i. char_of (unat v div 256 ^ i)) [0, 1, 2, 3]"

fun le_nat :: "string \<Rightarrow> nat" where
  "le_nat [] = 0"
| "le_nat (c # cs) = of_char c + 256 * le_nat cs"

definition load32 :: "nat \<Rightarrow> string \<Rightarrow> u32 res" where
  "load32 p m = rbind (load p 4 m) (\<lambda>bs. Inr (of_nat (le_nat bs)))"

definition byte_of :: "char \<Rightarrow> u8" where
  "byte_of c = of_char c"

text \<open>The fields of \<open>nvram_header\<close>.\<close>

definition magic_at :: "nat \<Rightarrow> nat" where
  "magic_at off = off"

definition len_at :: "nat \<Rightarrow> nat" where
  "len_at off = off + 4"

definition crc_ver_init_at :: "nat \<Rightarrow> nat" where
  "crc_ver_init_at off = off + 8"

definition config_refresh_at :: "nat \<Rightarrow> nat" where
  "config_refresh_at off = off + 12"

definition config_ncdl_at :: "nat \<Rightarrow> nat" where
  "config_ncdl_at off = off + 16"

text \<open>\<open>%0wX\<close> of \<open>printf\<close>, and \<open>strtoul\<close> with base 0.\<close>

definition upper :: "char \<Rightarrow> char" where
  "upper c = (if 97 \<le> cbyte c \<and> cbyte c \<le> 122 then char_of (cbyte c - 32) else c)"

definition print_X :: "nat \<Rightarrow> nat \<Rightarrow> string" where
  "print_X w n = (let ds = map upper (nat_string 16 n) in replicate (w - length ds) CHR ''0'' @ ds)"

definition strtoul :: "string \<Rightarrow> u32" where
  "strtoul s =
     (let (neg, m, n) = strto_scan s 0
      in if m > 4294967295 then - 1 else if neg then - of_nat m else of_nat m)"

section \<open>Reading the image\<close>

text \<open>
  The loop of \<open>_nvram_rehash\<close> over \<open>name=value\<close> strings; the pointer \<open>name\<close> is what is left of
  the image. The source writes a NUL over the equals sign while it calls \<open>nvram_set\<close> and
  puts the sign back afterwards.
\<close>

function (sequential) rehash_loop :: "(nat \<Rightarrow> bool) \<Rightarrow> string \<Rightarrow> nvram_handle \<Rightarrow> nvram_handle res" where
  "rehash_loop mem [] h = Inl Bad_access"
| "rehash_loop mem (c # cs) h =
     (if c = NUL then Inr h
      else
        let name = takeWhile (\<lambda>x. x \<noteq> CHR ''='' \<and> x \<noteq> NUL) (c # cs) in
        case drop (length name) (c # cs) of
          [] \<Rightarrow> Inl Bad_access
        | d # rest \<Rightarrow>
            if d = NUL then Inr h
            else
              let value = takeWhile (\<lambda>x. x \<noteq> NUL) rest in
              case drop (length value) rest of
                [] \<Rightarrow> Inl Bad_access
              | _ # after \<Rightarrow> rehash_loop mem after (snd (nvram_set mem name value h)))"
  by pat_completeness auto
termination
  by (relation "measure (\<lambda>(mem, s, h). length s)")
    (auto simp del: drop.simps dest!: arg_cong [where f = length])

definition set_missing :: "(nat \<Rightarrow> bool) \<Rightarrow> string \<Rightarrow> string \<Rightarrow> nvram_handle \<Rightarrow> nvram_handle" where
  "set_missing mem name value h = (if nvram_get h name = None then snd (nvram_set mem name value h) else h)"

definition nvram_rehash :: "(nat \<Rightarrow> bool) \<Rightarrow> nvram_handle \<Rightarrow> nvram_handle res" where
  "nvram_rehash mem h =
     (let off = offset h; m = mmap h in
      rbind (rehash_loop mem (drop (off + HEADER_SIZE) m) (nvram_free h)) (\<lambda>h.
      rbind (load32 (crc_ver_init_at off) m) (\<lambda>crc_ver_init.
      rbind (load32 (config_refresh_at off) m) (\<lambda>config_refresh.
      rbind (load32 (config_ncdl_at off) m) (\<lambda>config_ncdl.
        Inr (set_missing mem ''sdram_ncdl'' (''0x'' @ print_X 8 (unat config_ncdl))
            (set_missing mem ''sdram_refresh'' (''0x'' @ print_X 4 (unat (drop_bit 16 config_refresh AND 0xffff)))
            (set_missing mem ''sdram_config'' (''0x'' @ print_X 4 (unat (config_refresh AND 0xffff)))
            (set_missing mem ''sdram_init'' (''0x'' @ print_X 4 (unat (drop_bit 16 crc_ver_init))) h)))))))))"

section \<open>Writing the image\<close>

text \<open>The words of the new header that do not depend on the data: \<open>crc_ver_init\<close>, \<open>config_refresh\<close>, \<open>config_ncdl\<close>.\<close>

definition header_words :: "nvram_handle \<Rightarrow> u32 \<times> u32 \<times> u32" where
  "header_words h =
     (case (nvram_get h ''sdram_init'', nvram_get h ''sdram_config'', nvram_get h ''sdram_refresh'', nvram_get h ''sdram_ncdl'') of
        (Some init, Some config, Some refresh, Some ncdl) \<Rightarrow>
          (push_bit 8 NVRAM_VERSION OR push_bit 16 (strtoul init AND 0xffff),
           (strtoul config AND 0xffff) OR push_bit 16 (strtoul refresh AND 0xffff),
           strtoul ncdl)
      | _ \<Rightarrow>
          (push_bit 8 NVRAM_VERSION OR push_bit 16 SDRAM_INIT, SDRAM_CONFIG OR push_bit 16 SDRAM_REFRESH, 0))"

definition write_header :: "nat \<Rightarrow> u32 \<times> u32 \<times> u32 \<Rightarrow> string \<Rightarrow> string res" where
  "write_header off ws m =
     (case ws of (crc_ver_init, config_refresh, config_ncdl) \<Rightarrow>
        rbind (store (magic_at off) (le32 NVRAM_MAGIC) m) (\<lambda>m.
        rbind (store (crc_ver_init_at off) (le32 crc_ver_init) m) (\<lambda>m.
        rbind (store (config_refresh_at off) (le32 config_refresh) m) (\<lambda>m.
          store (config_ncdl_at off) (le32 config_ncdl) m))))"

definition clear_data :: "nat \<Rightarrow> string \<Rightarrow> string res" where
  "clear_data off m = store (off + HEADER_SIZE) (replicate (length m - off - HEADER_SIZE) (CHR 0xFF)) m"

fun write_bucket :: "nvram_tuple list \<Rightarrow> nat \<times> string \<Rightarrow> (nat \<times> string) res" where
  "write_bucket [] (ptr, m) = Inr (ptr, m)"
| "write_bucket (t # ts) (ptr, m) =
     (case t_value t of
        None \<Rightarrow> Inl Bad_access
      | Some v \<Rightarrow>
          if ptr + length (t_name t) + 1 + length v + 1 > length m - 2 then Inr (ptr, m)
          else
            rbind (store ptr (t_name t @ CHR ''='' # v @ [NUL]) m) (\<lambda>m.
              write_bucket ts (ptr + length (t_name t) + 1 + length v + 1, m)))"

definition write_tuples :: "nvram_handle \<Rightarrow> nat \<times> string \<Rightarrow> (nat \<times> string) res" where
  "write_tuples h = rfold (\<lambda>i. write_bucket (nvram_hash h i)) [0..<HASHSIZE]"

text \<open>The end of the data: the second NUL, the padding, the length.\<close>

definition write_end :: "nat \<Rightarrow> nat \<times> string \<Rightarrow> (nat \<times> string) res" where
  "write_end off pm =
     (case pm of (ptr, m) \<Rightarrow>
        rbind (store ptr [NUL] m) (\<lambda>m.
        rbind (if (ptr + 1) mod 4 \<noteq> 0 then store (ptr + 1) (replicate (4 - (ptr + 1) mod 4) NUL) m else Inr m) (\<lambda>m.
        rbind (store (len_at off) (le32 (of_nat (NVRAM_ROUNDUP (ptr + 2 - off) 4))) m) (\<lambda>m.
          Inr (NVRAM_ROUNDUP (ptr + 2 - off) 4, m)))))"

text \<open>The copy \<open>tmp\<close> of the header has zeros for \<open>magic\<close> and \<open>len\<close>.\<close>

definition tmp_header :: "u32 \<times> u32 \<times> u32 \<Rightarrow> string" where
  "tmp_header ws =
     (case ws of (crc_ver_init, config_refresh, config_ncdl) \<Rightarrow>
        le32 0 @ le32 0 @ le32 crc_ver_init @ le32 config_refresh @ le32 config_ncdl)"

definition commit_crc :: "nat \<Rightarrow> u32 \<times> u32 \<times> u32 \<Rightarrow> nat \<Rightarrow> string \<Rightarrow> u8 res" where
  "commit_crc off ws len m =
     rbind (load (off + HEADER_SIZE) (len - HEADER_SIZE) m) (\<lambda>bs.
       Inr (hndcrc8 (map byte_of bs) (hndcrc8 (map byte_of (drop NVRAM_CRC_START_POSITION (tmp_header ws))) 0xff)))"

definition commit_image :: "nvram_handle \<Rightarrow> string res" where
  "commit_image h =
     (let off = offset h; ws = header_words h in
      rbind (write_header off ws (mmap h)) (\<lambda>m.
      rbind (clear_data off m) (\<lambda>m.
      rbind (write_tuples h (off + HEADER_SIZE, m)) (\<lambda>pm.
      rbind (write_end off pm) (\<lambda>(len, m).
      rbind (commit_crc off ws len m) (\<lambda>crc.
        store (crc_ver_init_at off) (le32 (fst ws OR ucast crc)) m))))))"

definition nvram_commit :: "(nat \<Rightarrow> bool) \<Rightarrow> nvram_handle \<Rightarrow> nvram_handle res" where
  "nvram_commit mem h = rbind (commit_image h) (\<lambda>m. nvram_rehash mem (h\<lparr>mmap := m\<rparr>))"

section \<open>Opening\<close>

text \<open>
  The search for the magic number from the index \<open>i\<close>; a partition smaller than
  \<open>NVRAM_MIN_SPACE\<close> makes the bound of the loop wrap around.
\<close>

function find_magic :: "string \<Rightarrow> nat \<Rightarrow> nat option res" where
  "find_magic m i =
     (if length m \<ge> NVRAM_MIN_SPACE \<and> i > (length m - NVRAM_MIN_SPACE) div 4 then Inr None
      else if i * 4 + 4 > length m then Inl Bad_access
      else
        rbind (load32 (i * 4) m) (\<lambda>w.
          if w = NVRAM_MAGIC then Inr (Some (i * 4)) else find_magic m (Suc i)))"
  by pat_completeness auto
termination
  by (relation "measure (\<lambda>(m, i). length m - i * 4)") auto

declare find_magic.simps [simp del]

text \<open>\<open>nvram_open\<close> on the bytes of the file it maps; \<open>None\<close> is the NULL it returns.\<close>

definition handle_size :: nat where
  "handle_size = 1048"

definition nvram_open :: "(nat \<Rightarrow> bool) \<Rightarrow> bool \<Rightarrow> string \<Rightarrow> nvram_handle option res" where
  "nvram_open mem rdonly m =
     rbind (find_magic m 0) (\<lambda>r.
       case r of
         None \<Rightarrow> Inr None
       | Some off \<Rightarrow>
           rbind (load32 (len_at off) m) (\<lambda>len.
             if mem handle_size \<and> (rdonly \<or> unat len < length m - off)
             then rbind (nvram_rehash mem \<lparr>mmap = m, offset = off, nvram_hash = (\<lambda>_. []), nvram_dead = []\<rparr>) (\<lambda>h. Inr (Some h))
             else Inr None))"

end
