(* ===== verification/Nvram_Store.thy ===== *)
theory Nvram_Store
  imports Nvram
begin

text \<open>
  The hash table of the NVRAM library is a map from names to values. The interface is a
  locale: a store with \<open>get\<close>, \<open>put\<close> and \<open>del\<close>, an invariant and a condition under which a
  value fits. What a sequence of insertions leaves behind is proved for every such store.
\<close>

section \<open>The interface\<close>

locale var_store =
  fixes inv :: "'s \<Rightarrow> bool" and get :: "'s \<Rightarrow> 'k \<Rightarrow> 'v option"
    and put :: "'k \<Rightarrow> 'v \<Rightarrow> 's \<Rightarrow> 's" and fits :: "'s \<Rightarrow> 'k \<Rightarrow> 'v \<Rightarrow> bool"
  assumes inv_put: "inv s \<Longrightarrow> inv (put k v s)"
    and get_put: "inv s \<Longrightarrow> fits s k v \<Longrightarrow> get (put k v s) k = Some v"
    and get_put_other: "inv s \<Longrightarrow> k' \<noteq> k \<Longrightarrow> get (put k v s) k' = get s k'"
    and fits_put: "fits (put k v s) k' v' = fits s k' v'"
begin

definition put_all :: "('k \<times> 'v) list \<Rightarrow> 's \<Rightarrow> 's" where
  "put_all kvs s = fold (\<lambda>(k, v). put k v) kvs s"

lemma put_all_Nil [simp]: "put_all [] s = s"
  by (simp add: put_all_def)

lemma put_all_Cons [simp]: "put_all ((k, v) # kvs) s = put_all kvs (put k v s)"
  by (simp add: put_all_def)

lemma inv_put_all: "inv s \<Longrightarrow> inv (put_all kvs s)"
proof (induction kvs arbitrary: s)
  case (Cons kv kvs)
  then show ?case by (cases kv) (simp add: inv_put)
qed simp

lemma fits_put_all: "fits (put_all kvs s) k v = fits s k v"
proof (induction kvs arbitrary: s)
  case (Cons kv kvs)
  then show ?case by (cases kv) (simp add: fits_put)
qed simp

text \<open>Insertions of distinct keys that fit are all found again, and nothing else changes.\<close>

lemma get_put_all:
  assumes "inv s" "distinct (map fst kvs)" "\<forall>(k, v) \<in> set kvs. fits s k v"
  shows "get (put_all kvs s) k = (case map_of kvs k of Some v \<Rightarrow> Some v | None \<Rightarrow> get s k)"
  using assms
proof (induction kvs arbitrary: s)
  case Nil
  then show ?case by simp
next
  case (Cons kv kvs)
  obtain a b where kv: "kv = (a, b)" by (cases kv)
  have "get (put_all kvs (put a b s)) k = (case map_of kvs k of Some v \<Rightarrow> Some v | None \<Rightarrow> get (put a b s) k)"
    using Cons.prems kv by (intro Cons.IH) (auto simp: fits_put inv_put)
  moreover have "map_of kvs a = None" using Cons.prems(2) kv by (auto simp: map_of_eq_None_iff)
  ultimately show ?case
    using Cons.prems kv get_put [OF Cons.prems(1)] get_put_other [OF Cons.prems(1)]
    by (auto split: option.split)
qed

end

locale del_store = var_store inv get put fits
  for inv :: "'s \<Rightarrow> bool" and get :: "'s \<Rightarrow> 'k \<Rightarrow> 'v option"
    and put :: "'k \<Rightarrow> 'v \<Rightarrow> 's \<Rightarrow> 's" and fits :: "'s \<Rightarrow> 'k \<Rightarrow> 'v \<Rightarrow> bool" +
  fixes del :: "'k \<Rightarrow> 's \<Rightarrow> 's"
  assumes inv_del: "inv s \<Longrightarrow> inv (del k s)"
    and get_del: "inv s \<Longrightarrow> get (del k s) k = None"
    and get_del_other: "inv s \<Longrightarrow> k' \<noteq> k \<Longrightarrow> get (del k s) k' = get s k'"
    and fits_del: "fits (del k s) k' v' = fits s k' v'"
begin

lemma put_del_get: "inv s \<Longrightarrow> fits s k v \<Longrightarrow> get (put k v (del k s)) k' = get (put k v s) k'"
  by (cases "k' = k") (simp_all add: get_put get_put_other get_del_other inv_del fits_del)

end

section \<open>The hash table\<close>

text \<open>Every tuple is in the bucket of its name, and no name is twice in a bucket.\<close>

definition nvram_inv :: "nvram_handle \<Rightarrow> bool" where
  "nvram_inv h \<longleftrightarrow>
     (\<forall>i. distinct (map t_name (nvram_hash h i)) \<and> (\<forall>t \<in> set (nvram_hash h i). bucket (t_name t) = i))"

definition nvram_fits :: "(nat \<Rightarrow> bool) \<Rightarrow> nvram_handle \<Rightarrow> string \<Rightarrow> string \<Rightarrow> bool" where
  "nvram_fits mem h k v \<longleftrightarrow>
     length v + 1 \<le> length (mmap h) - offset h \<and> mem (tuple_size + length k + 1) \<and> mem (length v + 1)"

lemma find_name: "find (\<lambda>t. t_name t = n) ts = Some t \<Longrightarrow> t \<in> set ts \<and> t_name t = n"
  by (auto simp: find_Some_iff)

lemma find_None_name: "find (\<lambda>t. t_name t = n) ts = None \<longleftrightarrow> n \<notin> t_name ` set ts"
  by (auto simp: find_None_iff)

lemma names_change: "t_name u = n \<Longrightarrow> map t_name (change_tuple n u ts) = map t_name ts"
  by (induction ts) auto

lemma find_change:
  "t_name u = n \<Longrightarrow> find (\<lambda>t. t_name t = k) (change_tuple n u ts) =
    (if k = n \<and> n \<in> t_name ` set ts then Some u else find (\<lambda>t. t_name t = k) ts)"
  by (induction ts) auto

lemma names_remove: "distinct (map t_name ts) \<Longrightarrow> set (remove_tuple n ts) = {t \<in> set ts. t_name t \<noteq> n}"
  by (induction ts) (auto, metis image_eqI)

lemma distinct_remove: "distinct (map t_name ts) \<Longrightarrow> distinct (map t_name (remove_tuple n ts))"
  by (induction ts) (auto simp: names_remove)

lemma find_remove:
  "distinct (map t_name ts) \<Longrightarrow> find (\<lambda>t. t_name t = k) (remove_tuple n ts) =
    (if k = n then None else find (\<lambda>t. t_name t = k) ts)"
  by (induction ts) (auto simp: find_None_name)

lemma set_bucket_simps [simp]:
  "mmap (set_bucket i ts h) = mmap h" "offset (set_bucket i ts h) = offset h"
  "nvram_hash (set_bucket i ts h) j = (if j = i then ts else nvram_hash h j)"
  by (simp_all add: set_bucket_def)

lemma inv_bucket: "nvram_inv h \<Longrightarrow> t \<in> set (nvram_hash h i) \<Longrightarrow> bucket (t_name t) = i"
  by (simp add: nvram_inv_def)

lemma inv_distinct: "nvram_inv h \<Longrightarrow> distinct (map t_name (nvram_hash h i))"
  by (simp add: nvram_inv_def)

lemma inv_set_bucket:
  "nvram_inv h \<Longrightarrow> distinct (map t_name ts) \<Longrightarrow> \<forall>t \<in> set ts. bucket (t_name t) = i \<Longrightarrow> nvram_inv (set_bucket i ts h)"
  by (simp add: nvram_inv_def)

text \<open>The four outcomes of \<open>nvram_set\<close>.\<close>

lemma nvram_set_cases:
  obtains (full) "nvram_set mem k v h = (False, h)"
      "\<not> nvram_fits mem h k v"
  | (new) "find_tuple h k = None" "length v + 1 \<le> length (mmap h) - offset h"
      "nvram_set mem k v h = (True, set_bucket (bucket k) (\<lparr>t_name = k, t_value = Some v\<rparr> # nvram_hash h (bucket k)) h)"
  | (changed) t where "find_tuple h k = Some t" "length v + 1 \<le> length (mmap h) - offset h"
      "nvram_set mem k v h =
        (True, set_bucket (bucket k) (change_tuple k (t\<lparr>t_value := Some v\<rparr>) (nvram_hash h (bucket k))) h)"
  | (lost) t where "find_tuple h k = Some t" "\<not> mem (length v + 1)" "length v + 1 \<le> length (mmap h) - offset h"
      "nvram_set mem k v h =
        (False, set_bucket (bucket k) (change_tuple k (t\<lparr>t_value := None\<rparr>) (nvram_hash h (bucket k))) h)"
proof -
  have same: "change_tuple k t ts = change_tuple k (t\<lparr>t_value := Some v\<rparr>) ts" if "t_value t = Some v" for t ts
    using that by (cases t) simp
  have id: "change_tuple k t ts = ts" if "find (\<lambda>t. t_name t = k) ts = Some t" for t ts
    using that by (induction ts) (auto split: if_splits)
  show ?thesis
  proof (cases "length v + 1 \<le> length (mmap h) - offset h")
    case False
    then have "nvram_set mem k v h = (False, h)"
      using id by (auto simp: nvram_set_def nvram_realloc_def find_tuple_def Let_def set_bucket_def split: option.split)
    with False full show ?thesis by (simp add: nvram_fits_def)
  next
    case True
    show ?thesis
    proof (cases "find_tuple h k")
      case None
      show ?thesis
      proof (cases "mem (tuple_size + length k + 1) \<and> mem (length v + 1)")
        case mem: True
        with True None show ?thesis by (intro new) (simp_all add: nvram_set_def nvram_realloc_def Let_def)
      next
        case mem: False
        with True None show ?thesis by (intro full) (auto simp: nvram_set_def nvram_realloc_def nvram_fits_def Let_def)
      qed
    next
      case (Some t)
      consider "t_value t = Some v" | "t_value t \<noteq> Some v" "mem (length v + 1)" | "t_value t \<noteq> Some v" "\<not> mem (length v + 1)"
        by blast
      then show ?thesis
        using True Some same [of t] changed [of t] lost [of t]
        by cases (simp_all add: nvram_set_def nvram_realloc_def Let_def)
    qed
  qed
qed

lemma find_tuple_set_bucket:
  "find_tuple (set_bucket (bucket k) ts h) k' =
    (if bucket k' = bucket k then find (\<lambda>t. t_name t = k') ts else find_tuple h k')"
  by (simp add: find_tuple_def)

lemma nvram_inv_change: "nvram_inv h \<Longrightarrow> t_name u = k \<Longrightarrow> nvram_inv (set_bucket (bucket k) (change_tuple k u (nvram_hash h (bucket k))) h)"
proof (rule inv_set_bucket)
  assume i: "nvram_inv h" and u: "t_name u = k"
  show "distinct (map t_name (change_tuple k u (nvram_hash h (bucket k))))"
    using inv_distinct [OF i] by (simp add: names_change [OF u])
  have "t_name ` set (change_tuple k u (nvram_hash h (bucket k))) = t_name ` set (nvram_hash h (bucket k))"
    using names_change [OF u, of "nvram_hash h (bucket k)"] by (metis set_map)
  then show "\<forall>t \<in> set (change_tuple k u (nvram_hash h (bucket k))). bucket (t_name t) = bucket k"
    using inv_bucket [OF i] by (metis (no_types, lifting) image_iff)
qed

lemma find_tuple_name: "find_tuple h k = Some t \<Longrightarrow> t_name t = k"
  by (auto simp: find_tuple_def dest: find_name)

lemma find_tuple_change:
  assumes "t_name u = k" "find_tuple h k = Some t"
  shows "find_tuple (set_bucket (bucket k) (change_tuple k u (nvram_hash h (bucket k))) h) k' =
    (if k' = k then Some u else find_tuple h k')"
proof -
  have "k \<in> t_name ` set (nvram_hash h (bucket k))"
    using assms(2) by (auto simp: find_tuple_def dest: find_name)
  with assms(1) show ?thesis
    by (auto simp: find_tuple_set_bucket find_change) (simp_all add: find_tuple_def)
qed

lemma nvram_inv_set: "nvram_inv h \<Longrightarrow> nvram_inv (snd (nvram_set mem k v h))"
proof (cases rule: nvram_set_cases [of mem k v h])
  case new
  assume i: "nvram_inv h"
  have "k \<notin> t_name ` set (nvram_hash h (bucket k))" using new(1) by (simp add: find_tuple_def find_None_name)
  with inv_distinct [OF i] inv_bucket [OF i] have
    "nvram_inv (set_bucket (bucket k) (\<lparr>t_name = k, t_value = Some v\<rparr> # nvram_hash h (bucket k)) h)"
    by (intro inv_set_bucket [OF i]) auto
  with new show ?thesis by simp
qed (use nvram_inv_change find_tuple_name in \<open>auto\<close>)

lemma nvram_get_set_other: "k' \<noteq> k \<Longrightarrow> nvram_get (snd (nvram_set mem k v h)) k' = nvram_get h k'"
proof (cases rule: nvram_set_cases [of mem k v h])
  case new
  assume "k' \<noteq> k"
  then show ?thesis using new by (simp add: nvram_get_def find_tuple_set_bucket) (simp add: find_tuple_def)
qed (use find_tuple_name in \<open>auto simp: nvram_get_def find_tuple_change\<close>)

lemma nvram_get_set: "nvram_fits mem h k v \<Longrightarrow> nvram_get (snd (nvram_set mem k v h)) k = Some v"
proof (cases rule: nvram_set_cases [of mem k v h])
  case new
  then show ?thesis by (simp add: nvram_get_def find_tuple_set_bucket)
qed (use find_tuple_name in \<open>auto simp: nvram_get_def find_tuple_change nvram_fits_def\<close>)

lemma nvram_set_fields [simp]:
  "mmap (snd (nvram_set mem k v h)) = mmap h" "offset (snd (nvram_set mem k v h)) = offset h"
  by (cases rule: nvram_set_cases [of mem k v h]; simp)+

lemma nvram_unset_fields [simp]: "mmap (nvram_unset k h) = mmap h" "offset (nvram_unset k h) = offset h"
  by (simp_all add: nvram_unset_def Let_def split: option.split)

lemma nvram_inv_unset: "nvram_inv h \<Longrightarrow> nvram_inv (nvram_unset k h)"
proof -
  assume i: "nvram_inv h"
  have "nvram_inv (set_bucket (bucket k) (remove_tuple k (nvram_hash h (bucket k))) h)"
    using inv_distinct [OF i] inv_bucket [OF i] by (intro inv_set_bucket [OF i]) (auto simp: distinct_remove names_remove)
  with i show ?thesis by (auto simp: nvram_unset_def Let_def nvram_inv_def split: option.split)
qed

lemma nvram_get_unset:
  assumes "nvram_inv h"
  shows "nvram_get (nvram_unset k h) k' = (if k' = k then None else nvram_get h k')"
proof (cases "find_tuple h k")
  case None
  then show ?thesis by (simp add: nvram_unset_def nvram_get_def)
next
  case (Some t)
  have "find_tuple (nvram_unset k h) k' = (if k' = k then None else find_tuple h k')"
    using Some find_remove [OF inv_distinct [OF assms]]
    by (simp add: nvram_unset_def Let_def find_tuple_def set_bucket_def)
  then show ?thesis by (simp add: nvram_get_def)
qed

interpretation nv: del_store nvram_inv nvram_get "\<lambda>k v h. snd (nvram_set mem k v h)" "nvram_fits mem" nvram_unset for mem
  by unfold_locales
    (auto simp: nvram_inv_set nvram_get_set nvram_get_set_other nvram_inv_unset nvram_get_unset, simp_all add: nvram_fits_def)

end
