(* ===== verification/Nvram_Image.thy ===== *)
theory Nvram_Image
  imports Nvram_Store
begin

text \<open>
  The layout of the image that \<open>nvram_commit\<close> writes: the header, the encoded tuples, a
  second NUL, padding. The tuples that fit are written, no access leaves the mapping, and
  \<open>_nvram_rehash\<close> reads the tuples back.
\<close>

section \<open>Loads and stores\<close>

lemma store_app: "length pre = p \<Longrightarrow> length old = length bs \<Longrightarrow> store p bs (pre @ old @ post) = Inr (pre @ bs @ post)"
  by (simp add: store_def)

lemma load_app: "length pre = p \<Longrightarrow> length bs = n \<Longrightarrow> load p n (pre @ bs @ post) = Inr bs"
  by (simp add: load_def)

lemma store_here: "length a = p \<Longrightarrow> length bs \<le> length b \<Longrightarrow> store p bs (a @ b) = Inr (a @ bs @ drop (length bs) b)"
  by (simp add: store_def)

lemma length_le32 [simp]: "length (le32 v) = 4"
  by (simp add: le32_def)

lemma le_nat_le32: "le_nat (le32 v) = unat v"
proof -
  define n where "n = unat v"
  define a where "a = n div 256"
  define b where "b = a div 256"
  have "n < 4294967296" using unsigned_less [of v] by (simp add: n_def)
  then have c: "b div 256 < 256" by (simp add: a_def b_def div_mult2_eq [symmetric])
  have divs: "n div 65536 = b" "n div 16777216 = b div 256" "n div 256 = a"
    by (simp_all add: a_def b_def div_mult2_eq [symmetric])
  have "n mod 256 + 256 * a = n" "a mod 256 + 256 * b = a" "b mod 256 + 256 * (b div 256) = b"
    by (simp_all add: a_def b_def)
  then have "n mod 256 + 256 * (a mod 256 + 256 * (b mod 256 + 256 * (b div 256))) = n"
    by (simp only:)
  then show ?thesis using c by (simp add: le32_def n_def [symmetric] divs)
qed

lemma load32_le32: "length pre = p \<Longrightarrow> load32 p (pre @ le32 v @ post) = Inr v"
  by (simp add: load32_def load_app le_nat_le32)

section \<open>Encoded tuples\<close>

definition enc :: "nvram_tuple \<Rightarrow> string" where
  "enc t = t_name t @ CHR ''='' # the (t_value t) @ [NUL]"

definition encs :: "nvram_tuple list \<Rightarrow> string" where
  "encs ts = concat (map enc ts)"

definition vars :: "nvram_handle \<Rightarrow> nvram_tuple list" where
  "vars h = concat (map (nvram_hash h) [0..<HASHSIZE])"

definition complete :: "nvram_tuple list \<Rightarrow> bool" where
  "complete ts \<longleftrightarrow> (\<forall>t \<in> set ts. t_value t \<noteq> None)"

lemma encs_simps [simp]: "encs [] = []" "encs (t # ts) = enc t @ encs ts" "encs (as @ bs) = encs as @ encs bs"
  by (simp_all add: encs_def)

lemma complete_simps [simp]:
  "complete []" "complete (t # ts) \<longleftrightarrow> t_value t \<noteq> None \<and> complete ts"
  "complete (as @ bs) \<longleftrightarrow> complete as \<and> complete bs"
  by (auto simp: complete_def)

text \<open>What a loop that writes \<open>ts\<close> at the end of \<open>a\<close>, over \<open>b\<close>, has written.\<close>

definition written :: "nvram_tuple list \<Rightarrow> string \<Rightarrow> string \<Rightarrow> (nat \<times> string) res \<Rightarrow> nvram_tuple list \<Rightarrow> bool" where
  "written ts a b r us \<longleftrightarrow>
     r = Inr (length a + length (encs us), a @ encs us @ drop (length (encs us)) b) \<and>
     length (encs us) + 2 \<le> length b \<and> set us \<subseteq> set ts \<and>
     (length (encs ts) + 2 \<le> length b \<longrightarrow> us = ts)"

lemma write_bucket_written:
  "complete ts \<Longrightarrow> 2 \<le> length b \<Longrightarrow> \<exists>us. written ts a b (write_bucket ts (length a, a @ b)) us"
proof (induction ts arbitrary: a b)
  case Nil
  then show ?case by (simp add: written_def)
next
  case (Cons t ts)
  from Cons.prems obtain v where v: "t_value t = Some v" by auto
  have len: "length (enc t) = length (t_name t) + 1 + length v + 1" by (simp add: enc_def v)
  show ?case
  proof (cases "length (enc t) + 2 \<le> length b")
    case False
    then have "length a + length (t_name t) + 1 + length v + 1 > length (a @ b) - 2"
      using len Cons.prems(2) by simp
    with v have "write_bucket (t # ts) (length a, a @ b) = Inr (length a, a @ b)" by simp
    with False Cons.prems show ?thesis by (auto simp: written_def intro!: exI [of _ "[]"])
  next
    case True
    have fits: "\<not> length a + length (t_name t) + 1 + length v + 1 > length (a @ b) - 2"
      using True len by simp
    have "store (length a) (t_name t @ CHR ''='' # v @ [NUL]) (a @ b) = Inr (a @ enc t @ drop (length (enc t)) b)"
      using True store_here [of a "length a" "enc t" b] by (simp add: enc_def v)
    with fits v len have "write_bucket (t # ts) (length a, a @ b) =
        write_bucket ts (length (a @ enc t), (a @ enc t) @ drop (length (enc t)) b)"
      by (simp add: add.assoc)
    moreover obtain us where "written ts (a @ enc t) (drop (length (enc t)) b)
        (write_bucket ts (length (a @ enc t), (a @ enc t) @ drop (length (enc t)) b)) us"
      using Cons.IH [of "drop (length (enc t)) b" "a @ enc t"] Cons.prems(1) True
      by (auto simp: le_diff_conv2)
    ultimately have "written (t # ts) a b (write_bucket (t # ts) (length a, a @ b)) (t # us)"
      using True by (auto simp: written_def add.commute)
    then show ?thesis ..
  qed
qed

lemma write_buckets_written:
  "complete (concat (map f is)) \<Longrightarrow> 2 \<le> length b \<Longrightarrow>
   \<exists>us. written (concat (map f is)) a b (rfold (\<lambda>i. write_bucket (f i)) is (length a, a @ b)) us"
proof (induction "is" arbitrary: a b)
  case Nil
  then show ?case by (simp add: written_def)
next
  case (Cons i "is")
  obtain us where us: "written (f i) a b (write_bucket (f i) (length a, a @ b)) us"
    using write_bucket_written [of "f i" b a] Cons.prems by auto
  let ?b = "drop (length (encs us)) b"
  have len: "2 \<le> length ?b" using us by (simp add: written_def) linarith
  obtain vs where vs: "written (concat (map f is)) (a @ encs us) ?b
      (rfold (\<lambda>i. write_bucket (f i)) is (length (a @ encs us), (a @ encs us) @ ?b)) vs"
    using Cons.IH [OF _ len, of "a @ encs us"] Cons.prems by auto
  have "written (concat (map f (i # is))) a b (rfold (\<lambda>i. write_bucket (f i)) (i # is) (length a, a @ b)) (us @ vs)"
    using us vs by (auto simp: written_def add.commute add.left_commute)
  then show ?case ..
qed

lemma write_tuples_written:
  "complete (vars h) \<Longrightarrow> 2 \<le> length b \<Longrightarrow> \<exists>us. written (vars h) a b (write_tuples h (length a, a @ b)) us"
  unfolding vars_def write_tuples_def by (rule write_buckets_written)

section \<open>The layout\<close>

definition image :: "string \<Rightarrow> u32 \<Rightarrow> u32 \<times> u32 \<times> u32 \<Rightarrow> u8 \<Rightarrow> string \<Rightarrow> string" where
  "image pre len ws crc data =
     pre @ le32 NVRAM_MAGIC @ le32 len @ le32 (fst ws OR ucast crc) @ le32 (fst (snd ws)) @ le32 (snd (snd ws)) @ data"

definition data_crc :: "u32 \<times> u32 \<times> u32 \<Rightarrow> string \<Rightarrow> u8" where
  "data_crc ws bs =
     hndcrc8 (map byte_of bs) (hndcrc8 (map byte_of (drop NVRAM_CRC_START_POSITION (tmp_header ws))) 0xff)"

lemma take_drop_split: "p + n \<le> length m \<Longrightarrow> drop p m = take n (drop p m) @ drop (p + n) m"
  by (metis add.commute append_take_drop_id drop_drop)

lemma split_header:
  assumes "off + 20 \<le> length m"
  obtains w0 w1 w2 w3 w4 where "m = take off m @ w0 @ w1 @ w2 @ w3 @ w4 @ drop (off + 20) m"
    "length w0 = 4" "length w1 = 4" "length w2 = 4" "length w3 = 4" "length w4 = 4"
proof -
  let ?w = "\<lambda>i. take 4 (drop (off + i) m)"
  have *: "drop (off + i) m = ?w i @ drop (off + (i + 4)) m" if "i + 4 \<le> 20" for i
    using take_drop_split [of "off + i" 4 m] assms that by (simp add: add.assoc)
  have "drop (off + 0) m = ?w 0 @ ?w 4 @ ?w 8 @ ?w 12 @ ?w 16 @ drop (off + 20) m"
    using * [of 0] * [of 4] * [of 8] * [of 12] * [of 16] by simp
  then have "m = take off m @ ?w 0 @ ?w 4 @ ?w 8 @ ?w 12 @ ?w 16 @ drop (off + 20) m"
    using append_take_drop_id [of off m] by simp
  then show ?thesis using assms by (intro that) auto
qed

lemma mod4_room:
  assumes "(a + b) mod 4 = (0 :: nat)" "2 \<le> b" "(a + 1) mod 4 \<noteq> 0"
  shows "4 - (a + 1) mod 4 \<le> b - 1"
  using assms by presburger

lemma write_end_data:
  assumes "2 \<le> length b" "(length a + length b) mod 4 = 0"
  obtains rest where "length rest = length b - 1"
    "rbind (store (length a) [NUL] (a @ b)) (\<lambda>m.
       if (length a + 1) mod 4 \<noteq> 0 then store (length a + 1) (replicate (4 - (length a + 1) mod 4) NUL) m else Inr m)
     = Inr (a @ NUL # rest)"
proof -
  have s1: "store (length a) [NUL] (a @ b) = Inr ((a @ [NUL]) @ drop 1 b)"
    using assms(1) store_here [of a "length a" "[NUL]" b] by simp
  show ?thesis
  proof (cases "(length a + 1) mod 4 = 0")
    case True
    then show ?thesis using s1 by (intro that [of "drop 1 b"]) auto
  next
    case False
    let ?z = "replicate (4 - (length a + 1) mod 4) NUL"
    have "length ?z \<le> length (drop 1 b)"
      using mod4_room [OF assms(2,1) False] by simp
    then have "store (length a + 1) ?z ((a @ [NUL]) @ drop 1 b) = Inr ((a @ [NUL]) @ ?z @ drop (length ?z) (drop 1 b))"
      by (intro store_here) auto
    with s1 False \<open>length ?z \<le> length (drop 1 b)\<close> show ?thesis
      by (intro that [of "?z @ drop (length ?z) (drop 1 b)"]) auto
  qed
qed

lemma ROUNDUP_le: "x \<le> y \<Longrightarrow> y mod 4 = 0 \<Longrightarrow> NVRAM_ROUNDUP x 4 \<le> y"
  unfolding NVRAM_ROUNDUP_def by presburger

lemma ROUNDUP_ge: "x \<le> NVRAM_ROUNDUP x 4"
  unfolding NVRAM_ROUNDUP_def by presburger

lemma write_header_layout:
  assumes "length pre = off" "length w0 = 4" "length w2 = 4" "length w3 = 4" "length w4 = 4" "length w1 = 4"
  shows "write_header off (c, r, n) (pre @ w0 @ w1 @ w2 @ w3 @ w4 @ old) =
    Inr (pre @ le32 NVRAM_MAGIC @ w1 @ le32 c @ le32 r @ le32 n @ old)"
proof -
  have 0: "store (magic_at off) (le32 NVRAM_MAGIC) (pre @ w0 @ w1 @ w2 @ w3 @ w4 @ old) =
      Inr (pre @ le32 NVRAM_MAGIC @ w1 @ w2 @ w3 @ w4 @ old)"
    using assms store_app [of pre off w0 "le32 NVRAM_MAGIC"] by (simp add: magic_at_def)
  have 1: "store (crc_ver_init_at off) (le32 c) (pre @ le32 NVRAM_MAGIC @ w1 @ w2 @ w3 @ w4 @ old) =
      Inr (pre @ le32 NVRAM_MAGIC @ w1 @ le32 c @ w3 @ w4 @ old)"
    using assms store_app [of "pre @ le32 NVRAM_MAGIC @ w1" "off + 8" w2 "le32 c" "w3 @ w4 @ old"]
    by (simp add: crc_ver_init_at_def)
  have 2: "store (config_refresh_at off) (le32 r) (pre @ le32 NVRAM_MAGIC @ w1 @ le32 c @ w3 @ w4 @ old) =
      Inr (pre @ le32 NVRAM_MAGIC @ w1 @ le32 c @ le32 r @ w4 @ old)"
    using assms store_app [of "pre @ le32 NVRAM_MAGIC @ w1 @ le32 c" "off + 12" w3 "le32 r" "w4 @ old"]
    by (simp add: config_refresh_at_def)
  have 3: "store (config_ncdl_at off) (le32 n) (pre @ le32 NVRAM_MAGIC @ w1 @ le32 c @ le32 r @ w4 @ old) =
      Inr (pre @ le32 NVRAM_MAGIC @ w1 @ le32 c @ le32 r @ le32 n @ old)"
    using assms store_app [of "pre @ le32 NVRAM_MAGIC @ w1 @ le32 c @ le32 r" "off + 16" w4 "le32 n" old]
    by (simp add: config_ncdl_at_def)
  show ?thesis by (simp only: write_header_def prod.case 0 1 2 3 rbind_simps)
qed

text \<open>A handle whose image has room for a header and is made of words.\<close>

definition nvram_sized :: "nvram_handle \<Rightarrow> bool" where
  "nvram_sized h \<longleftrightarrow>
     offset h + 22 \<le> length (mmap h) \<and> offset h mod 4 = 0 \<and> length (mmap h) mod 4 = 0"

definition committed :: "nvram_handle \<Rightarrow> nvram_tuple list \<Rightarrow> string \<Rightarrow> nat \<Rightarrow> bool" where
  "committed h us rest len \<longleftrightarrow>
     commit_image h = Inr (image (take (offset h) (mmap h)) (of_nat len) (header_words h)
       (data_crc (header_words h) (take (len - 20) (encs us @ NUL # rest))) (encs us @ NUL # rest)) \<and>
     set us \<subseteq> set (vars h) \<and>
     (offset h + 22 + length (encs (vars h)) \<le> length (mmap h) \<longrightarrow> us = vars h) \<and>
     len = NVRAM_ROUNDUP (22 + length (encs us)) 4 \<and> len \<le> length (mmap h) - offset h \<and>
     offset h + 20 + length (encs us @ NUL # rest) = length (mmap h)"

lemma write_end_layout:
  assumes "length pre = off" "length w1 = 4" "2 \<le> length b" "(off + 20 + length a + length b) mod 4 = 0"
  obtains rest where "length rest = length b - 1"
    "write_end off (off + 20 + length a, pre @ le32 NVRAM_MAGIC @ w1 @ le32 c @ le32 r @ le32 n @ a @ b) =
      Inr (NVRAM_ROUNDUP (22 + length a) 4,
        pre @ le32 NVRAM_MAGIC @ le32 (of_nat (NVRAM_ROUNDUP (22 + length a) 4)) @ le32 c @ le32 r @ le32 n @ a @ NUL # rest)"
proof -
  let ?a = "pre @ le32 NVRAM_MAGIC @ w1 @ le32 c @ le32 r @ le32 n @ a"
  have len: "length ?a = off + 20 + length a" using assms(1,2) by simp
  then have m4: "(length ?a + length b) mod 4 = 0" using assms(4) by (simp only:)
  obtain rest where rest: "length rest = length b - 1"
    "rbind (store (length ?a) [NUL] (?a @ b)) (\<lambda>m.
       if (length ?a + 1) mod 4 \<noteq> 0 then store (length ?a + 1) (replicate (4 - (length ?a + 1) mod 4) NUL) m else Inr m)
     = Inr (?a @ NUL # rest)"
    using assms(3) m4 by (rule write_end_data)
  let ?l = "NVRAM_ROUNDUP (22 + length a) 4"
  have st: "store (len_at off) (le32 (of_nat ?l)) (?a @ NUL # rest) =
      Inr (pre @ le32 NVRAM_MAGIC @ le32 (of_nat ?l) @ le32 c @ le32 r @ le32 n @ a @ NUL # rest)"
    using assms(1,2) store_app [of "pre @ le32 NVRAM_MAGIC" "off + 4" w1 "le32 (of_nat ?l)"
        "le32 c @ le32 r @ le32 n @ a @ NUL # rest"]
    by (simp add: len_at_def)
  from rest(2) obtain m1 where m1: "store (length ?a) [NUL] (?a @ b) = Inr m1"
    "(if (length ?a + 1) mod 4 \<noteq> 0 then store (length ?a + 1) (replicate (4 - (length ?a + 1) mod 4) NUL) m1 else Inr m1)
       = Inr (?a @ NUL # rest)"
    unfolding rbind_Inr_iff by blast
  have "off + 20 + length a + 2 - off = 22 + length a" by simp
  then have "write_end off (length ?a, ?a @ b) = Inr (?l, pre @ le32 NVRAM_MAGIC @ le32 (of_nat ?l) @ le32 c @ le32 r @ le32 n @ a @ NUL # rest)"
    by (simp only: write_end_def prod.case len m1 [unfolded len] rbind_simps st)
  then show ?thesis using rest(1) unfolding len by (intro that [of rest]) (simp_all only: append_assoc)
qed

lemma commit_layout:
  assumes "nvram_sized h" "complete (vars h)"
  shows "\<exists>us rest len. committed h us rest len"
proof -
  let ?m = "mmap h" and ?off = "offset h" and ?ws = "header_words h"
  let ?pre = "take ?off ?m" and ?old = "drop (?off + 20) ?m"
  obtain c r n where ws: "?ws = (c, r, n)" by (cases ?ws) auto
  have sz: "?off + 22 \<le> length ?m" "?off mod 4 = 0" "length ?m mod 4 = 0"
    using assms(1) by (auto simp: nvram_sized_def)
  have "?off + 20 \<le> length ?m" using sz(1) by simp
  then obtain w0 w1 w2 w3 w4 where m: "?m = ?pre @ w0 @ w1 @ w2 @ w3 @ w4 @ ?old"
    and w: "length w0 = 4" "length w1 = 4" "length w2 = 4" "length w3 = 4" "length w4 = 4"
    by (rule split_header)
  have pre: "length ?pre = ?off" using sz(1) by simp
  let ?hd = "?pre @ le32 NVRAM_MAGIC @ w1 @ le32 c @ le32 r @ le32 n"
  have hd: "length ?hd = ?off + 20" using pre w by simp
  have 1: "write_header ?off ?ws ?m = Inr (?hd @ ?old)"
    using write_header_layout [OF pre w(1,3,4,5,2), of c r n ?old] m by (simp add: ws)
  let ?ff = "replicate (length ?m - ?off - 20) (CHR 0xFF)"
  have len_ff: "length ?ff = length ?m - ?off - 20" "2 \<le> length ?ff" using sz(1) by simp_all
  have "length (?hd @ ?old) = length ?m" using hd sz(1) by simp
  then have 2: "clear_data ?off (?hd @ ?old) = Inr (?hd @ ?ff)"
    using store_here [OF hd, of ?ff ?old] len_ff by (simp add: clear_data_def HEADER_SIZE_def del: length_append append_assoc)
  obtain us where us: "written (vars h) ?hd ?ff (write_tuples h (length ?hd, ?hd @ ?ff)) us"
    using write_tuples_written [OF assms(2) len_ff(2)] by blast
  let ?b = "drop (length (encs us)) ?ff" and ?e = "encs us"
  from us have 3: "write_tuples h (?off + 20, ?hd @ ?ff) = Inr (?off + 20 + length ?e, ?hd @ ?e @ ?b)"
    and room: "length ?e + 2 \<le> length ?ff" and sub: "set us \<subseteq> set (vars h)"
    and all: "length (encs (vars h)) + 2 \<le> length ?ff \<longrightarrow> us = vars h"
    by (auto simp only: written_def hd)
  have lb: "length ?b = length ?ff - length ?e" by simp
  have b2: "2 \<le> length ?b" using room lb by linarith
  have tot: "?off + 20 + length ?e + length ?b = length ?m" using room lb len_ff sz(1) by linarith
  then have m4: "(?off + 20 + length ?e + length ?b) mod 4 = 0" using sz(3) by simp
  obtain rest where rest: "length rest = length ?b - 1"
    and 4: "write_end ?off (?off + 20 + length ?e, ?pre @ le32 NVRAM_MAGIC @ w1 @ le32 c @ le32 r @ le32 n @ ?e @ ?b) =
      Inr (NVRAM_ROUNDUP (22 + length ?e) 4,
        ?pre @ le32 NVRAM_MAGIC @ le32 (of_nat (NVRAM_ROUNDUP (22 + length ?e) 4)) @ le32 c @ le32 r @ le32 n @ ?e @ NUL # rest)"
    using pre w(2) b2 m4 by (rule write_end_layout)
  let ?l = "NVRAM_ROUNDUP (22 + length ?e) 4" and ?d = "?e @ NUL # rest"
  have ld: "?off + 20 + length ?d = length ?m" using tot rest b2 by simp
  have "(length ?m - ?off) mod 4 = 0" using sz by presburger
  then have l: "?l \<le> length ?m - ?off" using tot b2 by (intro ROUNDUP_le) linarith+
  let ?h5 = "?pre @ le32 NVRAM_MAGIC @ le32 (of_nat ?l) @ le32 c @ le32 r @ le32 n"
  have h5: "length ?h5 = ?off + 20" using pre by simp
  have 5: "commit_crc ?off ?ws ?l (?h5 @ ?d) = Inr (data_crc ?ws (take (?l - 20) ?d))"
    using l ld h5 ROUNDUP_ge [of "22 + length ?e"]
    by (simp add: commit_crc_def load_def HEADER_SIZE_def data_crc_def)
  have 6: "store (crc_ver_init_at ?off) (le32 x) (?h5 @ ?d) =
      Inr (?pre @ le32 NVRAM_MAGIC @ le32 (of_nat ?l) @ le32 x @ le32 r @ le32 n @ ?d)" for x
    using pre store_app [of "?pre @ le32 NVRAM_MAGIC @ le32 (of_nat ?l)" "?off + 8" "le32 c" "le32 x" "le32 r @ le32 n @ ?d"]
    by (simp add: crc_ver_init_at_def)
  have "commit_image h = Inr (image ?pre (of_nat ?l) ?ws (data_crc ?ws (take (?l - 20) ?d)) ?d)"
    unfolding commit_image_def Let_def 1 rbind_simps 2 HEADER_SIZE_def
    using 3 4 5 6 by (simp add: ws image_def)
  moreover have "?off + 22 + length (encs (vars h)) \<le> length ?m \<longrightarrow> us = vars h"
    using all len_ff(1) by auto
  ultimately show ?thesis
    unfolding committed_def using sub l ld by blast
qed

end
