(* ===== verification/Nvram_Cli.thy ===== *)
theory Nvram_Cli
  imports Nvram
begin

text \<open>
  The \<open>nvram\<close> command (package/utils/nvram/src/cli.c) and the staging file. The state is the
  content of the MTD partition and of the staging file, each present or not. Opening,
  mapping, reading and writing a present file succeed; a mapping longer than its file ends
  in \<open>Bad_access\<close>. The lines printed for \<open>get\<close> and \<open>show\<close> are collected; the messages on
  standard error and the table of \<open>info\<close> are not.
\<close>

record nvram_sys =
  mtd :: "string option"
  staging :: "string option"

section \<open>The staging file\<close>

text \<open>\<open>nvram_find_mtd\<close> sets \<open>nvram_part_size\<close> to the size of the partition.\<close>

definition nvram_find_mtd :: "nvram_sys \<Rightarrow> nat option" where
  "nvram_find_mtd s = map_option length (mtd s)"

definition nvram_find_staging :: "nvram_sys \<Rightarrow> bool" where
  "nvram_find_staging s = (staging s \<noteq> None)"

definition nvram_to_staging :: "nvram_sys \<Rightarrow> bool \<times> nvram_sys" where
  "nvram_to_staging s =
     (case mtd s of
        None \<Rightarrow> (False, s)
      | Some m \<Rightarrow>
          if length m > 0
          then (True, s\<lparr>staging := Some (m @ drop (length m) (case staging s of None \<Rightarrow> [] | Some f \<Rightarrow> f))\<rparr>)
          else (False, s))"

definition staging_to_nvram :: "nvram_sys \<Rightarrow> bool \<times> nvram_sys" where
  "staging_to_nvram s =
     (case (mtd s, staging s) of
        (Some m, Some f) \<Rightarrow>
          if length m > 0 \<and> length f \<ge> length m
          then (True, s\<lparr>mtd := Some (take (length m) f), staging := None\<rparr>) else (False, s)
      | _ \<Rightarrow> (False, s))"

text \<open>Mapping \<open>nvram_part_size\<close> bytes of a file.\<close>

definition map_file :: "nat \<Rightarrow> string \<Rightarrow> string res" where
  "map_file n f = (if length f < n then Inl Bad_access else Inr (take n f))"

definition open_file :: "(nat \<Rightarrow> bool) \<Rightarrow> bool \<Rightarrow> string \<Rightarrow> nvram_sys \<Rightarrow> nvram_handle option res" where
  "open_file mem rdonly f s =
     (case nvram_find_mtd s of
        None \<Rightarrow> Inr None
      | Some n \<Rightarrow> if n = 0 then Inr None else rbind (map_file n f) (nvram_open mem rdonly))"

definition nvram_open_rdonly :: "(nat \<Rightarrow> bool) \<Rightarrow> nvram_sys \<Rightarrow> nvram_handle option res" where
  "nvram_open_rdonly mem s =
     (case (staging s, mtd s) of
        (Some f, _) \<Rightarrow> open_file mem True f s
      | (None, Some m) \<Rightarrow> open_file mem True m s
      | (None, None) \<Rightarrow> Inr None)"

definition nvram_open_staging :: "(nat \<Rightarrow> bool) \<Rightarrow> nvram_sys \<Rightarrow> (nvram_handle option \<times> nvram_sys) res" where
  "nvram_open_staging mem s =
     (let (ok, s) = (if nvram_find_staging s then (True, s) else nvram_to_staging s) in
      case staging s of
        Some f \<Rightarrow> if ok then rbind (open_file mem False f s) (\<lambda>h. Inr (h, s)) else Inr (None, s)
      | None \<Rightarrow> Inr (None, s))"

section \<open>Commands\<close>

text \<open>The variable is the part before the first equals sign. The result is whether the status is 0.\<close>

definition do_set :: "(nat \<Rightarrow> bool) \<Rightarrow> string \<Rightarrow> nvram_handle \<Rightarrow> bool \<times> nvram_handle" where
  "do_set mem pair h =
     (let var = takeWhile (\<lambda>c. c \<noteq> CHR ''='') pair in
      if length var < length pair then nvram_set mem var (drop (length var + 1) pair) h else (False, h))"

definition do_get :: "string \<Rightarrow> nvram_handle \<Rightarrow> bool \<times> string list" where
  "do_get var h = (case nvram_get h var of None \<Rightarrow> (False, []) | Some v \<Rightarrow> (True, [v]))"

definition do_unset :: "string \<Rightarrow> nvram_handle \<Rightarrow> nvram_handle" where
  "do_unset var h = nvram_unset var h"

definition show_line :: "nvram_tuple \<Rightarrow> string" where
  "show_line t = t_name t @ CHR ''='' # (case t_value t of None \<Rightarrow> ''(null)'' | Some v \<Rightarrow> v)"

definition do_show :: "(nat \<Rightarrow> bool) \<Rightarrow> nvram_handle \<Rightarrow> bool \<times> string list" where
  "do_show mem h = (nvram_getall mem h \<noteq> [], map show_line (nvram_getall mem h))"

text \<open>The two checksums \<open>do_info\<close> prints: the stored and the calculated one.\<close>

definition info_crc :: "nvram_handle \<Rightarrow> (u32 \<times> u8) res" where
  "info_crc h =
     (let off = offset h; m = mmap h in
      rbind (load32 (len_at off) m) (\<lambda>len.
      rbind (load (off + NVRAM_CRC_START_POSITION) (unat len - NVRAM_CRC_START_POSITION) m) (\<lambda>bs.
      rbind (load32 (crc_ver_init_at off) m) (\<lambda>cvi.
        Inr (cvi AND 0xff, hndcrc8 (map byte_of bs) 0xff)))))"

text \<open>What the loop over the arguments of \<open>main\<close> keeps.\<close>

record cli =
  hnd :: nvram_handle
  outp :: "string list"
  c_stat :: bool
  c_commit :: bool
  c_done :: nat

fun run_args :: "(nat \<Rightarrow> bool) \<Rightarrow> string list \<Rightarrow> cli \<Rightarrow> cli res" where
  "run_args mem [] c = Inr c"
| "run_args mem (a # args) c =
     (if a = ''show'' then
        (let (ok, ls) = do_show mem (hnd c) in
         run_args mem args (c\<lparr>c_stat := ok, outp := outp c @ ls, c_done := Suc (c_done c)\<rparr>))
      else if a = ''info'' then
        rbind (info_crc (hnd c)) (\<lambda>_. run_args mem args (c\<lparr>c_stat := True, c_done := Suc (c_done c)\<rparr>))
      else if a = ''get'' \<or> a = ''unset'' \<or> a = ''set'' then
        (case args of
           [] \<Rightarrow> Inr (c\<lparr>c_done := 0\<rparr>)
         | x # rest \<Rightarrow>
             run_args mem rest
               (if a = ''get'' then
                  (let (ok, ls) = do_get x (hnd c) in c\<lparr>c_stat := ok, outp := outp c @ ls, c_done := Suc (c_done c)\<rparr>)
                else if a = ''unset'' then
                  c\<lparr>c_stat := True, hnd := do_unset x (hnd c), c_done := Suc (c_done c)\<rparr>
                else
                  (let (ok, h) = do_set mem x (hnd c) in c\<lparr>c_stat := ok, hnd := h, c_done := Suc (c_done c)\<rparr>)))
      else if a = ''commit'' then run_args mem args (c\<lparr>c_commit := True, c_done := Suc (c_done c)\<rparr>)
      else Inr (c\<lparr>c_done := 0\<rparr>))"

definition wants_write :: "string list \<Rightarrow> bool" where
  "wants_write args =
     (case args of
        [] \<Rightarrow> False
      | a # rest \<Rightarrow> a = ''set'' \<and> rest \<noteq> [] \<or> a = ''unset'' \<and> rest \<noteq> [] \<or> a = ''commit'')"

text \<open>A shared mapping writes the image through to the staging file.\<close>

definition write_through :: "nvram_handle \<Rightarrow> nvram_sys \<Rightarrow> nvram_sys" where
  "write_through h s =
     s\<lparr>staging := map_option (\<lambda>f. mmap h @ drop (length (mmap h)) f) (staging s)\<rparr>"

text \<open>\<open>main\<close>: whether the exit status is 0, the lines printed, and the files. \<open>args\<close> is \<open>argv\<close> without the name of the program.\<close>

definition nvram_main :: "(nat \<Rightarrow> bool) \<Rightarrow> string list \<Rightarrow> nvram_sys \<Rightarrow> (bool \<times> string list \<times> nvram_sys) res" where
  "nvram_main mem args s =
     (if args = [] then Inr (False, [], s)
      else
        rbind (if wants_write args then nvram_open_staging mem s
               else rbind (nvram_open_rdonly mem s) (\<lambda>h. Inr (h, s))) (\<lambda>(ho, s).
        case ho of
          None \<Rightarrow> Inr (False, [], s)
        | Some h \<Rightarrow>
            rbind (run_args mem args \<lparr>hnd = h, outp = [], c_stat = False, c_commit = False, c_done = 0\<rparr>) (\<lambda>c.
            rbind (if wants_write args
                   then rbind (nvram_commit mem (hnd c)) (\<lambda>h. Inr (True, write_through h s))
                   else Inr (c_stat c, s)) (\<lambda>(stat, s).
              (let (stat, s) = (if c_commit c then staging_to_nvram s else (stat, s))
               in Inr (stat \<and> c_done c \<noteq> 0, outp c, s))))))"

end
