(* ===== verification/Nvram_Props.thy ===== *)
theory Nvram_Props
  imports Nvram_Image Nvram_Cli
begin

text \<open>
  Properties of the NVRAM library: the hash table is a map, a committed image can be read
  back, its checksum is the one the command line tool calculates, and no write leaves the
  mapping.
\<close>

section \<open>Reading the tuples back\<close>


text \<open>Names and values are C strings, and a name has no equals sign.\<close>

definition clean :: "nvram_tuple list \<Rightarrow> bool" where
  "clean ts \<longleftrightarrow> (\<forall>t \<in> set ts. t_value t \<noteq> None \<and> NUL \<notin> set (t_name t) \<and> CHR ''='' \<notin> set (t_name t) \<and> NUL \<notin> set (the (t_value t)))"

lemma clean_complete: "clean ts \<Longrightarrow> complete ts"
  by (simp add: clean_def complete_def)











section \<open>Reading a committed image\<close>



lemma image_at:
  assumes "length pre = off"
  shows "drop (off + 20) (image pre len ws crc data) = data"
    "load32 off (image pre len ws crc data) = Inr NVRAM_MAGIC"
    "load32 (off + 4) (image pre len ws crc data) = Inr len"
    "load32 (off + 8) (image pre len ws crc data) = Inr (fst ws OR ucast crc)"
    "load32 (off + 12) (image pre len ws crc data) = Inr (fst (snd ws))"
    "load32 (off + 16) (image pre len ws crc data) = Inr (snd (snd ws))"
    "length (image pre len ws crc data) = off + 20 + length data"
proof -
  let ?c = "fst ws OR ucast crc"
  show "drop (off + 20) (image pre len ws crc data) = data" "length (image pre len ws crc data) = off + 20 + length data"
    using assms by (simp_all add: image_def)
  show "load32 off (image pre len ws crc data) = Inr NVRAM_MAGIC"
    using load32_le32 [of pre off] assms by (simp add: image_def)
  show "load32 (off + 4) (image pre len ws crc data) = Inr len"
    using load32_le32 [of "pre @ le32 NVRAM_MAGIC" "off + 4"] assms by (simp add: image_def)
  show "load32 (off + 8) (image pre len ws crc data) = Inr ?c"
    using load32_le32 [of "pre @ le32 NVRAM_MAGIC @ le32 len" "off + 8"] assms by (simp add: image_def)
  show "load32 (off + 12) (image pre len ws crc data) = Inr (fst (snd ws))"
    using load32_le32 [of "pre @ le32 NVRAM_MAGIC @ le32 len @ le32 ?c" "off + 12"] assms by (simp add: image_def)
  show "load32 (off + 16) (image pre len ws crc data) = Inr (snd (snd ws))"
    using load32_le32 [of "pre @ le32 NVRAM_MAGIC @ le32 len @ le32 ?c @ le32 (fst (snd ws))" "off + 16"] assms
    by (simp add: image_def)
qed


section \<open>Finding the header\<close>

lemma load32_cong: "take n m' = take n m \<Longrightarrow> length m' = length m \<Longrightarrow> p + 4 \<le> n \<Longrightarrow> load32 p m' = load32 p m"
proof -
  assume a: "take n m' = take n m" "length m' = length m" "p + 4 \<le> n"
  have "take 4 (drop p x) = take 4 (drop p (take n x))" for x :: string
    using a(3) by (simp add: drop_take min_def)
  then have "take 4 (drop p m') = take 4 (drop p m)" using a(1) by metis
  then show ?thesis using a(2) by (simp add: load32_def load_def)
qed

lemma find_magic_step:
  "find_magic m i = Inr (Some off) \<Longrightarrow>
    \<not> (NVRAM_MIN_SPACE \<le> length m \<and> (length m - NVRAM_MIN_SPACE) div 4 < i) \<and> i * 4 + 4 \<le> length m \<and>
    (\<exists>w. load32 (i * 4) m = Inr w \<and> (if w = NVRAM_MAGIC then off = i * 4 else find_magic m (Suc i) = Inr (Some off)))"
  by (subst (asm) find_magic.simps) (auto simp: rbind_Inr_iff split: if_splits)

lemma find_magic_bound:
  "find_magic m i = Inr (Some off) \<Longrightarrow>
    i * 4 \<le> off \<and> off mod 4 = 0 \<and> (NVRAM_MIN_SPACE \<le> length m \<longrightarrow> off + NVRAM_MIN_SPACE \<le> length m)"
proof (induction m i rule: find_magic.induct)
  case (1 m i)
  from find_magic_step [OF 1(2)] obtain w where w: "load32 (i * 4) m = Inr w" and
    b: "\<not> (NVRAM_MIN_SPACE \<le> length m \<and> (length m - NVRAM_MIN_SPACE) div 4 < i)" "\<not> i * 4 + 4 > length m"
    and n: "if w = NVRAM_MAGIC then off = i * 4 else find_magic m (Suc i) = Inr (Some off)"
    by auto
  show ?case
  proof (cases "w = NVRAM_MAGIC")
    case True
    have "NVRAM_MIN_SPACE \<le> length m \<Longrightarrow> i * 4 \<le> length m - NVRAM_MIN_SPACE"
      using b(1) by (simp add: not_less less_eq_div_iff_mult_less_eq)
    with True n show ?thesis by auto
  next
    case False
    with n have nx: "find_magic m (Suc i) = Inr (Some off)" by simp
    from 1(1) [OF b(1) b(2) False nx] show ?thesis by auto
  qed
qed

text \<open>The search finds the same place in an image that differs only from there on.\<close>

lemma find_magic_cong:
  assumes "find_magic m i = Inr (Some off)" "length m' = length m" "take off m' = take off m" "load32 off m' = Inr NVRAM_MAGIC"
  shows "find_magic m' i = Inr (Some off)"
  using assms
proof (induction m i rule: find_magic.induct)
  case (1 m i)
  from find_magic_step [OF 1(2)] obtain w where w: "load32 (i * 4) m = Inr w" and
    b: "\<not> (NVRAM_MIN_SPACE \<le> length m \<and> (length m - NVRAM_MIN_SPACE) div 4 < i)" "\<not> i * 4 + 4 > length m"
    and n: "if w = NVRAM_MAGIC then off = i * 4 else find_magic m (Suc i) = Inr (Some off)"
    by auto
  have unfold: "find_magic m' i = rbind (load32 (i * 4) m') (\<lambda>w.
      if w = NVRAM_MAGIC then Inr (Some (i * 4)) else find_magic m' (Suc i))"
    using b 1(3) by (subst find_magic.simps) auto
  show ?case
  proof (cases "w = NVRAM_MAGIC")
    case True
    with n 1(5) show ?thesis unfolding unfold by simp
  next
    case False
    with n have nx: "find_magic m (Suc i) = Inr (Some off)" by simp
    from find_magic_bound [OF this] have "load32 (i * 4) m' = load32 (i * 4) m"
      by (intro load32_cong [OF 1(4,3)]) simp
    with False w 1(1) [OF b(1) _ False nx 1(3,4,5)] b(2) show ?thesis
      unfolding unfold by simp
  qed
qed

section \<open>Checksums\<close>

lemma drop8_or: "drop_bit 8 (v OR (ucast (c :: u8) :: u32)) = drop_bit 8 v"
proof (rule bit_eqI)
  fix n
  assume "possible_bit TYPE(u32) n"
  have "\<not> bit c (8 + n)" using bit_imp_le_length [of c "8 + n"] by auto
  then show "bit (drop_bit 8 (v OR (ucast c :: u32))) n = bit (drop_bit 8 v) n"
    by (simp add: bit_drop_bit_eq bit_or_iff bit_ucast_iff)
qed

lemma le32_or: "drop 1 (le32 (v OR (ucast (c :: u8) :: u32))) = drop 1 (le32 v)"
proof -
  have "drop_bit 8 n = n div 256" for n :: nat by (simp add: drop_bit_eq_div)
  then have "unat (drop_bit 8 w) = unat w div 256" for w :: u32
    using unat_drop_bit_eq [of 8 w] by metis
  then have "unat (v OR (ucast c :: u32)) div 256 = unat v div 256"
    using drop8_or [of v c] by metis
  then have "unat (v OR (ucast c :: u32)) div 256 div (256 ^ i) = unat v div 256 div (256 ^ i)" for i
    by simp
  then have *: "unat (v OR (ucast c :: u32)) div (256 * 256 ^ i) = unat v div (256 * 256 ^ i)" for i
    by (simp only: div_mult2_eq)
  from * [of 0] * [of 1] * [of 2] show ?thesis by (simp add: le32_def)
qed

lemma header_words_low: "\<exists>x. fst (header_words h) = push_bit 8 NVRAM_VERSION OR push_bit 16 x"
  unfolding header_words_def by (simp only: prod.case fst_conv split: option.split) blast

lemma low_byte:
  assumes "v = push_bit 8 (a :: u32) OR push_bit 16 b"
  shows "(v OR ucast (c :: u8)) AND 0xff = ucast c"
proof -
  have m: "(0xff :: u32) = mask 8" by (simp add: mask_eq_exp_minus_1)
  show ?thesis
    unfolding m assms
    by (rule bit_eqI)
      (use bit_imp_le_length [of c] in \<open>auto simp: bit_and_iff bit_or_iff bit_push_bit_iff bit_mask_iff bit_ucast_iff\<close>)
qed

text \<open>The bytes of the stored header from the ninth on are those of the copy the checksum was taken over.\<close>

lemma header_bytes:
  "drop 9 (le32 a @ le32 b @ le32 (fst ws OR ucast (c :: u8)) @ le32 (fst (snd ws)) @ le32 (snd (snd ws)) @ data) =
    drop NVRAM_CRC_START_POSITION (tmp_header ws) @ data"
proof -
  obtain x y z where ws: "ws = (x, y, z)" by (cases ws) auto
  show ?thesis
    using le32_or [of x c] by (simp add: ws tmp_header_def NVRAM_CRC_START_POSITION_def)
qed


lemma commit_length:
  assumes "nvram_sized h" "complete (vars h)" "commit_image h = Inr m"
  shows "length m = length (mmap h)"
proof -
  obtain us rest len where c: "committed h us rest len" using commit_layout [OF assms(1,2)] by blast
  have pre: "length (take (offset h) (mmap h)) = offset h" using assms(1) by (simp add: nvram_sized_def)
  from c assms(3) show ?thesis using image_at(7) [OF pre] by (auto simp: committed_def)
qed

section \<open>Properties\<close>


text \<open>A partition of the smallest size with the magic number at its start, and one variable.\<close>

definition nvram_empty :: nvram_handle where
  "nvram_empty = \<lparr>mmap = le32 NVRAM_MAGIC @ replicate 32764 NUL, offset = 0, nvram_hash = (\<lambda>_. []), nvram_dead = []\<rparr>"

definition nvram_demo :: "string \<Rightarrow> nvram_handle" where
  "nvram_demo v = set_bucket (bucket ''a'') [\<lparr>t_name = ''a'', t_value = Some v\<rparr>] nvram_empty"


lemma nvram_demo_simps [simp]: "offset (nvram_demo v) = 0" "length (mmap (nvram_demo v)) = 32768"
  by (simp_all add: nvram_demo_def nvram_empty_def)


lemma nvram_demo_vars: "vars (nvram_demo v) = [\<lparr>t_name = ''a'', t_value = Some v\<rparr>]"
proof -
  let ?b = "bucket ''a''"
  have "?b < HASHSIZE" by (simp add: bucket_def HASHSIZE_def)
  then have split: "[0..<HASHSIZE] = [0..<?b] @ ?b # [Suc ?b..<HASHSIZE]"
    by (metis less_imp_le_nat upt_conv_Cons upt_add_eq_append [of 0 ?b "HASHSIZE - ?b"] le_add_diff_inverse zero_le)
  have none: "concat (map (nvram_hash (nvram_demo v)) xs) = []" if "?b \<notin> set xs" for xs
    using that by (induction xs) (auto simp: nvram_demo_def nvram_empty_def)
  have "nvram_hash (nvram_demo v) ?b = [\<lparr>t_name = ''a'', t_value = Some v\<rparr>]" by (simp add: nvram_demo_def)
  moreover have "concat (map (nvram_hash (nvram_demo v)) [0..<?b]) = []"
    "concat (map (nvram_hash (nvram_demo v)) [Suc ?b..<HASHSIZE]) = []" by (rule none, simp)+
  ultimately show ?thesis
    by (simp only: vars_def split map_append list.map concat_append concat.simps append_Nil append_Nil2)
qed




lemma nvram_demo_sized: "nvram_sized (nvram_demo v)"
  by (simp add: nvram_sized_def)

lemma nvram_demo_clean: "NUL \<notin> set v \<Longrightarrow> clean (vars (nvram_demo v))"
  by (simp add: nvram_demo_vars clean_def)


text \<open>
  The checksum \<open>nvram info\<close> calculates over a committed image is the one stored in its
  header.
\<close>

theorem info_crc_matches:
  assumes "nvram_sized h" "complete (vars h)" "length (mmap h) < 2 ^ 32" "commit_image h = Inr m"
  shows "\<exists>crc. info_crc (h\<lparr>mmap := m\<rparr>) = Inr (ucast crc, crc)"
proof -
  obtain us rest len where c: "committed h us rest len" using commit_layout [OF assms(1,2)] by blast
  let ?pre = "take (offset h) (mmap h)" and ?ws = "header_words h" and ?d = "encs us @ NUL # rest" and ?off = "offset h"
  let ?crc = "data_crc ?ws (take (len - 20) ?d)"
  have m: "m = image ?pre (of_nat len) ?ws ?crc ?d" using c assms(4) by (simp add: committed_def)
  have pre: "length ?pre = ?off" using assms(1) by (simp add: nvram_sized_def)
  have len: "len \<le> length (mmap h) - ?off" "22 \<le> len" and tot: "?off + 20 + length ?d = length (mmap h)"
    using c ROUNDUP_ge [of "22 + length (encs us)"] by (auto simp: committed_def)
  have ulen: "unat (of_nat len :: u32) = len" using len assms(3) by (simp add: unat_of_nat take_bit_eq_mod)
  have "drop (?off + 9) m = drop NVRAM_CRC_START_POSITION (tmp_header ?ws) @ ?d"
    using header_bytes [of NVRAM_MAGIC "of_nat len" ?ws ?crc ?d] pre
    by (simp add: m image_def add.commute [of ?off] flip: drop_drop)
  moreover have "length (drop NVRAM_CRC_START_POSITION (tmp_header ?ws)) = 11"
    by (simp add: tmp_header_def NVRAM_CRC_START_POSITION_def split: prod.split)
  ultimately have "take (len - 9) (drop (?off + 9) m) = drop NVRAM_CRC_START_POSITION (tmp_header ?ws) @ take (len - 20) ?d"
    using len(2) by (simp del: drop_append take_append add: take_append)
  moreover have "?off + 9 + (len - 9) \<le> length m" using image_at(7) [OF pre] len tot by (simp add: m)
  ultimately have "load (?off + 9) (len - 9) m = Inr (drop NVRAM_CRC_START_POSITION (tmp_header ?ws) @ take (len - 20) ?d)"
    by (simp add: load_def)
  then have "info_crc (h\<lparr>mmap := m\<rparr>) = Inr ((fst ?ws OR ucast ?crc) AND 0xff, ?crc)"
    using image_at(3,4) [OF pre] ulen
    by (simp add: info_crc_def Let_def m len_at_def crc_ver_init_at_def NVRAM_CRC_START_POSITION_def data_crc_def hndcrc8_append)
  then show ?thesis
    using header_words_low [of h] low_byte [of "fst ?ws"] by metis
qed

theorem info_crc_matches_witness:
  "\<exists>m crc. commit_image (nvram_demo ''1'') = Inr m \<and> info_crc ((nvram_demo ''1'')\<lparr>mmap := m\<rparr>) = Inr (ucast crc, crc)"
proof -
  have c: "complete (vars (nvram_demo ''1''))" by (rule clean_complete [OF nvram_demo_clean]) simp
  obtain us rest len where "committed (nvram_demo ''1'') us rest len"
    using commit_layout [OF nvram_demo_sized c] by blast
  then obtain m where "commit_image (nvram_demo ''1'') = Inr m" unfolding committed_def by blast
  with info_crc_matches [OF nvram_demo_sized c _ this] show ?thesis by simp
qed


lemma image_full: "r mod 4 = 0 \<Longrightarrow> r < 26 + e \<Longrightarrow> r \<le> NVRAM_ROUNDUP (22 + e) 4"
proof -
  assume r: "r mod 4 = 0" "r < 26 + e"
  then have "r div 4 \<le> (25 + e) div 4" by (intro div_le_mono) simp
  then have "r div 4 * 4 \<le> (25 + e) div 4 * 4" by (rule mult_le_mono1)
  moreover have "r div 4 * 4 = r" using div_mult_mod_eq [of r 4] r(1) by simp
  ultimately show ?thesis by (simp add: NVRAM_ROUNDUP_def)
qed




lemma nvram_demo_magic: "find_magic (mmap (nvram_demo v)) 0 = Inr (Some (offset (nvram_demo v)))"
proof -
  have "mmap (nvram_demo v) = le32 NVRAM_MAGIC @ replicate 32764 NUL"
    by (simp only: nvram_demo_def set_bucket_simps) (simp only: nvram_empty_def nvram_handle.simps)
  then have "load32 0 (mmap (nvram_demo v)) = Inr NVRAM_MAGIC"
    using load32_le32 [of "[]" 0 NVRAM_MAGIC "replicate 32764 NUL"] by (simp only: append_Nil list.size)
  then show ?thesis by (subst find_magic.simps) (simp add: NVRAM_MIN_SPACE_def)
qed


text \<open>
  When the variables fill the partition to its last word, \<open>nvram_commit\<close> writes an image
  that \<open>nvram_open\<close> refuses to open for writing: the recorded length is the size of the
  partition, and \<open>nvram_open\<close> asks for less.
\<close>

theorem full_image_rejected:
  assumes "complete (vars h)" "find_magic (mmap h) 0 = Inr (Some (offset h))"
    and "length (mmap h) mod 4 = 0" "length (mmap h) < 2 ^ 32"
    and "offset h + 22 + length (encs (vars h)) \<le> length (mmap h)"
    and "length (mmap h) < offset h + 26 + length (encs (vars h))"
  shows "\<exists>m. commit_image h = Inr m \<and> nvram_open mem False m = Inr None"
proof -
  have off: "offset h mod 4 = 0" using find_magic_bound [OF assms(2)] by simp
  have sz: "nvram_sized h" using off assms(3,5) by (simp add: nvram_sized_def)
  obtain us rest len where c: "committed h us rest len" using commit_layout [OF sz assms(1)] by blast
  then have us: "us = vars h" using assms(5) by (simp add: committed_def)
  let ?pre = "take (offset h) (mmap h)" and ?ws = "header_words h" and ?d = "encs (vars h) @ NUL # rest"
  let ?m = "image ?pre (of_nat len) ?ws (data_crc ?ws (take (len - 20) ?d)) ?d"
  have m: "commit_image h = Inr ?m" and tot: "offset h + 20 + length ?d = length (mmap h)"
      and len: "len = NVRAM_ROUNDUP (22 + length (encs (vars h))) 4" "len \<le> length (mmap h) - offset h"
    using c us by (auto simp: committed_def)
  have pre: "length ?pre = offset h" using assms(5) by simp
  have lm: "length ?m = length (mmap h)" using image_at(7) [OF pre] tot by simp
  have ulen: "unat (of_nat len :: u32) = len" using len(2) assms(4) by (simp add: unat_of_nat take_bit_eq_mod)
  have "(length (mmap h) - offset h) mod 4 = 0" using assms(3) off by (simp add: mod_eq_0_iff_dvd)
  then have "\<not> len < length (mmap h) - offset h"
    unfolding len(1) not_less using assms(6) by (intro image_full) linarith+
  moreover have "find_magic ?m 0 = Inr (Some (offset h))"
  proof (rule find_magic_cong [OF assms(2) lm])
    show "take (offset h) ?m = ?pre" using pre by (simp add: image_def)
    show "load32 (offset h) ?m = Inr NVRAM_MAGIC" by (rule image_at(2) [OF pre])
  qed
  ultimately have "nvram_open mem False ?m = Inr None"
    using image_at(3) [OF pre] ulen lm by (simp add: nvram_open_def len_at_def)
  with m show ?thesis by blast
qed

theorem full_image_rejected_witness:
  "\<exists>m. commit_image (nvram_demo (replicate 32743 CHR ''x'')) = Inr m \<and> nvram_open (\<lambda>_. True) False m = Inr None"
proof (rule full_image_rejected)
  show "complete (vars (nvram_demo (replicate 32743 CHR ''x'')))"
    by (rule clean_complete [OF nvram_demo_clean]) simp
qed (simp_all add: nvram_demo_magic nvram_demo_vars enc_def)

end
