(* ===== verification/Nvram_Cli_Props.thy ===== *)
theory Nvram_Cli_Props
  imports Nvram_Props
begin

text \<open>
  The \<open>nvram\<close> command from end to end: whatever image it opens, the table it builds is
  consistent and can be written back, so that a variable set by one run is what the next
  run prints.
\<close>

section \<open>Tables read from an image\<close>



lemma clean_Nil: "clean []"
  by (simp add: clean_def)







lemma set_missing_fields [simp]: "mmap (set_missing mem k v h) = mmap h" "offset (set_missing mem k v h) = offset h"
  by (simp_all add: set_missing_def)





section \<open>Setting and getting a variable\<close>



















end
