(* ===== verification/Mtk_Nmbm_Data.thy ===== *)
theory Mtk_Nmbm_Data
  imports Prelude
begin

text \<open>
  The data of MediaTek's NMBM mapping (target/linux/generic/files/drivers/mtd/nand/mtk_bmt_nmbm.c):
  the structures in memory and their images on the chip, which are little-endian. Members
  that hold numbers of type \<open>u32\<close> are natural numbers; \<open>block_mapping\<close> has elements of type
  \<open>int32_t\<close>, and \<open>block_state\<close> is the bitmap itself.
\<close>

record nmbm_header =
  h_magic :: nat
  h_version :: nat
  h_size :: nat
  h_checksum :: nat

record nmbm_signature = nmbm_header +
  nand_size :: nat
  sig_block_size :: nat
  sig_page_size :: nat
  spare_size :: nat
  mgmt_start_pb :: nat
  max_try_count :: nat

record nmbm_info_table_header = nmbm_header +
  write_count :: nat
  state_table_off :: nat
  mapping_table_off :: nat
  h_padding :: nat

record nmbm_instance =
  rawpage_size :: nat
  rawblock_size :: nat
  rawchip_size :: nat
  signature :: nmbm_signature
  info_table_cache :: "u8 list"
  info_table_size :: nat
  info_table_spare_blocks :: nat
  info_table :: nmbm_info_table_header
  block_state :: "u32 list"
  block_state_changed :: nat
  state_table_size :: nat
  block_mapping :: "int list"
  block_mapping_changed :: nat
  mapping_table_size :: nat
  protected :: bool
  block_count :: nat
  data_block_count :: nat
  mgmt_start_ba :: nat
  main_table_ba :: nat
  backup_table_ba :: nat
  mapping_blocks_ba :: nat
  mapping_blocks_top_ba :: nat
  signature_ba :: nat
  max_ratio :: nat
  max_reserved_blocks :: nat
  empty_page_ecc_ok :: bool
  force_create :: bool

section \<open>Images\<close>

text \<open>\<open>n\<close> bytes of a number, and the number in bytes.\<close>

primrec le_bytes :: "nat \<Rightarrow> nat \<Rightarrow> u8 list" where
  "le_bytes 0 x = []"
| "le_bytes (Suc n) x = of_nat x # le_bytes n (x div 256)"

fun le_num :: "u8 list \<Rightarrow> nat" where
  "le_num [] = 0"
| "le_num (b # bs) = unat b + 256 * le_num bs"

definition num_at :: "nat \<Rightarrow> nat \<Rightarrow> u8 list \<Rightarrow> nat" where
  "num_at off n buf = le_num (take n (drop off buf))"

definition header_bytes :: "'z nmbm_header_scheme \<Rightarrow> u8 list" where
  "header_bytes h = le_bytes 4 (h_magic h) @ le_bytes 4 (h_version h) @ le_bytes 4 (h_size h) @ le_bytes 4 (h_checksum h)"

text \<open>The signature has three members of padding and is aligned to eight bytes.\<close>

definition signature_bytes :: "nmbm_signature \<Rightarrow> u8 list" where
  "signature_bytes g =
     header_bytes g @ le_bytes 8 (nand_size g) @ le_bytes 4 (sig_block_size g) @ le_bytes 4 (sig_page_size g) @
     le_bytes 4 (spare_size g) @ le_bytes 4 (mgmt_start_pb g) @ le_bytes 1 (max_try_count g) @ replicate 7 0"

definition info_table_bytes :: "nmbm_info_table_header \<Rightarrow> u8 list" where
  "info_table_bytes h =
     header_bytes h @ le_bytes 4 (write_count h) @ le_bytes 4 (state_table_off h) @
     le_bytes 4 (mapping_table_off h) @ le_bytes 4 (h_padding h)"

definition signature_of :: "u8 list \<Rightarrow> nmbm_signature" where
  "signature_of b =
     \<lparr>h_magic = num_at 0 4 b, h_version = num_at 4 4 b, h_size = num_at 8 4 b, h_checksum = num_at 12 4 b,
      nand_size = num_at 16 8 b, sig_block_size = num_at 24 4 b, sig_page_size = num_at 28 4 b,
      spare_size = num_at 32 4 b, mgmt_start_pb = num_at 36 4 b, max_try_count = num_at 40 1 b\<rparr>"

definition info_table_of :: "u8 list \<Rightarrow> nmbm_info_table_header" where
  "info_table_of b =
     \<lparr>h_magic = num_at 0 4 b, h_version = num_at 4 4 b, h_size = num_at 8 4 b, h_checksum = num_at 12 4 b,
      write_count = num_at 16 4 b, state_table_off = num_at 20 4 b, mapping_table_off = num_at 24 4 b,
      h_padding = num_at 28 4 b\<rparr>"

text \<open>The two tables: words of the bitmap, and signed numbers.\<close>

definition state_bytes :: "u32 list \<Rightarrow> u8 list" where
  "state_bytes ws = concat (map (\<lambda>w. le_bytes 4 (unat w)) ws)"

definition mapping_bytes :: "int list \<Rightarrow> u8 list" where
  "mapping_bytes xs = concat (map (\<lambda>x. le_bytes 4 (nat (x mod 2 ^ 32))) xs)"

definition int32_at :: "nat \<Rightarrow> u8 list \<Rightarrow> int" where
  "int32_at off b = (let n = num_at off 4 b in if n < 2 ^ 31 then int n else int n - 2 ^ 32)"

definition states_of :: "nat \<Rightarrow> u8 list \<Rightarrow> u32 list" where
  "states_of n b = map (\<lambda>k. of_nat (num_at (4 * k) 4 b)) [0..<n]"

definition mappings_of :: "nat \<Rightarrow> u8 list \<Rightarrow> int list" where
  "mappings_of n b = map (\<lambda>k. int32_at (4 * k) b) [0..<n]"

section \<open>Round trips\<close>

lemma le_bytes_length [simp]: "length (le_bytes n x) = n"
  by (induction n arbitrary: x) auto

lemma le_num_bytes: "le_num (le_bytes n x) = x mod 256 ^ n"
proof (induction n arbitrary: x)
  case (Suc n)
  have "unat (of_nat x :: u8) = x mod 256" by (simp add: unat_of_nat)
  then show ?case using Suc by (simp add: mod_mult2_eq)
qed simp

lemma num_at_head: "length a = off \<Longrightarrow> num_at off n (a @ le_bytes n x @ r) = x mod 256 ^ n"
  by (simp add: num_at_def le_num_bytes)

end
