(* ===== verification/Mtk_Bmt.thy ===== *)
theory Mtk_Bmt
  imports Mtk_Nmbm_Data
begin

text \<open>
  The common layer of MediaTek's bad block management
  (target/linux/generic/files/drivers/mtd/nand/mtk_bmt.c and mtk_bmt.h): the descriptor
  \<open>bmtd\<close>, the wrappers of the NAND driver's entry points, and the MTD operations that
  translate a logical block to the physical one a mapping chooses and remap it on failure.

  The NAND driver is kernel code outside of this repository. Its five entry points are the
  fields of \<open>nand_dev\<close>, functions of a chip state of any type \<open>'n\<close>. Integers of the
  descriptor are natural numbers; each narrowing to \<open>u16\<close>, \<open>u32\<close> or \<open>int\<close> that can change
  a value is written out. Addresses of type \<open>loff_t\<close> are natural numbers: a block
  number of 16 bits shifted by the size of a block stays far below \<open>2 ^ 63\<close>.
\<close>

section \<open>Integers\<close>

definition u16_of :: "int \<Rightarrow> nat" where
  "u16_of x = nat (x mod 2 ^ 16)"

definition u32_of :: "int \<Rightarrow> nat" where
  "u32_of x = nat (x mod 2 ^ 32)"

text \<open>The conversion of a \<open>u32\<close> to \<open>int\<close>.\<close>

definition s32_of :: "nat \<Rightarrow> int" where
  "s32_of n = (if n mod 2 ^ 32 < 2 ^ 31 then int (n mod 2 ^ 32) else int (n mod 2 ^ 32) - 2 ^ 32)"

definition EIO :: int where
  "EIO = 5"

definition ENOMEM :: int where
  "ENOMEM = 12"

definition EUCLEAN :: int where
  "EUCLEAN = 117"

definition ENOSPC :: int where
  "ENOSPC = 28"

definition mtd_is_bitflip :: "int \<Rightarrow> bool" where
  "mtd_is_bitflip err = (err = - EUCLEAN)"

section \<open>The driver and the descriptor\<close>

text \<open>
  \<open>read_oob d from len ooboffs ooblen c\<close> is the return value, the bytes stored to \<open>datbuf\<close>
  (\<open>retlen\<close> of them), the bytes stored to \<open>oobbuf\<close> (\<open>oobretlen\<close> of them) and the chip
  after the call; \<open>write_oob d to dat ooboffs oob c\<close> the return value, \<open>retlen\<close>,
  \<open>oobretlen\<close> and the chip.
\<close>

record 'n nand_dev =
  read_oob :: "nat \<Rightarrow> nat \<Rightarrow> nat \<Rightarrow> nat \<Rightarrow> 'n \<Rightarrow> (int \<times> u8 list \<times> u8 list) \<times> 'n"
  write_oob :: "nat \<Rightarrow> u8 list \<Rightarrow> nat \<Rightarrow> u8 list \<Rightarrow> 'n \<Rightarrow> (int \<times> nat \<times> nat) \<times> 'n"
  erase_blk :: "nat \<Rightarrow> nat \<Rightarrow> 'n \<Rightarrow> int \<times> 'n"
  block_isbad :: "nat \<Rightarrow> 'n \<Rightarrow> int \<times> 'n"
  block_markbad :: "nat \<Rightarrow> 'n \<Rightarrow> int \<times> 'n"

record mtd_info =
  msize :: nat
  erasesize :: nat
  writesize :: nat
  oobsize :: nat
  bitflip_threshold :: nat
  ecc_strength :: nat

record 'n bmt_desc =
  mtd :: mtd_info
  bbt_buf :: "u8 list"
  data_buf :: "u8 list"
  ops_sig :: "u8 list"
  table_size :: nat
  pg_size :: nat
  blk_size :: nat
  pg_shift :: nat
  blk_shift :: nat
  pool_lba :: nat
  pool_pba :: nat
  bb_max :: nat
  total_blks :: nat
  bmt_blk_idx :: nat
  bmt_pgs :: nat
  remap_range :: "(nat \<times> nat) list option"
  oob_offset :: nat
  ni :: "nmbm_instance option"
  chip :: 'n

text \<open>
  \<open>struct mtk_bmt_ops\<close>. The signature is in the field \<open>ops_sig\<close> of the descriptor; \<open>init\<close>
  is chosen by \<open>mtk_bmt_attach\<close>.
\<close>

record 'n mtk_bmt_ops =
  remap_block :: "nat \<Rightarrow> nat \<Rightarrow> int \<Rightarrow> 'n bmt_desc \<Rightarrow> (bool \<times> 'n bmt_desc) res"
  unmap_block :: "nat \<Rightarrow> 'n bmt_desc \<Rightarrow> ('n bmt_desc) res"
  get_mapping_block :: "int \<Rightarrow> 'n bmt_desc \<Rightarrow> int res"
  debug_op :: "nat \<Rightarrow> 'n bmt_desc \<Rightarrow> (int \<times> 'n bmt_desc) res"

section \<open>NAND wrappers\<close>

definition MAIN_SIGNATURE_OFFSET :: nat where
  "MAIN_SIGNATURE_OFFSET = 0"

definition OOB_SIGNATURE_OFFSET :: nat where
  "OOB_SIGNATURE_OFFSET = 1"

text \<open>What a buffer holds after the driver has stored \<open>dat\<close> at its start.\<close>

definition fill_buf :: "u8 list \<Rightarrow> u8 list \<Rightarrow> u8 list" where
  "fill_buf dat buf = take (length buf) (dat @ drop (length dat) buf)"

definition blk_addr :: "('n, 'z) bmt_desc_scheme \<Rightarrow> nat \<Rightarrow> nat" where
  "blk_addr s block = block * 2 ^ blk_shift s"

definition blk_pg :: "'n bmt_desc \<Rightarrow> nat \<Rightarrow> nat" where
  "blk_pg s block = (block * 2 ^ (blk_shift s - pg_shift s)) mod 2 ^ 32"

text \<open>
  \<open>bbt_nand_read\<close> returns 0 or the error, and the bytes for the two buffers. The address is
  calculated with 32 bits.
\<close>

definition bbt_nand_read ::
  "'n nand_dev \<Rightarrow> nat \<Rightarrow> nat \<Rightarrow> nat \<Rightarrow> 'n bmt_desc \<Rightarrow> (int \<times> u8 list \<times> u8 list) \<times> 'n bmt_desc" where
  "bbt_nand_read d page dat_len fdm_len s =
     (let ((ret, dat, fdm), c) =
            read_oob d ((page * 2 ^ pg_shift s) mod 2 ^ 32) dat_len (oob_offset s) fdm_len (chip s)
      in ((if ret < 0 then ret else 0, dat, fdm), s\<lparr>chip := c\<rparr>))"

definition bbt_nand_erase :: "'n nand_dev \<Rightarrow> nat \<Rightarrow> 'n bmt_desc \<Rightarrow> int \<times> 'n bmt_desc" where
  "bbt_nand_erase d block s =
     (let (ret, c) = erase_blk d (blk_addr s block) (blk_size s) (chip s) in (ret, s\<lparr>chip := c\<rparr>))"

definition write_bmt :: "'n nand_dev \<Rightarrow> nat \<Rightarrow> 'n bmt_desc \<Rightarrow> (int \<times> 'n bmt_desc) res" where
  "write_bmt d block s =
     (let len = bmt_pgs s * 2 ^ pg_shift s in
      if length (bbt_buf s) < len then Inl Bad_access
      else
        let ((ret, _, _), c) =
              write_oob d (blk_addr s block) (take len (bbt_buf s))
                (OOB_SIGNATURE_OFFSET + oob_offset s) (ops_sig s) (chip s)
        in Inr (ret, s\<lparr>chip := c\<rparr>))"

text \<open>
  The loop of \<open>bbt_nand_copy\<close> with \<open>n\<close> pages to go. The second request of a page is made
  with \<open>ooblen = 0\<close>: the assignment to \<open>wr_ops.ooblen\<close> comes after it.
\<close>

primrec copy_pages ::
  "'n nand_dev \<Rightarrow> nat \<Rightarrow> nat \<Rightarrow> nat \<Rightarrow> int \<Rightarrow> nat \<Rightarrow> nat \<Rightarrow> 'n bmt_desc \<Rightarrow> int \<times> 'n bmt_desc" where
  "copy_pages d pages src dest max_offset offset 0 s = (0, s)"
| "copy_pages d pages src dest max_offset offset (Suc n) s =
     (if int offset \<ge> max_offset then (0, s)
      else
        let ((ret, dat, oob), c) =
              read_oob d (src + offset) (pg_size s) 0 (min (oobsize (mtd s) div pages) 64) (chip s);
            s1 = s\<lparr>chip := c, data_buf := fill_buf dat (data_buf s)\<rparr>
        in
          if ret < 0 \<and> \<not> mtd_is_bitflip ret then (ret, s1)
          else if dat = [] then (0, s1)
          else
            let ((wret, _, _), c2) =
                  write_oob d (dest + offset) (take (pg_size s) (data_buf s1)) 0 [] c;
                s2 = s1\<lparr>chip := c2\<rparr>
            in
              if wret < 0 then (wret, s2)
              else copy_pages d pages src dest max_offset (offset + length dat) n s2)"

definition bbt_nand_copy ::
  "'n nand_dev \<Rightarrow> nat \<Rightarrow> nat \<Rightarrow> int \<Rightarrow> 'n bmt_desc \<Rightarrow> int \<times> 'n bmt_desc" where
  "bbt_nand_copy d dest_blk src_blk max_offset s =
     (let pages = drop_bit (pg_shift s) (blk_size s) in
      copy_pages d pages (blk_addr s src_blk) (blk_addr s dest_blk) max_offset 0 pages s)"

section \<open>Mapping\<close>

text \<open>\<open>*start\<close> and \<open>*end\<close> when the block may be remapped, \<open>None\<close> otherwise.\<close>

definition mapping_block_in_range :: "int \<Rightarrow> ('n, 'z) bmt_desc_scheme \<Rightarrow> (int \<times> int) option" where
  "mapping_block_in_range block s =
     (let addr = u32_of (block * 2 ^ blk_shift s) in
      case remap_range s of
        None \<Rightarrow> Some (0, int (total_blks s))
      | Some [] \<Rightarrow> Some (0, int (total_blks s))
      | Some rs \<Rightarrow>
          (case find (\<lambda>(lo, hi). lo \<le> addr \<and> addr < hi) rs of
             None \<Rightarrow> None
           | Some (lo, hi) \<Rightarrow> Some (s32_of lo, s32_of hi)))"

definition mtk_bmt_remap_block ::
  "'n mtk_bmt_ops \<Rightarrow> nat \<Rightarrow> nat \<Rightarrow> int \<Rightarrow> 'n bmt_desc \<Rightarrow> (bool \<times> 'n bmt_desc) res" where
  "mtk_bmt_remap_block ops block mapped_block copy_len s =
     (case mapping_block_in_range (s32_of block) s of
        None \<Rightarrow> Inr (False, s)
      | Some _ \<Rightarrow> remap_block ops (u16_of (int block)) (u16_of (int mapped_block)) copy_len s)"

section \<open>MTD operations\<close>

record rd_state =
  rd_from :: nat
  rd_dat :: "u8 list"
  rd_oob :: "u8 list"
  rd_ooboffs :: nat
  rd_retry :: nat
  rd_ret :: int
  rd_flips :: int

text \<open>
  The loop of \<open>mtk_bmt_read\<close>. \<open>rd_dat\<close> and \<open>rd_oob\<close> are the bytes delivered so far, so
  that \<open>retlen\<close> and \<open>oobretlen\<close> are their lengths and \<open>cur_ops.ooblen\<close> what is left.
\<close>

primrec mtk_bmt_read_loop ::
  "nat \<Rightarrow> 'n nand_dev \<Rightarrow> 'n mtk_bmt_ops \<Rightarrow> nat \<Rightarrow> nat \<Rightarrow> rd_state \<Rightarrow> 'n bmt_desc \<Rightarrow>
   (int \<times> rd_state \<times> 'n bmt_desc) res" where
  "mtk_bmt_read_loop 0 d ops len ooblen r s = Inl Out_of_fuel"
| "mtk_bmt_read_loop (Suc n) d ops len ooblen r s =
     (if \<not> (length (rd_dat r) < len \<or> length (rd_oob r) < ooblen)
      then Inr (if rd_ret r < 0 then rd_ret r else rd_flips r, r, s)
      else
        let offset = rd_from r AND (blk_size s - 1);
            block = drop_bit (blk_shift s) (rd_from r) mod 2 ^ 32
        in
          rbind (get_mapping_block ops (s32_of block) s) (\<lambda>cur_block.
            if cur_block < 0 then Inr (- EIO, r, s)
            else
              let cur_from = blk_addr s (nat cur_block) + offset;
                  cur_len = min (erasesize (mtd s) - offset) (len - length (rd_dat r));
                  ((cur_ret, dat, oob), c) =
                    read_oob d cur_from cur_len (rd_ooboffs r) (ooblen - length (rd_oob r)) (chip s);
                  s1 = s\<lparr>chip := c\<rparr>;
                  r1 = (if cur_ret < 0 then r\<lparr>rd_ret := cur_ret\<rparr>
                        else r\<lparr>rd_flips := max (rd_flips r) cur_ret\<rparr>)
              in
                if cur_ret < 0 \<and> \<not> mtd_is_bitflip cur_ret then
                  rbind (mtk_bmt_remap_block ops block (nat cur_block) (int (erasesize (mtd s))) s1) (\<lambda>(remapped, s2).
                    if remapped \<and> rd_retry r < 10
                    then mtk_bmt_read_loop n d ops len ooblen (r1\<lparr>rd_retry := rd_retry r + 1\<rparr>) s2
                    else Inr (if rd_ret r1 < 0 then rd_ret r1 else rd_flips r1, r1, s2))
                else
                  rbind (if bitflip_threshold (mtd s) \<noteq> 0 \<and> cur_ret \<ge> int (bitflip_threshold (mtd s))
                         then mtk_bmt_remap_block ops block (nat cur_block) (int (erasesize (mtd s))) s1
                         else Inr (True, s1)) (\<lambda>(_, s2).
                    mtk_bmt_read_loop n d ops len ooblen
                      (r1\<lparr>rd_dat := rd_dat r @ dat, rd_oob := rd_oob r @ oob, rd_ooboffs := 0,
                          rd_from := rd_from r + (if cur_len = 0 then erasesize (mtd s) - offset else cur_len),
                          rd_retry := 0\<rparr>) s2)))"

definition mtk_bmt_read ::
  "nat \<Rightarrow> 'n nand_dev \<Rightarrow> 'n mtk_bmt_ops \<Rightarrow> nat \<Rightarrow> nat \<Rightarrow> nat \<Rightarrow> nat \<Rightarrow> 'n bmt_desc \<Rightarrow>
   (int \<times> rd_state \<times> 'n bmt_desc) res" where
  "mtk_bmt_read fuel d ops from len ooboffs ooblen s =
     mtk_bmt_read_loop fuel d ops len ooblen
       \<lparr>rd_from = from, rd_dat = [], rd_oob = [], rd_ooboffs = ooboffs, rd_retry = 0,
        rd_ret = 0, rd_flips = 0\<rparr> s"

record wr_state =
  wr_to :: nat
  wr_retlen :: nat
  wr_oobretlen :: nat
  wr_ooboffs :: nat
  wr_retry :: nat

primrec mtk_bmt_write_loop ::
  "nat \<Rightarrow> 'n nand_dev \<Rightarrow> 'n mtk_bmt_ops \<Rightarrow> u8 list \<Rightarrow> u8 list \<Rightarrow> wr_state \<Rightarrow> 'n bmt_desc \<Rightarrow>
   (int \<times> wr_state \<times> 'n bmt_desc) res" where
  "mtk_bmt_write_loop 0 d ops dat oob w s = Inl Out_of_fuel"
| "mtk_bmt_write_loop (Suc n) d ops dat oob w s =
     (if \<not> (wr_retlen w < length dat \<or> wr_oobretlen w < length oob) then Inr (0, w, s)
      else
        let offset = wr_to w AND (blk_size s - 1);
            block = drop_bit (blk_shift s) (wr_to w) mod 2 ^ 32
        in
          rbind (get_mapping_block ops (s32_of block) s) (\<lambda>cur_block.
            if cur_block < 0 then Inr (- EIO, w, s)
            else
              let cur_to = blk_addr s (nat cur_block) + offset;
                  cur_len = min (blk_size s - offset) (length dat - wr_retlen w);
                  ((ret, rl, orl), c) =
                    write_oob d cur_to (take cur_len (drop (wr_retlen w) dat)) (wr_ooboffs w)
                      (drop (wr_oobretlen w) oob) (chip s);
                  s1 = s\<lparr>chip := c\<rparr>
              in
                if ret < 0 then
                  rbind (mtk_bmt_remap_block ops block (nat cur_block) (int offset) s1) (\<lambda>(remapped, s2).
                    if remapped \<and> wr_retry w < 10
                    then mtk_bmt_write_loop n d ops dat oob (w\<lparr>wr_retry := wr_retry w + 1\<rparr>) s2
                    else Inr (ret, w, s2))
                else
                  mtk_bmt_write_loop n d ops dat oob
                    (w\<lparr>wr_retlen := wr_retlen w + rl, wr_oobretlen := wr_oobretlen w + orl, wr_ooboffs := 0,
                       wr_to := wr_to w + (if cur_len = 0 then erasesize (mtd s) - offset else cur_len),
                       wr_retry := 0\<rparr>) s1))"

definition mtk_bmt_write ::
  "nat \<Rightarrow> 'n nand_dev \<Rightarrow> 'n mtk_bmt_ops \<Rightarrow> nat \<Rightarrow> u8 list \<Rightarrow> nat \<Rightarrow> u8 list \<Rightarrow> 'n bmt_desc \<Rightarrow>
   (int \<times> wr_state \<times> 'n bmt_desc) res" where
  "mtk_bmt_write fuel d ops to dat ooboffs oob s =
     mtk_bmt_write_loop fuel d ops dat oob
       \<lparr>wr_to = to, wr_retlen = 0, wr_oobretlen = 0, wr_ooboffs = ooboffs, wr_retry = 0\<rparr> s"

text \<open>
  The loop of \<open>mtk_bmt_mtd_erase\<close>. \<open>ret\<close> is \<open>None\<close> as long as it has not been assigned;
  returning it then is an access to an uninitialised variable. The second component is
  \<open>fail_addr\<close> where it is set.
\<close>

primrec mtk_bmt_erase_loop ::
  "nat \<Rightarrow> 'n nand_dev \<Rightarrow> 'n mtk_bmt_ops \<Rightarrow> nat \<Rightarrow> nat \<Rightarrow> nat \<Rightarrow> int option \<Rightarrow> 'n bmt_desc \<Rightarrow>
   (int \<times> nat option \<times> 'n bmt_desc) res" where
  "mtk_bmt_erase_loop 0 d ops start_addr end_addr retry ret s = Inl Out_of_fuel"
| "mtk_bmt_erase_loop (Suc n) d ops start_addr end_addr retry ret s =
     (if start_addr < end_addr then
        let orig_block = drop_bit (blk_shift s) start_addr mod 2 ^ 16 in
        rbind (get_mapping_block ops (int orig_block) s) (\<lambda>block.
          if block < 0 then Inr (- EIO, None, s)
          else
            let (ret', c) = erase_blk d (blk_addr s (nat block)) (blk_size s) (chip s);
                s1 = s\<lparr>chip := c\<rparr>
            in
              if ret' \<noteq> 0 then
                rbind (mtk_bmt_remap_block ops orig_block (nat block) 0 s1) (\<lambda>(remapped, s2).
                  if remapped \<and> retry < 10
                  then mtk_bmt_erase_loop n d ops start_addr end_addr (retry + 1) (Some ret') s2
                  else Inr (ret', Some start_addr, s2))
              else mtk_bmt_erase_loop n d ops (start_addr + erasesize (mtd s)) end_addr 0 (Some ret') s1)
      else case ret of None \<Rightarrow> Inl Bad_access | Some e \<Rightarrow> Inr (e, None, s))"

definition mtk_bmt_mtd_erase ::
  "nat \<Rightarrow> 'n nand_dev \<Rightarrow> 'n mtk_bmt_ops \<Rightarrow> nat \<Rightarrow> nat \<Rightarrow> 'n bmt_desc \<Rightarrow>
   (int \<times> nat option \<times> 'n bmt_desc) res" where
  "mtk_bmt_mtd_erase fuel d ops addr len s =
     mtk_bmt_erase_loop fuel d ops (addr - (addr AND (erasesize (mtd s) - 1))) (addr + len) 0 None s"

text \<open>\<open>block\<close> is a \<open>u16\<close> here, so that an error of the mapping is not seen.\<close>

primrec isbad_loop ::
  "nat \<Rightarrow> 'n nand_dev \<Rightarrow> 'n mtk_bmt_ops \<Rightarrow> nat \<Rightarrow> nat \<Rightarrow> 'n bmt_desc \<Rightarrow> (int \<times> 'n bmt_desc) res" where
  "isbad_loop 0 d ops orig_block retry s = Inl Out_of_fuel"
| "isbad_loop (Suc n) d ops orig_block retry s =
     rbind (get_mapping_block ops (int orig_block) s) (\<lambda>b.
       let block = u16_of b;
           (ret, c) = block_isbad d (blk_addr s block) (chip s);
           s1 = s\<lparr>chip := c\<rparr>
       in
         if ret \<noteq> 0 then
           rbind (mtk_bmt_remap_block ops orig_block block (int (blk_size s)) s1) (\<lambda>(remapped, s2).
             if remapped \<and> retry < 10 then isbad_loop n d ops orig_block (retry + 1) s2
             else Inr (ret, s2))
         else Inr (ret, s1))"

definition mtk_bmt_block_isbad ::
  "'n nand_dev \<Rightarrow> 'n mtk_bmt_ops \<Rightarrow> nat \<Rightarrow> 'n bmt_desc \<Rightarrow> (int \<times> 'n bmt_desc) res" where
  "mtk_bmt_block_isbad d ops ofs s = isbad_loop 11 d ops (drop_bit (blk_shift s) ofs mod 2 ^ 16) 0 s"

definition mtk_bmt_block_markbad ::
  "'n nand_dev \<Rightarrow> 'n mtk_bmt_ops \<Rightarrow> nat \<Rightarrow> 'n bmt_desc \<Rightarrow> (int \<times> 'n bmt_desc) res" where
  "mtk_bmt_block_markbad d ops ofs s =
     (let orig_block = drop_bit (blk_shift s) ofs mod 2 ^ 16 in
      rbind (get_mapping_block ops (int orig_block) s) (\<lambda>block.
        if block < 0 then Inr (- EIO, s)
        else
          rbind (mtk_bmt_remap_block ops orig_block (nat block) (int (blk_size s)) s) (\<lambda>(_, s1).
            let (ret, c) = block_markbad d (blk_addr s1 (nat block)) (chip s1)
            in Inr (ret, s1\<lparr>chip := c\<rparr>))))"

section \<open>Debug files\<close>

definition mtk_bmt_debug_repair ::
  "'n nand_dev \<Rightarrow> 'n mtk_bmt_ops \<Rightarrow> nat \<Rightarrow> 'n bmt_desc \<Rightarrow> (int \<times> 'n bmt_desc) res" where
  "mtk_bmt_debug_repair d ops v s =
     (let block = s32_of (drop_bit (blk_shift s) v) in
      rbind (get_mapping_block ops block s) (\<lambda>prev_block.
        if prev_block < 0 then Inr (- EIO, s)
        else
          rbind (unmap_block ops (u16_of block) s) (\<lambda>s1.
            rbind (get_mapping_block ops block s1) (\<lambda>new_block.
              if new_block < 0 then Inr (- EIO, s1)
              else if prev_block = new_block then Inr (0, s1)
              else
                let s2 = snd (bbt_nand_erase d (u16_of new_block) s1);
                    s3 = snd (bbt_nand_copy d (u16_of new_block) (u16_of prev_block) (int (blk_size s2)) s2)
                in Inr (0, s3)))))"

definition mtk_bmt_debug_mark_good ::
  "'n mtk_bmt_ops \<Rightarrow> nat \<Rightarrow> 'n bmt_desc \<Rightarrow> (int \<times> 'n bmt_desc) res" where
  "mtk_bmt_debug_mark_good ops v s =
     rbind (unmap_block ops (u16_of (int (drop_bit (blk_shift s) v))) s) (\<lambda>s1. Inr (0, s1))"

definition mtk_bmt_debug_mark_bad ::
  "'n mtk_bmt_ops \<Rightarrow> nat \<Rightarrow> 'n bmt_desc \<Rightarrow> (int \<times> 'n bmt_desc) res" where
  "mtk_bmt_debug_mark_bad ops v s =
     (let block = drop_bit (blk_shift s) v mod 2 ^ 32 in
      rbind (get_mapping_block ops (s32_of block) s) (\<lambda>cur_block.
        if cur_block < 0 then Inr (- EIO, s)
        else rbind (mtk_bmt_remap_block ops block (nat cur_block) (int (blk_size s)) s)
               (\<lambda>(_, s1). Inr (0, s1))))"

definition mtk_bmt_debug :: "'n mtk_bmt_ops \<Rightarrow> nat \<Rightarrow> 'n bmt_desc \<Rightarrow> (int \<times> 'n bmt_desc) res" where
  "mtk_bmt_debug ops v s = debug_op ops v s"

end
