(* ===== verification/Mtk_Bbt.thy ===== *)
theory Mtk_Bbt
  imports Mtk_Bmt
begin

text \<open>
  The bad block table (target/linux/generic/files/drivers/mtd/nand/mtk_bmt_bbt.c): two bits
  per physical block, stored with the signature \<open>mtknand\<close> in one of the last blocks. Inside
  a mapping range the logical blocks are the good blocks in order, and the bad blocks take
  what is left at the end.
\<close>

section \<open>The table\<close>

definition bbt_byte :: "'n bmt_desc \<Rightarrow> nat \<Rightarrow> u8 res" where
  "bbt_byte s i = (if i < length (bbt_buf s) then Inr (bbt_buf s ! i) else Inl Bad_access)"

definition bbt_block_is_bad :: "int \<Rightarrow> 'n bmt_desc \<Rightarrow> bool res" where
  "bbt_block_is_bad i s =
     (let block = u16_of i in
      rbind (bbt_byte s (block div 4)) (\<lambda>cur.
        Inr (cur AND push_bit ((block mod 4) * 2) 3 \<noteq> 0)))"

definition bbt_set_block_state :: "'n nand_dev \<Rightarrow> nat \<Rightarrow> bool \<Rightarrow> 'n bmt_desc \<Rightarrow> ('n bmt_desc) res" where
  "bbt_set_block_state d block bad s =
     (let mask = push_bit ((block mod 4) * 2) 3 in
      rbind (bbt_byte s (block div 4)) (\<lambda>cur.
        let s1 = s\<lparr>bbt_buf := (bbt_buf s)[block div 4 := (if bad then cur OR mask else cur AND NOT mask)]\<rparr>;
            s2 = snd (bbt_nand_erase d (bmt_blk_idx s1) s1)
        in rbind (write_bmt d (bmt_blk_idx s2) s2) (\<lambda>(_, s3). Inr s3)))"

section \<open>The mapping\<close>

text \<open>
  The first loop, with \<open>n = end - i\<close> blocks to go: the value of \<open>i\<close>, \<open>ofs\<close> and
  \<open>bad_blocks\<close> where it stops.
\<close>

primrec bbt_skip_bad :: "nat \<Rightarrow> int \<Rightarrow> int \<Rightarrow> int \<Rightarrow> 'n bmt_desc \<Rightarrow> (int \<times> int \<times> int) res" where
  "bbt_skip_bad 0 i ofs bad_blocks s = Inr (i, ofs, bad_blocks)"
| "bbt_skip_bad (Suc n) i ofs bad_blocks s =
     rbind (bbt_block_is_bad i s) (\<lambda>b.
       if b then bbt_skip_bad n (i + 1) ofs (bad_blocks + 1) s
       else if ofs \<noteq> 0 then bbt_skip_bad n (i + 1) (ofs - 1) bad_blocks s
       else Inr (i, ofs, bad_blocks))"

text \<open>The second loop; \<open>None\<close> if it ends without a result. It has no bound of its own on \<open>i\<close>.\<close>

primrec bbt_take_bad :: "nat \<Rightarrow> int \<Rightarrow> int \<Rightarrow> int \<Rightarrow> 'n bmt_desc \<Rightarrow> int option res" where
  "bbt_take_bad 0 i ofs bad_blocks s = Inl Out_of_fuel"
| "bbt_take_bad (Suc n) i ofs bad_blocks s =
     (if bad_blocks > 0 then
        rbind (bbt_block_is_bad i s) (\<lambda>b.
          if \<not> b then bbt_take_bad n (i - 1) ofs bad_blocks s
          else if bad_blocks - 1 \<le> ofs then Inr (Some i)
          else bbt_take_bad n (i - 1) ofs (bad_blocks - 1) s)
      else Inr None)"

definition get_mapping_block_index_bbt :: "int \<Rightarrow> 'n bmt_desc \<Rightarrow> int res" where
  "get_mapping_block_index_bbt block s =
     (case mapping_block_in_range block s of
        None \<Rightarrow> Inr block
      | Some (start, end') \<Rightarrow>
          let a = drop_bit (blk_shift s) start;
              b = drop_bit (blk_shift s) end'
          in
            rbind (bbt_skip_bad (nat (b - a)) a (block - a) 0 s) (\<lambda>(i, ofs, bad_blocks).
              if i < b then Inr i
              else
                rbind (bbt_take_bad (nat (b - a) + 1) (b - 1) ofs bad_blocks s) (\<lambda>r.
                  case r of Some j \<Rightarrow> Inr j | None \<Rightarrow> Inr block)))"

section \<open>Operations\<close>

definition remap_block_bbt ::
  "'n nand_dev \<Rightarrow> nat \<Rightarrow> nat \<Rightarrow> int \<Rightarrow> 'n bmt_desc \<Rightarrow> (bool \<times> 'n bmt_desc) res" where
  "remap_block_bbt d block mapped_blk copy_len s =
     (case mapping_block_in_range (int block) s of
        None \<Rightarrow> Inr (False, s)
      | Some _ \<Rightarrow>
          rbind (bbt_set_block_state d mapped_blk True s) (\<lambda>s1.
            rbind (get_mapping_block_index_bbt (int block) s1) (\<lambda>b.
              let new_blk = u16_of b;
                  s2 = snd (bbt_nand_erase d new_blk s1);
                  s3 = (if copy_len > 0 then snd (bbt_nand_copy d new_blk mapped_blk copy_len s2) else s2)
              in Inr (True, s3))))"

definition unmap_block_bbt :: "'n nand_dev \<Rightarrow> nat \<Rightarrow> 'n bmt_desc \<Rightarrow> ('n bmt_desc) res" where
  "unmap_block_bbt d block s = bbt_set_block_state d block False s"

definition mtknand_sig :: "u8 list" where
  "mtknand_sig = map of_char ''mtknand''"

text \<open>
  The loop of \<open>mtk_bmt_read_bbt\<close> over the blocks of the list. Fewer than eight bytes in the
  local \<open>oob_buf\<close> leave the rest of it uninitialised.
\<close>

primrec mtk_bmt_read_bbt_from :: "'n nand_dev \<Rightarrow> int list \<Rightarrow> 'n bmt_desc \<Rightarrow> (int \<times> 'n bmt_desc) res" where
  "mtk_bmt_read_bbt_from d [] s = Inr (- EIO, s)"
| "mtk_bmt_read_bbt_from d (i # is) s =
     (if length (bbt_buf s) < pg_size s then Inl Bad_access
      else
        let page = u32_of (i * 2 ^ (blk_shift s - pg_shift s));
            ((ret, dat, oob), s1) = bbt_nand_read d page (pg_size s) 8 s;
            s2 = s1\<lparr>bbt_buf := fill_buf dat (bbt_buf s1)\<rparr>
        in
          if ret \<noteq> 0 then mtk_bmt_read_bbt_from d is s2
          else if length oob < 8 then Inl Bad_access
          else if oob ! 0 \<noteq> 0xff then mtk_bmt_read_bbt_from d is s2
          else if take 7 (drop 1 oob) \<noteq> mtknand_sig then mtk_bmt_read_bbt_from d is s2
          else Inr (0, s2\<lparr>bmt_blk_idx := u16_of i\<rparr>))"

definition mtk_bmt_read_bbt :: "'n nand_dev \<Rightarrow> 'n bmt_desc \<Rightarrow> (int \<times> 'n bmt_desc) res" where
  "mtk_bmt_read_bbt d s =
     mtk_bmt_read_bbt_from d (map (\<lambda>k. int (total_blks s) - 1 - int k) [0..<5]) s"

definition round_up :: "nat \<Rightarrow> nat \<Rightarrow> nat" where
  "round_up x y = ((x + (y - 1)) div y) * y"

text \<open>\<open>mem n\<close> says whether an allocation of \<open>n\<close> bytes succeeds.\<close>

definition mtk_bmt_init_bbt ::
  "'n nand_dev \<Rightarrow> (nat \<Rightarrow> bool) \<Rightarrow> 'n bmt_desc \<Rightarrow> (int \<times> 'n bmt_desc) res" where
  "mtk_bmt_init_bbt d mem s =
     (let buf_size = round_up (drop_bit 2 (total_blks s)) (blk_size s) in
      if \<not> mem buf_size then Inr (- ENOMEM, s)
      else
        let s1 = s\<lparr>bbt_buf := replicate buf_size 0xff,
                   mtd := (mtd s)\<lparr>msize := msize (mtd s) - 4 * erasesize (mtd s)\<rparr>\<rparr>
        in rbind (mtk_bmt_read_bbt d s1) (\<lambda>(ret, s2).
             Inr (if ret \<noteq> 0 then (ret, s2) else (0, s2\<lparr>bmt_pgs := buf_size div pg_size s2\<rparr>))))"

text \<open>\<open>debug\<close> 100 writes the table to the last block; 0 only prints.\<close>

definition mtk_bmt_debug_bbt :: "'n nand_dev \<Rightarrow> nat \<Rightarrow> 'n bmt_desc \<Rightarrow> (int \<times> 'n bmt_desc) res" where
  "mtk_bmt_debug_bbt d v s =
     (if v = 100 then
        let s1 = s\<lparr>bmt_blk_idx := u16_of (int (total_blks s) - 1)\<rparr>;
            s2 = snd (bbt_nand_erase d (bmt_blk_idx s1) s1)
        in rbind (write_bmt d (bmt_blk_idx s2) s2) (\<lambda>(_, s3). Inr (0, s3))
      else Inr (0, s))"

definition mtk_bmt_bbt_ops :: "'n nand_dev \<Rightarrow> 'n mtk_bmt_ops" where
  "mtk_bmt_bbt_ops d =
     \<lparr>remap_block = remap_block_bbt d, unmap_block = unmap_block_bbt d,
      get_mapping_block = get_mapping_block_index_bbt, debug_op = mtk_bmt_debug_bbt d\<rparr>"

end
