(* ===== verification/Mtk_Bmt_V2.thy ===== *)
theory Mtk_Bmt_V2
  imports Mtk_Bbt
begin

text \<open>
  The block mapping table, version 2
  (target/linux/generic/files/drivers/mtd/nand/mtk_bmt_v2.c). The buffer \<open>bbt_buf\<close> is seen
  as \<open>struct bbbt\<close>: three bytes of signature, the version, and 16-bit entries, low byte
  first. \<open>bb_tbl[j]\<close> is entry \<open>j\<close>. The pool \<open>bmt_tbl\<close> starts at \<open>bb_tbl[table_size]\<close>, so
  that \<open>bmt_tbl[k].block\<close> and \<open>.mapped\<close> are the entries \<open>table_size + 2 * k\<close> and the
  next one. An access outside of the buffer stops with \<open>Bad_access\<close>.
\<close>

section \<open>Tables in the buffer\<close>

definition NO_MAPPED :: nat where "NO_MAPPED = 0"
definition NORMAL_MAPPED :: nat where "NORMAL_MAPPED = 1"
definition BMT_MAPPED :: nat where "BMT_MAPPED = 2"
definition BBMT_VERSION :: u8 where "BBMT_VERSION = 2"
definition BBPOOL_RATIO :: nat where "BBPOOL_RATIO = 2"
definition BMT_TBL_DEF_VAL :: nat where "BMT_TBL_DEF_VAL = 0"

definition BMT_sig :: "u8 list" where
  "BMT_sig = map of_char ''BMT''"

definition bmt_sig :: "u8 list" where
  "bmt_sig = map of_char ''bmt''"

definition half_at :: "u8 list \<Rightarrow> nat \<Rightarrow> nat" where
  "half_at buf j = unat (buf ! (4 + 2 * j)) + 256 * unat (buf ! (5 + 2 * j))"

definition put_half :: "nat \<Rightarrow> nat \<Rightarrow> u8 list \<Rightarrow> u8 list" where
  "put_half j v buf = buf[4 + 2 * j := of_nat v, 5 + 2 * j := of_nat (v div 256)]"

definition tbl_get :: "nat \<Rightarrow> 'n bmt_desc \<Rightarrow> nat res" where
  "tbl_get j s = (if 5 + 2 * j < length (bbt_buf s) then Inr (half_at (bbt_buf s) j) else Inl Bad_access)"

definition tbl_put :: "nat \<Rightarrow> nat \<Rightarrow> 'n bmt_desc \<Rightarrow> ('n bmt_desc) res" where
  "tbl_put j v s =
     (if 5 + 2 * j < length (bbt_buf s) then Inr (s\<lparr>bbt_buf := put_half j v (bbt_buf s)\<rparr>) else Inl Bad_access)"

text \<open>The positions of the two fields of \<open>bmt_tbl[k]\<close>.\<close>

definition bmt_block :: "'n bmt_desc \<Rightarrow> nat \<Rightarrow> nat" where
  "bmt_block s k = table_size s + 2 * k"

definition bmt_mapped :: "'n bmt_desc \<Rightarrow> nat \<Rightarrow> nat" where
  "bmt_mapped s k = table_size s + 2 * k + 1"

section \<open>Scanning for bad blocks\<close>

text \<open>\<open>n\<close> is \<open>bb_max - loop\<close>, the bad blocks that may still be skipped.\<close>

primrec find_valid_block_from :: "'n nand_dev \<Rightarrow> nat \<Rightarrow> nat \<Rightarrow> 'n bmt_desc \<Rightarrow> (nat \<times> 'n bmt_desc) res" where
  "find_valid_block_from d 0 block s =
     (if block \<ge> total_blks s then Inr (0, s)
      else
        let ((ret, dat, fdm), s1) = bbt_nand_read d (blk_pg s block) (pg_size s) 4 s;
            s2 = s1\<lparr>data_buf := fill_buf dat (data_buf s1)\<rparr>
        in
          if ret \<noteq> 0 then Inr (0, s2)
          else if fdm = [] then Inl Bad_access
          else if fdm ! 0 \<noteq> 0xff then Inr (0, s2)
          else Inr (block, s2))"
| "find_valid_block_from d (Suc n) block s =
     (if block \<ge> total_blks s then Inr (0, s)
      else
        let ((ret, dat, fdm), s1) = bbt_nand_read d (blk_pg s block) (pg_size s) 4 s;
            s2 = s1\<lparr>data_buf := fill_buf dat (data_buf s1)\<rparr>
        in
          if ret \<noteq> 0 then find_valid_block_from d n (u16_of (int block + 1)) s2
          else if fdm = [] then Inl Bad_access
          else if fdm ! 0 \<noteq> 0xff then find_valid_block_from d n (u16_of (int block + 1)) s2
          else Inr (block, s2))"

definition find_valid_block :: "'n nand_dev \<Rightarrow> nat \<Rightarrow> 'n bmt_desc \<Rightarrow> (nat \<times> 'n bmt_desc) res" where
  "find_valid_block d block s = find_valid_block_from d (bb_max s) block s"

text \<open>The first loop of \<open>scan_bad_blocks\<close>; \<open>False\<close> where it returns -1.\<close>

primrec scan_main :: "'n nand_dev \<Rightarrow> nat list \<Rightarrow> 'n bmt_desc \<Rightarrow> (bool \<times> 'n bmt_desc) res" where
  "scan_main d [] s = Inr (True, s)"
| "scan_main d (i # is) s =
     rbind (tbl_get (i - 1) s) (\<lambda>prev.
       rbind (find_valid_block d (u16_of (int prev + 1)) s) (\<lambda>(b, s1).
         rbind (tbl_put i b s1) (\<lambda>s2.
           if b = 0 then Inr (False, s2) else scan_main d is s2)))"

text \<open>The second loop: \<open>i\<close> at its end.\<close>

primrec scan_pool :: "nat \<Rightarrow> 'n nand_dev \<Rightarrow> nat \<Rightarrow> nat \<Rightarrow> 'n bmt_desc \<Rightarrow> (nat \<times> 'n bmt_desc) res" where
  "scan_pool 0 d block i s = Inl Out_of_fuel"
| "scan_pool (Suc n) d block i s =
     rbind (find_valid_block d block s) (\<lambda>(b, s1).
       if b = 0 then Inr (i, s1)
       else
         rbind (tbl_put (bmt_block s1 i) b s1) (\<lambda>s2.
           rbind (tbl_put (bmt_mapped s2 i) NO_MAPPED s2) (\<lambda>s3.
             scan_pool n d (u16_of (int b + 1)) (i + 1) s3)))"

definition scan_bad_blocks :: "'n nand_dev \<Rightarrow> 'n bmt_desc \<Rightarrow> (int \<times> 'n bmt_desc) res" where
  "scan_bad_blocks d s =
     rbind (tbl_put 0 0 s) (\<lambda>s1.
       rbind (scan_main d [1..<pool_lba s1] s1) (\<lambda>(ok, s2).
         if \<not> ok then Inr (- 1, s2)
         else
           rbind (tbl_get (max 1 (pool_lba s2) - 1) s2) (\<lambda>last.
             let s3 = s2\<lparr>pool_pba := u16_of (int last + 1)\<rparr> in
             if int (pool_pba s3) \<ge> int (total_blks s3) - 2 then Inr (- 1, s3)
             else
               rbind (scan_pool (total_blks s3 + 1) d (pool_pba s3) 0 s3) (\<lambda>(i, s4).
                 let s5 = s4\<lparr>bmt_blk_idx := u16_of (int i - 1)\<rparr> in
                 rbind (tbl_put (bmt_mapped s5 (bmt_blk_idx s5)) BMT_MAPPED s5) (\<lambda>s6.
                   if i < 1 then Inr (- 1, s6) else Inr (0, s6))))))"

section \<open>The table on the chip\<close>

definition is_valid_bmt :: "u8 list \<Rightarrow> u8 list \<Rightarrow> bool" where
  "is_valid_bmt buf fdm =
     (take 3 (drop MAIN_SIGNATURE_OFFSET buf) = BMT_sig \<and>
      take 3 (drop OOB_SIGNATURE_OFFSET fdm) = bmt_sig \<and> buf ! 3 = BBMT_VERSION)"

primrec get_bmt_index_from :: "nat \<Rightarrow> nat \<Rightarrow> 'n bmt_desc \<Rightarrow> nat res" where
  "get_bmt_index_from 0 i s = Inl Out_of_fuel"
| "get_bmt_index_from (Suc n) i s =
     rbind (tbl_get (bmt_block s i) s) (\<lambda>b.
       if b = BMT_TBL_DEF_VAL then Inr 0
       else
         rbind (tbl_get (bmt_mapped s i) s) (\<lambda>m.
           if m = BMT_MAPPED then Inr (u16_of (int i)) else get_bmt_index_from n (i + 1) s))"

definition get_bmt_index :: "'n bmt_desc \<Rightarrow> nat res" where
  "get_bmt_index s = get_bmt_index_from (length (bbt_buf s)) 0 s"

text \<open>\<open>(u16)-1\<close>, which \<open>upload_bmt\<close> returns when there is no space.\<close>

definition NO_BMT :: nat where
  "NO_BMT = 65535"

text \<open>\<open>upload_from d (n + 1)\<close> is the code at the label \<open>retry\<close> with \<open>n\<close>.\<close>

primrec upload_from :: "'n nand_dev \<Rightarrow> nat \<Rightarrow> 'n bmt_desc \<Rightarrow> (nat \<times> 'n bmt_desc) res" where
  "upload_from d 0 s = Inr (NO_BMT, s)"
| "upload_from d (Suc n) s =
     rbind (tbl_get (bmt_mapped s n) s) (\<lambda>m.
       if m = NORMAL_MAPPED then Inr (NO_BMT, s)
       else
         rbind (tbl_get (bmt_block s n) s) (\<lambda>block.
           let (e, s1) = bbt_nand_erase d block s in
           if e \<noteq> 0 then rbind (tbl_put (bmt_block s1 n) 0 s1) (upload_from d n)
           else
             let s2 = s1\<lparr>bbt_buf := BMT_sig @ [BBMT_VERSION] @ drop 4 (bbt_buf s1)\<rparr> in
             rbind (write_bmt d block s2) (\<lambda>(w, s3).
               if w \<noteq> 0 then rbind (tbl_put (bmt_block s3 n) 0 s3) (upload_from d n)
               else Inr (u16_of (int n), s3))))"

definition upload_bmt :: "'n nand_dev \<Rightarrow> nat \<Rightarrow> 'n bmt_desc \<Rightarrow> (nat \<times> 'n bmt_desc) res" where
  "upload_bmt d n s = upload_from d (n + 1) s"

section \<open>Mapping\<close>

primrec pool_search :: "nat list \<Rightarrow> 'n bmt_desc \<Rightarrow> (nat \<times> 'n bmt_desc) res" where
  "pool_search [] s = Inr (0, s)"
| "pool_search (i # is) s =
     rbind (tbl_get (bmt_block s i) s) (\<lambda>b.
       rbind (if b \<noteq> 0 then tbl_get (bmt_mapped s i) s else Inr NORMAL_MAPPED) (\<lambda>m.
         if b \<noteq> 0 \<and> m = NO_MAPPED
         then rbind (tbl_put (bmt_mapped s i) NORMAL_MAPPED s) (\<lambda>s1. Inr (b, s1))
         else pool_search is s))"

definition find_valid_block_in_pool :: "'n bmt_desc \<Rightarrow> (nat \<times> 'n bmt_desc) res" where
  "find_valid_block_in_pool s =
     (if bmt_blk_idx s = 0 then Inr (0, s) else pool_search [0..<bmt_blk_idx s] s)"

definition upload_current :: "'n nand_dev \<Rightarrow> 'n bmt_desc \<Rightarrow> ('n bmt_desc) res" where
  "upload_current d s =
     rbind (upload_bmt d (bmt_blk_idx s) s) (\<lambda>(n, s1). Inr (s1\<lparr>bmt_blk_idx := n\<rparr>))"

definition remap_block_v2 ::
  "'n nand_dev \<Rightarrow> nat \<Rightarrow> nat \<Rightarrow> int \<Rightarrow> 'n bmt_desc \<Rightarrow> (bool \<times> 'n bmt_desc) res" where
  "remap_block_v2 d block mapped_block copy_len s =
     rbind (find_valid_block_in_pool s) (\<lambda>(new_block, s1).
       if new_block = 0 then Inr (False, s1)
       else
         rbind (tbl_put block new_block s1) (\<lambda>s2.
           let s3 = snd (bbt_nand_erase d new_block s2);
               s4 = (if copy_len > 0 then snd (bbt_nand_copy d new_block mapped_block copy_len s3) else s3)
           in rbind (upload_current d s4) (\<lambda>s5. Inr (True, s5))))"

definition get_mapping_block_index_v2 :: "int \<Rightarrow> 'n bmt_desc \<Rightarrow> int res" where
  "get_mapping_block_index_v2 block s =
     (if block \<ge> int (pool_lba s) then Inr block
      else case mapping_block_in_range block s of
        None \<Rightarrow> Inr block
      | Some _ \<Rightarrow>
          if block < 0 then Inl Bad_access
          else rbind (tbl_get (nat block) s) (\<lambda>b. Inr (int b)))"

definition unmap_block_v2 :: "'n nand_dev \<Rightarrow> nat \<Rightarrow> 'n bmt_desc \<Rightarrow> ('n bmt_desc) res" where
  "unmap_block_v2 d block s = rbind (tbl_put block block s) (upload_current d)"

section \<open>Debug file\<close>

text \<open>The first \<open>k\<close> of the list whose pool entry has the block.\<close>

primrec pool_index :: "nat list \<Rightarrow> nat \<Rightarrow> 'n bmt_desc \<Rightarrow> nat option res" where
  "pool_index [] b s = Inr None"
| "pool_index (k # ks) b s =
     rbind (tbl_get (bmt_block s k) s) (\<lambda>x. if b \<noteq> x then pool_index ks b s else Inr (Some k))"

primrec mapping_mask_from :: "nat list \<Rightarrow> nat list \<Rightarrow> 'n bmt_desc \<Rightarrow> nat list res" where
  "mapping_mask_from [] used s = Inr used"
| "mapping_mask_from (i # is) used s =
     rbind (tbl_get i s) (\<lambda>b.
       if b = i then mapping_mask_from is used s
       else
         rbind (pool_index [0..<bmt_blk_idx s] b s) (\<lambda>r.
           mapping_mask_from is (case r of None \<Rightarrow> used | Some k \<Rightarrow> k # used) s))"

text \<open>The pool indices whose bit is set in \<open>used\<close>.\<close>

definition mtk_bmt_get_mapping_mask :: "(nat \<Rightarrow> bool) \<Rightarrow> 'n bmt_desc \<Rightarrow> nat list option res" where
  "mtk_bmt_get_mapping_mask mem s =
     (if \<not> mem ((bmt_blk_idx s div 32 + 1) * 4) then Inr None
      else rbind (mapping_mask_from [1..<drop_bit (blk_shift s) (msize (mtd s))] [] s) (\<lambda>u. Inr (Some u)))"

primrec free_unused :: "nat list \<Rightarrow> nat list \<Rightarrow> nat \<Rightarrow> 'n bmt_desc \<Rightarrow> (nat \<times> 'n bmt_desc) res" where
  "free_unused [] used n_remap s = Inr (n_remap, s)"
| "free_unused (i # is) used n_remap s =
     rbind (tbl_get (bmt_mapped s i) s) (\<lambda>m.
       if m \<noteq> NORMAL_MAPPED then free_unused is used n_remap s
       else if i \<in> set used then free_unused is used n_remap s
       else rbind (tbl_put (bmt_mapped s i) NO_MAPPED s) (free_unused is used (n_remap + 1)))"

text \<open>\<open>debug\<close> 100 frees pool entries that no block is mapped to; 0 only prints.\<close>

definition mtk_bmt_debug_v2 ::
  "'n nand_dev \<Rightarrow> (nat \<Rightarrow> bool) \<Rightarrow> nat \<Rightarrow> 'n bmt_desc \<Rightarrow> (int \<times> 'n bmt_desc) res" where
  "mtk_bmt_debug_v2 d mem v s =
     rbind (mtk_bmt_get_mapping_mask mem s) (\<lambda>used.
       case used of
         None \<Rightarrow> Inr (- ENOMEM, s)
       | Some u \<Rightarrow>
           if v = 100 then
             rbind (free_unused [0..<bmt_blk_idx s + 1] u 0 s) (\<lambda>(n_remap, s1).
               if n_remap \<noteq> 0 then rbind (upload_current d s1) (\<lambda>s2. Inr (0, s2)) else Inr (0, s1))
           else Inr (0, s))"

section \<open>Initialisation\<close>

text \<open>The properties of the device node that the three mappings read.\<close>

record bmt_node =
  np_bmt_v2 :: bool
  np_nmbm :: bool
  np_bbt :: bool
  np_remap_range :: "(nat \<times> nat) list option"
  np_pool_size :: "nat option"
  np_oob_offset :: "nat option"
  np_table_size :: "nat option"
  np_max_ratio :: "nat option"
  np_max_reserved :: "nat option"
  np_empty_ecc :: bool
  np_force_create :: bool

definition or_default :: "nat \<Rightarrow> nat option \<Rightarrow> nat" where
  "or_default n p = (case p of None \<Rightarrow> n | Some v \<Rightarrow> v)"

text \<open>The loop that looks for a table; the flag says whether \<open>bmtd.bbt\<close> has been set.\<close>

primrec find_bmt :: "'n nand_dev \<Rightarrow> nat list \<Rightarrow> 'n bmt_desc \<Rightarrow> (bool \<times> 'n bmt_desc) res" where
  "find_bmt d [] s = Inr (False, s)"
| "find_bmt d (block # bs) s =
     (let ((ret, dat, fdm), s1) = bbt_nand_read d (blk_pg s block) (length (bbt_buf s)) 4 s;
          s2 = s1\<lparr>bbt_buf := fill_buf dat (bbt_buf s1)\<rparr>
      in
        if ret \<noteq> 0 then find_bmt d bs s2
        else if length fdm < 4 then Inl Bad_access
        else if \<not> is_valid_bmt (bbt_buf s2) fdm then find_bmt d bs s2
        else
          rbind (get_bmt_index s2) (\<lambda>idx.
            let s3 = s2\<lparr>bmt_blk_idx := idx\<rparr> in
            if idx = 0 then Inr (False, s3) else Inr (True, s3)))"

definition init_layout :: "bmt_node \<Rightarrow> 'n bmt_desc \<Rightarrow> 'n bmt_desc" where
  "init_layout np s =
     (let bmt_pool_size = or_default 80 (np_pool_size np);
          bmt_table_size = or_default 0x2000 (np_table_size np);
          pmt_block = u16_of (int (total_blks s) - int bmt_pool_size - 2);
          bufsz = round_up (4 + bmt_table_size * 4) (pg_size s)
      in s\<lparr>oob_offset := or_default 0 (np_oob_offset np), table_size := bmt_table_size,
           mtd := (mtd s)\<lparr>msize := nat (s32_of (pmt_block * 2 ^ blk_shift s) mod 2 ^ 64)\<rparr>,
           pool_lba := u16_of (int pmt_block + 2),
           bb_max := u16_of (int (total_blks s * BBPOOL_RATIO div 100)),
           bmt_pgs := drop_bit (pg_shift s) bufsz, bbt_buf := replicate bufsz 0xff\<rparr>)"

text \<open>The \<open>memset\<close> of \<open>table_size\<close> pool entries.\<close>

definition clear_pool :: "'n bmt_desc \<Rightarrow> ('n bmt_desc) res" where
  "clear_pool s =
     (let start = 4 + 2 * table_size s; len = table_size s * 4 in
      if start + len \<le> length (bbt_buf s)
      then Inr (s\<lparr>bbt_buf := take start (bbt_buf s) @ replicate len 0 @ drop (start + len) (bbt_buf s)\<rparr>)
      else Inl Bad_access)"

definition mtk_bmt_init_v2 ::
  "'n nand_dev \<Rightarrow> (nat \<Rightarrow> bool) \<Rightarrow> bmt_node \<Rightarrow> 'n bmt_desc \<Rightarrow> (int \<times> 'n bmt_desc) res" where
  "mtk_bmt_init_v2 d mem np s =
     (let s1 = init_layout np s in
      if \<not> mem (length (bbt_buf s1)) then Inr (- ENOMEM, s1\<lparr>bbt_buf := []\<rparr>)
      else
        rbind (find_bmt d (rev [pool_lba s1..<total_blks s1]) s1) (\<lambda>(found, s2).
          if found then Inr (0, s2)
          else if total_blks s2 > table_size s2 + table_size s2 * BBPOOL_RATIO div 100 then Inr (- 1, s2)
          else
            rbind (clear_pool s2) (\<lambda>s3.
              rbind (scan_bad_blocks d s3) (\<lambda>(r, s4).
                if r \<noteq> 0 then Inr (- 1, s4)
                else
                  rbind (upload_current d s4) (\<lambda>s5.
                    rbind (tbl_get (bmt_block s5 (bmt_blk_idx s5)) s5) (\<lambda>_.
                      if bmt_blk_idx s5 = NO_BMT then Inr (- 1, s5) else Inr (0, s5)))))))"

definition mtk_bmt_v2_ops :: "'n nand_dev \<Rightarrow> (nat \<Rightarrow> bool) \<Rightarrow> 'n mtk_bmt_ops" where
  "mtk_bmt_v2_ops d mem =
     \<lparr>remap_block = remap_block_v2 d, unmap_block = unmap_block_v2 d,
      get_mapping_block = get_mapping_block_index_v2, debug_op = mtk_bmt_debug_v2 d mem\<rparr>"

end
