(* ===== verification/Mtk_Bmt_Client.thy ===== *)
theory Mtk_Bmt_Client
  imports Mtk_Bmt
begin

text \<open>
  The interface between the MTD operations of mtk_bmt.c and the mappings behind
  \<open>struct mtk_bmt_ops\<close>. A mapping keeps an invariant \<open>inv\<close> for its \<open>N\<close> logical blocks,
  names physical blocks below \<open>M\<close>, and stops for no other reason than those in \<open>A\<close>; it need
  not succeed. What the MTD
  operations owe to this is proved once here, for any NAND driver: they end after at most
  eleven attempts per block and keep the invariant.
\<close>

section \<open>Geometry\<close>

definition same_geom :: "'n bmt_desc \<Rightarrow> 'n bmt_desc \<Rightarrow> bool" where
  "same_geom s t = (blk_shift t = blk_shift s \<and> blk_size t = blk_size s \<and> mtd t = mtd s)"

lemma same_geom_refl [simp]: "same_geom s s"
  by (simp add: same_geom_def)

lemma same_geom_trans [trans]: "same_geom s t \<Longrightarrow> same_geom t u \<Longrightarrow> same_geom s u"
  by (simp add: same_geom_def)

lemma same_geom_chip [simp]: "same_geom s (s\<lparr>chip := c\<rparr>)"
  by (simp add: same_geom_def)

definition blk_geom :: "nat \<Rightarrow> 'n bmt_desc \<Rightarrow> bool" where
  "blk_geom N s = (blk_size s = 2 ^ blk_shift s \<and> erasesize (mtd s) = blk_size s \<and> N \<le> 2 ^ 16)"

lemma blk_geom_same: "blk_geom N s \<Longrightarrow> same_geom s t \<Longrightarrow> blk_geom N t"
  by (simp add: blk_geom_def same_geom_def)

lemma block_of_addr:
  assumes "blk_geom N s" and "a < N * blk_size s"
  shows "drop_bit (blk_shift s) a < N"
  using assms by (simp add: blk_geom_def drop_bit_eq_div div_less_iff_less_mult)

lemma offset_in_block:
  assumes "blk_geom N s"
  shows "a AND (blk_size s - 1) = a mod blk_size s"
proof -
  have "a AND mask (blk_shift s) = a mod 2 ^ blk_shift s"
    by (simp add: take_bit_eq_mod flip: take_bit_eq_mask)
  then show ?thesis
    using assms by (simp add: blk_geom_def mask_eq_exp_minus_1)
qed

text \<open>The blocks from address \<open>a\<close> to the end \<open>e\<close> of a request.\<close>

definition blocks_to_go :: "nat \<Rightarrow> nat \<Rightarrow> nat \<Rightarrow> nat" where
  "blocks_to_go sz a e = (e - a + (sz - 1)) div sz"

lemma blocks_to_go_step:
  assumes "a < e" and "0 < sz"
  shows "blocks_to_go sz a e = Suc (blocks_to_go sz (a + sz) e)"
proof (cases "e - a \<le> sz")
  case True
  then have "e - a + (sz - 1) = (e - a - 1) + sz" "e - (a + sz) = 0" "e - a - 1 < sz"
    using assms by auto
  then show ?thesis
    using assms(2) unfolding blocks_to_go_def by (simp only: div_add_self2) simp
next
  case False
  then have "e - a + (sz - 1) = (e - (a + sz) + (sz - 1)) + sz"
    by simp
  then show ?thesis
    using assms(2) unfolding blocks_to_go_def by (simp only: div_add_self2)
qed

text \<open>The blocks a request touches from address \<open>a\<close> on, the partial one at \<open>a\<close> included.\<close>

definition spans :: "nat \<Rightarrow> nat \<Rightarrow> nat \<Rightarrow> nat" where
  "spans sz a e = blocks_to_go sz (a - a mod sz) e"

lemma spans_step:
  assumes "0 < sz" and "a + min (sz - a mod sz) (e - a) < e"
  shows "spans sz a e = Suc (spans sz (a + min (sz - a mod sz) (e - a)) e)"
proof -
  have l: "min (sz - a mod sz) (e - a) = sz - a mod sz"
    using assms(2) by linarith
  have m: "a mod sz < sz"
    using assms(1) by simp
  have eq: "a + (sz - a mod sz) = (a - a mod sz) + sz"
    using m by (simp add: mod_less_eq_dividend)
  have aligned: "((a - a mod sz) + sz) mod sz = 0"
    by (simp add: minus_mod_eq_mult_div)
  have "a - a mod sz < e"
    using assms(2) by linarith
  then show ?thesis
    using blocks_to_go_step [of "a - a mod sz" e sz] assms(1)
    unfolding spans_def l eq aligned by simp
qed

lemma spans_pos: "0 < sz \<Longrightarrow> a < e \<Longrightarrow> 0 < spans sz a e"
  using blocks_to_go_step [of "a - a mod sz" e sz] by (simp add: spans_def)

lemma s32_of_block: "k < 2 ^ 16 \<Longrightarrow> s32_of k = int k"
  by (simp add: s32_of_def)

section \<open>What the wrappers change\<close>

text \<open>Erasing and copying change the chip and the page buffer only.\<close>

definition keeps_table :: "'n bmt_desc \<Rightarrow> 'n bmt_desc \<Rightarrow> bool" where
  "keeps_table s t = (\<exists>c b. t = s\<lparr>chip := c, data_buf := b\<rparr>)"

lemma keeps_table_refl: "keeps_table s s"
  unfolding keeps_table_def by (rule exI [of _ "chip s"], rule exI [of _ "data_buf s"]) simp


lemma keeps_table_chip: "keeps_table s (s\<lparr>chip := c\<rparr>)"
  unfolding keeps_table_def by (rule exI [of _ c], rule exI [of _ "data_buf s"]) simp

lemma keeps_table_bufs: "keeps_table s (s\<lparr>chip := c, data_buf := b\<rparr>)"
  unfolding keeps_table_def by blast

lemma keeps_table_trans:
  assumes "keeps_table s t" and "keeps_table t u"
  shows "keeps_table s u"
proof -
  obtain c b c' b' where "t = s\<lparr>chip := c, data_buf := b\<rparr>" "u = t\<lparr>chip := c', data_buf := b'\<rparr>"
    using assms by (auto simp: keeps_table_def)
  then have "u = s\<lparr>chip := c', data_buf := b'\<rparr>" by simp
  then show ?thesis by (simp only: keeps_table_bufs)
qed

lemma erase_keeps_table: "keeps_table s (snd (bbt_nand_erase d b s))"
  by (simp add: bbt_nand_erase_def split_def keeps_table_chip Let_def)

lemma copy_pages_keeps_table: "keeps_table s (snd (copy_pages d pages src dest max_offset offset n s))"
proof (induction n arbitrary: offset s)
  case 0
  show ?case by (simp add: keeps_table_refl)
next
  case (Suc n)
  obtain ret dat oob c where rd:
    "read_oob d (src + offset) (pg_size s) 0 (min (oobsize (mtd s) div pages) 64) (chip s) = ((ret, dat, oob), c)"
    by (metis prod.collapse)
  define s1 where "s1 = s\<lparr>chip := c, data_buf := fill_buf dat (data_buf s)\<rparr>"
  obtain wret rl orl c2 where wr:
    "write_oob d (dest + offset) (take (pg_size s) (data_buf s1)) 0 [] c = ((wret, rl, orl), c2)"
    by (metis prod.collapse)
  have s1: "keeps_table s s1"
    unfolding s1_def by (rule keeps_table_bufs)
  have s2: "keeps_table s (s1\<lparr>chip := c2\<rparr>)"
    by (rule keeps_table_trans [OF s1 keeps_table_chip])
  have eq: "copy_pages d pages src dest max_offset offset (Suc n) s =
      (if int offset \<ge> max_offset then (0, s)
       else if ret < 0 \<and> \<not> mtd_is_bitflip ret then (ret, s1)
       else if dat = [] then (0, s1)
       else if wret < 0 then (wret, s1\<lparr>chip := c2\<rparr>)
       else copy_pages d pages src dest max_offset (offset + length dat) n (s1\<lparr>chip := c2\<rparr>))"
    using wr by (simp add: rd s1_def Let_def)
  show ?case
    unfolding eq by (simp add: keeps_table_refl s1 s2 keeps_table_trans [OF s2 Suc.IH])
qed

lemma copy_keeps_table: "keeps_table s (snd (bbt_nand_copy d dest src m s))"
  by (simp add: bbt_nand_copy_def copy_pages_keeps_table Let_def)

text \<open>The table that is written to the chip is inside the buffer.\<close>

definition bmt_fits :: "'n bmt_desc \<Rightarrow> bool" where
  "bmt_fits s = (bmt_pgs s * 2 ^ pg_shift s \<le> length (bbt_buf s))"

lemma bbt_nand_erase_chip:
  obtains r c where "bbt_nand_erase d b s = (r, s\<lparr>chip := c\<rparr>)"
  by (cases "erase_blk d (blk_addr s b) (blk_size s) (chip s)") (simp add: bbt_nand_erase_def Let_def)

lemma write_bmt_chip:
  assumes "bmt_fits s"
  obtains r c where "write_bmt d b s = Inr (r, s\<lparr>chip := c\<rparr>)"
  using assms by (auto simp: write_bmt_def bmt_fits_def Let_def split_def)

section \<open>What the driver promises\<close>

text \<open>A request that succeeds has transferred all its data.\<close>

definition full_writes :: "'n nand_dev \<Rightarrow> bool" where
  "full_writes d = (\<forall>to dat oo c. case write_oob d to dat oo [] c of ((ret, rl, _), _) \<Rightarrow> 0 \<le> ret \<longrightarrow> rl = length dat)"

definition full_reads :: "'n nand_dev \<Rightarrow> bool" where
  "full_reads d = (\<forall>from len oo c. case read_oob d from len oo 0 c of ((ret, dat, _), _) \<Rightarrow>
     0 \<le> ret \<or> mtd_is_bitflip ret \<longrightarrow> length dat = len)"

lemma full_writesD:
  assumes "full_writes d" and "write_oob d to dat oo [] c = ((ret, rl, orl), c')" and "0 \<le> ret"
  shows "rl = length dat"
  using assms unfolding full_writes_def
  by - (drule spec [of _ to], drule spec [of _ dat], drule spec [of _ oo], drule spec [of _ c], simp)

lemma full_readsD:
  assumes "full_reads d" and "read_oob d from len oo 0 c = ((ret, dat, oob), c')"
    and "0 \<le> ret \<or> mtd_is_bitflip ret"
  shows "length dat = len"
  using assms unfolding full_reads_def
  by - (drule spec [of _ "from"], drule spec [of _ len], drule spec [of _ oo], drule spec [of _ c], auto)

section \<open>The contract\<close>

locale mapping_ops =
  fixes ops :: "'n mtk_bmt_ops" and inv :: "'n bmt_desc \<Rightarrow> bool" and N M :: nat and A :: "stop set"
  assumes ends: "Out_of_fuel \<notin> A"
    and M_bound: "inv s \<Longrightarrow> M \<le> 2 ^ 16"
    and inv_geom: "inv s \<Longrightarrow> blk_geom N s"
    and inv_chip: "inv s \<Longrightarrow> inv (s\<lparr>chip := c\<rparr>)"
    and get_ends: "inv s \<Longrightarrow> k < N \<Longrightarrow> wp A (get_mapping_block ops (int k) s) (\<lambda>p. 0 \<le> p \<and> p < int M)"
    and remap_inv: "inv s \<Longrightarrow> k < N \<Longrightarrow> p < M \<Longrightarrow>
      wp A (remap_block ops k p len s) (\<lambda>(_, t). inv t \<and> same_geom s t)"
begin

lemma mtk_remap_inv:
  assumes "inv s" and "k < N" and "p < M"
  shows "wp A (mtk_bmt_remap_block ops k p len s) (\<lambda>(_, t). inv t \<and> same_geom s t)"
proof -
  have "k < 2 ^ 16"
    using inv_geom [OF assms(1)] assms(2) by (simp add: blk_geom_def)
  then have u16: "u16_of (int k) = k" "u16_of (int p) = p"
    using assms(3) M_bound [OF assms(1)] by (simp_all add: u16_of_def flip: of_nat_mod)
  show ?thesis
    using remap_inv [OF assms] assms(1)
    by (cases "mapping_block_in_range (s32_of k) s") (simp_all add: mtk_bmt_remap_block_def u16)
qed

text \<open>A failed attempt: the block is remapped, and the loop goes on or ends.\<close>

lemma retry_inv:
  assumes "inv s" and "k < N" and "p < M"
    and f: "\<And>b t. inv t \<Longrightarrow> same_geom s t \<Longrightarrow> wp A (f b t) Q"
  shows "wp A (rbind (mtk_bmt_remap_block ops k p len (s\<lparr>chip := c\<rparr>)) (\<lambda>(b, t). f b t)) Q"
proof (rule wp_rbindI [OF mtk_remap_inv [OF inv_chip [OF assms(1)] assms(2,3)]])
  fix x :: "bool \<times> 'n bmt_desc"
  assume x: "case x of (_, t) \<Rightarrow> inv t \<and> same_geom (s\<lparr>chip := c\<rparr>) t"
  then show "wp A (case x of (b, t) \<Rightarrow> f b t) Q"
    using f by (cases x) (simp add: same_geom_def)
qed

lemma erase_loop_inv:
  assumes "inv s" and "11 * blocks_to_go (blk_size s) a e - r < fuel" and "r \<le> 10"
    and "e \<le> N * blk_size s" and "Bad_access \<in> A \<or> a < e \<or> ret \<noteq> None"
  shows "wp A (mtk_bmt_erase_loop fuel d ops a e r ret s) (\<lambda>(_, _, t). inv t \<and> same_geom s t)"
  using assms
proof (induction fuel arbitrary: a r ret s)
  case (Suc fuel)
  note g = inv_geom [OF Suc.prems(1)]
  show ?case
  proof (cases "a < e")
    case False
    then show ?thesis
      using Suc.prems(1,5) by (auto split: option.splits)
  next
    case True
    have sz: "erasesize (mtd s) = blk_size s" "0 < blk_size s"
      using g by (simp_all add: blk_geom_def)
    have B: "blocks_to_go (blk_size s) a e = Suc (blocks_to_go (blk_size s) (a + blk_size s) e)"
      using True sz(2) by (rule blocks_to_go_step)
    define k where "k = drop_bit (blk_shift s) a mod 2 ^ 16"
    have k: "k < N"
      using block_of_addr [OF g, of a] True Suc.prems(4) by (simp add: k_def mod_less_eq_dividend le_less_trans)
    have next_ok: "wp A (mtk_bmt_erase_loop fuel d ops a' e r' (Some x) t) (\<lambda>(_, _, t). inv t \<and> same_geom s t)"
      if "inv t" "same_geom s t" "11 * blocks_to_go (blk_size s) a' e - r' < fuel" "r' \<le> 10" for a' r' x t
    proof (rule wp_mono [OF Suc.IH [of t a' r' "Some x"]])
      show "11 * blocks_to_go (blk_size t) a' e - r' < fuel" "e \<le> N * blk_size t"
        using that(2,3) Suc.prems(4) by (simp_all add: same_geom_def)
    qed (use that same_geom_trans in \<open>auto\<close>)
    have "wp A (rbind (get_mapping_block ops (int k) s) (\<lambda>block.
          if block < 0 then Inr (- EIO, None, s)
          else
            let (ret', c) = erase_blk d (blk_addr s (nat block)) (blk_size s) (chip s);
                s1 = s\<lparr>chip := c\<rparr>
            in
              if ret' \<noteq> 0 then
                rbind (mtk_bmt_remap_block ops k (nat block) 0 s1) (\<lambda>(remapped, s2).
                  if remapped \<and> r < 10
                  then mtk_bmt_erase_loop fuel d ops a e (r + 1) (Some ret') s2
                  else Inr (ret', Some a, s2))
              else mtk_bmt_erase_loop fuel d ops (a + erasesize (mtd s)) e 0 (Some ret') s1))
       (\<lambda>(_, _, t). inv t \<and> same_geom s t)"
    proof (rule wp_rbindI [OF get_ends [OF Suc.prems(1) k]], goal_cases)
      case (1 block)
      obtain ret' c where er: "erase_blk d (blk_addr s (nat block)) (blk_size s) (chip s) = (ret', c)"
        by (cases "erase_blk d (blk_addr s (nat block)) (blk_size s) (chip s)")
      have fail: "wp A (rbind (mtk_bmt_remap_block ops k (nat block) 0 (s\<lparr>chip := c\<rparr>)) (\<lambda>(remapped, s2).
            if remapped \<and> r < 10 then mtk_bmt_erase_loop fuel d ops a e (r + 1) (Some ret') s2
            else Inr (ret', Some a, s2))) (\<lambda>(_, _, t). inv t \<and> same_geom s t)"
      proof (rule retry_inv [OF Suc.prems(1) k])
        show "nat block < M" using 1 by (simp add: nat_less_iff)
        show "wp A (if b \<and> r < 10 then mtk_bmt_erase_loop fuel d ops a e (r + 1) (Some ret') t
            else Inr (ret', Some a, t)) (\<lambda>(_, _, t). inv t \<and> same_geom s t)"
          if "inv t" "same_geom s t" for b t
          using that next_ok [of t a "r + 1" ret'] Suc.prems(2) B by auto
      qed
      have ok: "wp A (mtk_bmt_erase_loop fuel d ops (a + erasesize (mtd s)) e 0 (Some ret') (s\<lparr>chip := c\<rparr>))
          (\<lambda>(_, _, t). inv t \<and> same_geom s t)"
        by (rule next_ok) (use inv_chip [OF Suc.prems(1)] Suc.prems(2,3) B sz(1) in \<open>auto\<close>)
      show ?case
        using 1 fail ok by (auto simp: er Let_def)
    qed
    then show ?thesis
      using True unfolding mtk_bmt_erase_loop.simps Let_def k_def by simp
  qed
qed simp


lemma isbad_loop_inv:
  assumes "inv s" and "k < N" and "10 - r < fuel" and "r \<le> 10"
  shows "wp A (isbad_loop fuel d ops k r s) (\<lambda>(_, t). inv t \<and> same_geom s t)"
  using assms
proof (induction fuel arbitrary: r s)
  case (Suc fuel)
  have next_ok: "wp A (isbad_loop fuel d ops k (r + 1) t) (\<lambda>(_, t). inv t \<and> same_geom s t)"
    if "inv t" "same_geom s t" "r < 10" for t
    by (rule wp_mono [OF Suc.IH [of t "r + 1"]]) (use that Suc.prems same_geom_trans in \<open>auto\<close>)
  show ?case
    unfolding isbad_loop.simps
  proof (rule wp_rbindI [OF get_ends [OF Suc.prems(1,2)]], goal_cases)
    case (1 b)
    obtain ret c where bad: "block_isbad d (blk_addr s (u16_of b)) (chip s) = (ret, c)"
      by (cases "block_isbad d (blk_addr s (u16_of b)) (chip s)")
    have "wp A (rbind (mtk_bmt_remap_block ops k (u16_of b) (int (blk_size s)) (s\<lparr>chip := c\<rparr>)) (\<lambda>(remapped, s2).
          if remapped \<and> r < 10 then isbad_loop fuel d ops k (r + 1) s2 else Inr (ret, s2)))
        (\<lambda>(_, t). inv t \<and> same_geom s t)"
    proof (rule retry_inv [OF Suc.prems(1,2)])
      show "u16_of b < M"
        using 1 M_bound [OF Suc.prems(1)] by (simp add: u16_of_def nat_less_iff)
      show "wp A (if x \<and> r < 10 then isbad_loop fuel d ops k (r + 1) t else Inr (ret, t)) (\<lambda>(_, t). inv t \<and> same_geom s t)"
        if "inv t" "same_geom s t" for x t
        using that next_ok [of t] by auto
    qed
    then show ?case
      using inv_chip [OF Suc.prems(1)] by (simp add: bad Let_def)
  qed
qed simp

lemma write_loop_inv:
  assumes "inv s" and full: "full_writes d" and "e \<le> N * blk_size s"
    and "wr_to w + (length dat - wr_retlen w) = e" and "wr_retlen w \<le> length dat"
    and "0 < fuel" and "wr_to w < e \<longrightarrow> 11 * spans (blk_size s) (wr_to w) e - wr_retry w < fuel"
    and "wr_retry w \<le> 10"
  shows "wp A (mtk_bmt_write_loop fuel d ops dat [] w s)
    (\<lambda>(ret, w', t). inv t \<and> same_geom s t \<and> (0 \<le> ret \<longrightarrow> wr_retlen w' = length dat))"
  using assms(1,3-)
proof (induction fuel arbitrary: w s)
  case (Suc fuel)
  let ?Q = "\<lambda>(ret, w', t). inv t \<and> same_geom s t \<and> (0 \<le> ret \<longrightarrow> wr_retlen w' = length dat)"
  note g = inv_geom [OF Suc.prems(1)]
  show ?case
  proof (cases "wr_retlen w < length dat")
    case False
    then show ?thesis
      using Suc.prems(1,4) by simp
  next
    case True
    define a where "a = wr_to w"
    define offset where "offset = a AND (blk_size s - 1)"
    define cur_len where "cur_len = min (blk_size s - offset) (length dat - wr_retlen w)"
    define k where "k = drop_bit (blk_shift s) a"
    have ae: "a < e" "e - a = length dat - wr_retlen w"
      using Suc.prems(3) True by (simp_all add: a_def)
    have sz: "0 < blk_size s"
      using g by (simp add: blk_geom_def)
    have off: "offset = a mod blk_size s"
      unfolding offset_def by (rule offset_in_block [OF g])
    then have len: "0 < cur_len" "cur_len \<le> length dat - wr_retlen w" "cur_len = min (blk_size s - a mod blk_size s) (e - a)"
      using True sz ae(2) by (simp_all add: cur_len_def)
    have k: "k < N" "k < 2 ^ 16"
      using block_of_addr [OF g, of a] ae(1) Suc.prems(2) g by (auto simp: k_def blk_geom_def)
    have next_ok: "wp A (mtk_bmt_write_loop fuel d ops dat [] w' t) ?Q"
      if "inv t" "same_geom s t" "wr_to w' + (length dat - wr_retlen w') = e" "wr_retlen w' \<le> length dat" "0 < fuel"
        "wr_to w' < e \<longrightarrow> 11 * spans (blk_size s) (wr_to w') e - wr_retry w' < fuel" "wr_retry w' \<le> 10" for w' t
    proof (rule wp_mono [OF Suc.IH [of t w']])
      show "e \<le> N * blk_size t" "wr_to w' < e \<longrightarrow> 11 * spans (blk_size t) (wr_to w') e - wr_retry w' < fuel"
        using that(2,6) Suc.prems(2) by (simp_all add: same_geom_def)
    qed (use that same_geom_trans in \<open>auto\<close>)
    have fuel: "11 * spans (blk_size s) a e - wr_retry w < Suc fuel" "0 < spans (blk_size s) a e"
      using Suc.prems(6) ae(1) spans_pos [OF sz ae(1)] by (simp_all add: a_def)
    have retry_fuel: "0 < fuel \<and> 11 * spans (blk_size s) a e - (wr_retry w + 1) < fuel" if "wr_retry w < 10"
      using fuel that by linarith
    have "wp A (rbind (get_mapping_block ops (int k) s) (\<lambda>cur_block.
          if cur_block < 0 then Inr (- EIO, w, s)
          else
            let ((ret, rl, orl), c) = write_oob d (blk_addr s (nat cur_block) + offset)
                  (take cur_len (drop (wr_retlen w) dat)) (wr_ooboffs w) [] (chip s);
                s1 = s\<lparr>chip := c\<rparr>
            in
              if ret < 0 then
                rbind (mtk_bmt_remap_block ops k (nat cur_block) (int offset) s1) (\<lambda>(remapped, s2).
                  if remapped \<and> wr_retry w < 10
                  then mtk_bmt_write_loop fuel d ops dat [] (w\<lparr>wr_retry := wr_retry w + 1\<rparr>) s2
                  else Inr (ret, w, s2))
              else
                mtk_bmt_write_loop fuel d ops dat []
                  (w\<lparr>wr_retlen := wr_retlen w + rl, wr_oobretlen := wr_oobretlen w + orl, wr_ooboffs := 0,
                     wr_to := a + (if cur_len = 0 then erasesize (mtd s) - offset else cur_len),
                     wr_retry := 0\<rparr>) s1)) ?Q"
    proof (rule wp_rbindI [OF get_ends [OF Suc.prems(1) k(1)]], goal_cases)
      case (1 cur_block)
      obtain ret rl orl c where wr: "write_oob d (blk_addr s (nat cur_block) + offset)
          (take cur_len (drop (wr_retlen w) dat)) (wr_ooboffs w) [] (chip s) = ((ret, rl, orl), c)"
        by (metis prod.collapse)
      have fail: "wp A (rbind (mtk_bmt_remap_block ops k (nat cur_block) (int offset) (s\<lparr>chip := c\<rparr>)) (\<lambda>(remapped, s2).
            if remapped \<and> wr_retry w < 10
            then mtk_bmt_write_loop fuel d ops dat [] (w\<lparr>wr_retry := wr_retry w + 1\<rparr>) s2
            else Inr (ret, w, s2))) ?Q" if "ret < 0"
      proof (rule retry_inv [OF Suc.prems(1) k(1)])
        show "nat cur_block < M" using 1 by (simp add: nat_less_iff)
        show "wp A (if b \<and> wr_retry w < 10
            then mtk_bmt_write_loop fuel d ops dat [] (w\<lparr>wr_retry := wr_retry w + 1\<rparr>) t else Inr (ret, w, t)) ?Q"
          if "inv t" "same_geom s t" for b t
        proof (cases "b \<and> wr_retry w < 10")
          case True
          have "wp A (mtk_bmt_write_loop fuel d ops dat [] (w\<lparr>wr_retry := wr_retry w + 1\<rparr>) t) ?Q"
            by (rule next_ok) (use that True Suc.prems(3,4) retry_fuel in \<open>simp_all add: a_def\<close>)
          then show ?thesis using True by simp
        qed (use that \<open>ret < 0\<close> in \<open>auto\<close>)
      qed
      have ok: "wp A (mtk_bmt_write_loop fuel d ops dat []
          (w\<lparr>wr_retlen := wr_retlen w + rl, wr_oobretlen := wr_oobretlen w + orl, wr_ooboffs := 0,
             wr_to := a + cur_len, wr_retry := 0\<rparr>) (s\<lparr>chip := c\<rparr>)) ?Q" if "\<not> ret < 0"
      proof -
        have rl: "rl = cur_len"
          using full_writesD [OF full wr] that len(2) by simp
        define w' where "w' = w\<lparr>wr_retlen := wr_retlen w + rl, wr_oobretlen := wr_oobretlen w + orl, wr_ooboffs := 0,
             wr_to := a + cur_len, wr_retry := 0\<rparr>"
        have w': "wr_to w' = a + cur_len" "wr_retlen w' = wr_retlen w + cur_len" "wr_retry w' = 0"
          by (simp_all add: w'_def rl)
        have "wp A (mtk_bmt_write_loop fuel d ops dat [] w' (s\<lparr>chip := c\<rparr>)) ?Q"
        proof (rule next_ok)
          show "wr_to w' < e \<longrightarrow> 11 * spans (blk_size s) (wr_to w') e - wr_retry w' < fuel"
          proof
            assume "wr_to w' < e"
            then have "spans (blk_size s) a e = Suc (spans (blk_size s) (a + cur_len) e)"
              using spans_step [OF sz, of a e] by (simp only: w' len(3))
            then show "11 * spans (blk_size s) (wr_to w') e - wr_retry w' < fuel"
              using fuel(1) Suc.prems(7) unfolding w' by linarith
          qed
          show "wr_to w' + (length dat - wr_retlen w') = e" "wr_retlen w' \<le> length dat" "0 < fuel" "wr_retry w' \<le> 10"
            using ae len(2) fuel Suc.prems(7) by (simp_all add: w')
        qed (use inv_chip [OF Suc.prems(1)] in simp_all)
        then show ?thesis by (simp only: w'_def)
      qed
      show ?case
        using 1 fail ok len(1) by (cases "ret < 0") (simp_all add: wr Let_def)
    qed
    moreover have blk: "drop_bit (blk_shift s) a mod 2 ^ 32 = k"
      using k(2) by (simp add: k_def)
    moreover have guard: "(\<not> (wr_retlen w < length dat \<or> wr_oobretlen w < length [])) = False"
      using True by simp
    ultimately show ?thesis
      unfolding mtk_bmt_write_loop.simps Let_def a_def [symmetric] guard if_False offset_def [symmetric]
        cur_len_def [symmetric] blk drop_Nil s32_of_block [OF k(2)] by simp
  qed
qed simp

text \<open>The operations as the MTD layer calls them.\<close>

lemma mtd_erase_inv:
  assumes "inv s" and "0 < len" and "addr + len \<le> N * blk_size s"
    and "11 * spans (blk_size s) addr (addr + len) < fuel"
  shows "wp A (mtk_bmt_mtd_erase fuel d ops addr len s) (\<lambda>(_, _, t). inv t \<and> same_geom s t)"
proof -
  have "addr AND (erasesize (mtd s) - 1) = addr mod blk_size s"
    using offset_in_block [OF inv_geom [OF assms(1)]] inv_geom [OF assms(1)] by (simp add: blk_geom_def)
  then show ?thesis
    unfolding mtk_bmt_mtd_erase_def using assms by (intro erase_loop_inv) (auto simp: spans_def)
qed

lemma write_inv:
  assumes "inv s" and "full_writes d" and "to + length dat \<le> N * blk_size s"
    and "11 * spans (blk_size s) to (to + length dat) < fuel"
  shows "wp A (mtk_bmt_write fuel d ops to dat oo [] s)
    (\<lambda>(ret, w, t). inv t \<and> same_geom s t \<and> (0 \<le> ret \<longrightarrow> wr_retlen w = length dat))"
  unfolding mtk_bmt_write_def using assms by (intro write_loop_inv) auto

lemma isbad_inv:
  assumes "inv s" and "ofs < N * blk_size s"
  shows "wp A (mtk_bmt_block_isbad d ops ofs s) (\<lambda>(_, t). inv t \<and> same_geom s t)"
proof -
  have "drop_bit (blk_shift s) ofs mod 2 ^ 16 < N"
    using block_of_addr [OF inv_geom [OF assms(1)] assms(2)] by (simp add: mod_less_eq_dividend le_less_trans)
  then show ?thesis
    unfolding mtk_bmt_block_isbad_def by (intro isbad_loop_inv assms(1)) simp_all
qed

lemma markbad_inv:
  assumes "inv s" and "ofs < N * blk_size s"
  shows "wp A (mtk_bmt_block_markbad d ops ofs s) (\<lambda>(_, t). inv t \<and> same_geom s t)"
proof -
  define k where "k = drop_bit (blk_shift s) ofs mod 2 ^ 16"
  have k: "k < N"
    using block_of_addr [OF inv_geom [OF assms(1)] assms(2)] by (simp add: k_def mod_less_eq_dividend le_less_trans)
  have mark: "wp A (let (ret, c) = block_markbad d (blk_addr t b) (chip t) in Inr (ret, t\<lparr>chip := c\<rparr>))
      (\<lambda>(_, t). inv t \<and> same_geom s t)" if "inv t" "same_geom s t" for b t
    using that inv_chip [OF that(1)] by (simp add: Let_def split_def same_geom_def)
  show ?thesis
    unfolding mtk_bmt_block_markbad_def Let_def k_def [symmetric]
  proof (rule wp_rbindI [OF get_ends [OF assms(1) k]], goal_cases)
    case (1 block)
    then have "nat block < M" by (simp add: nat_less_iff)
    from retry_inv [OF assms(1) k this, of "\<lambda>_ t. let (ret, c) = block_markbad d (blk_addr t (nat block)) (chip t)
        in Inr (ret, t\<lparr>chip := c\<rparr>)", OF mark, of "int (blk_size s)" "chip s"] 1
    show ?case by (simp add: Let_def)
  qed
qed

end

end
