(* ===== verification/Mtk_V2_Inv.thy ===== *)
theory Mtk_V2_Inv
  imports Mtk_Bmt_V2 Mtk_Bmt_Client
begin

text \<open>
  The invariant of the version 2 mapping: no two logical blocks share a physical block, and
  a block of the pool that is still free, or holds the table itself, belongs to no logical
  block. Remapping and storing the table keep it, whatever the NAND driver does.
\<close>

section \<open>Entries of the tables\<close>

definition phys :: "'n bmt_desc \<Rightarrow> nat \<Rightarrow> nat" where
  "phys s k = half_at (bbt_buf s) k"

definition pool_blk :: "'n bmt_desc \<Rightarrow> nat \<Rightarrow> nat" where
  "pool_blk s i = half_at (bbt_buf s) (table_size s + 2 * i)"

definition pool_flag :: "'n bmt_desc \<Rightarrow> nat \<Rightarrow> nat" where
  "pool_flag s i = half_at (bbt_buf s) (table_size s + 2 * i + 1)"

text \<open>The pool entries that are inside the buffer.\<close>

definition pool_cap :: "'n bmt_desc \<Rightarrow> nat" where
  "pool_cap s = (length (bbt_buf s) - (4 + 2 * table_size s)) div 4"

text \<open>The entries of the pool: \<open>table_size\<close> of them are cleared when the table is made.\<close>

definition pool_len :: "'n bmt_desc \<Rightarrow> nat" where
  "pool_len s = min (pool_cap s) (table_size s)"

lemma half_at_bound: "half_at buf j < 2 ^ 16"
proof -
  have "unat (buf ! (4 + 2 * j)) < 256" "unat (buf ! (5 + 2 * j)) < 256"
    using unsigned_less [of "buf ! (4 + 2 * j)", where 'a = nat] unsigned_less [of "buf ! (5 + 2 * j)", where 'a = nat]
    by simp_all
  then show ?thesis by (simp add: half_at_def)
qed

lemma length_put_half [simp]: "length (put_half j v buf) = length buf"
  by (simp add: put_half_def)

lemma half_at_put_half:
  assumes "5 + 2 * j < length buf"
  shows "half_at (put_half j v buf) i = (if i = j then v mod 2 ^ 16 else half_at buf i)"
proof -
  have "v mod 256 + 256 * (v div 256 mod 256) = v mod 2 ^ 16"
    using mod_mult2_eq [of v 256 256] by simp
  moreover have "4 + 2 * i \<noteq> 5 + 2 * j" "5 + 2 * i \<noteq> 4 + 2 * j" for i
    by presburger+
  ultimately show ?thesis
    using assms by (auto simp: half_at_def put_half_def nth_list_update unat_of_nat)
qed

lemma half_at_header:
  assumes "length hdr = 4" and "4 \<le> length buf"
  shows "half_at (hdr @ drop 4 buf) j = half_at buf j"
  using assms by (simp add: half_at_def nth_append)

lemma pool_capI: "5 + 2 * (table_size s + 2 * i + 1) < length (bbt_buf s) \<Longrightarrow> i < pool_cap s"
  by (simp add: pool_cap_def less_eq_div_iff_mult_less_eq flip: Suc_le_eq)

lemma pool_capD: "i < pool_cap s \<Longrightarrow> 5 + 2 * (table_size s + 2 * i + 1) < length (bbt_buf s)"
  by (simp add: pool_cap_def less_eq_div_iff_mult_less_eq flip: Suc_le_eq)

lemma wp_tbl_get:
  assumes "5 + 2 * j < length (bbt_buf s) \<or> Bad_access \<in> A"
    and "5 + 2 * j < length (bbt_buf s) \<Longrightarrow> P (half_at (bbt_buf s) j)"
  shows "wp A (tbl_get j s) P"
  using assms by (auto simp: tbl_get_def)

lemma wp_tbl_put:
  assumes "5 + 2 * j < length (bbt_buf s) \<or> Bad_access \<in> A"
    and "5 + 2 * j < length (bbt_buf s) \<Longrightarrow> P (s\<lparr>bbt_buf := put_half j v (bbt_buf s)\<rparr>)"
  shows "wp A (tbl_put j v s) P"
  using assms by (auto simp: tbl_put_def)

section \<open>The invariant\<close>

definition v2_inv :: "nat \<Rightarrow> 'n bmt_desc \<Rightarrow> bool" where
  "v2_inv N s =
     (N \<le> pool_lba s \<and> pool_lba s \<le> table_size s \<and> 4 + 2 * table_size s \<le> length (bbt_buf s) \<and>
      pool_cap s < 2 ^ 16 \<and> bmt_fits s \<and> blk_geom N s \<and>
      inj_on (phys s) {..<N} \<and>
      (\<forall>i < pool_len s. \<forall>j < pool_len s. pool_blk s i \<noteq> 0 \<and> pool_blk s i = pool_blk s j \<longrightarrow> i = j) \<and>
      (\<forall>i < pool_len s. \<forall>k < N. pool_blk s i \<noteq> 0 \<and> phys s k = pool_blk s i \<longrightarrow> pool_flag s i = NORMAL_MAPPED))"

lemma v2_invD:
  assumes "v2_inv N s"
  shows "N \<le> pool_lba s" "pool_lba s \<le> table_size s" "4 + 2 * table_size s \<le> length (bbt_buf s)"
    "pool_cap s < 2 ^ 16" "bmt_fits s" "blk_geom N s" "inj_on (phys s) {..<N}"
    "\<And>i j. i < pool_len s \<Longrightarrow> j < pool_len s \<Longrightarrow> pool_blk s i \<noteq> 0 \<Longrightarrow> pool_blk s i = pool_blk s j \<Longrightarrow> i = j"
    "\<And>i k. i < pool_len s \<Longrightarrow> k < N \<Longrightarrow> pool_blk s i \<noteq> 0 \<Longrightarrow> phys s k = pool_blk s i \<Longrightarrow> pool_flag s i = NORMAL_MAPPED"
  using assms unfolding v2_inv_def by blast+

lemma v2_invI:
  assumes "N \<le> pool_lba s" "pool_lba s \<le> table_size s" "4 + 2 * table_size s \<le> length (bbt_buf s)"
    "pool_cap s < 2 ^ 16" "bmt_fits s" "blk_geom N s" "inj_on (phys s) {..<N}"
    "\<And>i j. i < pool_len s \<Longrightarrow> j < pool_len s \<Longrightarrow> pool_blk s i \<noteq> 0 \<Longrightarrow> pool_blk s i = pool_blk s j \<Longrightarrow> i = j"
    "\<And>i k. i < pool_len s \<Longrightarrow> k < N \<Longrightarrow> pool_blk s i \<noteq> 0 \<Longrightarrow> phys s k = pool_blk s i \<Longrightarrow> pool_flag s i = NORMAL_MAPPED"
  shows "v2_inv N s"
  using assms unfolding v2_inv_def by blast

text \<open>A buffer of the same size in the same descriptor.\<close>

definition same_desc :: "'n bmt_desc \<Rightarrow> 'n bmt_desc \<Rightarrow> bool" where
  "same_desc s t =
     (table_size t = table_size s \<and> pool_lba t = pool_lba s \<and> bmt_pgs t = bmt_pgs s \<and> pg_shift t = pg_shift s \<and>
      total_blks t = total_blks s \<and> same_geom s t \<and> remap_range t = remap_range s \<and>
      length (bbt_buf t) = length (bbt_buf s))"

lemma same_desc_refl [simp]: "same_desc s s"
  by (simp add: same_desc_def)

lemma same_desc_trans: "same_desc s t \<Longrightarrow> same_desc t u \<Longrightarrow> same_desc s u"
  by (simp add: same_desc_def same_geom_def)

lemma same_desc_upd [simp]:
  "same_desc s (t\<lparr>chip := c\<rparr>) = same_desc s t" "same_desc s (t\<lparr>data_buf := b\<rparr>) = same_desc s t"
  "same_desc s (t\<lparr>bmt_blk_idx := n\<rparr>) = same_desc s t" "same_desc s (t\<lparr>pool_pba := n\<rparr>) = same_desc s t"
  "length b = length (bbt_buf t) \<Longrightarrow> same_desc s (t\<lparr>bbt_buf := b\<rparr>) = same_desc s t"
  by (simp_all add: same_desc_def same_geom_def)

lemma same_descD:
  assumes "same_desc s t"
  shows "table_size t = table_size s" "pool_lba t = pool_lba s" "total_blks t = total_blks s" "same_geom s t"
    "length (bbt_buf t) = length (bbt_buf s)" "pool_cap t = pool_cap s" "bmt_fits t = bmt_fits s"
    "blk_geom N t = blk_geom N s" "pool_len t = pool_len s"
  using assms by (simp_all add: same_desc_def pool_len_def pool_cap_def bmt_fits_def blk_geom_def same_geom_def)

section \<open>Storing the table\<close>

text \<open>\<open>upload_bmt\<close> changes no entry but the blocks of pool entries, which it clears.\<close>

definition clears_pool :: "'n bmt_desc \<Rightarrow> 'n bmt_desc \<Rightarrow> bool" where
  "clears_pool s t =
     (same_desc s t \<and>
      (\<forall>j. half_at (bbt_buf t) j \<noteq> half_at (bbt_buf s) j \<longrightarrow>
         half_at (bbt_buf t) j = 0 \<and> (\<exists>i. j = table_size s + 2 * i)))"

lemma clears_pool_refl [simp]: "clears_pool s s"
  by (simp add: clears_pool_def)

lemma clears_pool_trans: "clears_pool s t \<Longrightarrow> clears_pool t u \<Longrightarrow> clears_pool s u"
  unfolding clears_pool_def
proof (elim conjE, intro conjI allI impI)
  fix j
  assume st: "same_desc s t" and tu: "same_desc t u"
    and c: "\<forall>j. half_at (bbt_buf t) j \<noteq> half_at (bbt_buf s) j \<longrightarrow> half_at (bbt_buf t) j = 0 \<and> (\<exists>i. j = table_size s + 2 * i)"
      "\<forall>j. half_at (bbt_buf u) j \<noteq> half_at (bbt_buf t) j \<longrightarrow> half_at (bbt_buf u) j = 0 \<and> (\<exists>i. j = table_size t + 2 * i)"
  show "same_desc s u" using st tu by (rule same_desc_trans)
  assume "half_at (bbt_buf u) j \<noteq> half_at (bbt_buf s) j"
  then have "half_at (bbt_buf u) j \<noteq> half_at (bbt_buf t) j \<or>
      half_at (bbt_buf u) j = half_at (bbt_buf t) j \<and> half_at (bbt_buf t) j \<noteq> half_at (bbt_buf s) j"
    by argo
  then have "half_at (bbt_buf u) j = 0 \<and> (\<exists>i. j = table_size s + 2 * i)"
  proof (elim disjE conjE)
    assume "half_at (bbt_buf u) j \<noteq> half_at (bbt_buf t) j"
    then show ?thesis
      using c(2) unfolding same_descD(1) [OF st] by blast
  next
    assume "half_at (bbt_buf u) j = half_at (bbt_buf t) j" "half_at (bbt_buf t) j \<noteq> half_at (bbt_buf s) j"
    then show ?thesis
      using c(1) by simp
  qed
  then show "half_at (bbt_buf u) j = 0" "\<exists>i. j = table_size s + 2 * i" by blast+
qed

lemma clears_pool_chip [simp]:
  "clears_pool s (t\<lparr>chip := c\<rparr>) = clears_pool s t" "clears_pool s (t\<lparr>data_buf := b\<rparr>) = clears_pool s t"
  "clears_pool s (t\<lparr>bmt_blk_idx := n\<rparr>) = clears_pool s t"
  by (simp_all add: clears_pool_def)

lemma clears_pool_put:
  assumes "clears_pool s t" and "5 + 2 * (table_size s + 2 * n) < length (bbt_buf t)"
  shows "clears_pool s (t\<lparr>bbt_buf := put_half (table_size s + 2 * n) 0 (bbt_buf t)\<rparr>)"
  using assms by (auto simp: clears_pool_def half_at_put_half)

lemma clears_pool_header:
  assumes "clears_pool s t" and "4 \<le> length (bbt_buf t)"
  shows "clears_pool s (t\<lparr>bbt_buf := BMT_sig @ [BBMT_VERSION] @ drop 4 (bbt_buf t)\<rparr>)"
proof -
  have "length (BMT_sig @ [BBMT_VERSION]) = 4" by (simp add: BMT_sig_def)
  then have "half_at ((BMT_sig @ [BBMT_VERSION]) @ drop 4 (bbt_buf t)) j = half_at (bbt_buf t) j" for j
    using assms(2) by (rule half_at_header)
  then show ?thesis
    using assms by (simp add: clears_pool_def BMT_sig_def)
qed

lemma clears_pool_entries:
  assumes "clears_pool s t"
  shows "j < table_size s \<Longrightarrow> phys t j = phys s j" "pool_flag t i = pool_flag s i"
    "pool_blk t i = pool_blk s i \<or> pool_blk t i = 0"
proof -
  note c = assms [unfolded clears_pool_def] and ts = same_descD(1) [of s t]
  show "phys t j = phys s j" if "j < table_size s"
    using c that unfolding phys_def by (metis not_add_less1)
  have "table_size s + 2 * i + 1 \<noteq> table_size s + 2 * k" for k
    by presburger
  then show "pool_flag t i = pool_flag s i"
    using c ts unfolding pool_flag_def by metis
  show "pool_blk t i = pool_blk s i \<or> pool_blk t i = 0"
    using c ts unfolding pool_blk_def by metis
qed

lemma clears_pool_inv:
  assumes "v2_inv N s" and "clears_pool s t"
  shows "v2_inv N t"
proof -
  note inv = v2_invD [OF assms(1)] and e = clears_pool_entries [OF assms(2)]
  have d: "same_desc s t"
    using assms(2) by (simp add: clears_pool_def)
  have ph: "phys t k = phys s k" if "k < N" for k
    using that inv(1,2) by (intro e(1)) simp
  show ?thesis
  proof (rule v2_invI)
    show "inj_on (phys t) {..<N}"
      using inv(7) ph by (auto simp: inj_on_def)
    show "i = j" if "i < pool_len t" "j < pool_len t" "pool_blk t i \<noteq> 0" "pool_blk t i = pool_blk t j" for i j
      by (rule inv(8)) (use that e(3) [of i] e(3) [of j] same_descD(9) [OF d] in auto)
    show "pool_flag t i = NORMAL_MAPPED" if "i < pool_len t" "k < N" "pool_blk t i \<noteq> 0" "phys t k = pool_blk t i" for i k
      using that e(3) [of i] ph [of k] inv(9) [of i k] same_descD(9) [OF d] by (auto simp: e(2))
  qed (use inv(1-6) in \<open>simp_all add: same_descD [OF d]\<close>)
qed


lemma erase_same_desc: "bbt_nand_erase d b s = (e, t) \<Longrightarrow> t = s\<lparr>chip := chip t\<rparr>"
  by (auto simp: bbt_nand_erase_def Let_def split_def)

lemma write_bmt_wp:
  assumes "bmt_fits s \<or> Bad_access \<in> A" and "\<And>r c. P (r, s\<lparr>chip := c\<rparr>)"
  shows "wp A (write_bmt d b s) P"
  using assms by (auto simp: write_bmt_def bmt_fits_def Let_def split_def)

text \<open>
  Either the table is stored at a pool entry below \<open>n\<close> that no logical block uses, or there
  is no such entry.
\<close>

lemma upload_from_wp:
  assumes "n \<le> pool_cap s \<or> Bad_access \<in> A" and "bmt_fits s \<or> Bad_access \<in> A" and "n \<le> 2 ^ 16"
  shows "wp A (upload_from d n s) (\<lambda>(r, t). clears_pool s t \<and>
    (r = NO_BMT \<or> r < n \<and> r < pool_cap s \<and> pool_flag s r \<noteq> NORMAL_MAPPED))"
  using assms
proof (induction n arbitrary: s)
  case 0
  show ?case by simp
next
  case (Suc n)
  let ?Q = "\<lambda>(r, t). clears_pool s t \<and> (r = NO_BMT \<or> r < Suc n \<and> r < pool_cap s \<and> pool_flag s r \<noteq> NORMAL_MAPPED)"
  have again: "wp A (rbind (tbl_put (bmt_block t n) 0 t) (upload_from d n)) ?Q"
    if t: "clears_pool s t" and n: "n < pool_cap s" for t
  proof (rule wp_rbindI [where P = "\<lambda>u. clears_pool s u"])
    have d: "same_desc s t"
      using t by (simp add: clears_pool_def)
    have "5 + 2 * (table_size s + 2 * n) < length (bbt_buf t)"
      using pool_capD [OF n] by (simp add: same_descD [OF d])
    with clears_pool_put [OF t this] show "wp A (tbl_put (bmt_block t n) 0 t) (\<lambda>u. clears_pool s u)"
      by (intro wp_tbl_put) (simp_all add: bmt_block_def same_descD [OF d])
  next
    fix u assume u: "clears_pool s u"
    then have d: "same_desc s u"
      by (simp add: clears_pool_def)
    show "wp A (upload_from d n u) ?Q"
      by (rule wp_mono [OF Suc.IH]) (use Suc.prems same_descD [OF d] clears_pool_trans [OF u]
          clears_pool_entries(2) [OF u] in \<open>auto\<close>)
  qed
  show ?case
    unfolding upload_from.simps
  proof (rule wp_rbindI [OF wp_tbl_get, where P = "\<lambda>m. n < pool_cap s \<and> m = pool_flag s n"], goal_cases)
    case 1
    then show ?case
      using Suc.prems(1) pool_capD [of n s] by (auto simp: bmt_mapped_def)
  next
    case 2
    then show ?case
      using pool_capI [of s n] by (simp add: bmt_mapped_def pool_flag_def)
  next
    case m: (3 m)
    show ?case
    proof (cases "m = NORMAL_MAPPED")
      case False
      have len: "4 \<le> length (bbt_buf s)" "5 + 2 * (table_size s + 2 * n) < length (bbt_buf s)"
        using pool_capD [of n s] m by simp_all
      obtain e c where er: "bbt_nand_erase d (half_at (bbt_buf s) (bmt_block s n)) s = (e, s\<lparr>chip := c\<rparr>)"
        by (rule bbt_nand_erase_chip)
      define s2 where "s2 = s\<lparr>chip := c\<rparr>\<lparr>bbt_buf := BMT_sig @ [BBMT_VERSION] @ drop 4 (bbt_buf (s\<lparr>chip := c\<rparr>))\<rparr>"
      have s2: "clears_pool s s2"
        unfolding s2_def using len(1) by (intro clears_pool_header) simp_all
      then have fits: "bmt_fits s2 \<or> Bad_access \<in> A"
        using Suc.prems(2) same_descD(7) [of s s2] by (simp add: clears_pool_def)
      have "wp A (rbind (write_bmt d (half_at (bbt_buf s) (bmt_block s n)) s2) (\<lambda>(w, s3).
          if w \<noteq> 0 then rbind (tbl_put (bmt_block s3 n) 0 s3) (upload_from d n) else Inr (u16_of (int n), s3))) ?Q"
      proof (rule wp_rbindI [OF write_bmt_wp [where P = "\<lambda>(_, t). clears_pool s t"]], goal_cases)
        case 1
        show ?case by (rule fits)
      next
        case 2
        show ?case using s2 by simp
      next
        case (3 x)
        obtain w s3 where "x = (w, s3)" by (cases x)
        moreover have "u16_of (int n) = n"
          using Suc.prems(3) by (simp add: u16_of_def flip: of_nat_mod)
        ultimately show ?case
          using again [of s3] 3 m False by simp
      qed
      moreover have "wp A (rbind (tbl_put (bmt_block (s\<lparr>chip := c\<rparr>) n) 0 (s\<lparr>chip := c\<rparr>)) (upload_from d n)) ?Q"
        using again [of "s\<lparr>chip := c\<rparr>"] m by simp
      moreover have "tbl_get (bmt_block s n) s = Inr (half_at (bbt_buf s) (bmt_block s n))"
        using len(2) by (simp add: tbl_get_def bmt_block_def)
      ultimately show ?thesis
        using False by (cases "e = 0") (simp_all add: er s2_def Let_def)
    qed simp
  qed
qed


lemma upload_current_wp:
  assumes inv: "v2_inv N s" and idx: "bmt_blk_idx s < pool_len s"
  shows "wp A (upload_current d s) (\<lambda>t. clears_pool s t \<and> v2_inv N t \<and>
    (bmt_blk_idx t = NO_BMT \<or>
     bmt_blk_idx t \<le> bmt_blk_idx s \<and> pool_flag t (bmt_blk_idx t) \<noteq> NORMAL_MAPPED))"
proof -
  have "wp A (upload_bmt d (bmt_blk_idx s) s) (\<lambda>(r, t). clears_pool s t \<and>
    (r = NO_BMT \<or> r < bmt_blk_idx s + 1 \<and> r < pool_cap s \<and> pool_flag s r \<noteq> NORMAL_MAPPED))"
    unfolding upload_bmt_def using v2_invD(4,5) [OF inv] idx by (intro upload_from_wp) (auto simp: pool_len_def)
  then show ?thesis
    unfolding upload_current_def
  proof (rule wp_rbindI, goal_cases)
    case (1 x)
    obtain r t where x: "x = (r, t)" by (cases x)
    define u where "u = t\<lparr>bmt_blk_idx := r\<rparr>"
    have u: "clears_pool s u"
      using 1 by (simp add: x u_def)
    have "pool_flag u r = pool_flag s r"
      by (rule clears_pool_entries(2) [OF u])
    then show ?case
      using 1 u clears_pool_inv [OF inv u] by (auto simp: x u_def [symmetric]) (simp_all add: u_def)
  qed
qed

section \<open>Remapping\<close>

lemma pool_search_wp:
  assumes "\<forall>i \<in> set is. i < pool_cap s \<or> Bad_access \<in> A"
  shows "wp A (pool_search is s) (\<lambda>(b, t). b = 0 \<and> t = s \<or>
    (\<exists>i \<in> set is. i < pool_cap s \<and> b = pool_blk s i \<and> b \<noteq> 0 \<and> pool_flag s i = NO_MAPPED \<and>
       t = s\<lparr>bbt_buf := put_half (table_size s + 2 * i + 1) NORMAL_MAPPED (bbt_buf s)\<rparr>))"
  using assms
proof (induction "is")
  case (Cons i "is")
  let ?Q = "\<lambda>(b, t). b = 0 \<and> t = s \<or>
    (\<exists>i \<in> set (i # is). i < pool_cap s \<and> b = pool_blk s i \<and> b \<noteq> 0 \<and> pool_flag s i = NO_MAPPED \<and>
       t = s\<lparr>bbt_buf := put_half (table_size s + 2 * i + 1) NORMAL_MAPPED (bbt_buf s)\<rparr>)"
  have rest: "wp A (pool_search is s) ?Q"
    by (rule wp_mono [OF Cons.IH]) (use Cons.prems in \<open>auto\<close>)
  show ?case
    unfolding pool_search.simps
  proof (rule wp_rbindI [OF wp_tbl_get, where P = "\<lambda>b. b = pool_blk s i"], goal_cases)
    case 1
    then show ?case
      using Cons.prems pool_capD [of i s] by (auto simp: bmt_block_def)
  next
    case 2
    then show ?case by (simp add: bmt_block_def pool_blk_def)
  next
    case (3 b)
    show ?case
    proof (cases "b = 0")
      case True
      then show ?thesis using rest by (simp add: NORMAL_MAPPED_def NO_MAPPED_def)
    next
      case False
      have "wp A (rbind (tbl_get (bmt_mapped s i) s) (\<lambda>m.
          if b \<noteq> 0 \<and> m = NO_MAPPED then rbind (tbl_put (bmt_mapped s i) NORMAL_MAPPED s) (\<lambda>s1. Inr (b, s1))
          else pool_search is s)) ?Q"
      proof (rule wp_rbindI [OF wp_tbl_get, where P = "\<lambda>m. i < pool_cap s \<and> m = pool_flag s i"], goal_cases)
        case 1
        then show ?case
          using Cons.prems pool_capD [of i s] by (auto simp: bmt_mapped_def)
      next
        case 2
        then show ?case
          using pool_capI [of s i] by (simp add: bmt_mapped_def pool_flag_def)
      next
        case m: (3 m)
        then have "tbl_put (bmt_mapped s i) NORMAL_MAPPED s =
            Inr (s\<lparr>bbt_buf := put_half (table_size s + 2 * i + 1) NORMAL_MAPPED (bbt_buf s)\<rparr>)"
          using pool_capD [of i s] by (simp add: tbl_put_def bmt_mapped_def)
        then show ?case
          using m rest False 3 by (cases "m = NO_MAPPED") simp_all
      qed
      then show ?thesis using False by simp
    qed
  qed
qed simp


text \<open>Taking a free pool entry for a logical block.\<close>

lemma pool_take_entries:
  fixes s :: "'n bmt_desc"
  defines "t i k b \<equiv> s\<lparr>bbt_buf := put_half k b (put_half (table_size s + 2 * i + 1) NORMAL_MAPPED (bbt_buf s))\<rparr>"
  assumes i: "i < pool_cap s" and k: "k < table_size s" and b: "b < 2 ^ 16"
  shows "phys (t i k b) j = (if j = k then b else if j = table_size s + 2 * i + 1 then NORMAL_MAPPED else phys s j)"
    "pool_blk (t i k b) j = pool_blk s j"
    "pool_flag (t i k b) j = (if j = i then NORMAL_MAPPED else pool_flag s j)"
    "same_desc s (t i k b)"
proof -
  let ?f = "table_size s + 2 * i + 1"
  have len: "5 + 2 * ?f < length (bbt_buf s)" "5 + 2 * k < length (bbt_buf s)"
    using pool_capD [OF i] k by simp_all
  have half: "half_at (bbt_buf (t i k b)) j = (if j = k then b else if j = ?f then NORMAL_MAPPED else half_at (bbt_buf s) j)" for j
    using len b by (simp add: t_def half_at_put_half NORMAL_MAPPED_def)
  then show "phys (t i k b) j = (if j = k then b else if j = ?f then NORMAL_MAPPED else phys s j)"
    by (simp add: phys_def)
  have ts: "table_size (t i k b) = table_size s"
    by (simp add: t_def)
  have "table_size s + 2 * j \<noteq> ?f" by presburger
  then show "pool_blk (t i k b) j = pool_blk s j"
    using k by (simp add: pool_blk_def ts half)
  show "pool_flag (t i k b) j = (if j = i then NORMAL_MAPPED else pool_flag s j)"
    using k by (simp add: pool_flag_def ts half)
  show "same_desc s (t i k b)"
    by (simp add: t_def)
qed

lemma pool_take_inv:
  fixes s :: "'n bmt_desc"
  defines "t i k b \<equiv> s\<lparr>bbt_buf := put_half k b (put_half (table_size s + 2 * i + 1) NORMAL_MAPPED (bbt_buf s))\<rparr>"
  assumes inv: "v2_inv N s" and k: "k < N" and i: "i < pool_len s"
    and b: "b = pool_blk s i" "b \<noteq> 0" "pool_flag s i = NO_MAPPED"
  shows "v2_inv N (t i k b)" "phys (t i k b) k = b" "\<And>j. j < N \<Longrightarrow> j \<noteq> k \<Longrightarrow> phys (t i k b) j = phys s j"
    "b \<notin> phys s ` {..<N}"
proof -
  note I = v2_invD [OF inv]
  have kt: "k < table_size s" "b < 2 ^ 16"
    using k I(1,2) half_at_bound by (simp_all add: b(1) pool_blk_def)
  have ic: "i < pool_cap s"
    using i by (simp add: pool_len_def)
  note e = pool_take_entries [OF ic kt, folded t_def]
  show fresh: "b \<notin> phys s ` {..<N}"
  proof
    assume "b \<in> phys s ` {..<N}"
    then obtain x where "x < N" "phys s x = pool_blk s i" using b(1) by auto
    then have "pool_flag s i = NORMAL_MAPPED" using I(9) [OF i] b(1,2) by simp
    then show False using b(3) by (simp add: NO_MAPPED_def NORMAL_MAPPED_def)
  qed
  show ph: "phys (t i k b) j = phys s j" if "j < N" "j \<noteq> k" for j
    using that I(1,2) by (simp add: e(1))
  show pk: "phys (t i k b) k = b"
    by (simp add: e(1))
  show "v2_inv N (t i k b)"
  proof (rule v2_invI)
    show "inj_on (phys (t i k b)) {..<N}"
    proof (rule inj_onI)
      fix x y assume xy: "x \<in> {..<N}" "y \<in> {..<N}" "phys (t i k b) x = phys (t i k b) y"
      then show "x = y"
        using fresh pk ph [of x] ph [of y] inj_onD [OF I(7), of x y]
        by (cases "x = k"; cases "y = k") (auto simp: image_iff)
    qed
    show "x = y" if "x < pool_len (t i k b)" "y < pool_len (t i k b)" "pool_blk (t i k b) x \<noteq> 0"
        "pool_blk (t i k b) x = pool_blk (t i k b) y" for x y
      using that by (intro I(8) [of x y]) (simp_all add: e(2) same_descD(9) [OF e(4)])
    show "pool_flag (t i k b) x = NORMAL_MAPPED" if "x < pool_len (t i k b)" "j < N" "pool_blk (t i k b) x \<noteq> 0"
        "phys (t i k b) j = pool_blk (t i k b) x" for x j
    proof (cases "j = k")
      case True
      have "pool_blk s x = b"
        using that(4) pk unfolding True e(2) by simp
      then have "x = i"
        using that(1) [unfolded same_descD(9) [OF e(4)]] i b(1,2) by (intro I(8) [of x i]) simp_all
      then show ?thesis by (simp add: e(3))
    next
      case False
      then show ?thesis
        using that ph [of j] I(9) [of x j] by (simp add: e(2,3) same_descD(9) [OF e(4)])
    qed
  qed (use I(1-6) in \<open>simp_all add: same_descD [OF e(4)]\<close>)
qed

lemma find_in_pool_wp:
  assumes "bmt_blk_idx s < pool_cap s \<or> Bad_access \<in> A"
  shows "wp A (find_valid_block_in_pool s) (\<lambda>(b, t). b = 0 \<and> t = s \<or>
    (\<exists>i < bmt_blk_idx s. i < pool_cap s \<and> b = pool_blk s i \<and> b \<noteq> 0 \<and> pool_flag s i = NO_MAPPED \<and>
       t = s\<lparr>bbt_buf := put_half (table_size s + 2 * i + 1) NORMAL_MAPPED (bbt_buf s)\<rparr>))"
proof -
  have "wp A (pool_search [0..<bmt_blk_idx s] s) (\<lambda>(b, t). b = 0 \<and> t = s \<or>
    (\<exists>i < bmt_blk_idx s. i < pool_cap s \<and> b = pool_blk s i \<and> b \<noteq> 0 \<and> pool_flag s i = NO_MAPPED \<and>
       t = s\<lparr>bbt_buf := put_half (table_size s + 2 * i + 1) NORMAL_MAPPED (bbt_buf s)\<rparr>))"
    by (rule wp_mono [OF pool_search_wp]) (use assms in auto)
  then show ?thesis
    by (simp add: find_valid_block_in_pool_def)
qed

text \<open>\<open>bmt_blk_idx\<close> and the rest of the descriptor do not matter to the invariant.\<close>

lemma clears_poolI:
  "keeps_table s t \<Longrightarrow> clears_pool s t"
  by (auto simp: keeps_table_def clears_pool_def)

text \<open>
  The table could be stored, or it could not and \<open>bmt_blk_idx\<close> is outside of the buffer: the
  next attempt to store it then accesses an entry that is not there.
\<close>

definition idx_ok :: "'n bmt_desc \<Rightarrow> bool" where
  "idx_ok s = (bmt_blk_idx s < pool_len s \<or> bmt_blk_idx s = NO_BMT)"

lemma upload_without_bmt: "pool_cap s < 2 ^ 16 \<Longrightarrow> bmt_blk_idx s = NO_BMT \<Longrightarrow> upload_current d s = Inl Bad_access"
proof -
  assume "pool_cap s < 2 ^ 16" and idx: "bmt_blk_idx s = NO_BMT"
  then have "\<not> NO_BMT < pool_cap s"
    by (simp add: NO_BMT_def)
  then have "tbl_get (bmt_mapped s NO_BMT) s = Inl Bad_access"
    using pool_capI [of s NO_BMT] unfolding tbl_get_def bmt_mapped_def by argo
  then have "upload_from d (Suc NO_BMT) s = Inl Bad_access"
    by simp
  then show ?thesis
    by (simp add: upload_current_def upload_bmt_def idx)
qed

lemma remap_stored_wp:
  assumes inv: "v2_inv N s" and k: "k < N" and idx: "bmt_blk_idx s < pool_len s"
    and i: "i < bmt_blk_idx s" "b = pool_blk s i" "b \<noteq> 0" "pool_flag s i = NO_MAPPED"
    and s4: "keeps_table (s\<lparr>bbt_buf := put_half k b (put_half (table_size s + 2 * i + 1) NORMAL_MAPPED (bbt_buf s))\<rparr>) s4"
  shows "wp A (rbind (upload_current d s4) (\<lambda>s5. Inr (True, s5))) (\<lambda>(r, t). r \<and> v2_inv N t \<and> same_desc s t \<and>
    idx_ok t \<and> phys t k \<notin> phys s ` {..<N} \<and> (\<forall>j < N. j \<noteq> k \<longrightarrow> phys t j = phys s j) \<and>
    (bmt_blk_idx t = NO_BMT \<or>
     bmt_blk_idx t \<le> bmt_blk_idx s \<and> pool_flag t (bmt_blk_idx t) \<noteq> NORMAL_MAPPED))"
proof -
  define s2 where "s2 = s\<lparr>bbt_buf := put_half k b (put_half (table_size s + 2 * i + 1) NORMAL_MAPPED (bbt_buf s))\<rparr>"
  have il: "i < pool_len s" using i(1) idx by simp
  note take = pool_take_inv [OF inv k il i(2-4), folded s2_def]
  have c4: "clears_pool s2 s4"
    using s4 unfolding s2_def by (rule clears_poolI)
  have i4: "bmt_blk_idx s4 = bmt_blk_idx s"
    using s4 by (auto simp: keeps_table_def)
  have d4: "same_desc s s4"
    using c4 by (simp add: clears_pool_def s2_def same_desc_def same_geom_def)
  have up: "wp A (upload_current d s4) (\<lambda>t. clears_pool s4 t \<and> v2_inv N t \<and>
      (bmt_blk_idx t = NO_BMT \<or> bmt_blk_idx t \<le> bmt_blk_idx s4 \<and> pool_flag t (bmt_blk_idx t) \<noteq> NORMAL_MAPPED))"
    by (rule upload_current_wp [OF clears_pool_inv [OF take(1) c4]]) (use idx in \<open>simp add: i4 same_descD(9) [OF d4]\<close>)
  show ?thesis
  proof (rule wp_rbindI [OF up], goal_cases)
    case (1 t)
    then have c: "clears_pool s2 t"
      using clears_pool_trans [OF c4] by blast
    have ph: "phys t j = phys s2 j" if "j < N" for j
      using that v2_invD(1,2) [OF inv] by (intro clears_pool_entries(1) [OF c]) (simp add: s2_def)
    have d: "same_desc s t"
      using 1 d4 by (auto simp: clears_pool_def intro: same_desc_trans)
    then show ?case
      using 1 ph take k idx same_descD(9) [OF d] by (auto simp: i4 idx_ok_def)
  qed
qed

lemma remap_block_v2_wp:
  assumes inv: "v2_inv N s" and k: "k < N" and idx: "idx_ok s" "bmt_blk_idx s < pool_len s \<or> Bad_access \<in> A"
  shows "wp A (remap_block_v2 d k p len s) (\<lambda>(r, t). v2_inv N t \<and> same_desc s t \<and> idx_ok t \<and>
    (if r then phys t k \<notin> phys s ` {..<N} \<and> (\<forall>j < N. j \<noteq> k \<longrightarrow> phys t j = phys s j) \<and>
       (bmt_blk_idx t = NO_BMT \<or>
        bmt_blk_idx t \<le> bmt_blk_idx s \<and> pool_flag t (bmt_blk_idx t) \<noteq> NORMAL_MAPPED)
     else t = s))"
    (is "wp A _ ?Q")
  unfolding remap_block_v2_def
proof (rule wp_rbindI [OF find_in_pool_wp], goal_cases)
  case 1
  show ?case using idx(2) by (auto simp: pool_len_def)
next
  case (2 x)
  obtain b s1 where x: "x = (b, s1)" by (cases x)
  show ?case
  proof (cases "b = 0")
    case True
    then show ?thesis using 2 inv idx(1) by (auto simp: x)
  next
    case False
    then obtain i where i: "i < bmt_blk_idx s" "i < pool_cap s" "b = pool_blk s i" "pool_flag s i = NO_MAPPED"
        "s1 = s\<lparr>bbt_buf := put_half (table_size s + 2 * i + 1) NORMAL_MAPPED (bbt_buf s)\<rparr>"
      using 2 by (auto simp: x)
    define s2 where "s2 = s\<lparr>bbt_buf := put_half k b (put_half (table_size s + 2 * i + 1) NORMAL_MAPPED (bbt_buf s))\<rparr>"
    have put: "tbl_put k b s1 = Inr s2"
      using k v2_invD(1-3) [OF inv] by (simp add: tbl_put_def i(5) s2_def)
    define s4 where "s4 = (let s3 = snd (bbt_nand_erase d b s2)
      in if len > 0 then snd (bbt_nand_copy d b p len s3) else s3)"
    have s4: "keeps_table s2 s4"
      by (auto simp: s4_def Let_def intro: erase_keeps_table copy_keeps_table keeps_table_trans)
    have "wp A (rbind (upload_current d s4) (\<lambda>s5. Inr (True, s5))) ?Q"
    proof (cases "bmt_blk_idx s < pool_len s")
      case True
      show ?thesis
        using remap_stored_wp [OF inv k True i(1,3) False i(4) s4 [unfolded s2_def]] by (rule wp_mono) auto
    next
      case False
      then have "upload_current d s4 = Inl Bad_access"
        using s4 idx(1) v2_invD(4) [OF inv]
        by (intro upload_without_bmt) (auto simp: keeps_table_def s2_def idx_ok_def pool_cap_def)
      then show ?thesis using False idx(2) by simp
    qed
    then show ?thesis
      using False by (cases "0 < len") (simp_all add: x put s4_def Let_def)
  qed
qed

end
