(* ===== verification/Mtk_V2_Scan.thy ===== *)
theory Mtk_V2_Scan
  imports Mtk_V2_Inv
begin

text \<open>
  The first scan of a chip: \<open>scan_bad_blocks\<close> ends, and a table it has made satisfies the
  invariant of the mapping. Nothing is assumed of the NAND driver.
\<close>

section \<open>Searching for a good block\<close>

text \<open>The driver has once read the first page of the block with the mark of a good block.\<close>

definition seen_good :: "'n nand_dev \<Rightarrow> 'n bmt_desc \<Rightarrow> nat \<Rightarrow> bool" where
  "seen_good d s b =
     (\<exists>c. case read_oob d ((blk_pg s b * 2 ^ pg_shift s) mod 2 ^ 32) (pg_size s) (oob_offset s) 4 c of
        ((ret, _, fdm), _) \<Rightarrow> 0 \<le> ret \<and> fdm \<noteq> [] \<and> fdm ! 0 = 0xff)"

lemma bbt_nand_read_result:
  obtains ret dat fdm c where
    "bbt_nand_read d page len n s = ((if ret < 0 then ret else 0, dat, fdm), s\<lparr>chip := c\<rparr>)"
    "read_oob d ((page * 2 ^ pg_shift s) mod 2 ^ 32) len (oob_offset s) n (chip s) = ((ret, dat, fdm), c)"
proof -
  obtain ret dat fdm c where
    rd: "read_oob d ((page * 2 ^ pg_shift s) mod 2 ^ 32) len (oob_offset s) n (chip s) = ((ret, dat, fdm), c)"
    by (metis prod.collapse)
  then have "bbt_nand_read d page len n s = ((if ret < 0 then ret else 0, dat, fdm), s\<lparr>chip := c\<rparr>)"
    by (simp only: bbt_nand_read_def Let_def prod.case)
  then show thesis using rd by (rule that)
qed

lemma find_valid_block_from_wp:
  assumes "total_blks s < 2 ^ 16"
  shows "wp {Bad_access} (find_valid_block_from d n block s)
    (\<lambda>(b, t). keeps_table s t \<and> (b \<noteq> 0 \<longrightarrow> block \<le> b \<and> b < total_blks s \<and> seen_good d s b))"
  using assms
proof (induction n arbitrary: block s)
  case 0
  obtain ret dat fdm c where rd: "bbt_nand_read d (blk_pg s block) (pg_size s) 4 s =
        ((if ret < 0 then ret else 0, dat, fdm), s\<lparr>chip := c\<rparr>)"
      "read_oob d ((blk_pg s block * 2 ^ pg_shift s) mod 2 ^ 32) (pg_size s) (oob_offset s) 4 (chip s) = ((ret, dat, fdm), c)"
    by (rule bbt_nand_read_result)
  have "seen_good d s block" if "0 \<le> ret" "fdm \<noteq> []" "fdm ! 0 = 0xff"
    unfolding seen_good_def using that by (intro exI [of _ "chip s"]) (simp only: rd(2) prod.case, simp)
  then show ?case
    by (auto simp: rd(1) Let_def keeps_table_refl keeps_table_bufs)
next
  case (Suc n)
  obtain ret dat fdm c where rd: "bbt_nand_read d (blk_pg s block) (pg_size s) 4 s =
        ((if ret < 0 then ret else 0, dat, fdm), s\<lparr>chip := c\<rparr>)"
      "read_oob d ((blk_pg s block * 2 ^ pg_shift s) mod 2 ^ 32) (pg_size s) (oob_offset s) 4 (chip s) = ((ret, dat, fdm), c)"
    by (rule bbt_nand_read_result)
  have good: "seen_good d s block" if "0 \<le> ret" "fdm \<noteq> []" "fdm ! 0 = 0xff"
    unfolding seen_good_def using that by (intro exI [of _ "chip s"]) (simp only: rd(2) prod.case, simp)
  define s2 where "s2 = s\<lparr>chip := c, data_buf := fill_buf dat (data_buf s)\<rparr>"
  have s2: "keeps_table s s2"
    unfolding s2_def by (rule keeps_table_bufs)
  have same: "total_blks s2 = total_blks s" "seen_good d s2 b = seen_good d s b" for b
    by (simp_all add: s2_def seen_good_def blk_pg_def)
  have again: "wp {Bad_access} (find_valid_block_from d n (u16_of (int block + 1)) s2)
      (\<lambda>(b, t). keeps_table s t \<and> (b \<noteq> 0 \<longrightarrow> block \<le> b \<and> b < total_blks s \<and> seen_good d s b))"
    if "block < total_blks s"
  proof -
    have "block + 1 < 2 ^ 16"
      using that Suc.prems by simp
    then have u: "u16_of (int block + 1) = block + 1"
      using that by (simp add: u16_of_def)
    show ?thesis
      unfolding u by (rule wp_mono [OF Suc.IH]) (use Suc.prems same s2 keeps_table_trans [OF s2] in auto)
  qed
  show ?case
    using again good s2 by (auto simp: rd(1) Let_def keeps_table_refl s2_def [symmetric])
qed

lemma find_valid_block_wp:
  assumes "total_blks s < 2 ^ 16"
  shows "wp {Bad_access} (find_valid_block d block s)
    (\<lambda>(b, t). keeps_table s t \<and> (b \<noteq> 0 \<longrightarrow> block \<le> b \<and> b < total_blks s \<and> seen_good d s b))"
  unfolding find_valid_block_def using assms by (rule find_valid_block_from_wp)

section \<open>The table of the data area\<close>

text \<open>The same descriptor with another table of the same size.\<close>

definition new_table :: "'n bmt_desc \<Rightarrow> 'n bmt_desc \<Rightarrow> bool" where
  "new_table s t = (\<exists>c b buf. t = s\<lparr>chip := c, data_buf := b, bbt_buf := buf\<rparr> \<and> length buf = length (bbt_buf s))"

lemma new_table_refl [simp]: "new_table s s"
  unfolding new_table_def by (rule exI [of _ "chip s"], rule exI [of _ "data_buf s"], rule exI [of _ "bbt_buf s"]) simp

lemma new_table_trans:
  assumes "new_table s t" and "new_table t u"
  shows "new_table s u"
proof -
  obtain c b buf c' b' buf' where "t = s\<lparr>chip := c, data_buf := b, bbt_buf := buf\<rparr>" "length buf = length (bbt_buf s)"
      "u = t\<lparr>chip := c', data_buf := b', bbt_buf := buf'\<rparr>" "length buf' = length (bbt_buf t)"
    using assms by (auto simp: new_table_def)
  then have "u = s\<lparr>chip := c', data_buf := b', bbt_buf := buf'\<rparr>" "length buf' = length (bbt_buf s)" by simp_all
  then show ?thesis unfolding new_table_def by blast
qed

lemma new_table_buf: "length b = length (bbt_buf s) \<Longrightarrow> new_table s (s\<lparr>bbt_buf := b\<rparr>)"
  unfolding new_table_def by (rule exI [of _ "chip s"], rule exI [of _ "data_buf s"], rule exI [of _ b]) simp

lemma new_table_put: "new_table s t \<Longrightarrow> new_table s (t\<lparr>bbt_buf := put_half j v (bbt_buf t)\<rparr>)"
  by (erule new_table_trans) (simp add: new_table_buf)

lemma new_table_of_keeps:
  assumes "keeps_table s t"
  shows "new_table s t"
proof -
  obtain c b where "t = s\<lparr>chip := c, data_buf := b\<rparr>"
    using assms by (auto simp: keeps_table_def)
  then have "t = s\<lparr>chip := c, data_buf := b, bbt_buf := bbt_buf s\<rparr>" by simp
  then show ?thesis unfolding new_table_def by blast
qed

lemma new_table_keeps: "new_table s t \<Longrightarrow> keeps_table t u \<Longrightarrow> new_table s u"
  by (rule new_table_trans [OF _ new_table_of_keeps])

lemma new_tableD:
  assumes "new_table s t"
  shows "table_size t = table_size s" "pool_lba t = pool_lba s" "total_blks t = total_blks s"
    "length (bbt_buf t) = length (bbt_buf s)" "pool_cap t = pool_cap s" "pool_len t = pool_len s"
    "seen_good d t b = seen_good d s b" "same_desc s t" "bmt_blk_idx t = bmt_blk_idx s" "bb_max t = bb_max s"
proof -
  obtain c b' buf where t: "t = s\<lparr>chip := c, data_buf := b', bbt_buf := buf\<rparr>" "length buf = length (bbt_buf s)"
    using assms by (auto simp: new_table_def)
  then show "table_size t = table_size s" "pool_lba t = pool_lba s" "total_blks t = total_blks s"
    "length (bbt_buf t) = length (bbt_buf s)" "pool_cap t = pool_cap s" "pool_len t = pool_len s"
    "seen_good d t b = seen_good d s b" "same_desc s t" "bmt_blk_idx t = bmt_blk_idx s" "bb_max t = bb_max s"
    by (simp_all add: pool_len_def pool_cap_def seen_good_def blk_pg_def)
qed

lemma keeps_table_entries:
  assumes "keeps_table s t"
  shows "bbt_buf t = bbt_buf s" "phys t = phys s" "pool_blk t = pool_blk s" "pool_flag t = pool_flag s"
  using assms by (auto simp: keeps_table_def phys_def pool_blk_def pool_flag_def fun_eq_iff)

text \<open>The first \<open>n\<close> entries rise through good blocks.\<close>

definition rising :: "'n nand_dev \<Rightarrow> 'n bmt_desc \<Rightarrow> nat \<Rightarrow> bool" where
  "rising d s n = (phys s 0 = 0 \<and>
     (\<forall>k. 0 < k \<and> k < n \<longrightarrow> phys s (k - 1) < phys s k \<and> phys s k < total_blks s \<and> seen_good d s (phys s k)))"

lemma rising_mono:
  assumes "rising d s n" and "i < j" and "j < n"
  shows "phys s i < phys s j"
  using assms(2,3)
proof (induction j)
  case (Suc j)
  have "phys s j < phys s (Suc j)"
    using assms(1) Suc.prems by (auto simp: rising_def dest!: spec [of _ "Suc j"])
  then show ?case
    using Suc by (cases "i = j") auto
qed simp

lemma scan_main_wp:
  assumes "total_blks s < 2 ^ 16" and "1 \<le> i" and "i \<le> L" and "rising d s i" and "L \<le> table_size s"
  shows "wp {Bad_access} (scan_main d [i..<L] s) (\<lambda>(ok, t). new_table s t \<and>
    (\<forall>j \<ge> L. half_at (bbt_buf t) j = half_at (bbt_buf s) j) \<and> (ok \<longrightarrow> rising d t L))"
  using assms
proof (induction "L - i" arbitrary: i s)
  case 0
  then show ?case by simp
next
  case (Suc m)
  have up: "[i..<L] = i # [Suc i..<L]"
    using Suc.hyps(2) by (intro upt_conv_Cons) simp
  have il: "i < L" using Suc.hyps(2) by simp
  show ?case
    unfolding up scan_main.simps
  proof (rule wp_rbindI [OF wp_tbl_get, where P = "\<lambda>p. p = phys s (i - 1)"], goal_cases)
    case (3 prev)
    have small: "u16_of (int prev + 1) = prev + 1"
    proof -
      have "prev = 0 \<or> prev < total_blks s"
        using Suc.prems(4) 3 by (cases "i = 1") (auto simp: rising_def dest: spec [of _ "i - 1"])
      then have "int prev + 1 < 2 ^ 16"
        using Suc.prems(1) by auto
      then show ?thesis by (simp add: u16_of_def)
    qed
    show ?case
      unfolding small
    proof (rule wp_rbindI [OF find_valid_block_wp [OF Suc.prems(1)]], goal_cases)
      case (1 x)
      obtain b s1 where x: "x = (b, s1)" by (cases x)
      define s2 where "s2 = s1\<lparr>bbt_buf := put_half i b (bbt_buf s1)\<rparr>"
      have k1: "keeps_table s s1" using 1 by (simp add: x)
      have n2: "new_table s s2"
        unfolding s2_def by (intro new_table_put new_table_keeps [OF _ k1]) simp
      show ?case
        unfolding x prod.case
      proof (rule wp_rbindI [OF wp_tbl_put, where P = "\<lambda>t. t = s2 \<and> 5 + 2 * i < length (bbt_buf s)"], goal_cases)
        case (3 t)
        have half: "half_at (bbt_buf s2) j = (if j = i then b mod 2 ^ 16 else half_at (bbt_buf s) j)" for j
          using 3 keeps_table_entries(1) [OF k1] by (simp add: s2_def half_at_put_half)
        have ph: "phys s2 j = (if j = i then b mod 2 ^ 16 else phys s j)" for j
          by (simp add: phys_def half)
        show ?case
        proof (cases "b = 0")
          case True
          then show ?thesis using 3 n2 half il by simp
        next
          case False
          then have b: "phys s (i - 1) < b" "b < total_blks s" "seen_good d s b"
            using 1 \<open>prev = phys s (i - 1)\<close> by (simp_all add: x)
          have "rising d s2 (Suc i)"
            using Suc.prems(1,2,4) b unfolding rising_def new_tableD [OF n2] ph by (auto simp: less_Suc_eq)
          then have "wp {Bad_access} (scan_main d [Suc i..<L] s2) (\<lambda>(ok, t). new_table s2 t \<and>
              (\<forall>j \<ge> L. half_at (bbt_buf t) j = half_at (bbt_buf s2) j) \<and> (ok \<longrightarrow> rising d t L))"
            using Suc.hyps(2) Suc.prems il by (intro Suc.hyps(1)) (simp_all add: new_tableD [OF n2])
          then have "wp {Bad_access} (scan_main d [Suc i..<L] s2) (\<lambda>(ok, t). new_table s t \<and>
              (\<forall>j \<ge> L. half_at (bbt_buf t) j = half_at (bbt_buf s) j) \<and> (ok \<longrightarrow> rising d t L))"
            by (rule wp_mono) (use n2 half il in \<open>auto intro: new_table_trans\<close>)
          then show ?thesis using False 3 by simp
        qed
      qed (use k1 in \<open>simp_all add: s2_def keeps_table_entries\<close>)
    qed
  qed (simp_all add: phys_def)
qed


section \<open>The pool\<close>

text \<open>The pool has \<open>n\<close> entries, rising through good blocks from \<open>lo\<close> on and all free.\<close>

definition pool_rising :: "'n nand_dev \<Rightarrow> 'n bmt_desc \<Rightarrow> nat \<Rightarrow> nat \<Rightarrow> bool" where
  "pool_rising d s lo n =
     ((\<forall>i < n. lo \<le> pool_blk s i \<and> (0 < i \<longrightarrow> pool_blk s (i - 1) < pool_blk s i) \<and> pool_blk s i < total_blks s \<and>
        seen_good d s (pool_blk s i) \<and> pool_flag s i = NO_MAPPED) \<and>
      (\<forall>i. n \<le> i \<and> i < pool_len s \<longrightarrow> pool_blk s i = 0))"

lemma pool_rising_mono:
  assumes "pool_rising d s lo n" and "i < j" and "j < n"
  shows "pool_blk s i < pool_blk s j"
  using assms(2,3)
proof (induction j)
  case (Suc j)
  have "pool_blk s j < pool_blk s (Suc j)"
    using assms(1) Suc.prems by (auto simp: pool_rising_def)
  then show ?case
    using Suc by (cases "i = j") auto
qed simp

text \<open>Filling the next entry.\<close>

lemma pool_fill_entries:
  fixes s :: "'n bmt_desc"
  defines "t i b \<equiv> s\<lparr>bbt_buf := put_half (bmt_mapped s i) NO_MAPPED (put_half (bmt_block s i) b (bbt_buf s))\<rparr>"
  assumes i: "i < pool_cap s" and b: "b < 2 ^ 16"
  shows "j < table_size s \<Longrightarrow> half_at (bbt_buf (t i b)) j = half_at (bbt_buf s) j"
    "pool_blk (t i b) j = (if j = i then b else pool_blk s j)"
    "pool_flag (t i b) j = (if j = i then NO_MAPPED else pool_flag s j)"
    "new_table s (t i b)"
proof -
  have len: "5 + 2 * bmt_mapped s i < length (bbt_buf s)" "5 + 2 * bmt_block s i < length (bbt_buf s)"
    using pool_capD [OF i] by (simp_all add: bmt_mapped_def bmt_block_def)
  have half: "half_at (bbt_buf (t i b)) j =
      (if j = bmt_mapped s i then NO_MAPPED else if j = bmt_block s i then b else half_at (bbt_buf s) j)" for j
    using len b by (simp add: t_def half_at_put_half NO_MAPPED_def)
  show "half_at (bbt_buf (t i b)) j = half_at (bbt_buf s) j" if "j < table_size s"
    using that by (simp add: half bmt_mapped_def bmt_block_def)
  have ts: "table_size (t i b) = table_size s"
    by (simp add: t_def)
  have odd: "table_size s + 2 * j \<noteq> table_size s + 2 * i + 1" "table_size s + 2 * j + 1 \<noteq> table_size s + 2 * i"
    by presburger+
  show "pool_blk (t i b) j = (if j = i then b else pool_blk s j)"
    using odd by (simp add: pool_blk_def ts half bmt_mapped_def bmt_block_def)
  show "pool_flag (t i b) j = (if j = i then NO_MAPPED else pool_flag s j)"
    using odd by (simp add: pool_flag_def ts half bmt_mapped_def bmt_block_def)
  show "new_table s (t i b)"
    by (simp add: t_def new_table_buf)
qed

lemma pool_rising_fill:
  assumes "pool_rising d s lo i" and "\<forall>j < i. pool_blk s j < b" and "lo \<le> b" and "b < total_blks s"
    and "seen_good d s b" and "new_table s t"
    and "\<And>j. pool_blk t j = (if j = i then b else pool_blk s j)"
    and "\<And>j. pool_flag t j = (if j = i then NO_MAPPED else pool_flag s j)"
  shows "pool_rising d t lo (Suc i)"
  using assms(1-5) unfolding pool_rising_def new_tableD [OF assms(6)] assms(7,8) by (auto simp: less_Suc_eq)

lemma scan_pool_wp:
  assumes "total_blks s < 2 ^ 16" and "total_blks s - block < fuel" and "pool_rising d s lo i"
    and "\<forall>j < i. pool_blk s j < block" and "lo + i \<le> block" and "total_blks s \<le> lo + table_size s" and "i \<le> pool_len s"
  shows "wp {Bad_access} (scan_pool fuel d block i s) (\<lambda>(n, t). new_table s t \<and>
    (\<forall>j < table_size s. half_at (bbt_buf t) j = half_at (bbt_buf s) j) \<and> pool_rising d t lo n \<and> n \<le> pool_len s)"
  using assms
proof (induction fuel arbitrary: block i s)
  case (Suc fuel)
  let ?Q = "\<lambda>(n, t). new_table s t \<and>
    (\<forall>j < table_size s. half_at (bbt_buf t) j = half_at (bbt_buf s) j) \<and> pool_rising d t lo n \<and> n \<le> pool_len s"
  show ?case
    unfolding scan_pool.simps
  proof (rule wp_rbindI [OF find_valid_block_wp [OF Suc.prems(1)]], goal_cases)
    case (1 x)
    obtain b s1 where x: "x = (b, s1)" by (cases x)
    have k1: "keeps_table s s1" using 1 by (simp add: x)
    note n1 = new_table_of_keeps [OF k1] and e1 = keeps_table_entries [OF k1]
    show ?case
    proof (cases "b = 0")
      case True
      have "pool_rising d s1 lo i"
        using Suc.prems(3) unfolding pool_rising_def new_tableD [OF n1] e1 .
      then show ?thesis using True n1 e1 Suc.prems(7) by (simp add: x)
    next
      case False
      then have b: "block \<le> b" "b < total_blks s" "seen_good d s b" "b < 2 ^ 16"
        using 1 Suc.prems(1) by (simp_all add: x)
      have ib: "i < table_size s"
        using b(1,2) Suc.prems(5,6) by linarith
      have next_ok: "wp {Bad_access} (scan_pool fuel d (u16_of (int b + 1)) (i + 1) t) ?Q"
        if t: "t = s1\<lparr>bbt_buf := put_half (bmt_mapped s1 i) NO_MAPPED (put_half (bmt_block s1 i) b (bbt_buf s1))\<rparr>"
          and i: "i < pool_cap s1" for t
      proof -
        note f = pool_fill_entries [OF i b(4), folded t]
        have nt: "new_table s t" by (rule new_table_trans [OF n1 f(4)])
        have "int b + 1 < 2 ^ 16"
          using b(2) Suc.prems(1) by simp
        then have u: "u16_of (int b + 1) = b + 1"
          by (simp add: u16_of_def)
        have "pool_rising d t lo (Suc i)"
          by (rule pool_rising_fill [OF Suc.prems(3) _ _ b(2,3) nt])
            (use Suc.prems(4,5) b(1) f(2,3) e1 in \<open>auto\<close>)
        moreover have "i < pool_len s"
          using i ib new_tableD(5) [OF n1] by (simp add: pool_len_def)
        ultimately have "wp {Bad_access} (scan_pool fuel d (b + 1) (i + 1) t) (\<lambda>(n, u). new_table t u \<and>
            (\<forall>j < table_size t. half_at (bbt_buf u) j = half_at (bbt_buf t) j) \<and> pool_rising d u lo n \<and> n \<le> pool_len t)"
          using Suc.prems b f(2) e1 by (intro Suc.IH) (auto simp: new_tableD [OF nt] less_Suc_eq)
        then show ?thesis
          unfolding u by (rule wp_mono) (use new_table_trans [OF nt] f(1) new_tableD [OF nt] new_tableD [OF n1] e1 in \<open>auto\<close>)
      qed
      show ?thesis
        unfolding x prod.case if_not_P [OF False]
      proof (rule wp_rbindI [OF wp_tbl_put, where P = "\<lambda>u. u = s1\<lparr>bbt_buf := put_half (bmt_block s1 i) b (bbt_buf s1)\<rparr>"], goal_cases)
        case (3 u)
        then have m: "bmt_mapped u i = bmt_mapped s1 i" "length (bbt_buf u) = length (bbt_buf s1)"
          by (simp_all add: bmt_mapped_def)
        show ?case
        proof (rule wp_rbindI [OF wp_tbl_put, where P = "\<lambda>t. i < pool_cap s1 \<and>
            t = s1\<lparr>bbt_buf := put_half (bmt_mapped s1 i) NO_MAPPED (put_half (bmt_block s1 i) b (bbt_buf s1))\<rparr>"], goal_cases)
          case 2
          then have "i < pool_cap s1"
            unfolding m by (intro pool_capI) (simp add: bmt_mapped_def)
          then show ?case unfolding m by (simp add: 3)
        next
          case (3 t)
          then show ?case using next_ok [of t] by blast
        qed simp
      qed simp_all
    qed
  qed
qed simp


section \<open>The scan\<close>

lemma pool_flag_put:
  fixes s :: "'n bmt_desc"
  defines "t i v \<equiv> s\<lparr>bbt_buf := put_half (bmt_mapped s i) v (bbt_buf s)\<rparr>"
  assumes i: "i < pool_cap s" and v: "v < 2 ^ 16"
  shows "j < table_size s \<Longrightarrow> phys (t i v) j = phys s j" "pool_blk (t i v) j = pool_blk s j"
    "pool_flag (t i v) j = (if j = i then v else pool_flag s j)" "new_table s (t i v)"
proof -
  have half: "half_at (bbt_buf (t i v)) j = (if j = bmt_mapped s i then v else half_at (bbt_buf s) j)" for j
    using pool_capD [OF i] v by (simp add: t_def half_at_put_half bmt_mapped_def)
  have ts: "table_size (t i v) = table_size s"
    by (simp add: t_def)
  show "phys (t i v) j = phys s j" if "j < table_size s"
    using that by (simp add: phys_def half bmt_mapped_def)
  have "table_size s + 2 * j \<noteq> table_size s + 2 * i + 1" by presburger
  then show "pool_blk (t i v) j = pool_blk s j"
    by (simp add: pool_blk_def ts half bmt_mapped_def)
  show "pool_flag (t i v) j = (if j = i then v else pool_flag s j)"
    by (simp add: pool_flag_def ts half bmt_mapped_def)
  show "new_table s (t i v)"
    by (simp add: t_def new_table_buf)
qed

lemma rising_ge: "rising d s n \<Longrightarrow> k < n \<Longrightarrow> k \<le> phys s k"
proof (induction k)
  case (Suc k)
  then show ?case using rising_mono [of d s n k "Suc k"] by simp
qed simp

text \<open>A rising table with a rising pool behind it is a mapping.\<close>

lemma rising_inv:
  assumes r: "rising d s N" and p: "pool_rising d s lo n" and lo: "0 < N" "phys s (N - 1) < lo"
    and dims: "N = pool_lba s" "pool_lba s \<le> table_size s" "4 + 2 * table_size s \<le> length (bbt_buf s)"
      "pool_cap s < 2 ^ 16" "bmt_fits s" "blk_geom N s"
  shows "v2_inv N s"
proof (rule v2_invI)
  have below: "phys s k < lo" if "k < N" for k
  proof (cases "k = N - 1")
    case False
    then have "k < N - 1" "N - 1 < N" using that lo(1) by linarith+
    then show ?thesis using rising_mono [OF r] lo(2) by (meson less_trans)
  qed (use lo(2) in simp)
  have used: "i < n \<and> lo \<le> pool_blk s i" if "i < pool_len s" "pool_blk s i \<noteq> 0" for i
    using p that unfolding pool_rising_def by (meson not_less)
  show "inj_on (phys s) {..<N}"
    by (rule linorder_inj_onI') (use rising_mono [OF r] in \<open>auto simp: less_imp_neq\<close>)
  show "i = j" if "i < pool_len s" "j < pool_len s" "pool_blk s i \<noteq> 0" "pool_blk s i = pool_blk s j" for i j
    using used [of i] used [of j] that pool_rising_mono [OF p, of i j] pool_rising_mono [OF p, of j i]
    by (cases i j rule: linorder_cases) auto
  show "pool_flag s i = NORMAL_MAPPED" if "i < pool_len s" "k < N" "pool_blk s i \<noteq> 0" "phys s k = pool_blk s i" for i k
    using used [of i] below [of k] that by simp
qed (use dims in simp_all)

text \<open>The end of the scan: the last entry of the pool is for the table.\<close>

definition v2_scanned :: "'n nand_dev \<Rightarrow> 'n bmt_desc \<Rightarrow> 'n bmt_desc \<Rightarrow> bool" where
  "v2_scanned d s t =
     (v2_inv (pool_lba s) t \<and> same_desc s t \<and> bmt_blk_idx t < pool_len t \<and>
      pool_flag t (bmt_blk_idx t) = BMT_MAPPED \<and>
      (\<forall>k. 0 < k \<and> k < pool_lba s \<longrightarrow> seen_good d s (phys t k)) \<and>
      (\<forall>i \<le> bmt_blk_idx t. seen_good d s (pool_blk t i)))"


lemma scanned_final:
  fixes s :: "'n bmt_desc"
  assumes s3: "new_table s s3" "rising d s3 (pool_lba s)" and s4: "new_table s4 t4"
      "s4 = s3\<lparr>pool_pba := p\<rparr>" "\<forall>j < table_size s. half_at (bbt_buf t4) j = half_at (bbt_buf s4) j"
      "pool_rising d t4 (phys s3 (pool_lba s - 1) + 1) (Suc m)" "Suc m \<le> pool_len s"
    and dims: "0 < pool_lba s" "pool_lba s \<le> table_size s" "4 + 2 * table_size s \<le> length (bbt_buf s)"
      "pool_cap s < 2 ^ 16" "bmt_fits s" "blk_geom (pool_lba s) s"
  shows "v2_scanned d s (t4\<lparr>bmt_blk_idx := m, bbt_buf := put_half (bmt_mapped t4 m) BMT_MAPPED (bbt_buf t4)\<rparr>)"
proof -
  define u where "u = t4\<lparr>bbt_buf := put_half (bmt_mapped t4 m) BMT_MAPPED (bbt_buf t4)\<rparr>"
  define t where "t = t4\<lparr>bmt_blk_idx := m, bbt_buf := put_half (bmt_mapped t4 m) BMT_MAPPED (bbt_buf t4)\<rparr>"
  have d4: "same_desc s t4"
    using same_desc_trans [OF new_tableD(8) [OF s3(1)], of t4] new_tableD(8) [OF s4(1)]
    by (simp add: s4(2) same_desc_def same_geom_def)
  have good: "seen_good d t4 b = seen_good d s b" for b
    using new_tableD(7) [OF s3(1), of d b] new_tableD(7) [OF s4(1), of d b]
    by (simp add: s4(2) seen_good_def blk_pg_def)
  have m: "m < pool_cap t4" "BMT_MAPPED < 2 ^ 16"
    using s4(5) by (simp_all add: same_descD [OF d4] pool_len_def BMT_MAPPED_def)
  note f = pool_flag_put [OF m, folded u_def]
  have ph4: "phys t4 j = phys s3 j" if "j < table_size s" for j
    using s4(2,3) that by (simp add: phys_def)
  have ph: "phys t j = phys s3 j" if "j < pool_lba s" for j
    using f(1) [of j] ph4 [of j] that dims(2) by (simp add: same_descD [OF d4] t_def u_def phys_def)
  have pool: "pool_blk t j = pool_blk t4 j" "pool_flag t j = (if j = m then BMT_MAPPED else pool_flag t4 j)" for j
    using f(2,3) [of j] by (simp_all add: t_def u_def pool_blk_def pool_flag_def)
  have dt: "same_desc s t"
    using d4 by (simp add: t_def)
  note D = same_descD [OF d4] same_descD [OF dt]
  have r4: "rising d t4 (pool_lba s)"
    using s3(2) dims(1,2) unfolding rising_def D good new_tableD [OF s3(1)] by (auto simp: ph4)
  have "v2_inv (pool_lba s) t4"
    by (rule rising_inv [OF r4 s4(4)]) (use dims in \<open>simp_all add: D ph4\<close>)
  note I = v2_invD [OF this]
  have inv: "v2_inv (pool_lba s) t"
  proof (rule v2_invI)
    show "inj_on (phys t) {..<pool_lba s}"
      using I(7) ph ph4 dims(2) by (auto simp: inj_on_def)
    show "i = j" if "i < pool_len t" "j < pool_len t" "pool_blk t i \<noteq> 0" "pool_blk t i = pool_blk t j" for i j
      using that by (intro I(8) [of i j]) (simp_all add: D pool)
    show "pool_flag t i = NORMAL_MAPPED" if a: "i < pool_len t" "k < pool_lba s" "pool_blk t i \<noteq> 0" "phys t k = pool_blk t i" for i k
    proof -
      have "pool_flag t4 i = NORMAL_MAPPED"
        using a ph [of k] ph4 [of k] dims(2) by (intro I(9) [of i k]) (simp_all add: D pool)
      moreover have "pool_flag t4 m = NO_MAPPED"
        using s4(4) by (simp add: pool_rising_def)
      ultimately show ?thesis
        by (auto simp: pool NO_MAPPED_def NORMAL_MAPPED_def)
    qed
  qed (use I(1-6) dims in \<open>simp_all add: D\<close>)
  have "seen_good d s (phys t k)" if "0 < k" "k < pool_lba s" for k
    using that s3(2) ph [of k] new_tableD(7) [OF s3(1)] by (auto simp: rising_def)
  moreover have "seen_good d s (pool_blk t i)" if "i \<le> m" for i
    using that s4(4) by (simp add: pool pool_rising_def good)
  moreover have "bmt_blk_idx t = m" by (simp add: t_def)
  ultimately show ?thesis
    unfolding t_def [symmetric] v2_scanned_def using inv dt s4(5) by (simp add: pool D)
qed


lemma scan_bad_blocks_wp:
  assumes total: "total_blks s < 2 ^ 16" "total_blks s \<le> pool_lba s + table_size s"
    and cleared: "\<forall>i < pool_len s. pool_blk s i = 0"
    and dims: "0 < pool_lba s" "pool_lba s \<le> table_size s" "4 + 2 * table_size s \<le> length (bbt_buf s)"
      "pool_cap s < 2 ^ 16" "bmt_fits s" "blk_geom (pool_lba s) s"
  shows "wp {Bad_access} (scan_bad_blocks d s) (\<lambda>(r, t). r = 0 \<longrightarrow> v2_scanned d s t)"
  unfolding scan_bad_blocks_def
proof (rule wp_rbindI [OF wp_tbl_put, where P = "\<lambda>u. u = s\<lparr>bbt_buf := put_half 0 0 (bbt_buf s)\<rparr>"], goal_cases)
  case (3 s1)
  have n1: "new_table s s1"
    using 3 by (simp add: new_table_buf)
  note D1 = new_tableD [OF n1]
  have h1: "half_at (bbt_buf s1) j = (if j = 0 then 0 else half_at (bbt_buf s) j)" for j
    using 3 dims(1-3) by (simp add: half_at_put_half)
  have "rising d s1 1"
    by (auto simp: rising_def phys_def h1)
  then have main: "wp {Bad_access} (scan_main d [1..<pool_lba s1] s1) (\<lambda>(ok, t). new_table s1 t \<and>
      (\<forall>j \<ge> pool_lba s. half_at (bbt_buf t) j = half_at (bbt_buf s1) j) \<and> (ok \<longrightarrow> rising d t (pool_lba s)))"
    using scan_main_wp [of s1 1 "pool_lba s" d] total dims by (simp add: D1)
  show ?case
  proof (rule wp_rbindI [OF main], goal_cases)
    case (1 x)
    obtain ok s2 where x: "x = (ok, s2)" by (cases x)
    show ?case
    proof (cases ok)
      case True
      then have n2: "new_table s s2" and r2: "rising d s2 (pool_lba s)"
        and h2: "\<forall>j \<ge> pool_lba s. half_at (bbt_buf s2) j = half_at (bbt_buf s1) j"
        using 1 new_table_trans [OF n1] by (simp_all add: x)
      note D2 = new_tableD [OF n2]
      define last where "last = phys s2 (pool_lba s - 1)"
      have "last = 0 \<or> last < total_blks s"
      proof (cases "pool_lba s = 1")
        case True
        then show ?thesis using r2 by (simp add: last_def rising_def)
      next
        case False
        then have "0 < pool_lba s - 1" "pool_lba s - 1 < pool_lba s" using dims(1) by simp_all
        then show ?thesis using r2 unfolding rising_def last_def D2 by blast
      qed
      then have last: "last + 1 < 2 ^ 16" using total(1) by auto
      have last_ge: "pool_lba s \<le> last + 1"
        using rising_ge [OF r2, of "pool_lba s - 1"] dims(1) by (simp add: last_def)
      have get: "tbl_get (max 1 (pool_lba s2) - 1) s2 = Inr last"
        using dims(1-3) by (simp add: tbl_get_def D2 last_def phys_def max_def)
      have pba: "u16_of (int last + 1) = last + 1"
        using last by (simp add: u16_of_def)
      define s3 where "s3 = s2\<lparr>pool_pba := last + 1\<rparr>"
      have p3: "pool_blk s3 i = 0" if "i < pool_len s" for i
        using cleared h2 h1 that dims(1,2) D2(1) by (simp add: s3_def pool_blk_def)
      have sg: "seen_good d s3 b = seen_good d s2 b" "pool_len s3 = pool_len s" "total_blks s3 = total_blks s"
          "table_size s3 = table_size s" for b
        using D2 by (simp_all add: s3_def seen_good_def blk_pg_def pool_len_def pool_cap_def)
      have pool: "wp {Bad_access} (scan_pool (total_blks s3 + 1) d (last + 1) 0 s3) (\<lambda>(n, t). new_table s3 t \<and>
          (\<forall>j < table_size s3. half_at (bbt_buf t) j = half_at (bbt_buf s3) j) \<and>
          pool_rising d t (last + 1) n \<and> n \<le> pool_len s3)"
        using total last_ge p3 by (intro scan_pool_wp) (auto simp: sg pool_rising_def)
      have "wp {Bad_access} (rbind (scan_pool (total_blks s3 + 1) d (last + 1) 0 s3) (\<lambda>(i, s4).
          let s5 = s4\<lparr>bmt_blk_idx := u16_of (int i - 1)\<rparr> in
          rbind (tbl_put (bmt_mapped s5 (bmt_blk_idx s5)) BMT_MAPPED s5) (\<lambda>s6.
            if i < 1 then Inr (- 1 :: int, s6) else Inr (0, s6)))) (\<lambda>(r, t). r = 0 \<longrightarrow> v2_scanned d s t)"
      proof (rule wp_rbindI [OF pool], goal_cases)
        case (1 y)
        obtain n s4 where y: "y = (n, s4)" by (cases y)
        show ?case
        proof (cases n)
          case 0
          then show ?thesis by (simp add: y tbl_put_def Let_def)
        next
          case (Suc m)
          have "n \<le> pool_len s"
            using 1 by (simp add: y sg)
          then have "m < 2 ^ 16"
            using Suc dims(4) by (simp add: pool_len_def)
          then have u: "u16_of (int n - 1) = m"
            using Suc by (simp add: u16_of_def flip: of_nat_mod)
          have "v2_scanned d s (s4\<lparr>bmt_blk_idx := m, bbt_buf := put_half (bmt_mapped s4 m) BMT_MAPPED (bbt_buf s4)\<rparr>)"
            using 1 Suc \<open>n \<le> pool_len s\<close> dims
            by (intro scanned_final [OF n2 r2 _ s3_def]) (simp_all only: y prod.case sg last_def, blast?)
          then show ?thesis
            using Suc u by (simp add: y tbl_put_def bmt_mapped_def Let_def)
        qed
      qed
      moreover have "pool_pba s3 = last + 1"
        by (simp add: s3_def)
      ultimately show ?thesis
        using True unfolding x prod.case get rbind_simps(2) Let_def pba s3_def [symmetric]
        by (simp del: scan_pool.simps)
    qed (simp add: x)
  qed
qed simp_all

end
