(* ===== verification/Mtk_Bbt_Map.thy ===== *)
theory Mtk_Bbt_Map
  imports Mtk_Bbt "HOL-Library.Multiset"
begin

text \<open>
  What the bad block table means: \<open>bbt_order\<close> lists the physical blocks of a range, the
  good ones first, and the search of \<open>get_mapping_block_index_bbt\<close> is indexing into it.
\<close>

section \<open>Specification\<close>

definition blk_bad :: "u8 list \<Rightarrow> nat \<Rightarrow> bool" where
  "blk_bad buf i = (buf ! (i div 4) AND push_bit ((i mod 4) * 2) 3 \<noteq> 0)"

definition bbt_order :: "u8 list \<Rightarrow> nat \<Rightarrow> nat \<Rightarrow> nat list" where
  "bbt_order buf a b = filter (\<lambda>i. \<not> blk_bad buf i) [a..<b] @ filter (blk_bad buf) [a..<b]"

definition good_blocks :: "u8 list \<Rightarrow> nat \<Rightarrow> nat \<Rightarrow> nat" where
  "good_blocks buf a b = length (filter (\<lambda>i. \<not> blk_bad buf i) [a..<b])"

text \<open>
  The blocks \<open>a\<close> to \<open>b - 1\<close> are one of the configured ranges, the ranges do not overlap,
  and the table covers them.
\<close>

definition bbt_range :: "'n bmt_desc \<Rightarrow> nat \<Rightarrow> nat \<Rightarrow> bool" where
  "bbt_range s a b =
     (case remap_range s of
        None \<Rightarrow> False
      | Some rs \<Rightarrow>
          (blk_addr s a, blk_addr s b) \<in> set rs \<and>
          (\<forall>(lo, hi) \<in> set rs. (lo, hi) = (blk_addr s a, blk_addr s b) \<or> hi \<le> blk_addr s a \<or> blk_addr s b \<le> lo) \<and>
          blk_addr s b < 2 ^ 31 \<and> b \<le> 2 ^ 16 \<and> b \<le> 4 * length (bbt_buf s))"

section \<open>The order\<close>

lemma length_bbt_order [simp]: "length (bbt_order buf a b) = b - a"
  using sum_length_filter_compl [of "blk_bad buf" "[a..<b]"] by (simp add: bbt_order_def)

lemma set_bbt_order [simp]: "set (bbt_order buf a b) = {a..<b}"
  by (auto simp: bbt_order_def)

lemma distinct_bbt_order [simp]: "distinct (bbt_order buf a b)"
  by (auto simp: bbt_order_def)

lemma good_blocks_le: "good_blocks buf a b \<le> b - a"
  unfolding good_blocks_def by (metis length_filter_le length_upt)

lemma bbt_order_good: "k < good_blocks buf a b \<Longrightarrow> \<not> blk_bad buf (bbt_order buf a b ! k)"
  using nth_mem [of k "filter (\<lambda>i. \<not> blk_bad buf i) [a..<b]"]
  by (simp add: good_blocks_def bbt_order_def nth_append)

lemma bbt_order_bad:
  assumes "good_blocks buf a b \<le> k" and "k < b - a"
  shows "blk_bad buf (bbt_order buf a b ! k)"
proof -
  let ?g = "filter (\<lambda>i. \<not> blk_bad buf i) [a..<b]" and ?b = "filter (blk_bad buf) [a..<b]"
  have "k - length ?g < length ?b"
    using assms sum_length_filter_compl [of "blk_bad buf" "[a..<b]"] by (simp add: good_blocks_def)
  then have "?b ! (k - length ?g) \<in> set ?b"
    by (rule nth_mem)
  then show ?thesis
    using assms(1) by (simp add: bbt_order_def nth_append good_blocks_def)
qed

section \<open>The search\<close>

lemma u16_of_small: "i < 2 ^ 16 \<Longrightarrow> u16_of (int i) = i"
  by (simp add: u16_of_def flip: of_nat_mod)

lemma bbt_block_is_bad_small:
  assumes "i < 2 ^ 16" and "i < 4 * length (bbt_buf s)"
  shows "bbt_block_is_bad (int i) s = Inr (blk_bad (bbt_buf s) i)"
  using assms by (simp add: bbt_block_is_bad_def bbt_byte_def blk_bad_def u16_of_small Let_def less_mult_imp_div_less mult.commute)

lemma bbt_skip_bad_result:
  assumes "i + n = b" and "b \<le> 2 ^ 16" and "b \<le> 4 * length (bbt_buf s)"
  shows "\<exists>c. bbt_skip_bad n (int i) (int ofs) c0 s =
    (let gs = filter (\<lambda>i. \<not> blk_bad (bbt_buf s) i) [i..<b] in
     if ofs < length gs then Inr (int (gs ! ofs), 0, c)
     else Inr (int b, int (ofs - length gs), c0 + int (length (filter (blk_bad (bbt_buf s)) [i..<b]))))"
  using assms
proof (induction n arbitrary: i ofs c0)
  case 0
  then show ?case by simp
next
  case (Suc n)
  have bad: "bbt_block_is_bad (int i) s = Inr (blk_bad (bbt_buf s) i)"
    using Suc.prems by (intro bbt_block_is_bad_small) auto
  have up: "[i..<b] = i # [Suc i..<b]"
    using Suc.prems(1) by (intro upt_conv_Cons) simp
  have IH: "\<exists>c. bbt_skip_bad n (int i + 1) (int ofs) c0 s =
    (let gs = filter (\<lambda>i. \<not> blk_bad (bbt_buf s) i) [Suc i..<b] in
     if ofs < length gs then Inr (int (gs ! ofs), 0, c)
     else Inr (int b, int (ofs - length gs), c0 + int (length (filter (blk_bad (bbt_buf s)) [Suc i..<b]))))" for ofs c0
    using Suc.IH [of "Suc i" ofs c0] Suc.prems by (simp add: add.commute)
  show ?case
  proof (cases "blk_bad (bbt_buf s) i")
    case True
    obtain c where "bbt_skip_bad n (int i + 1) (int ofs) (c0 + 1) s =
      (let gs = filter (\<lambda>i. \<not> blk_bad (bbt_buf s) i) [Suc i..<b] in
       if ofs < length gs then Inr (int (gs ! ofs), 0, c)
       else Inr (int b, int (ofs - length gs), c0 + 1 + int (length (filter (blk_bad (bbt_buf s)) [Suc i..<b]))))"
      using IH by blast
    then show ?thesis
      using True by (intro exI [of _ c]) (simp add: bad up Let_def del: upt_Suc)
  next
    case False
    show ?thesis
    proof (cases ofs)
      case 0
      then show ?thesis using False by (simp add: bad up Let_def del: upt_Suc)
    next
      case (Suc k)
      then show ?thesis
        using IH [of k c0] False by (auto simp: bad up Let_def of_nat_diff not_less simp del: upt_Suc)
    qed
  qed
qed

lemma bbt_take_bad_result:
  assumes "a \<le> i" and "i \<le> 2 ^ 16" and "i \<le> 4 * length (bbt_buf s)"
    and "ofs < length (filter (blk_bad (bbt_buf s)) [a..<i])" and "i - a < fuel"
  shows "bbt_take_bad fuel (int i - 1) (int ofs) (int (length (filter (blk_bad (bbt_buf s)) [a..<i]))) s =
    Inr (Some (int (filter (blk_bad (bbt_buf s)) [a..<i] ! ofs)))"
  using assms
proof (induction i arbitrary: fuel rule: dec_induct)
  case base
  then show ?case by simp
next
  case (step i)
  obtain n where fuel: "fuel = Suc n"
    using step.prems by (cases fuel) auto
  have bad: "bbt_block_is_bad (int i) s = Inr (blk_bad (bbt_buf s) i)"
    using step.prems by (intro bbt_block_is_bad_small) auto
  have up: "[a..<Suc i] = [a..<i] @ [i]"
    using step.hyps by simp
  have IH: "bbt_take_bad n (int i - 1) (int ofs) (int (length (filter (blk_bad (bbt_buf s)) [a..<i]))) s =
      Inr (Some (int (filter (blk_bad (bbt_buf s)) [a..<i] ! ofs)))"
    if "ofs < length (filter (blk_bad (bbt_buf s)) [a..<i])"
    using that step.prems fuel step.hyps by (intro step.IH) auto
  show ?case
    using IH step.prems(3) by (auto simp: fuel bad up nth_append simp del: upt_Suc)
qed


section \<open>The mapping\<close>

lemma s32_of_small: "n < 2 ^ 31 \<Longrightarrow> s32_of n = int n"
  by (simp add: s32_of_def)

lemma bbt_range_lookup:
  assumes "bbt_range s a b" and "a \<le> k" and "k < b"
  shows "mapping_block_in_range (int k) s = Some (int (blk_addr s a), int (blk_addr s b))"
proof -
  obtain rs where rs: "remap_range s = Some rs" "(blk_addr s a, blk_addr s b) \<in> set rs"
      "\<forall>(lo, hi) \<in> set rs. (lo, hi) = (blk_addr s a, blk_addr s b) \<or> hi \<le> blk_addr s a \<or> blk_addr s b \<le> lo"
      "blk_addr s b < 2 ^ 31"
    using assms(1) by (auto simp: bbt_range_def split: option.splits)
  have in_range: "blk_addr s a \<le> blk_addr s k" "blk_addr s k < blk_addr s b"
    using assms(2,3) by (simp_all add: blk_addr_def)
  have addr: "u32_of (int k * 2 ^ blk_shift s) = blk_addr s k"
  proof -
    have "blk_addr s k < 2 ^ 32"
      using in_range(2) rs(4) by simp
    moreover have "int k * 2 ^ blk_shift s = int (blk_addr s k)"
      by (simp add: blk_addr_def)
    ultimately show ?thesis
      by (simp only: u32_of_def) (simp add: nat_mod_as_int flip: of_nat_mod)
  qed
  let ?P = "\<lambda>(lo, hi). lo \<le> blk_addr s k \<and> blk_addr s k < hi"
  have "find ?P rs = Some (blk_addr s a, blk_addr s b)"
  proof (cases "find ?P rs")
    case None
    then show ?thesis using rs(2) in_range by (fastforce simp: find_None_iff)
  next
    case (Some x)
    then have "x \<in> set rs" "?P x"
      by (blast dest: find_SomeD)+
    then have "x = (blk_addr s a, blk_addr s b)"
      using rs(3) in_range by fastforce
    then show ?thesis using Some by simp
  qed
  moreover have "rs \<noteq> []" using rs(2) by auto
  ultimately show ?thesis
    using rs(1,4) in_range by (cases rs) (simp_all add: mapping_block_in_range_def addr s32_of_small)
qed

lemma bbt_range_bounds:
  assumes "bbt_range s a b"
  shows "b \<le> 2 ^ 16" "b \<le> 4 * length (bbt_buf s)"
  using assms by (auto simp: bbt_range_def split: option.splits)

lemma drop_bit_blk_addr: "drop_bit (blk_shift s) (int (blk_addr s a)) = int a"
  by (simp add: blk_addr_def drop_bit_eq_div)

lemma get_mapping_bbt_order:
  assumes r: "bbt_range s a b" and k: "a \<le> k" "k < b"
  shows "get_mapping_block_index_bbt (int k) s = Inr (int (bbt_order (bbt_buf s) a b ! (k - a)))"
proof -
  let ?gs = "filter (\<lambda>i. \<not> blk_bad (bbt_buf s) i) [a..<b]" and ?bs = "filter (blk_bad (bbt_buf s)) [a..<b]"
  note bounds = bbt_range_bounds [OF r]
  have len: "length ?gs + length ?bs = b - a"
    using sum_length_filter_compl [of "blk_bad (bbt_buf s)" "[a..<b]"] by simp
  obtain c where skip: "bbt_skip_bad (b - a) (int a) (int (k - a)) 0 s =
      (if k - a < length ?gs then Inr (int (?gs ! (k - a)), 0, c)
       else Inr (int b, int (k - a - length ?gs), int (length ?bs)))"
    using bbt_skip_bad_result [of a "b - a" b s "k - a" 0] k bounds
    by (simp only: Let_def add_0) fastforce
  have diffs: "nat (int b - int a) = b - a" "int k - int a = int (k - a)"
    using k by simp_all
  have start: "get_mapping_block_index_bbt (int k) s =
      rbind (bbt_skip_bad (b - a) (int a) (int (k - a)) 0 s) (\<lambda>(i, ofs, bad_blocks).
        if i < int b then Inr i
        else rbind (bbt_take_bad (b - a + 1) (int b - 1) ofs bad_blocks s)
               (\<lambda>r. case r of Some j \<Rightarrow> Inr j | None \<Rightarrow> Inr (int k)))"
    by (simp only: get_mapping_block_index_bbt_def bbt_range_lookup [OF r k] option.case prod.case
        Let_def drop_bit_blk_addr diffs)
  show ?thesis
  proof (cases "k - a < length ?gs")
    case True
    then have "?gs ! (k - a) \<in> {a..<b}"
      using nth_mem [OF True] by auto
    then show ?thesis
      using True by (simp add: start skip bbt_order_def nth_append)
  next
    case False
    then have "bbt_take_bad (b - a + 1) (int b - 1) (int (k - a - length ?gs)) (int (length ?bs)) s =
        Inr (Some (int (?bs ! (k - a - length ?gs))))"
      using k len bounds by (intro bbt_take_bad_result) auto
    then show ?thesis
      using False by (simp add: start skip bbt_order_def nth_append)
  qed
qed

end
