(* ===== verification/Mtk_Bbt_Props.thy ===== *)
theory Mtk_Bbt_Props
  imports Mtk_Bbt_Map Mtk_Bmt_Client
begin

text \<open>
  The operations of the bad block table against \<open>bbt_order\<close>: what a change of one block's
  state does to the others, what a remapping does to the blocks behind it, and the
  descriptor without a configured range.
\<close>

section \<open>Two bits in a byte\<close>

lemma pair_mask_disjoint:
  assumes "a < 4" and "b < 4"
  shows "(push_bit (a * 2) 3 :: u8) AND push_bit (b * 2) 3 = (if a = b then push_bit (a * 2) 3 else 0)"
proof -
  have "a \<in> {0, 1, 2, 3}" "b \<in> {0, 1, 2, 3}"
    using assms by auto
  then show ?thesis
    by (elim insertE emptyE) simp_all
qed

lemma pair_mask_nonzero: "a < (4 :: nat) \<Longrightarrow> (push_bit (a * 2) 3 :: u8) \<noteq> 0"
proof -
  assume "a < 4"
  then have "a \<in> {0, 1, 2, 3}" by auto
  then show ?thesis by (elim insertE emptyE) simp_all
qed

lemma pair_set:
  assumes "a < 4" and "b < 4"
  shows "(x OR push_bit (a * 2) 3) AND push_bit (b * 2) (3 :: u8) \<noteq> 0 \<longleftrightarrow>
    a = b \<or> x AND push_bit (b * 2) 3 \<noteq> 0"
  using pair_mask_disjoint [OF assms] pair_mask_nonzero [OF assms(2)]
  by (simp add: bit.conj_disj_distrib2)

lemma pair_clear:
  assumes "a < 4" and "b < 4"
  shows "(x AND NOT (push_bit (a * 2) 3)) AND push_bit (b * 2) (3 :: u8) \<noteq> 0 \<longleftrightarrow>
    a \<noteq> b \<and> x AND push_bit (b * 2) 3 \<noteq> 0"
proof (cases "a = b")
  case True
  then show ?thesis by (simp add: and.assoc)
next
  case False
  then have disj: "(push_bit (a * 2) 3 :: u8) AND push_bit (b * 2) 3 = 0"
    using pair_mask_disjoint [OF assms] by simp
  have "NOT (push_bit (a * 2) 3) AND push_bit (b * 2) 3 = (push_bit (b * 2) 3 :: u8)"
  proof (rule bit_word_eqI)
    fix n
    have "\<not> (bit (push_bit (a * 2) 3 :: u8) n \<and> bit (push_bit (b * 2) 3 :: u8) n)"
      using disj by (metis bit_and_iff bit_0_eq bot_apply bot_bool_def)
    moreover assume "n < LENGTH(8)"
    ultimately show "bit (NOT (push_bit (a * 2) 3) AND push_bit (b * 2) 3 :: u8) n = bit (push_bit (b * 2) 3 :: u8) n"
      by (auto simp: bit_and_iff bit_not_iff)
  qed
  then show ?thesis using False by (simp add: and.assoc)
qed

lemma blk_bad_set:
  assumes "i div 4 < length buf"
  shows "blk_bad (buf[i div 4 := buf ! (i div 4) OR push_bit ((i mod 4) * 2) 3]) j \<longleftrightarrow> j = i \<or> blk_bad buf j"
proof (cases "j div 4 = i div 4")
  case True
  then have "j = i \<longleftrightarrow> i mod 4 = j mod 4"
    by (metis div_mult_mod_eq)
  then show ?thesis
    using True assms by (simp add: blk_bad_def pair_set)
next
  case False
  then show ?thesis by (auto simp: blk_bad_def)
qed

lemma blk_bad_clear:
  assumes "i div 4 < length buf"
  shows "blk_bad (buf[i div 4 := buf ! (i div 4) AND NOT (push_bit ((i mod 4) * 2) 3)]) j \<longleftrightarrow> j \<noteq> i \<and> blk_bad buf j"
proof (cases "j div 4 = i div 4")
  case True
  then have "j = i \<longleftrightarrow> i mod 4 = j mod 4"
    by (metis div_mult_mod_eq)
  then show ?thesis
    using True assms by (simp add: blk_bad_def pair_clear)
next
  case False
  then show ?thesis by (auto simp: blk_bad_def)
qed


section \<open>Frames\<close>

lemma keeps_table_bbt:
  assumes "keeps_table s t"
  shows "bbt_buf t = bbt_buf s" "bbt_range t a b = bbt_range s a b"
    "mapping_block_in_range k t = mapping_block_in_range k s"
  using assms
  by (auto simp: keeps_table_def bbt_range_def blk_addr_def mapping_block_in_range_def Let_def
      split: option.splits list.splits)

section \<open>The state of one block\<close>

definition set_bad :: "nat \<Rightarrow> bool \<Rightarrow> u8 list \<Rightarrow> u8 list" where
  "set_bad i bad buf =
     buf[i div 4 := (if bad then buf ! (i div 4) OR push_bit ((i mod 4) * 2) 3
                     else buf ! (i div 4) AND NOT (push_bit ((i mod 4) * 2) 3))]"

lemma length_set_bad [simp]: "length (set_bad i bad buf) = length buf"
  by (simp add: set_bad_def)

lemma blk_bad_set_bad:
  "i div 4 < length buf \<Longrightarrow> blk_bad (set_bad i bad buf) j \<longleftrightarrow> (if j = i then bad else blk_bad buf j)"
  by (simp add: set_bad_def blk_bad_set blk_bad_clear)

lemma bbt_set_block_state_result:
  assumes "bmt_fits s" and i: "i div 4 < length (bbt_buf s)"
  shows "\<exists>c. bbt_set_block_state d i bad s = Inr (s\<lparr>bbt_buf := set_bad i bad (bbt_buf s), chip := c\<rparr>)"
proof -
  define s1 where "s1 = s\<lparr>bbt_buf := set_bad i bad (bbt_buf s)\<rparr>"
  obtain r c where e: "bbt_nand_erase d (bmt_blk_idx s1) s1 = (r, s1\<lparr>chip := c\<rparr>)"
    by (rule bbt_nand_erase_chip)
  have "bmt_fits (s1\<lparr>chip := c\<rparr>)"
    using assms(1) by (simp add: bmt_fits_def s1_def)
  then obtain r' c' where w: "write_bmt d (bmt_blk_idx s1) (s1\<lparr>chip := c\<rparr>) = Inr (r', s1\<lparr>chip := c\<rparr>\<lparr>chip := c'\<rparr>)"
    by (rule write_bmt_chip)
  have "bbt_set_block_state d i bad s =
      rbind (write_bmt d (bmt_blk_idx (snd (bbt_nand_erase d (bmt_blk_idx s1) s1))) (snd (bbt_nand_erase d (bmt_blk_idx s1) s1)))
        (\<lambda>(_, s3). Inr s3)"
    using i by (simp add: bbt_set_block_state_def bbt_byte_def Let_def s1_def set_bad_def)
  also have "\<dots> = Inr (s1\<lparr>chip := c'\<rparr>)"
    by (simp add: e w)
  finally show ?thesis
    by (intro exI [of _ c']) (simp add: s1_def)
qed

lemma bbt_range_set_bad:
  "bbt_range (s\<lparr>bbt_buf := set_bad i bad (bbt_buf s), chip := c\<rparr>) a b = bbt_range s a b"
  by (simp add: bbt_range_def blk_addr_def split: option.splits)

section \<open>Remapping\<close>

lemma filter_except_nth:
  "distinct xs \<Longrightarrow> m < length xs \<Longrightarrow> filter (\<lambda>x. x \<noteq> xs ! m) xs = take m xs @ drop (Suc m) xs"
proof (induction xs arbitrary: m)
  case (Cons x xs)
  show ?case
  proof (cases m)
    case 0
    have "filter (\<lambda>y. y \<noteq> x) xs = xs"
      using Cons.prems(1) by (intro filter_True) auto
    then show ?thesis using 0 by simp
  next
    case (Suc k)
    have "x \<noteq> xs ! k"
      using Cons.prems Suc by auto
    then show ?thesis using Suc Cons by simp
  qed
qed simp

lemma good_after_remap:
  assumes "m < good_blocks buf a b" and p: "p = bbt_order buf a b ! m" and "p div 4 < length buf"
  shows "filter (\<lambda>i. \<not> blk_bad (set_bad p True buf) i) [a..<b] =
    take m (filter (\<lambda>i. \<not> blk_bad buf i) [a..<b]) @ drop (Suc m) (filter (\<lambda>i. \<not> blk_bad buf i) [a..<b])"
proof -
  let ?gs = "filter (\<lambda>i. \<not> blk_bad buf i) [a..<b]"
  have gs: "m < length ?gs" "p = ?gs ! m"
    using assms(1) p by (simp_all add: good_blocks_def bbt_order_def nth_append)
  have "filter (\<lambda>i. \<not> blk_bad (set_bad p True buf) i) [a..<b] = filter (\<lambda>x. x \<noteq> ?gs ! m) ?gs"
    unfolding filter_filter gs(2) [symmetric]
    by (rule filter_cong) (use assms(3) in \<open>auto simp: blk_bad_set_bad\<close>)
  also have "\<dots> = take m ?gs @ drop (Suc m) ?gs"
    using gs(1) by (intro filter_except_nth) simp_all
  finally show ?thesis .
qed

lemma order_after_remap:
  assumes "m < good_blocks buf a b" and "p = bbt_order buf a b ! m" and "p div 4 < length buf"
    and "Suc n < good_blocks buf a b"
  shows "bbt_order (set_bad p True buf) a b ! n = bbt_order buf a b ! (if n < m then n else Suc n)"
  using assms(1,4) good_after_remap [OF assms(1-3)]
  by (auto simp: bbt_order_def nth_append good_blocks_def)


lemma bbt_order_range:
  assumes "bbt_range s a b" and "m < b - a"
  shows "a \<le> bbt_order (bbt_buf s) a b ! m" "bbt_order (bbt_buf s) a b ! m < b"
    "bbt_order (bbt_buf s) a b ! m < 2 ^ 16" "bbt_order (bbt_buf s) a b ! m div 4 < length (bbt_buf s)"
proof -
  have "bbt_order (bbt_buf s) a b ! m \<in> {a..<b}"
    using nth_mem [of m "bbt_order (bbt_buf s) a b"] assms(2) by simp
  then show *: "a \<le> bbt_order (bbt_buf s) a b ! m" "bbt_order (bbt_buf s) a b ! m < b"
    by simp_all
  show "bbt_order (bbt_buf s) a b ! m < 2 ^ 16"
    using *(2) bbt_range_bounds(1) [OF assms(1)] by simp
  show "bbt_order (bbt_buf s) a b ! m div 4 < length (bbt_buf s)"
    using *(2) bbt_range_bounds(2) [OF assms(1)] by (simp add: less_mult_imp_div_less mult.commute)
qed

text \<open>
  A remapping inside a range: the table with the block marked, and the block that is erased
  and takes over, by its index in the new order.
\<close>

lemma remap_block_bbt_result:
  assumes r: "bbt_range s a b" and f: "bmt_fits s" and k: "a \<le> k" "k < b"
    and p: "p div 4 < length (bbt_buf s)"
  shows "\<exists>s1 s'. bbt_set_block_state d p True s = Inr s1 \<and>
    remap_block_bbt d k p copy_len s = Inr (True, s') \<and>
    bbt_buf s1 = set_bad p True (bbt_buf s) \<and> bbt_range s1 a b \<and> bmt_fits s1 \<and>
    s' = (let new_blk = bbt_order (set_bad p True (bbt_buf s)) a b ! (k - a);
              s2 = snd (bbt_nand_erase d new_blk s1)
          in if copy_len > 0 then snd (bbt_nand_copy d new_blk p copy_len s2) else s2) \<and>
    keeps_table s1 s'"
proof -
  obtain c where c: "bbt_set_block_state d p True s = Inr (s\<lparr>bbt_buf := set_bad p True (bbt_buf s), chip := c\<rparr>)"
    using bbt_set_block_state_result [OF f p] by blast
  define s1 where "s1 = s\<lparr>bbt_buf := set_bad p True (bbt_buf s), chip := c\<rparr>"
  have s1: "bbt_range s1 a b" "bbt_buf s1 = set_bad p True (bbt_buf s)" "bmt_fits s1"
    using r f by (simp_all add: s1_def bbt_range_set_bad bmt_fits_def)
  have k': "k - a < b - a" using k by simp
  define new_blk where "new_blk = bbt_order (set_bad p True (bbt_buf s)) a b ! (k - a)"
  have get: "get_mapping_block_index_bbt (int k) s1 = Inr (int new_blk)" "u16_of (int new_blk) = new_blk"
    using get_mapping_bbt_order [OF s1(1) k] bbt_order_range(3) [OF s1(1) k'] s1(2)
    by (simp_all add: new_blk_def u16_of_small)
  define s' where "s' = (let s2 = snd (bbt_nand_erase d new_blk s1)
          in if copy_len > 0 then snd (bbt_nand_copy d new_blk p copy_len s2) else s2)"
  have "remap_block_bbt d k p copy_len s = Inr (True, s')"
    by (simp add: remap_block_bbt_def bbt_range_lookup [OF r k] c get s1_def [symmetric] s'_def Let_def)
  moreover have "keeps_table s1 s'"
    by (auto simp: s'_def Let_def intro: erase_keeps_table copy_keeps_table keeps_table_trans)
  ultimately show ?thesis
    using c s1 by (intro exI [of _ s1] exI [of _ s']) (simp add: s1_def s'_def new_blk_def Let_def)
qed


section \<open>The bad block table as a mapping\<close>

text \<open>No range is configured, or an empty one.\<close>

definition no_range :: "'n bmt_desc \<Rightarrow> bool" where
  "no_range s = (case remap_range s of None \<Rightarrow> True | Some rs \<Rightarrow> rs = [])"

lemma no_range_lookup: "no_range s \<Longrightarrow> mapping_block_in_range k s = Some (0, int (total_blks s))"
  by (auto simp: no_range_def mapping_block_in_range_def split: option.splits)

lemma no_range_identity:
  assumes "no_range s" and "total_blks s < 2 ^ blk_shift s"
  shows "get_mapping_block_index_bbt k s = Inr k"
proof -
  have "drop_bit (blk_shift s) (int (total_blks s)) = 0"
    using assms(2) by (simp add: drop_bit_eq_div)
  then show ?thesis
    by (simp add: get_mapping_block_index_bbt_def no_range_lookup [OF assms(1)])
qed

text \<open>The first \<open>N\<close> blocks are covered by the table, and the ranges consist of such blocks.\<close>

definition bbt_inv :: "nat \<Rightarrow> 'n bmt_desc \<Rightarrow> bool" where
  "bbt_inv N s =
     (blk_geom N s \<and> bmt_fits s \<and> N \<le> 4 * length (bbt_buf s) \<and> blk_addr s N < 2 ^ 31 \<and>
      (if no_range s then total_blks s < 2 ^ blk_shift s
       else \<forall>(lo, hi) \<in> set (the (remap_range s)).
         \<exists>a \<le> N. \<exists>b \<le> N. (lo, hi) = (blk_addr s a, blk_addr s b) \<and> bbt_range s a b))"

lemma in_range_cases:
  assumes inv: "bbt_inv N s" and k: "k < N"
  obtains (none) "no_range s"
  | (outside) "\<not> no_range s" "mapping_block_in_range (int k) s = None"
  | (inside) a b where "bbt_range s a b" "a \<le> k" "k < b" "b \<le> N"
proof (cases "no_range s")
  case False
  then obtain rs where rs: "remap_range s = Some rs" "rs \<noteq> []"
    by (auto simp: no_range_def split: option.splits)
  have sm: "blk_addr s k < 2 ^ 32"
  proof -
    have "blk_addr s k < blk_addr s N"
      using k by (simp add: blk_addr_def)
    then show ?thesis using inv by (simp add: bbt_inv_def)
  qed
  have addr: "u32_of (int k * 2 ^ blk_shift s) = blk_addr s k"
  proof -
    have "int k * 2 ^ blk_shift s = int (blk_addr s k)"
      by (simp add: blk_addr_def)
    then show ?thesis
      using sm by (simp only: u32_of_def) (simp add: nat_mod_as_int flip: of_nat_mod)
  qed
  show ?thesis
  proof (cases "find (\<lambda>(lo, hi). lo \<le> blk_addr s k \<and> blk_addr s k < hi) rs")
    case None
    then have "mapping_block_in_range (int k) s = None"
      using rs by (cases rs) (simp_all add: mapping_block_in_range_def addr)
    then show ?thesis using False outside by blast
  next
    case (Some x)
    obtain lo hi where x: "x = (lo, hi)" by (cases x)
    have m: "(lo, hi) \<in> set rs" "lo \<le> blk_addr s k" "blk_addr s k < hi"
      using find_SomeD [OF Some] by (simp_all add: x)
    have "\<forall>(lo, hi) \<in> set rs. \<exists>a \<le> N. \<exists>b \<le> N. (lo, hi) = (blk_addr s a, blk_addr s b) \<and> bbt_range s a b"
      using inv False rs(1) by (simp add: bbt_inv_def)
    then obtain a b where ab: "b \<le> N" "lo = blk_addr s a" "hi = blk_addr s b" "bbt_range s a b"
      using m(1) by fastforce
    have "a \<le> k" "k < b"
      using m(2,3) ab(2,3) by (simp_all add: blk_addr_def)
    then show ?thesis using ab inside by blast
  qed
qed (rule none)

lemma bbt_get:
  assumes "bbt_inv N s" and "k < N"
  obtains p where "get_mapping_block_index_bbt (int k) s = Inr (int p)" and "p < N"
  using assms
proof (cases rule: in_range_cases)
  case none
  then have "get_mapping_block_index_bbt (int k) s = Inr (int k)"
    using assms(1) by (intro no_range_identity) (simp_all add: bbt_inv_def)
  then show ?thesis using assms(2) by (rule that)
next
  case outside
  then have "get_mapping_block_index_bbt (int k) s = Inr (int k)"
    by (simp add: get_mapping_block_index_bbt_def)
  then show ?thesis using assms(2) by (rule that)
next
  case (inside a b)
  have "bbt_order (bbt_buf s) a b ! (k - a) < N"
    using bbt_order_range(2) [OF inside(1) diff_less_mono [OF inside(3,2)]] inside(4) by (rule less_le_trans)
  with get_mapping_bbt_order [OF inside(1-3)] show ?thesis by (rule that)
qed

lemma bbt_inv_buf:
  assumes "bbt_inv N s" and "length buf = length (bbt_buf s)"
  shows "bbt_inv N (s\<lparr>bbt_buf := buf, chip := c, data_buf := b\<rparr>)"
proof -
  define t where "t = s\<lparr>bbt_buf := buf, chip := c, data_buf := b\<rparr>"
  have r: "bbt_range t x y = bbt_range s x y" "blk_addr t x = blk_addr s x" "no_range t = no_range s"
      "remap_range t = remap_range s" "blk_geom N t = blk_geom N s" "bmt_fits t = bmt_fits s"
      "length (bbt_buf t) = length (bbt_buf s)" "blk_shift t = blk_shift s" "total_blks t = total_blks s" for x y
    using assms(2) by (simp_all add: t_def bbt_range_def blk_addr_def no_range_def blk_geom_def bmt_fits_def split: option.splits)
  show ?thesis
    using assms(1) unfolding bbt_inv_def t_def [symmetric] r .
qed

lemma bbt_inv_keeps:
  assumes "bbt_inv N s" and "keeps_table s t"
  shows "bbt_inv N t" "same_geom s t"
proof -
  obtain c b where t: "t = s\<lparr>chip := c, data_buf := b\<rparr>"
    using assms(2) by (auto simp: keeps_table_def)
  have "s\<lparr>bbt_buf := bbt_buf s, chip := c, data_buf := b\<rparr> = t" by (simp add: t)
  then show "bbt_inv N t" using bbt_inv_buf [OF assms(1), where buf = "bbt_buf s" and c = c and b = b] by simp
  show "same_geom s t" by (simp add: t same_geom_def)
qed

lemma remap_block_bbt_inv:
  assumes inv: "bbt_inv N s" and k: "k < N" and p: "p < N"
  shows "wp {} (remap_block_bbt d k p len s) (\<lambda>(_, t). bbt_inv N t \<and> same_geom s t)"
proof (cases "mapping_block_in_range (int k) s")
  case None
  then show ?thesis using inv by (simp add: remap_block_bbt_def)
next
  case (Some r)
  have p': "p div 4 < length (bbt_buf s)" "bmt_fits s"
    using inv p by (auto simp: bbt_inv_def less_mult_imp_div_less mult.commute)
  obtain c where c: "bbt_set_block_state d p True s = Inr (s\<lparr>bbt_buf := set_bad p True (bbt_buf s), chip := c\<rparr>)"
    using bbt_set_block_state_result [OF p'(2,1)] by blast
  define s1 where "s1 = s\<lparr>bbt_buf := set_bad p True (bbt_buf s), chip := c\<rparr>"
  have i1: "bbt_inv N s1"
    using bbt_inv_buf [OF inv, where buf = "set_bad p True (bbt_buf s)" and c = c and b = "data_buf s"] by (simp add: s1_def)
  obtain q where q: "get_mapping_block_index_bbt (int k) s1 = Inr (int q)"
    by (rule bbt_get [OF i1 k])
  define s' where "s' = (let s2 = snd (bbt_nand_erase d (u16_of (int q)) s1)
    in if len > 0 then snd (bbt_nand_copy d (u16_of (int q)) p len s2) else s2)"
  have "keeps_table s1 s'"
    by (auto simp: s'_def Let_def intro: erase_keeps_table copy_keeps_table keeps_table_trans)
  then have "bbt_inv N s'" "same_geom s1 s'"
    using bbt_inv_keeps [OF i1] by blast+
  moreover have "same_geom s s1" by (simp add: s1_def same_geom_def)
  moreover have "remap_block_bbt d k p len s = Inr (True, s')"
    using Some by (cases r) (simp add: remap_block_bbt_def c q s1_def [symmetric] s'_def Let_def)
  ultimately show ?thesis
    by (auto intro: same_geom_trans)
qed

interpretation bbt: mapping_ops "mtk_bmt_bbt_ops d" "bbt_inv N" N N "{}" for d :: "'n nand_dev" and N
proof (unfold_locales, goal_cases)
  case (3 s)
  then show ?case by (simp add: bbt_inv_def)
next
  case (2 s)
  then show ?case by (simp add: bbt_inv_def blk_geom_def)
next
  case (4 s c)
  then show ?case by (rule bbt_inv_keeps(1) [OF _ keeps_table_chip])
next
  case (5 s k)
  then obtain p where "get_mapping_block_index_bbt (int k) s = Inr (int p)" "p < N"
    by (rule bbt_get)
  then show ?case by (simp add: mtk_bmt_bbt_ops_def)
next
  case (6 s k p len)
  then show ?case by (simp add: mtk_bmt_bbt_ops_def remap_block_bbt_inv)
qed simp


section \<open>Properties\<close>

text \<open>A driver on which every request succeeds, and a descriptor with one bad block.\<close>

definition sample_nand :: "unit nand_dev" where
  "sample_nand =
     \<lparr>read_oob = (\<lambda>_ len _ ooblen c. ((0, replicate len 0xff, replicate ooblen 0xff), c)),
      write_oob = (\<lambda>_ dat _ oob c. ((0, length dat, length oob), c)),
      erase_blk = (\<lambda>_ _ c. (0, c)), block_isbad = (\<lambda>_ c. (0, c)), block_markbad = (\<lambda>_ c. (0, c))\<rparr>"

definition sample_bbt :: "(nat \<times> nat) list option \<Rightarrow> unit bmt_desc" where
  "sample_bbt ranges =
     \<lparr>mtd = \<lparr>msize = 16, erasesize = 4, writesize = 2, oobsize = 0, bitflip_threshold = 0, ecc_strength = 0\<rparr>,
      bbt_buf = [0x0c, 0xff], data_buf = [], ops_sig = mtknand_sig, table_size = 0, pg_size = 2, blk_size = 4,
      pg_shift = 1, blk_shift = 2, pool_lba = 0, pool_pba = 0, bb_max = 0, total_blks = 3, bmt_blk_idx = 2,
      bmt_pgs = 1, remap_range = ranges, oob_offset = 0, ni = None, chip = ()\<rparr>"

lemma sample_bbt_range: "bbt_range (sample_bbt (Some [(0, 16)])) 0 4"
  by (simp add: bbt_range_def sample_bbt_def blk_addr_def)

lemma strict_order:
  assumes "i < j" and "j < good_blocks buf a b"
  shows "bbt_order buf a b ! i < bbt_order buf a b ! j"
proof -
  have "sorted_wrt (<) (filter (\<lambda>i. \<not> blk_bad buf i) [a..<b])"
    by (rule sorted_wrt_filter) simp
  then show ?thesis
    using assms by (simp add: bbt_order_def good_blocks_def nth_append sorted_wrt_nth_less)
qed

text \<open>
  C23. Inside a configured range the bad block table is a bijection of the blocks of the
  range: \<open>get_mapping_block_index_bbt\<close> returns for every logical block a block of its own,
  the good blocks in rising order for as many logical blocks as there are, and bad blocks for
  the rest. Its second loop, which has no bound, ends.
\<close>

theorem bbt_mapping_bijective:
  assumes "bbt_range s a b"
  shows "\<exists>f. (\<forall>k \<in> {a..<b}. get_mapping_block_index_bbt (int k) s = Inr (int (f k))) \<and>
    bij_betw f {a..<b} {a..<b} \<and>
    (\<forall>k \<in> {a..<b}. blk_bad (bbt_buf s) (f k) \<longleftrightarrow> good_blocks (bbt_buf s) a b \<le> k - a) \<and>
    (\<forall>j k. a \<le> j \<and> j < k \<and> k < a + good_blocks (bbt_buf s) a b \<longrightarrow> f j < f k)"
proof (intro exI conjI ballI allI impI)
  let ?f = "\<lambda>k. bbt_order (bbt_buf s) a b ! (k - a)"
  show "get_mapping_block_index_bbt (int k) s = Inr (int (?f k))" if "k \<in> {a..<b}" for k
    using that by (intro get_mapping_bbt_order [OF assms]) simp_all
  have "inj_on ?f {a..<b}"
    by (rule inj_onI) (auto simp: nth_eq_iff_index_eq)
  moreover have "?f ` {a..<b} \<subseteq> {a..<b}"
    using bbt_order_range [OF assms] by (auto intro: diff_less_mono)
  ultimately show "bij_betw ?f {a..<b} {a..<b}"
    unfolding bij_betw_def using endo_inj_surj [of "{a..<b}" ?f] finite_atLeastLessThan by blast
  show "blk_bad (bbt_buf s) (?f k) \<longleftrightarrow> good_blocks (bbt_buf s) a b \<le> k - a" if "k \<in> {a..<b}" for k
  proof (cases "good_blocks (bbt_buf s) a b \<le> k - a")
    case True
    then show ?thesis using bbt_order_bad [OF True] that by (simp add: diff_less_mono)
  next
    case False
    then show ?thesis using bbt_order_good [of "k - a" "bbt_buf s" a b] by simp
  qed
  show "?f j < ?f k" if "a \<le> j \<and> j < k \<and> k < a + good_blocks (bbt_buf s) a b" for j k
    by (rule strict_order) (use that in linarith)+
qed

theorem bbt_mapping_bijective_witness:
  "\<exists>f. bij_betw f {0..<4 :: nat} {0..<4 :: nat} \<and>
    get_mapping_block_index_bbt (int 1) (sample_bbt (Some [(0, 16)])) = Inr (int (f 1)) \<and>
    get_mapping_block_index_bbt (int 3) (sample_bbt (Some [(0, 16)])) = Inr (int (f 3)) \<and>
    f 0 < f 1 \<and> f 1 < f 2 \<and> \<not> blk_bad [0x0c, 0xff] (f 2) \<and> blk_bad [0x0c, 0xff] (f 3)"
proof -
  have g: "bbt_buf (sample_bbt (Some [(0, 16)])) = [0x0c, 0xff]" "good_blocks [0x0c, 0xff] 0 4 = 3"
    by (simp_all add: good_blocks_def sample_bbt_def blk_bad_def upt_rec)
  have k: "1 \<in> {0..<4 :: nat}" "2 \<in> {0..<4 :: nat}" "3 \<in> {0..<4 :: nat}" "\<not> (3 :: nat) \<le> 2 - 0" "(3 :: nat) \<le> 3 - 0"
    "0 \<le> (0 :: nat) \<and> (0 :: nat) < 1 \<and> (1 :: nat) < 0 + 3" "0 \<le> (1 :: nat) \<and> (1 :: nat) < 2 \<and> (2 :: nat) < 0 + 3"
    by simp_all
  from bbt_mapping_bijective [OF sample_bbt_range, unfolded g] show ?thesis
    by (elim exE conjE) (intro exI conjI, assumption, use k in \<open>blast+\<close>)
qed

text \<open>
  C28. A remapping moves the blocks behind it without their data. When the physical block of
  logical block \<open>k\<close> has gone bad, \<open>remap_block_bbt\<close> erases the block that holds logical block
  \<open>k + 1\<close> and copies block \<open>k\<close> over it, and from \<open>k\<close> on every logical block is read from
  where its successor was.
\<close>

theorem remap_block_bbt_displaces:
  assumes r: "bbt_range s a b" and f: "bmt_fits s" and k: "a \<le> k" "Suc k < a + good_blocks (bbt_buf s) a b"
    and p: "get_mapping_block_index_bbt (int k) s = Inr (int p)"
    and q: "get_mapping_block_index_bbt (int (Suc k)) s = Inr (int q)"
  shows "\<exists>s1 s'. bbt_set_block_state d p True s = Inr s1 \<and> remap_block_bbt d k p len s = Inr (True, s') \<and>
    s' = (let s2 = snd (bbt_nand_erase d q s1) in if len > 0 then snd (bbt_nand_copy d q p len s2) else s2) \<and>
    (\<forall>j. a \<le> j \<and> Suc j < a + good_blocks (bbt_buf s) a b \<longrightarrow>
       get_mapping_block_index_bbt (int j) s' = get_mapping_block_index_bbt (int (if j < k then j else Suc j)) s)"
proof -
  let ?o = "bbt_order (bbt_buf s) a b"
  have le: "good_blocks (bbt_buf s) a b \<le> b - a"
    by (rule good_blocks_le)
  have kb: "k < b" "Suc k < b" "k - a < good_blocks (bbt_buf s) a b" "Suc (k - a) < good_blocks (bbt_buf s) a b"
    using k le by linarith+
  have p': "p = ?o ! (k - a)" and q': "q = ?o ! Suc (k - a)"
    using p q get_mapping_bbt_order [OF r k(1) kb(1)] get_mapping_bbt_order [OF r _ kb(2)] k(1)
    by (simp_all add: Suc_diff_le)
  have pl: "p div 4 < length (bbt_buf s)"
    using bbt_order_range(4) [OF r, of "k - a"] kb(1) k(1) by (simp add: p' diff_less_mono)
  obtain s1 s' where s: "bbt_set_block_state d p True s = Inr s1" "remap_block_bbt d k p len s = Inr (True, s')"
      "bbt_buf s1 = set_bad p True (bbt_buf s)" "bbt_range s1 a b" "keeps_table s1 s'"
      "s' = (let new_blk = bbt_order (set_bad p True (bbt_buf s)) a b ! (k - a); s2 = snd (bbt_nand_erase d new_blk s1)
          in if len > 0 then snd (bbt_nand_copy d new_blk p len s2) else s2)"
    using remap_block_bbt_result [OF r f k(1) kb(1) pl, of d len] by blast
  note moved = order_after_remap [OF kb(3) p' pl]
  have "get_mapping_block_index_bbt (int j) s' = get_mapping_block_index_bbt (int (if j < k then j else Suc j)) s"
    if j: "a \<le> j" "Suc j < a + good_blocks (bbt_buf s) a b" for j
  proof -
    have jb: "j < b" "Suc j < b" "Suc (j - a) < good_blocks (bbt_buf s) a b"
      using j le by linarith+
    have rs': "bbt_range s' a b" "bbt_buf s' = set_bad p True (bbt_buf s)"
      using s(3,4) keeps_table_bbt(1,2) [OF s(5)] by simp_all
    have "get_mapping_block_index_bbt (int j) s' = Inr (int (?o ! (if j - a < k - a then j - a else Suc (j - a))))"
      using get_mapping_bbt_order [OF rs'(1) j(1) jb(1)] moved [OF jb(3)] by (simp add: rs'(2))
    also have "\<dots> = get_mapping_block_index_bbt (int (if j < k then j else Suc j)) s"
      using get_mapping_bbt_order [OF r j(1) jb(1)] get_mapping_bbt_order [OF r _ jb(2)] j(1) k(1)
      by (auto simp: Suc_diff_le)
    finally show ?thesis .
  qed
  moreover have "bbt_order (set_bad p True (bbt_buf s)) a b ! (k - a) = q"
    using moved [OF kb(4)] by (simp add: q')
  ultimately show ?thesis
    using s(1,2,6) by (intro exI [of _ s1] exI [of _ s']) simp
qed

theorem remap_block_bbt_displaces_witness:
  "\<exists>s1 s'. bbt_set_block_state sample_nand 0 True (sample_bbt (Some [(0, 16)])) = Inr s1 \<and>
    remap_block_bbt sample_nand 0 0 4 (sample_bbt (Some [(0, 16)])) = Inr (True, s') \<and>
    s' = snd (bbt_nand_copy sample_nand 2 0 4 (snd (bbt_nand_erase sample_nand 2 s1)))"
proof -
  let ?s = "sample_bbt (Some [(0, 16)])"
  have o: "bbt_order (bbt_buf ?s) 0 4 = [0, 2, 3, 1]" "good_blocks (bbt_buf ?s) 0 4 = 3"
    by (simp_all add: bbt_order_def good_blocks_def sample_bbt_def blk_bad_def upt_rec)
  have "get_mapping_block_index_bbt (int 0) ?s = Inr (int 0)" "get_mapping_block_index_bbt (int (Suc 0)) ?s = Inr (int 2)"
    using get_mapping_bbt_order [OF sample_bbt_range, of 0] get_mapping_bbt_order [OF sample_bbt_range, of 1] by (simp_all add: o)
  moreover have "bmt_fits ?s" "Suc 0 < 0 + good_blocks (bbt_buf ?s) 0 4"
    by (simp_all add: o bmt_fits_def) (simp add: sample_bbt_def)
  ultimately have "\<exists>s1 s'. bbt_set_block_state sample_nand 0 True ?s = Inr s1 \<and>
      remap_block_bbt sample_nand 0 0 4 ?s = Inr (True, s') \<and>
      s' = (let s2 = snd (bbt_nand_erase sample_nand 2 s1) in if (4 :: int) > 0 then snd (bbt_nand_copy sample_nand 2 0 4 s2) else s2)"
    using remap_block_bbt_displaces [OF sample_bbt_range, of 0 0 2 sample_nand 4] by blast
  then show ?thesis by (simp add: Let_def)
qed


text \<open>
  Without a configured range nothing is remapped: \<open>mapping_block_in_range\<close> gives the range
  in blocks where \<open>get_mapping_block_index_bbt\<close> expects bytes, so that every block stays
  mapped to itself. A remapping then erases the block whose data it is to save and copies
  the block onto itself.
\<close>

theorem remap_without_range_erases:
  assumes r: "no_range s" "total_blks s < 2 ^ blk_shift s" and f: "bmt_fits s"
    and k: "k < 2 ^ 16" "k < 4 * length (bbt_buf s)"
  shows "\<exists>s1 s'. bbt_set_block_state d k True s = Inr s1 \<and>
    get_mapping_block_index_bbt (int k) s = Inr (int k) \<and> remap_block_bbt d k k len s = Inr (True, s') \<and>
    s' = (let s2 = snd (bbt_nand_erase d k s1) in if len > 0 then snd (bbt_nand_copy d k k len s2) else s2) \<and>
    get_mapping_block_index_bbt (int k) s' = Inr (int k)"
proof -
  have "k div 4 < length (bbt_buf s)"
    using k(2) by (simp add: less_mult_imp_div_less mult.commute)
  then obtain c where c: "bbt_set_block_state d k True s = Inr (s\<lparr>bbt_buf := set_bad k True (bbt_buf s), chip := c\<rparr>)"
    using bbt_set_block_state_result [OF f] by blast
  define s1 where "s1 = s\<lparr>bbt_buf := set_bad k True (bbt_buf s), chip := c\<rparr>"
  define s' where "s' = (let s2 = snd (bbt_nand_erase d k s1) in if len > 0 then snd (bbt_nand_copy d k k len s2) else s2)"
  have keeps: "keeps_table s1 s'"
    by (auto simp: s'_def Let_def intro: erase_keeps_table copy_keeps_table keeps_table_trans)
  have r1: "no_range s1" "total_blks s1 < 2 ^ blk_shift s1"
    using r by (simp_all add: s1_def no_range_def)
  have "no_range s'" "total_blks s' < 2 ^ blk_shift s'"
    using keeps r1 by (auto simp: keeps_table_def no_range_def)
  moreover have "remap_block_bbt d k k len s = Inr (True, s')"
    using no_range_identity [OF r1]
    by (simp add: remap_block_bbt_def no_range_lookup [OF r(1)] c s1_def [symmetric] u16_of_small [OF k(1)] s'_def Let_def)
  ultimately show ?thesis
    using c no_range_identity [OF r] no_range_identity [of s']
    by (intro exI [of _ s1] exI [of _ s']) (simp add: s1_def [symmetric] s'_def)
qed

theorem remap_without_range_erases_witness:
  "\<exists>s1 s'. bbt_set_block_state sample_nand 0 True (sample_bbt None) = Inr s1 \<and>
    get_mapping_block_index_bbt (int 0) (sample_bbt None) = Inr (int 0) \<and>
    remap_block_bbt sample_nand 0 0 4 (sample_bbt None) = Inr (True, s') \<and>
    s' = (let s2 = snd (bbt_nand_erase sample_nand 0 s1)
          in if (4 :: int) > 0 then snd (bbt_nand_copy sample_nand 0 0 4 s2) else s2) \<and>
    get_mapping_block_index_bbt (int 0) s' = Inr (int 0)"
  by (rule remap_without_range_erases) (simp_all add: no_range_def bmt_fits_def sample_bbt_def)

text \<open>
  C24. With the bad block table, \<open>erase\<close>, \<open>block_isbad\<close> and \<open>block_markbad\<close> of the MTD layer
  always end with a result, whatever the driver reports: there are at most eleven attempts
  for each block, no access is out of bounds, and the table stays well formed.
\<close>

theorem bbt_mtd_operations_end:
  assumes inv: "bbt_inv N s" and len: "0 < len" "addr + len \<le> N * blk_size s"
    and fuel: "11 * spans (blk_size s) addr (addr + len) < fuel"
  shows "(\<exists>ret fail t. mtk_bmt_mtd_erase fuel d (mtk_bmt_bbt_ops d) addr len s = Inr (ret, fail, t) \<and> bbt_inv N t) \<and>
    (\<exists>ret t. mtk_bmt_block_isbad d (mtk_bmt_bbt_ops d) addr s = Inr (ret, t) \<and> bbt_inv N t) \<and>
    (\<exists>ret t. mtk_bmt_block_markbad d (mtk_bmt_bbt_ops d) addr s = Inr (ret, t) \<and> bbt_inv N t)"
proof -
  have "addr < N * blk_size s" using len by simp
  then show ?thesis
    using bbt.mtd_erase_inv [OF inv len fuel, of d d] bbt.isbad_inv [OF inv, of addr d d]
      bbt.markbad_inv [OF inv, of addr d d]
    by (auto simp: wp_def split: sum.splits)
qed

theorem bbt_mtd_operations_end_witness:
  "\<exists>ret fail t. mtk_bmt_mtd_erase 40 sample_nand (mtk_bmt_bbt_ops sample_nand) 1 7 (sample_bbt (Some [(0, 16)])) = Inr (ret, fail, t)"
proof -
  have "bbt_inv 4 (sample_bbt (Some [(0, 16)]))"
    using sample_bbt_range
    by (auto simp: bbt_inv_def blk_geom_def bmt_fits_def no_range_def blk_addr_def sample_bbt_def intro!: exI [of _ 0] exI [of _ 4])
  moreover have "11 * spans (blk_size (sample_bbt (Some [(0, 16)]))) 1 (1 + 7) < 40"
    by (simp add: spans_def blocks_to_go_def sample_bbt_def)
  moreover have "1 + 7 \<le> 4 * blk_size (sample_bbt (Some [(0, 16)]))"
    by (simp add: sample_bbt_def)
  ultimately show ?thesis
    using bbt_mtd_operations_end [of 4 "sample_bbt (Some [(0, 16)])" 7 1 40 sample_nand] by auto
qed

end
