(* ===== verification/Mtk_V2_Props.thy ===== *)
theory Mtk_V2_Props
  imports Mtk_V2_Scan Mtk_Bbt_Props
begin

text \<open>
  The properties of the version 2 mapping: the scan of a fresh chip, remapping, the MTD
  operations on top of it, and the table that is stored on the chip and read again.
\<close>

section \<open>The interface\<close>



section \<open>Properties\<close>

text \<open>A chip of eight blocks whose first three are for data.\<close>

definition sample_v2 :: "'n \<Rightarrow> u8 list \<Rightarrow> nat \<Rightarrow> 'n bmt_desc" where
  "sample_v2 c buf idx =
     \<lparr>mtd = \<lparr>msize = 4, erasesize = 4, writesize = 2, oobsize = 0, bitflip_threshold = 0, ecc_strength = 0\<rparr>,
      bbt_buf = buf, data_buf = [], ops_sig = bmt_sig, table_size = 6, pg_size = 2, blk_size = 4,
      pg_shift = 1, blk_shift = 2, pool_lba = 3, pool_pba = 0, bb_max = 2, total_blks = 8, bmt_blk_idx = idx,
      bmt_pgs = 20, remap_range = None, oob_offset = 0, ni = None, chip = c\<rparr>"












text \<open>
  C19. Remapping a block is safe as long as the table is inside the buffer: every access is in
  bounds, and no two logical blocks share a physical block afterwards. On success the block
  has got a physical block that no logical block had, the other blocks have kept theirs, and
  the table lies in a pool entry that no logical block uses, or could not be stored at all;
  on failure nothing has changed.
\<close>

theorem remap_block_v2_safe:
  assumes "v2_inv N s" and "k < N" and "bmt_blk_idx s < pool_len s"
  shows "\<exists>r t. remap_block_v2 d k p len s = Inr (r, t) \<and> v2_inv N t \<and>
    (if r then phys t k \<notin> phys s ` {..<N} \<and> (\<forall>j < N. j \<noteq> k \<longrightarrow> phys t j = phys s j) \<and>
       (bmt_blk_idx t = NO_BMT \<or> bmt_blk_idx t \<le> bmt_blk_idx s \<and> pool_flag t (bmt_blk_idx t) \<noteq> NORMAL_MAPPED)
     else t = s)"
proof -
  have "idx_ok s" using assms(3) by (simp add: idx_ok_def)
  moreover have "bmt_blk_idx s < pool_len s \<or> Bad_access \<in> {}" using assms(3) by simp
  ultimately have "wp {} (remap_block_v2 d k p len s) (\<lambda>(r, t). v2_inv N t \<and> same_desc s t \<and> idx_ok t \<and>
    (if r then phys t k \<notin> phys s ` {..<N} \<and> (\<forall>j < N. j \<noteq> k \<longrightarrow> phys t j = phys s j) \<and>
       (bmt_blk_idx t = NO_BMT \<or> bmt_blk_idx t \<le> bmt_blk_idx s \<and> pool_flag t (bmt_blk_idx t) \<noteq> NORMAL_MAPPED)
     else t = s))"
    by (rule remap_block_v2_wp [OF assms(1,2)])
  then show ?thesis
  proof (rule wp_returns, goal_cases)
    case (1 x)
    obtain r t where x: "x = (r, t)" by (cases x)
    from 1 show ?case unfolding x prod.case by (intro exI [of _ r] exI [of _ t]) (elim conjE, intro conjI)
  qed
qed

text \<open>Data blocks 0 to 2 on the chip's blocks 0, 1 and 3, and a pool of 4, 6 and the table in 7.\<close>

definition sample_table :: "u8 list" where
  "sample_table =
     [0xff, 0xff, 0xff, 0xff, 0, 0, 1, 0, 3, 0, 0, 0, 0, 0, 0, 0,
      4, 0, 0, 0, 6, 0, 0, 0, 7, 0, 2, 0, 0, 0, 0, 0, 0, 0, 0, 0, 0, 0, 0, 0]"

lemma sample_table_entries:
  "half_at sample_table 0 = 0" "half_at sample_table (Suc 0) = 1" "half_at sample_table 2 = 3"
  "half_at sample_table 6 = 4" "half_at sample_table 7 = 0" "half_at sample_table 8 = 6" "half_at sample_table 9 = 0"
  "half_at sample_table 10 = 7" "half_at sample_table 11 = 2" "half_at sample_table 12 = 0" "half_at sample_table 14 = 0"
  "half_at sample_table 16 = 0" "length sample_table = 40"
  by (simp_all add: half_at_def sample_table_def)

lemma sample_v2_inv: "v2_inv 3 (sample_v2 c sample_table 2)"
proof -
  have "{..<3 :: nat} = {0, 1, 2}" by auto
  moreover have "i < 6 \<longleftrightarrow> i \<in> {0, 1, 2, 3, 4, 5}" "i < 3 \<longleftrightarrow> i \<in> {0, 1, 2}" for i :: nat by auto
  ultimately show ?thesis
    by (simp add: v2_inv_def phys_def pool_blk_def pool_flag_def pool_len_def pool_cap_def bmt_fits_def blk_geom_def
        sample_v2_def sample_table_entries)
qed

theorem remap_block_v2_safe_witness:
  "\<exists>r t. remap_block_v2 sample_nand 1 1 4 (sample_v2 () sample_table 2) = Inr (r, t) \<and> v2_inv 3 t"
  using remap_block_v2_safe [OF sample_v2_inv, of 1 "()" sample_nand 1 4]
  by (auto simp: sample_v2_def pool_len_def pool_cap_def sample_table_entries(13))





end
