(* ===== verification/Mtk_V2_Store.thy ===== *)
theory Mtk_V2_Store
  imports Mtk_V2_Props
begin

text \<open>
  The table on the chip: what \<open>upload_bmt\<close> stores and what the search at the next start makes
  of it, and the bounds of the buffer a fresh table is made in.
\<close>

section \<open>Finding the table again\<close>

lemma get_bmt_index_from_result:
  assumes "\<forall>i < n. pool_blk s i \<noteq> 0 \<and> pool_flag s i \<noteq> BMT_MAPPED"
    and "pool_blk s n = 0 \<or> pool_flag s n = BMT_MAPPED" and "n < pool_cap s" and "i \<le> n" and "n - i < fuel"
  shows "get_bmt_index_from fuel i s = Inr (if pool_blk s n = 0 then 0 else u16_of (int n))"
  using assms(4,5)
proof (induction fuel arbitrary: i)
  case (Suc fuel)
  have "5 + 2 * (table_size s + 2 * i + 1) < length (bbt_buf s)"
    using pool_capD [OF assms(3)] Suc.prems(1) by simp
  then have get: "tbl_get (bmt_block s i) s = Inr (pool_blk s i)" "tbl_get (bmt_mapped s i) s = Inr (pool_flag s i)"
    by (simp_all add: tbl_get_def bmt_block_def bmt_mapped_def pool_blk_def pool_flag_def)
  show ?case
  proof (cases "i = n")
    case True
    then show ?thesis
      using assms(2) get [unfolded True] by (auto simp: BMT_TBL_DEF_VAL_def)
  next
    case False
    then have "i < n" using Suc.prems(1) by simp
    then have "pool_blk s i \<noteq> 0" "pool_flag s i \<noteq> BMT_MAPPED" using assms(1) by blast+
    then show ?thesis
      using \<open>i < n\<close> Suc.IH [of "i + 1"] Suc.prems(2) by (simp add: get BMT_TBL_DEF_VAL_def)
  qed
qed simp

lemma get_bmt_index_result:
  assumes "\<forall>i < n. pool_blk s i \<noteq> 0 \<and> pool_flag s i \<noteq> BMT_MAPPED"
    and "pool_blk s n = 0 \<or> pool_flag s n = BMT_MAPPED" and "n < pool_cap s"
  shows "get_bmt_index s = Inr (if pool_blk s n = 0 then 0 else u16_of (int n))"
proof -
  have "n < length (bbt_buf s)"
    using pool_capD [OF assms(3)] by simp
  then show ?thesis
    unfolding get_bmt_index_def using assms by (intro get_bmt_index_from_result) auto
qed

text \<open>The driver returns for a block the buffer of \<open>t\<close> with the signature of the table.\<close>

definition reads_back :: "'n nand_dev \<Rightarrow> 'n bmt_desc \<Rightarrow> nat \<Rightarrow> 'n bmt_desc \<Rightarrow> bool" where
  "reads_back d t b u =
     (case read_oob d ((blk_pg u b * 2 ^ pg_shift u) mod 2 ^ 32) (length (bbt_buf u)) (oob_offset u) 4 (chip u) of
        ((r, dat, fdm), _) \<Rightarrow> 0 \<le> r \<and> dat = bbt_buf t \<and> length fdm = 4 \<and> take 3 (drop 1 fdm) = bmt_sig)"

text \<open>The descriptor at the next start: the buffer is filled with 0xff again.\<close>

definition restarted :: "'n bmt_desc \<Rightarrow> 'n bmt_desc" where
  "restarted t = t\<lparr>bbt_buf := map (\<lambda>_. 0xff) (bbt_buf t), bmt_blk_idx := 0\<rparr>"

lemma find_bmt_stored:
  assumes "reads_back d t b u" and hdr: "take 4 (bbt_buf t) = BMT_sig @ [BBMT_VERSION]"
    and same: "table_size u = table_size t" "length (bbt_buf u) = length (bbt_buf t)"
    and idx: "get_bmt_index t = Inr n"
  shows "\<exists>c. find_bmt d (b # bs) u = Inr (n \<noteq> 0, u\<lparr>chip := c, bbt_buf := bbt_buf t, bmt_blk_idx := n\<rparr>)"
proof -
  obtain r dat fdm c where rd: "bbt_nand_read d (blk_pg u b) (length (bbt_buf u)) 4 u =
        ((if r < 0 then r else 0, dat, fdm), u\<lparr>chip := c\<rparr>)"
      "read_oob d ((blk_pg u b * 2 ^ pg_shift u) mod 2 ^ 32) (length (bbt_buf u)) (oob_offset u) 4 (chip u) = ((r, dat, fdm), c)"
    by (rule bbt_nand_read_result)
  have r: "0 \<le> r" "dat = bbt_buf t" "length fdm = 4" "take 3 (drop 1 fdm) = bmt_sig"
    using assms(1) unfolding reads_back_def rd(2) by simp_all
  have "take 3 (take 4 (bbt_buf t)) = BMT_sig" "take 4 (bbt_buf t) ! 3 = BBMT_VERSION"
    unfolding hdr by (simp_all add: BMT_sig_def)
  then have valid: "is_valid_bmt (bbt_buf t) fdm"
    using r(4) by (simp add: is_valid_bmt_def MAIN_SIGNATURE_OFFSET_def OOB_SIGNATURE_OFFSET_def)
  define u2 where "u2 = u\<lparr>chip := c, bbt_buf := bbt_buf t\<rparr>"
  have buf: "fill_buf (bbt_buf t) (bbt_buf u) = bbt_buf t"
    by (simp add: fill_buf_def same(2))
  have get: "tbl_get j u2 = tbl_get j t" "bmt_block u2 i = bmt_block t i" "bmt_mapped u2 i = bmt_mapped t i" for i j
    by (simp_all add: tbl_get_def u2_def bmt_block_def bmt_mapped_def same(1))
  have "get_bmt_index_from fuel i u2 = get_bmt_index_from fuel i t" for fuel i
    by (induction fuel arbitrary: i) (simp_all add: get cong: if_cong)
  then have "get_bmt_index u2 = Inr n"
    using idx by (simp add: get_bmt_index_def) (simp add: u2_def)
  then show ?thesis
    using r(1,3) valid by (intro exI [of _ c]) (simp add: rd(1) r(2) buf u2_def [symmetric], simp add: u2_def Let_def)
qed

section \<open>Storing it\<close>

lemma bbt_nand_erase_result:
  "bbt_nand_erase d b s = (fst (erase_blk d (blk_addr s b) (blk_size s) (chip s)),
     s\<lparr>chip := snd (erase_blk d (blk_addr s b) (blk_size s) (chip s))\<rparr>)"
  by (simp add: bbt_nand_erase_def Let_def split_def)

lemma write_bmt_result:
  assumes "bmt_fits s" and "W = write_oob d (blk_addr s b) (take (bmt_pgs s * 2 ^ pg_shift s) (bbt_buf s))
    (OOB_SIGNATURE_OFFSET + oob_offset s) (ops_sig s) (chip s)"
  shows "write_bmt d b s = Inr (fst (fst W), s\<lparr>chip := snd W\<rparr>)"
  using assms by (simp add: write_bmt_def Let_def split_def bmt_fits_def)

text \<open>The first attempt of \<open>upload_bmt\<close> at a pool entry, when erasing and writing succeed.\<close>

definition stored_chip :: "'n nand_dev \<Rightarrow> nat \<Rightarrow> 'n bmt_desc \<Rightarrow> 'n" where
  "stored_chip d n s =
     snd (write_oob d (blk_addr s (pool_blk s n))
       (take (bmt_pgs s * 2 ^ pg_shift s) (BMT_sig @ [BBMT_VERSION] @ drop 4 (bbt_buf s)))
       (OOB_SIGNATURE_OFFSET + oob_offset s) (ops_sig s)
       (snd (erase_blk d (blk_addr s (pool_blk s n)) (blk_size s) (chip s))))"

lemma upload_ok:
  assumes n: "n < pool_cap s" "n < 2 ^ 16" "pool_flag s n \<noteq> NORMAL_MAPPED" and fits: "bmt_fits s"
    and er: "\<And>c. fst (erase_blk d (blk_addr s (pool_blk s n)) (blk_size s) c) = 0"
    and wr: "\<And>dat c. fst (fst (write_oob d (blk_addr s (pool_blk s n)) dat (OOB_SIGNATURE_OFFSET + oob_offset s) (ops_sig s) c)) = 0"
  shows "upload_from d (Suc n) s =
    Inr (n, s\<lparr>bbt_buf := BMT_sig @ [BBMT_VERSION] @ drop 4 (bbt_buf s), chip := stored_chip d n s\<rparr>)"
proof -
  have len: "5 + 2 * (table_size s + 2 * n + 1) < length (bbt_buf s)"
    by (rule pool_capD [OF n(1)])
  then have get: "tbl_get (bmt_block s n) s = Inr (pool_blk s n)" "tbl_get (bmt_mapped s n) s = Inr (pool_flag s n)"
    by (simp_all add: tbl_get_def bmt_block_def bmt_mapped_def pool_blk_def pool_flag_def)
  define c where "c = snd (erase_blk d (blk_addr s (pool_blk s n)) (blk_size s) (chip s))"
  have e: "bbt_nand_erase d (pool_blk s n) s = (0, s\<lparr>chip := c\<rparr>)"
    using er [of "chip s"] by (simp add: bbt_nand_erase_result c_def)
  define s2 where "s2 = s\<lparr>chip := c, bbt_buf := BMT_sig @ [BBMT_VERSION] @ drop 4 (bbt_buf s)\<rparr>"
  have "length (bbt_buf s2) = length (bbt_buf s)"
    using len by (simp add: s2_def BMT_sig_def)
  then have "bmt_fits s2"
    using fits by (simp add: bmt_fits_def s2_def)
  from write_bmt_result [OF this refl, of d "pool_blk s n"] wr
  have w: "write_bmt d (pool_blk s n) s2 = Inr (0, s2\<lparr>chip := stored_chip d n s\<rparr>)"
    by (simp add: s2_def blk_addr_def stored_chip_def c_def)
  have "u16_of (int n) = n"
    using n(2) by (simp add: u16_of_def flip: of_nat_mod)
  then show ?thesis
    using n(3) w by (simp add: get e s2_def Let_def)
qed

text \<open>An attempt at an entry whose block cannot be erased.\<close>

lemma upload_erase_fails:
  assumes n: "n < pool_cap s" "pool_flag s n \<noteq> NORMAL_MAPPED"
    and er: "\<And>c. fst (erase_blk d (blk_addr s (pool_blk s n)) (blk_size s) c) \<noteq> 0"
  shows "\<exists>c. upload_from d (Suc n) s = upload_from d n (s\<lparr>chip := c, bbt_buf := put_half (bmt_block s n) 0 (bbt_buf s)\<rparr>)"
proof -
  have len: "5 + 2 * (table_size s + 2 * n + 1) < length (bbt_buf s)"
    by (rule pool_capD [OF n(1)])
  then have get: "tbl_get (bmt_block s n) s = Inr (pool_blk s n)" "tbl_get (bmt_mapped s n) s = Inr (pool_flag s n)"
    by (simp_all add: tbl_get_def bmt_block_def bmt_mapped_def pool_blk_def pool_flag_def)
  define e c where "e = fst (erase_blk d (blk_addr s (pool_blk s n)) (blk_size s) (chip s))"
    and "c = snd (erase_blk d (blk_addr s (pool_blk s n)) (blk_size s) (chip s))"
  then have e: "bbt_nand_erase d (pool_blk s n) s = (e, s\<lparr>chip := c\<rparr>)" "e \<noteq> 0"
    using er [of "chip s"] by (simp_all add: bbt_nand_erase_result)
  have "tbl_put (bmt_block (s\<lparr>chip := c\<rparr>) n) 0 (s\<lparr>chip := c\<rparr>) =
      Inr (s\<lparr>chip := c, bbt_buf := put_half (bmt_block s n) 0 (bbt_buf s)\<rparr>)"
    using len by (simp add: tbl_put_def bmt_block_def)
  then show ?thesis
    using n(2) e by (intro exI [of _ c]) (simp add: get)
qed


section \<open>Properties\<close>


text \<open>A chip that stores what is written to a block, and blocks that cannot be erased.\<close>

type_synonym sample_chip = "nat \<Rightarrow> u8 list \<times> u8 list"

definition store_nand :: "nat list \<Rightarrow> sample_chip nand_dev" where
  "store_nand broken =
     \<lparr>read_oob = (\<lambda>from len oo ooblen c. ((0, take len (fst (c from)), take ooblen (drop oo (snd (c from)))), c)),
      write_oob = (\<lambda>to dat oo oob c. ((0, length dat, length oob), c(to := (dat, replicate oo 0xff @ oob)))),
      erase_blk = (\<lambda>a len c. (if a \<in> set broken then - EIO else 0, c(a := ([], [])))),
      block_isbad = (\<lambda>_ c. (0, c)), block_markbad = (\<lambda>_ c. (0, c))\<rparr>"

definition sample_stored :: "sample_chip bmt_desc" where
  "sample_stored = sample_v2 (\<lambda>_. ([], [])) sample_table 2"

lemma sample_pool:
  "pool_len sample_stored = 6" "pool_blk sample_stored 0 = 4" "pool_blk sample_stored 1 = 6" "pool_blk sample_stored 2 = 7"
  "pool_flag sample_stored 0 = NO_MAPPED" "pool_flag sample_stored 1 = NO_MAPPED" "pool_flag sample_stored 2 = BMT_MAPPED"
  "bmt_blk_idx sample_stored = 2" "table_size sample_stored = 6" "blk_shift sample_stored = 2" "blk_size sample_stored = 4"
  by (simp_all add: sample_stored_def sample_v2_def pool_len_def pool_cap_def pool_blk_def pool_flag_def sample_table_entries
      NO_MAPPED_def BMT_MAPPED_def)



text \<open>
  C26. A table that had to move is lost: when the block set aside for the table can no longer
  be erased, \<open>upload_bmt\<close> stores it at the entry before and clears its old entry, but leaves the
  mark of the table there. The search at the next start reaches the cleared entry first,
  takes the index for wrong and gives up, so that the chip is scanned anew without the
  remappings made so far.
\<close>

theorem relocated_table_lost:
  assumes inv: "v2_inv N s" and n: "bmt_blk_idx s = Suc n" "Suc n < pool_len s"
    and pool: "\<forall>i \<le> n. pool_blk s i \<noteq> 0 \<and> pool_flag s i \<noteq> BMT_MAPPED" "pool_flag s n = NO_MAPPED"
      "pool_flag s (Suc n) = BMT_MAPPED" "pool_blk s (Suc n) \<noteq> 0"
    and bad: "\<And>c. fst (erase_blk d (blk_addr s (pool_blk s (Suc n))) (blk_size s) c) \<noteq> 0"
    and er: "\<And>c. fst (erase_blk d (blk_addr s (pool_blk s n)) (blk_size s) c) = 0"
    and wr: "\<And>dat c. fst (fst (write_oob d (blk_addr s (pool_blk s n)) dat (OOB_SIGNATURE_OFFSET + oob_offset s) (ops_sig s) c)) = 0"
    and rd: "\<And>t. upload_current d s = Inr t \<Longrightarrow> reads_back d t (pool_blk s n) (restarted t)"
  shows "\<exists>t v. upload_current d s = Inr t \<and> bmt_blk_idx t = n \<and>
    find_bmt d (pool_blk s n # bs) (restarted t) = Inr (False, v)"
proof -
  have nc: "n < pool_cap s" "Suc n < pool_cap s" "n < 2 ^ 16" and len: "4 \<le> length (bbt_buf s)"
    using n(2) v2_invD(3,4) [OF inv] by (simp_all add: pool_len_def)
  obtain c where c: "upload_from d (Suc (Suc n)) s =
      upload_from d (Suc n) (s\<lparr>chip := c, bbt_buf := put_half (bmt_block s (Suc n)) 0 (bbt_buf s)\<rparr>)"
    using upload_erase_fails [OF nc(2) _ bad] pool(3) by (auto simp: BMT_MAPPED_def NORMAL_MAPPED_def)
  define s1 where "s1 = s\<lparr>chip := c, bbt_buf := put_half (bmt_block s (Suc n)) 0 (bbt_buf s)\<rparr>"
  have "5 + 2 * bmt_block s (Suc n) < length (bbt_buf s)"
    using pool_capD [OF nc(2)] by (simp add: bmt_block_def)
  then have h1: "half_at (bbt_buf s1) j = (if j = table_size s + 2 * Suc n then 0 else half_at (bbt_buf s) j)" for j
    by (simp add: s1_def half_at_put_half bmt_block_def)
  have "table_size s + 2 * i + 1 \<noteq> table_size s + 2 * Suc n" for i by presburger
  then have e1: "pool_blk s1 i = (if i = Suc n then 0 else pool_blk s i)" "pool_flag s1 i = pool_flag s i" for i
    unfolding pool_blk_def pool_flag_def h1 by (simp_all add: s1_def)
  have cap1: "pool_cap s1 = pool_cap s" "bmt_fits s1" "length (bbt_buf s1) = length (bbt_buf s)"
    using v2_invD(5) [OF inv] by (simp_all add: s1_def pool_cap_def bmt_fits_def)
  have f1: "blk_addr s1 b = blk_addr s b" "blk_size s1 = blk_size s" "oob_offset s1 = oob_offset s" "ops_sig s1 = ops_sig s" for b
    by (simp_all add: s1_def blk_addr_def)
  define c' where "c' = stored_chip d n s1"
  have c': "upload_from d (Suc n) s1 = Inr (n, s1\<lparr>bbt_buf := BMT_sig @ [BBMT_VERSION] @ drop 4 (bbt_buf s1), chip := c'\<rparr>)"
    unfolding c'_def using nc er wr pool(2)
    by (intro upload_ok) (simp_all add: cap1 e1 f1 NO_MAPPED_def NORMAL_MAPPED_def)
  define t where "t = s1\<lparr>bbt_buf := BMT_sig @ [BBMT_VERSION] @ drop 4 (bbt_buf s1), chip := c', bmt_blk_idx := n\<rparr>"
  have up: "upload_current d s = Inr t"
    using c c' by (simp add: upload_current_def upload_bmt_def n(1) t_def s1_def [symmetric])
  have ht: "half_at (bbt_buf t) j = half_at (bbt_buf s1) j" for j
    using half_at_header [of "BMT_sig @ [BBMT_VERSION]" "bbt_buf s1" j] len cap1(3) by (simp add: t_def BMT_sig_def)
  have et: "pool_blk t i = pool_blk s1 i" "pool_flag t i = pool_flag s1 i" for i
    unfolding pool_blk_def pool_flag_def ht by (simp_all add: t_def)
  have lt: "length (bbt_buf t) = length (bbt_buf s)" "table_size t = table_size s"
    using len cap1(3) by (simp_all add: t_def BMT_sig_def s1_def)
  have "Suc n < pool_cap t" using nc(2) by (simp add: pool_cap_def lt)
  then have "get_bmt_index t = Inr (if pool_blk t (Suc n) = 0 then 0 else u16_of (int (Suc n)))"
    using pool(1) by (intro get_bmt_index_result) (auto simp: et e1)
  then have "get_bmt_index t = Inr 0" by (simp add: et e1)
  moreover have "take 4 (bbt_buf t) = BMT_sig @ [BBMT_VERSION]"
    by (simp add: t_def BMT_sig_def)
  ultimately show ?thesis
    using find_bmt_stored [OF rd [OF up], of 0 bs] up by (auto simp: restarted_def t_def)
qed


lemma sample_moved_reads_back:
  assumes "upload_current (store_nand [28]) sample_stored = Inr t"
  shows "reads_back (store_nand [28]) t 6 (restarted t)"
proof -
  have cap: "(2 :: nat) < pool_cap sample_stored" "bmt_fits sample_stored" "length (bbt_buf sample_stored) = 40"
    by (simp_all add: sample_stored_def sample_v2_def pool_cap_def bmt_fits_def sample_table_entries(13))
  obtain c where c: "upload_from (store_nand [28]) (Suc 2) sample_stored =
      upload_from (store_nand [28]) 2 (sample_stored\<lparr>chip := c, bbt_buf := put_half (bmt_block sample_stored 2) 0 (bbt_buf sample_stored)\<rparr>)"
    using upload_erase_fails [OF cap(1), of "store_nand [28]"]
    by (auto simp: sample_pool store_nand_def blk_addr_def EIO_def BMT_MAPPED_def NORMAL_MAPPED_def)
  define s1 where "s1 = sample_stored\<lparr>chip := c, bbt_buf := put_half (bmt_block sample_stored 2) 0 (bbt_buf sample_stored)\<rparr>"
  have h: "half_at (bbt_buf s1) j = (if j = 10 then 0 else half_at (bbt_buf sample_stored) j)" for j
    by (simp add: s1_def half_at_put_half cap(3) bmt_block_def sample_pool)
  have e: "pool_blk s1 1 = 6" "pool_flag s1 1 = NO_MAPPED"
    using sample_pool(3,6) by (simp_all add: pool_blk_def pool_flag_def h) (simp_all add: s1_def sample_pool)
  have f: "blk_shift s1 = 2" "blk_size s1 = 4" "table_size s1 = 6" "pg_shift s1 = 1" "bmt_pgs s1 = 20" "oob_offset s1 = 0"
      "ops_sig s1 = bmt_sig" "length (bbt_buf s1) = 40"
    by (simp_all add: s1_def cap(3)) (simp_all add: sample_stored_def sample_v2_def)
  have "upload_from (store_nand [28]) (Suc 1) s1 = Inr (1, s1\<lparr>
      bbt_buf := BMT_sig @ [BBMT_VERSION] @ drop 4 (bbt_buf s1), chip := stored_chip (store_nand [28]) 1 s1\<rparr>)"
    by (rule upload_ok) (use e in \<open>simp_all add: f store_nand_def blk_addr_def pool_cap_def bmt_fits_def NO_MAPPED_def NORMAL_MAPPED_def\<close>)
  moreover have "upload_current (store_nand [28]) sample_stored =
      rbind (upload_from (store_nand [28]) (Suc 2) sample_stored) (\<lambda>(n, s1). Inr (s1\<lparr>bmt_blk_idx := n\<rparr>))"
    unfolding upload_current_def upload_bmt_def sample_pool(8) by simp
  ultimately have t: "t = s1\<lparr>bbt_buf := BMT_sig @ [BBMT_VERSION] @ drop 4 (bbt_buf s1),
      chip := stored_chip (store_nand [28]) 1 s1, bmt_blk_idx := 1\<rparr>"
    using assms unfolding c s1_def [symmetric] Suc_1 by simp
  have "stored_chip (store_nand [28]) 1 s1 24 = (bbt_buf t, 0xff # bmt_sig)"
    using f(8) e by (simp add: stored_chip_def store_nand_def f blk_addr_def t OOB_SIGNATURE_OFFSET_def BMT_sig_def)
  then show ?thesis
    using f(8) by (simp add: reads_back_def restarted_def t blk_pg_def store_nand_def f bmt_sig_def BMT_sig_def)
qed

theorem relocated_table_lost_witness:
  "\<exists>t v. upload_current (store_nand [28]) sample_stored = Inr t \<and> bmt_blk_idx t = 1 \<and>
    find_bmt (store_nand [28]) (pool_blk sample_stored 1 # []) (restarted t) = Inr (False, v)"
proof (rule relocated_table_lost)
  show "v2_inv 3 sample_stored"
    unfolding sample_stored_def by (rule sample_v2_inv)
  show "\<forall>i \<le> 1. pool_blk sample_stored i \<noteq> 0 \<and> pool_flag sample_stored i \<noteq> BMT_MAPPED"
    using sample_pool(2-6) by (auto simp: le_Suc_eq NO_MAPPED_def BMT_MAPPED_def)
  show "reads_back (store_nand [28]) t (pool_blk sample_stored 1) (restarted t)"
    if "upload_current (store_nand [28]) sample_stored = Inr t" for t
    using sample_moved_reads_back [OF that] sample_pool(3) by simp
qed (use sample_pool in \<open>simp_all add: eval_nat_numeral store_nand_def blk_addr_def EIO_def\<close>)


section \<open>The buffer of a fresh table\<close>

lemma round_up_less: "0 < y \<Longrightarrow> round_up x y < x + y"
proof -
  assume y: "0 < y"
  have "round_up x y \<le> x + (y - 1)"
    unfolding round_up_def by (rule div_times_less_eq_dividend)
  then show ?thesis using y by linarith
qed

lemma find_bmt_frame:
  assumes "find_bmt d bs s = Inr (f, t)"
  shows "table_size t = table_size s" "total_blks t = total_blks s" "length (bbt_buf t) = length (bbt_buf s)"
proof -
  have len: "length (fill_buf dat b) = length b" for dat b
    by (simp add: fill_buf_def)
  have "wp UNIV (find_bmt d bs s) (\<lambda>(_, t). table_size t = table_size s \<and> total_blks t = total_blks s \<and>
      length (bbt_buf t) = length (bbt_buf s))"
  proof (induction bs arbitrary: s)
    case (Cons b bs)
    obtain r dat fdm c where rd: "bbt_nand_read d (blk_pg s b) (length (bbt_buf s)) 4 s =
        ((if r < 0 then r else 0, dat, fdm), s\<lparr>chip := c\<rparr>)"
      by (rule bbt_nand_read_result)
    define s2 where "s2 = s\<lparr>chip := c, bbt_buf := fill_buf dat (bbt_buf s)\<rparr>"
    have s2: "table_size s2 = table_size s" "total_blks s2 = total_blks s" "length (bbt_buf s2) = length (bbt_buf s)"
      by (simp_all add: s2_def len)
    have IH: "wp UNIV (find_bmt d bs s2) (\<lambda>(_, t). table_size t = table_size s \<and> total_blks t = total_blks s \<and>
        length (bbt_buf t) = length (bbt_buf s))"
      using Cons.IH [of s2] by (simp add: s2)
    have idx: "wp UNIV (rbind (get_bmt_index s2) (\<lambda>idx. let s3 = s2\<lparr>bmt_blk_idx := idx\<rparr> in
        if idx = 0 then Inr (False, s3) else Inr (True, s3))) (\<lambda>(_, t). table_size t = table_size s \<and>
        total_blks t = total_blks s \<and> length (bbt_buf t) = length (bbt_buf s))"
      by (cases "get_bmt_index s2") (simp_all add: s2 Let_def)
    show ?case
      using IH idx by (simp add: rd s2_def [symmetric])
  qed simp
  then show "table_size t = table_size s" "total_blks t = total_blks s" "length (bbt_buf t) = length (bbt_buf s)"
    using assms by simp_all
qed

text \<open>
  C27. Making a table on a chip that has none writes past the buffer: \<open>mtk_bmt_init_v2\<close>
  allocates room for \<open>table_size\<close> entries of the larger of the two tables, but both are in the
  buffer, and the \<open>memset\<close> of the pool clears \<open>table_size\<close> entries behind the first table. This
  is so for every table of at least half as many entries as a page has bytes, in particular
  for the default of 8192 entries.
\<close>

theorem init_v2_overflows:
  assumes mem: "mem (length (bbt_buf (init_layout np s)))"
    and pg: "0 < pg_size s" "pg_size s \<le> 2 * or_default 0x2000 (np_table_size np)"
    and none: "find_bmt d (rev [pool_lba (init_layout np s)..<total_blks s]) (init_layout np s) = Inr (False, t)"
    and small: "total_blks s \<le> or_default 0x2000 (np_table_size np) + or_default 0x2000 (np_table_size np) * BBPOOL_RATIO div 100"
  shows "mtk_bmt_init_v2 d mem np s = Inl Bad_access"
proof -
  have layout: "table_size (init_layout np s) = or_default 0x2000 (np_table_size np)" "total_blks (init_layout np s) = total_blks s"
      "length (bbt_buf (init_layout np s)) = round_up (4 + or_default 0x2000 (np_table_size np) * 4) (pg_size s)"
    by (simp_all add: init_layout_def Let_def)
  note same = find_bmt_frame [OF none, unfolded layout]
  have "length (bbt_buf t) < 4 + table_size t * 4 + pg_size s"
    unfolding same by (rule round_up_less [OF pg(1)])
  also have "\<dots> \<le> 4 + 2 * table_size t + table_size t * 4"
    using pg(2) by (simp add: same)
  finally have "clear_pool t = Inl Bad_access"
    by (simp add: clear_pool_def)
  then show ?thesis
    using mem none small by (simp add: mtk_bmt_init_v2_def Let_def layout(2) same)
qed

theorem init_v2_overflows_witness:
  "mtk_bmt_init_v2 sample_nand (\<lambda>_. True)
     \<lparr>np_bmt_v2 = True, np_nmbm = False, np_bbt = False, np_remap_range = None, np_pool_size = Some 0,
      np_oob_offset = None, np_table_size = None,
      np_max_ratio = None, np_max_reserved = None, np_empty_ecc = False, np_force_create = False\<rparr> (sample_v2 () [] 0) = Inl Bad_access"
  by (rule init_v2_overflows) (simp_all add: sample_v2_def init_layout_def Let_def or_default_def u16_of_def BBPOOL_RATIO_def)


section \<open>Unmapping\<close>

text \<open>
  \<open>unmap_block_v2\<close> can give two logical blocks the same physical block: it maps a block to
  the physical block of the same number, but a chip with bad blocks at its first scan has that
  block mapped elsewhere. Writing to either logical block then destroys the other.
\<close>

theorem unmap_block_v2_aliases:
  assumes inv: "v2_inv N s" and idx: "bmt_blk_idx s < pool_len s" and jk: "j < N" "k < N" "j \<noteq> k" "phys s j = k"
  shows "\<exists>t. unmap_block_v2 d k s = Inr t \<and> phys t j = k \<and> phys t k = k"
proof -
  note I = v2_invD [OF inv]
  define s1 where "s1 = s\<lparr>bbt_buf := put_half k k (bbt_buf s)\<rparr>"
  have k: "5 + 2 * k < length (bbt_buf s)" "k < 2 ^ 16" "k < table_size s" "j < table_size s"
    using jk I(1-3,6) by (auto simp: blk_geom_def)
  have put: "tbl_put k k s = Inr s1"
    using k(1) by (simp add: tbl_put_def s1_def)
  have ph: "phys s1 j = k" "phys s1 k = k"
    using jk k(1,2) by (simp_all add: phys_def s1_def half_at_put_half)
  have s1: "bmt_blk_idx s1 = bmt_blk_idx s" "pool_cap s1 = pool_cap s" "bmt_fits s1" "table_size s1 = table_size s"
    using I(5) by (simp_all add: s1_def pool_cap_def bmt_fits_def)
  have "wp {} (upload_bmt d (bmt_blk_idx s1) s1) (\<lambda>(_, t). clears_pool s1 t)"
    unfolding upload_bmt_def
    by (rule wp_mono [OF upload_from_wp]) (use idx I(4) in \<open>auto simp: s1 pool_len_def\<close>)
  then obtain x where x: "upload_bmt d (bmt_blk_idx s1) s1 = Inr x" "case x of (_, t) \<Rightarrow> clears_pool s1 t"
    by (rule wp_returns)
  obtain r t where t: "x = (r, t)" by (cases x)
  have "phys t j = phys s1 j" "phys t k = phys s1 k"
    using clears_pool_entries(1) [of s1 t] x(2) k(3,4) by (simp_all add: t s1(4))
  then have "phys (t\<lparr>bmt_blk_idx := r\<rparr>) j = k" "phys (t\<lparr>bmt_blk_idx := r\<rparr>) k = k"
    using ph by (simp_all add: phys_def)
  then show ?thesis
    using x(1) by (simp add: unmap_block_v2_def put upload_current_def t)
qed

text \<open>A chip whose block 1 was bad at the first scan: block 1 is mapped to 2, and block 2 to 3.\<close>

definition sample_shifted :: "u8 list" where
  "sample_shifted =
     [0xff, 0xff, 0xff, 0xff, 0, 0, 2, 0, 3, 0, 0, 0, 0, 0, 0, 0,
      4, 0, 0, 0, 6, 0, 0, 0, 7, 0, 2, 0, 0, 0, 0, 0, 0, 0, 0, 0, 0, 0, 0, 0]"

lemma sample_shifted_entries:
  "half_at sample_shifted 0 = 0" "half_at sample_shifted (Suc 0) = 2" "half_at sample_shifted 2 = 3"
  "half_at sample_shifted 6 = 4" "half_at sample_shifted 7 = 0" "half_at sample_shifted 8 = 6" "half_at sample_shifted 9 = 0"
  "half_at sample_shifted 10 = 7" "half_at sample_shifted 11 = 2" "half_at sample_shifted 12 = 0" "half_at sample_shifted 14 = 0"
  "half_at sample_shifted 16 = 0" "length sample_shifted = 40"
  by (simp_all add: half_at_def sample_shifted_def)

theorem unmap_block_v2_aliases_witness:
  "\<exists>t. unmap_block_v2 sample_nand 2 (sample_v2 () sample_shifted 2) = Inr t \<and> phys t 1 = 2 \<and> phys t 2 = 2"
proof (rule unmap_block_v2_aliases)
  have "{..<3 :: nat} = {0, 1, 2}" by auto
  moreover have "i < 6 \<longleftrightarrow> i \<in> {0, 1, 2, 3, 4, 5}" "i < 3 \<longleftrightarrow> i \<in> {0, 1, 2}" for i :: nat by auto
  ultimately show "v2_inv 3 (sample_v2 () sample_shifted 2)"
    by (simp add: v2_inv_def phys_def pool_blk_def pool_flag_def pool_len_def pool_cap_def bmt_fits_def blk_geom_def
        sample_v2_def sample_shifted_entries)
qed (simp_all add: sample_v2_def pool_len_def pool_cap_def phys_def sample_shifted_entries)

end
