(* ===== verification/Mtk_Nmbm.thy ===== *)
theory Mtk_Nmbm
  imports Mtk_Bbt
begin

text \<open>
  MediaTek's NMBM mapping (target/linux/generic/files/drivers/mtd/nand/mtk_bmt_nmbm.c), first part:
  access to the chip, the bitmap of block states, walks over good blocks, the mapping table and
  writing of management data. The operations work on the instance \<open>ni\<close> and the descriptor
  \<open>bmtd\<close> together; \<open>page_cache\<close> is the descriptor's \<open>data_buf\<close>. An access outside of
  \<open>block_state\<close>, \<open>block_mapping\<close> or a buffer stops with \<open>Bad_access\<close>. The OOB arguments of the
  page operations are NULL in every call and are left out. The page size of an MTD device is
  not zero. \<open>crc32_le\<close>, a function of the kernel, is a parameter.
\<close>

definition NMBM_MAGIC_SIGNATURE :: nat where "NMBM_MAGIC_SIGNATURE = 0x304d4d4e"
definition NMBM_MAGIC_INFO_TABLE :: nat where "NMBM_MAGIC_INFO_TABLE = 0x314d4d4e"
definition NMBM_VER :: nat where "NMBM_VER = 1"
definition NMBM_BITMAP_BLOCKS_PER_UNIT :: nat where "NMBM_BITMAP_BLOCKS_PER_UNIT = 16"
definition NMBM_MGMT_DIV :: nat where "NMBM_MGMT_DIV = 16"
definition NMBM_TRY_COUNT :: nat where "NMBM_TRY_COUNT = 3"
definition BLOCK_ST_BAD :: u32 where "BLOCK_ST_BAD = 0"
definition BLOCK_ST_GOOD :: u32 where "BLOCK_ST_GOOD = 3"
definition BLOCK_ST_MASK :: u32 where "BLOCK_ST_MASK = 3"
definition EBADMSG :: int where "EBADMSG = 74"
definition EINVAL :: int where "EINVAL = 22"
definition ENODEV :: int where "ENODEV = 19"

record 'n nst =
  ni_of :: nmbm_instance
  bm :: "'n bmt_desc"

definition ni_upd :: "(nmbm_instance \<Rightarrow> nmbm_instance) \<Rightarrow> 'n nst \<Rightarrow> 'n nst" where
  "ni_upd f st = st\<lparr>ni_of := f (ni_of st)\<rparr>"

definition set_chip :: "'n \<Rightarrow> 'n nst \<Rightarrow> 'n nst" where
  "set_chip c st = st\<lparr>bm := (bm st)\<lparr>chip := c\<rparr>\<rparr>"

definition set_cache :: "u8 list \<Rightarrow> 'n nst \<Rightarrow> 'n nst" where
  "set_cache b st = st\<lparr>bm := (bm st)\<lparr>data_buf := b\<rparr>\<rparr>"

section \<open>Addresses and the chip\<close>

definition ba2addr :: "'n nst \<Rightarrow> nat \<Rightarrow> nat" where
  "ba2addr st ba = ba * 2 ^ blk_shift (bm st)"

definition size2blk :: "'n nst \<Rightarrow> nat \<Rightarrow> nat" where
  "size2blk st n = drop_bit (blk_shift (bm st)) (n + blk_size (bm st) - 1) mod 2 ^ 32"

text \<open>At most \<open>n\<close> more attempts to read the page at \<open>addr\<close> into \<open>buf\<close>.\<close>

primrec read_tries :: "'n nand_dev \<Rightarrow> nat \<Rightarrow> nat \<Rightarrow> int \<Rightarrow> u8 list \<Rightarrow> 'n nst \<Rightarrow> (int \<times> u8 list) \<times> 'n nst" where
  "read_tries d 0 addr ret buf st = ((ret, buf), st)"
| "read_tries d (Suc n) addr ret buf st =
     (let ((ret, dat, _), c) = read_oob d addr (pg_size (bm st)) 0 0 (chip (bm st));
          buf = fill_buf dat buf; st = set_chip c st; m = mtd (bm st)
      in
        if ret = - EUCLEAN then ((s32_of (min (u32_of (int (bitflip_threshold m) + 1)) (ecc_strength m)), buf), st)
        else if ret \<ge> 0 then ((0, buf), st)
        else read_tries d n addr ret buf st)"

definition nmbm_read_phys_page :: "'n nand_dev \<Rightarrow> nat \<Rightarrow> u8 list \<Rightarrow> 'n nst \<Rightarrow> (int \<times> u8 list) \<times> 'n nst" where
  "nmbm_read_phys_page d addr buf st = read_tries d NMBM_TRY_COUNT addr 0 buf st"

primrec write_tries :: "'n nand_dev \<Rightarrow> nat \<Rightarrow> nat \<Rightarrow> u8 list \<Rightarrow> 'n nst \<Rightarrow> bool \<times> 'n nst" where
  "write_tries d 0 addr dat st = (False, st)"
| "write_tries d (Suc n) addr dat st =
     (let ((ret, _, _), c) = write_oob d addr dat 0 [] (chip (bm st)); st = set_chip c st in
      if ret = 0 then (True, st) else write_tries d n addr dat st)"

text \<open>The page to be written is the start of \<open>page_cache\<close>.\<close>

definition nmbm_write_phys_page :: "'n nand_dev \<Rightarrow> nat \<Rightarrow> 'n nst \<Rightarrow> bool \<times> 'n nst" where
  "nmbm_write_phys_page d addr st =
     write_tries d NMBM_TRY_COUNT addr (take (pg_size (bm st)) (data_buf (bm st))) st"

primrec erase_tries :: "'n nand_dev \<Rightarrow> nat \<Rightarrow> nat \<Rightarrow> 'n nst \<Rightarrow> bool \<times> 'n nst" where
  "erase_tries d 0 addr st = (False, st)"
| "erase_tries d (Suc n) addr st =
     (let (ret, c) = erase_blk d addr (erasesize (mtd (bm st))) (chip (bm st)); st = set_chip c st in
      if ret = 0 then (True, st) else erase_tries d n addr st)"

definition nmbm_erase_phys_block :: "'n nand_dev \<Rightarrow> nat \<Rightarrow> 'n nst \<Rightarrow> bool \<times> 'n nst" where
  "nmbm_erase_phys_block d addr st = erase_tries d NMBM_TRY_COUNT addr st"

definition nmbm_check_bad_phys_block :: "'n nand_dev \<Rightarrow> nat \<Rightarrow> 'n nst \<Rightarrow> bool \<times> 'n nst" where
  "nmbm_check_bad_phys_block d ba st =
     (let (ret, c) = block_isbad d (ba2addr st ba) (chip (bm st)) in (ret \<noteq> 0, set_chip c st))"

definition nmbm_mark_phys_bad_block :: "'n nand_dev \<Rightarrow> nat \<Rightarrow> 'n nst \<Rightarrow> int \<times> 'n nst" where
  "nmbm_mark_phys_bad_block d ba st =
     (let (ret, c) = block_markbad d (ba2addr st ba) (chip (bm st)) in (ret, set_chip c st))"

section \<open>Checksums\<close>

type_synonym crc32 = "u32 \<Rightarrow> u8 list \<Rightarrow> u32"

text \<open>
  \<open>nmbm_crc32\<close> passes the buffer to \<open>crc32_le\<close>; sizes here are far below \<open>UINT_MAX\<close>, the size
  from which it does so in pieces. The header is the first sixteen bytes, its checksum the last
  four of them.
\<close>

definition nmbm_crc32 :: "crc32 \<Rightarrow> u32 \<Rightarrow> u8 list \<Rightarrow> u32" where
  "nmbm_crc32 crc crcval buf = crc crcval buf"

definition clear_checksum :: "u8 list \<Rightarrow> u8 list" where
  "clear_checksum b = take 12 b @ replicate 4 0 @ drop 16 b"

definition nmbm_check_header :: "crc32 \<Rightarrow> u8 list \<Rightarrow> nat \<Rightarrow> bool" where
  "nmbm_check_header crc dat n =
     (let hsize = num_at 8 4 dat; new = nmbm_crc32 crc 0 (take 16 (clear_checksum dat)) in
      if hsize > n then False
      else num_at 12 4 dat = unat (if hsize > 16 then nmbm_crc32 crc new (take (hsize - 16) (drop 16 dat)) else new))"

definition nmbm_update_checksum :: "crc32 \<Rightarrow> u8 list \<Rightarrow> u8 list" where
  "nmbm_update_checksum crc dat =
     (let b = clear_checksum dat in
      take 12 b @ le_bytes 4 (unat (nmbm_crc32 crc 0 (take (num_at 8 4 b) b))) @ drop 16 b)"

definition nmbm_get_spare_block_count :: "nat \<Rightarrow> nat" where
  "nmbm_get_spare_block_count n = max ((n + 1) mod 2 ^ 32 div 2) 2"

section \<open>Block states\<close>

definition nmbm_get_block_state_raw :: "u32 list \<Rightarrow> nat \<Rightarrow> u32 res" where
  "nmbm_get_block_state_raw states ba =
     (let unit = ba div NMBM_BITMAP_BLOCKS_PER_UNIT; shift = (ba mod NMBM_BITMAP_BLOCKS_PER_UNIT) * 2 in
      if unit < length states then Inr (drop_bit shift (states ! unit) AND BLOCK_ST_MASK) else Inl Bad_access)"

definition nmbm_get_block_state :: "nat \<Rightarrow> 'n nst \<Rightarrow> u32 res" where
  "nmbm_get_block_state ba st = nmbm_get_block_state_raw (block_state (ni_of st)) ba"

definition nmbm_set_block_state :: "nat \<Rightarrow> u32 \<Rightarrow> 'n nst \<Rightarrow> (bool \<times> 'n nst) res" where
  "nmbm_set_block_state ba state st =
     (let unit = ba div NMBM_BITMAP_BLOCKS_PER_UNIT; shift = (ba mod NMBM_BITMAP_BLOCKS_PER_UNIT) * 2;
          states = block_state (ni_of st)
      in
        if unit < length states then
          let orig = drop_bit shift (states ! unit) AND BLOCK_ST_MASK;
              state = state AND BLOCK_ST_MASK;
              uv = (states ! unit AND NOT (push_bit shift BLOCK_ST_MASK)) OR push_bit shift state;
              st = ni_upd (\<lambda>i. i\<lparr>block_state := states[unit := uv]\<rparr>) st
          in
            if orig \<noteq> state
            then Inr (True, ni_upd (\<lambda>i. i\<lparr>block_state_changed := u32_of (int (block_state_changed i) + 1)\<rparr>) st)
            else Inr (False, st)
        else Inl Bad_access)"

section \<open>Walks\<close>

text \<open>\<open>n\<close> is the number of blocks up to the limit; \<open>None\<close> where \<open>false\<close> is returned.\<close>

primrec walk_asc :: "nat \<Rightarrow> nat \<Rightarrow> int \<Rightarrow> 'n nst \<Rightarrow> nat option res" where
  "walk_asc 0 ba nblock st = Inr None"
| "walk_asc (Suc n) ba nblock st =
     rbind (nmbm_get_block_state ba st) (\<lambda>s.
       let nblock = (if s = BLOCK_ST_GOOD then nblock - 1 else nblock) in
       if nblock < 0 then Inr (Some ba) else walk_asc n (Suc ba) nblock st)"

primrec walk_desc :: "nat \<Rightarrow> nat \<Rightarrow> int \<Rightarrow> 'n nst \<Rightarrow> nat option res" where
  "walk_desc 0 ba nblock st = Inr None"
| "walk_desc (Suc n) ba nblock st =
     rbind (nmbm_get_block_state ba st) (\<lambda>s.
       let nblock = (if s = BLOCK_ST_GOOD then nblock - 1 else nblock) in
       if nblock < 0 then Inr (Some ba) else walk_desc n (ba - 1) nblock st)"

definition walk_limit :: "nat \<Rightarrow> 'n nst \<Rightarrow> nat" where
  "walk_limit limit st =
     (if limit \<ge> block_count (ni_of st) then u32_of (int (block_count (ni_of st)) - 1) else limit)"

definition nmbm_block_walk_asc :: "nat \<Rightarrow> int \<Rightarrow> nat \<Rightarrow> 'n nst \<Rightarrow> nat option res" where
  "nmbm_block_walk_asc ba count limit st = walk_asc (walk_limit limit st - ba) ba count st"

definition nmbm_block_walk_desc :: "nat \<Rightarrow> int \<Rightarrow> nat \<Rightarrow> 'n nst \<Rightarrow> nat option res" where
  "nmbm_block_walk_desc ba count limit st = walk_desc (ba - walk_limit limit st) ba count st"

definition nmbm_block_walk :: "bool \<Rightarrow> nat \<Rightarrow> int \<Rightarrow> nat \<Rightarrow> 'n nst \<Rightarrow> nat option res" where
  "nmbm_block_walk ascending ba count limit st =
     (if ascending then nmbm_block_walk_asc ba count limit st else nmbm_block_walk_desc ba count limit st)"

text \<open>From \<open>nblocks\<close>, where the list starts, down to the minimum.\<close>

primrec reserve_tries :: "nat \<Rightarrow> nat list \<Rightarrow> nat \<Rightarrow> 'n nst \<Rightarrow> nat option res" where
  "reserve_tries ba [] limit st = Inr None"
| "reserve_tries ba (k # ks) limit st =
     rbind (nmbm_block_walk True ba (int k) limit st) (\<lambda>r.
       case r of Some nba \<Rightarrow> Inr (Some nba) | None \<Rightarrow> reserve_tries ba ks limit st)"

definition nmbm_try_reserve_blocks :: "nat \<Rightarrow> nat \<Rightarrow> nat \<Rightarrow> nat \<Rightarrow> 'n nst \<Rightarrow> nat option res" where
  "nmbm_try_reserve_blocks ba count min_count limit st =
     reserve_tries ba (rev [min_count..<Suc count]) limit st"

section \<open>Scan and mapping table\<close>

primrec scan_from :: "'n nand_dev \<Rightarrow> nat list \<Rightarrow> 'n nst \<Rightarrow> 'n nst res" where
  "scan_from d [] st = Inr st"
| "scan_from d (ba # bas) st =
     (let (bad, st) = nmbm_check_bad_phys_block d ba st in
      if bad then rbind (nmbm_set_block_state ba BLOCK_ST_BAD st) (\<lambda>(_, st). scan_from d bas st)
      else scan_from d bas st)"

definition nmbm_scan_badblocks :: "'n nand_dev \<Rightarrow> 'n nst \<Rightarrow> 'n nst res" where
  "nmbm_scan_badblocks d st = scan_from d [0..<block_count (ni_of st)] st"

definition put_mapping :: "nat \<Rightarrow> int \<Rightarrow> 'n nst \<Rightarrow> 'n nst res" where
  "put_mapping lb v st =
     (if lb < length (block_mapping (ni_of st))
      then Inr (ni_upd (\<lambda>i. i\<lparr>block_mapping := (block_mapping i)[lb := v]\<rparr>) st) else Inl Bad_access)"

definition get_mapping :: "nat \<Rightarrow> 'n nst \<Rightarrow> int res" where
  "get_mapping lb st =
     (if lb < length (block_mapping (ni_of st)) then Inr (block_mapping (ni_of st) ! lb) else Inl Bad_access)"

text \<open>The two loops of \<open>nmbm_build_mapping_table\<close>; the first returns \<open>lb\<close>.\<close>

primrec map_good :: "nat list \<Rightarrow> nat \<Rightarrow> 'n nst \<Rightarrow> (nat \<times> 'n nst) res" where
  "map_good [] lb st = Inr (lb, st)"
| "map_good (pb # pbs) lb st =
     rbind (nmbm_get_block_state pb st) (\<lambda>s.
       if s = BLOCK_ST_BAD then map_good pbs lb st
       else rbind (put_mapping lb (s32_of pb) st) (map_good pbs (Suc lb)))"

primrec map_none :: "nat list \<Rightarrow> 'n nst \<Rightarrow> 'n nst res" where
  "map_none [] st = Inr st"
| "map_none (pb # pbs) st = rbind (put_mapping pb (- 1) st) (map_none pbs)"

definition nmbm_build_mapping_table :: "'n nst \<Rightarrow> 'n nst res" where
  "nmbm_build_mapping_table st =
     rbind (map_good [0..<mgmt_start_ba (ni_of st)] 0 st) (\<lambda>(lb, st).
       map_none [lb..<block_count (ni_of st)] (ni_upd (\<lambda>i. i\<lparr>data_block_count := lb\<rparr>) st))"

section \<open>Erasing\<close>

text \<open>The offsets of the pages of a block.\<close>

definition page_offsets :: "'n nst \<Rightarrow> nat list" where
  "page_offsets st = map (\<lambda>k. k * pg_size (bm st)) [0..<(blk_size (bm st) + pg_size (bm st) - 1) div pg_size (bm st)]"

primrec check_empty :: "'n nand_dev \<Rightarrow> nat \<Rightarrow> nat list \<Rightarrow> 'n nst \<Rightarrow> bool \<times> 'n nst" where
  "check_empty d addr [] st = (True, st)"
| "check_empty d addr (off # offs) st =
     (let ((ret, buf), st) = nmbm_read_phys_page d (addr + off) (data_buf (bm st)) st; st = set_cache buf st in
      if ret = - EBADMSG then (False, st) else check_empty d addr offs st)"

definition nmbm_erase_block_and_check :: "'n nand_dev \<Rightarrow> nat \<Rightarrow> 'n nst \<Rightarrow> bool \<times> 'n nst" where
  "nmbm_erase_block_and_check d ba st =
     (let (success, st) = nmbm_erase_phys_block d (ba2addr st ba) st in
      if \<not> success then (False, st)
      else if \<not> empty_page_ecc_ok (ni_of st) then (True, st)
      else check_empty d (ba2addr st ba) (page_offsets st) st)"

text \<open>
  The steps that \<open>nmbm_erase_range\<close>, \<open>nmbm_write_signature\<close> and \<open>nmbm_write_mgmt_range\<close> share.
  \<open>retire_block\<close> is the code at the label \<open>skip_bad_block\<close>; \<open>prepare_block\<close> is what comes before the
  block is written, and says whether it can be.
\<close>

definition retire_block :: "'n nand_dev \<Rightarrow> nat \<Rightarrow> 'n nst \<Rightarrow> 'n nst res" where
  "retire_block d ba st =
     rbind (nmbm_set_block_state ba BLOCK_ST_BAD (snd (nmbm_mark_phys_bad_block d ba st))) (\<lambda>(_, st). Inr st)"

definition prepare_block :: "'n nand_dev \<Rightarrow> nat \<Rightarrow> 'n nst \<Rightarrow> (bool \<times> 'n nst) res" where
  "prepare_block d ba st =
     rbind (nmbm_get_block_state ba st) (\<lambda>s.
       if s \<noteq> BLOCK_ST_GOOD then Inr (False, st)
       else
         let (bad, st) = nmbm_check_bad_phys_block d ba st in
         if bad then rbind (nmbm_set_block_state ba BLOCK_ST_BAD st) (\<lambda>(_, st). Inr (False, st))
         else
           let (success, st) = nmbm_erase_block_and_check d ba st in
           if success then Inr (True, st)
           else rbind (retire_block d ba st) (\<lambda>st. Inr (False, st)))"

definition nmbm_erase_range :: "'n nand_dev \<Rightarrow> nat \<Rightarrow> nat \<Rightarrow> 'n nst \<Rightarrow> 'n nst res" where
  "nmbm_erase_range d ba limit st =
     rfold (\<lambda>ba st. rbind (prepare_block d ba st) (\<lambda>(_, st). Inr st)) [ba..<limit] st"

section \<open>Writing\<close>

text \<open>The page cache with \<open>dat\<close> at an offset and \<open>0xff\<close> in the rest of the page.\<close>

definition fill_page :: "nat \<Rightarrow> u8 list \<Rightarrow> 'n nst \<Rightarrow> 'n nst res" where
  "fill_page leading dat st =
     (let raw = rawpage_size (ni_of st); b = data_buf (bm st) in
      if raw \<le> length b \<and> leading + length dat \<le> raw
      then Inr (set_cache (replicate leading 0xff @ dat @ replicate (raw - leading - length dat) 0xff @ drop raw b) st)
      else Inl Bad_access)"

text \<open>A page is written from the cache, read back, and compared.\<close>

definition write_and_verify :: "'n nand_dev \<Rightarrow> nat \<Rightarrow> nat \<Rightarrow> u8 list \<Rightarrow> 'n nst \<Rightarrow> (bool \<times> 'n nst) res" where
  "write_and_verify d addr leading dat st =
     rbind (fill_page leading dat st) (\<lambda>st.
       let (success, st) = nmbm_write_phys_page d addr st in
       if \<not> success then Inr (False, st)
       else
         let ((ret, buf), st) = nmbm_read_phys_page d addr (data_buf (bm st)) st; st = set_cache buf st in
         Inr (ret \<ge> 0 \<and> take (length dat) (drop leading buf) = dat, st))"

primrec write_repeated_pages :: "'n nand_dev \<Rightarrow> nat \<Rightarrow> u8 list \<Rightarrow> nat list \<Rightarrow> 'n nst \<Rightarrow> (bool \<times> 'n nst) res" where
  "write_repeated_pages d addr dat [] st = Inr (True, st)"
| "write_repeated_pages d addr dat (off # offs) st =
     rbind (write_and_verify d (addr + off) 0 dat st) (\<lambda>(success, st).
       if success then write_repeated_pages d addr dat offs st else Inr (False, st))"

definition nmbm_write_repeated_data :: "'n nand_dev \<Rightarrow> nat \<Rightarrow> u8 list \<Rightarrow> 'n nst \<Rightarrow> (bool \<times> 'n nst) res" where
  "nmbm_write_repeated_data d ba dat st =
     (if length dat > pg_size (bm st) then Inr (False, st)
      else write_repeated_pages d (ba2addr st ba) dat (page_offsets st) st)"

text \<open>The block the signature was written to.\<close>

primrec write_signature_from :: "'n nand_dev \<Rightarrow> u8 list \<Rightarrow> nat list \<Rightarrow> 'n nst \<Rightarrow> (nat option \<times> 'n nst) res" where
  "write_signature_from d sig [] st = Inr (None, st)"
| "write_signature_from d sig (ba # bas) st =
     rbind (prepare_block d ba st) (\<lambda>(ready, st).
       if \<not> ready then write_signature_from d sig bas st
       else
         rbind (nmbm_write_repeated_data d ba sig st) (\<lambda>(success, st).
           if success then Inr (Some ba, st)
           else rbind (retire_block d ba st) (write_signature_from d sig bas)))"

text \<open>From the last block down to the limit; without blocks \<open>ba\<close> would start at the largest number.\<close>

definition nmbm_write_signature :: "'n nand_dev \<Rightarrow> nat \<Rightarrow> u8 list \<Rightarrow> 'n nst \<Rightarrow> (nat option \<times> 'n nst) res" where
  "nmbm_write_signature d limit sig st =
     write_signature_from d sig (rev [Suc limit..<Suc (u32_of (int (block_count (ni_of st)) - 1))]) st"

text \<open>
  The loop of \<open>nmbn_read_data\<close> with \<open>sizeremain\<close> bytes to go after \<open>done\<close>; a full page is read
  into the buffer, a part of one through the page cache. A chunk has at least one byte, so that
  there are no more steps than bytes.
\<close>

primrec read_data_from ::
  "nat \<Rightarrow> 'n nand_dev \<Rightarrow> nat \<Rightarrow> nat \<Rightarrow> nat \<Rightarrow> u8 list \<Rightarrow> 'n nst \<Rightarrow> ((int \<times> u8 list) \<times> 'n nst) res" where
  "read_data_from 0 d off don sizeremain buf st = (if sizeremain = 0 then Inr ((0, buf), st) else Inl Out_of_fuel)"
| "read_data_from (Suc n) d off don sizeremain buf st =
     (if sizeremain = 0 then Inr ((0, buf), st)
      else
        let pg = pg_size (bm st); leading = off AND (pg - 1); chunksize = min (pg - leading) sizeremain in
        if chunksize = pg then
          let ((ret, page), st) = nmbm_read_phys_page d (off - leading) (take pg (drop don buf)) st;
              buf = take don buf @ page @ drop (don + pg) buf
          in
            if ret < 0 then Inr ((ret, buf), st)
            else read_data_from n d (off + chunksize) (don + chunksize) (sizeremain - chunksize) buf st
        else
          let ((ret, cache), st) = nmbm_read_phys_page d (off - leading) (data_buf (bm st)) st;
              st = set_cache cache st
          in
            if ret < 0 then Inr ((ret, buf), st)
            else if leading + chunksize > length cache then Inl Bad_access
            else
              read_data_from n d (off + chunksize) (don + chunksize) (sizeremain - chunksize)
                (take don buf @ take chunksize (drop leading cache) @ drop (don + chunksize) buf) st)"

definition nmbn_read_data :: "'n nand_dev \<Rightarrow> nat \<Rightarrow> nat \<Rightarrow> u8 list \<Rightarrow> 'n nst \<Rightarrow> ((int \<times> u8 list) \<times> 'n nst) res" where
  "nmbn_read_data d addr n buf st = read_data_from n d addr 0 n buf st"

primrec write_verify_from :: "nat \<Rightarrow> 'n nand_dev \<Rightarrow> nat \<Rightarrow> u8 list \<Rightarrow> 'n nst \<Rightarrow> (bool \<times> 'n nst) res" where
  "write_verify_from 0 d off dat st = (if dat = [] then Inr (True, st) else Inl Out_of_fuel)"
| "write_verify_from (Suc n) d off dat st =
     (if dat = [] then Inr (True, st)
      else
        let pg = pg_size (bm st); leading = off AND (pg - 1); chunksize = min (pg - leading) (length dat) in
        rbind (write_and_verify d (off - leading) leading (take chunksize dat) st) (\<lambda>(success, st).
          if success then write_verify_from n d (off + chunksize) (drop chunksize dat) st else Inr (False, st)))"

definition nmbn_write_verify_data :: "'n nand_dev \<Rightarrow> nat \<Rightarrow> u8 list \<Rightarrow> 'n nst \<Rightarrow> (bool \<times> 'n nst) res" where
  "nmbn_write_verify_data d addr dat st = write_verify_from (length dat) d addr dat st"

text \<open>
  \<open>n\<close> blocks are left before the limit, \<open>dat\<close> is what remains; the result is the block of the first
  chunk, \<open>None\<close> as long as there is none, and the block after the last.
\<close>

primrec write_range_from ::
  "nat \<Rightarrow> 'n nand_dev \<Rightarrow> nat \<Rightarrow> u8 list \<Rightarrow> nat option \<Rightarrow> 'n nst \<Rightarrow> ((nat option \<times> nat) option \<times> 'n nst) res" where
  "write_range_from 0 d ba dat start st = Inr (if dat = [] then Some (start, ba) else None, st)"
| "write_range_from (Suc n) d ba dat start st =
     (if dat = [] then Inr (Some (start, ba), st)
      else
        rbind (prepare_block d ba st) (\<lambda>(ready, st).
          if \<not> ready then write_range_from n d (Suc ba) dat start st
          else
            rbind (nmbn_write_verify_data d (ba2addr st ba) (take (blk_size (bm st)) dat) st) (\<lambda>(success, st).
              if success then
                write_range_from n d (Suc ba) (drop (blk_size (bm st)) dat)
                  (if start = None then Some ba else start) st
              else rbind (retire_block d ba st) (write_range_from n d (Suc ba) dat start))))"

definition nmbm_write_mgmt_range ::
  "'n nand_dev \<Rightarrow> nat \<Rightarrow> nat \<Rightarrow> u8 list \<Rightarrow> 'n nst \<Rightarrow> ((nat option \<times> nat) option \<times> 'n nst) res" where
  "nmbm_write_mgmt_range d ba limit dat st = write_range_from (limit - ba) d ba dat None st"

end
