(* ===== verification/Mtk_Nmbm_Table.thy ===== *)
theory Mtk_Nmbm_Table
  imports Mtk_Nmbm Mtk_Bmt_V2
begin

text \<open>
  MediaTek's NMBM mapping (mtk_bmt_nmbm.c), second part: the two copies of the info table, the
  remapping of blocks, loading and creating the tables, and the operations behind
  \<open>mtk_bmt_nmbm_ops\<close>. Where the code returns \<open>false\<close> and stores results through pointers
  otherwise, the model returns an option.
\<close>

section \<open>The info table\<close>

definition put_bytes :: "nat \<Rightarrow> u8 list \<Rightarrow> u8 list \<Rightarrow> u8 list res" where
  "put_bytes off b buf =
     (if off + length b \<le> length buf then Inr (take off buf @ b @ drop (off + length b) buf) else Inl Bad_access)"

definition tables_changed :: "'n nst \<Rightarrow> bool" where
  "tables_changed st \<longleftrightarrow> block_state_changed (ni_of st) \<noteq> 0 \<or> block_mapping_changed (ni_of st) \<noteq> 0"

definition nmbm_generate_info_table_cache :: "crc32 \<Rightarrow> 'n nst \<Rightarrow> (bool \<times> 'n nst) res" where
  "nmbm_generate_info_table_cache crc st =
     (let i = ni_of st; n = info_table_size i; h = info_table i in
      if n > length (info_table_cache i) then Inl Bad_access
      else
        rbind (put_bytes (state_table_off h) (state_bytes (block_state i)) (replicate n 0xff @ drop n (info_table_cache i))) (\<lambda>c.
        rbind (put_bytes (mapping_table_off h) (mapping_bytes (block_mapping i)) c) (\<lambda>c.
          let changed = tables_changed st;
              h = h\<lparr>h_magic := NMBM_MAGIC_INFO_TABLE, h_version := NMBM_VER, h_size := n,
                    write_count := (if changed then u32_of (int (write_count h) + 1) else write_count h)\<rparr>
          in
            rbind (put_bytes 0 (info_table_bytes h) c) (\<lambda>c.
              Inr (changed, ni_upd (\<lambda>i. i\<lparr>info_table := h, info_table_cache := nmbm_update_checksum crc c\<rparr>) st)))))"

definition nmbm_write_info_table :: "'n nand_dev \<Rightarrow> nat \<Rightarrow> nat \<Rightarrow> 'n nst \<Rightarrow> ((nat \<times> nat) option \<times> 'n nst) res" where
  "nmbm_write_info_table d ba limit st =
     rbind (nmbm_write_mgmt_range d ba limit (take (info_table_size (ni_of st)) (info_table_cache (ni_of st))) st) (\<lambda>(r, st).
       case r of
         None \<Rightarrow> Inr (None, st)
       | Some (None, e) \<Rightarrow> Inl Bad_access
       | Some (Some s, e) \<Rightarrow> Inr (Some (s, e), st))"

definition nmbm_mark_tables_clean :: "'n nst \<Rightarrow> 'n nst" where
  "nmbm_mark_tables_clean st = ni_upd (\<lambda>i. i\<lparr>block_state_changed := 0, block_mapping_changed := 0\<rparr>) st"

text \<open>The last block from which on a table can still begin.\<close>

definition table_limit :: "'n nst \<Rightarrow> nat" where
  "table_limit st =
     u32_of (int (mapping_blocks_top_ba (ni_of st)) - int (size2blk st (info_table_size (ni_of st))))"

definition nmbm_rebuild_info_table :: "'n nand_dev \<Rightarrow> 'n nst \<Rightarrow> (bool \<times> 'n nst) res" where
  "nmbm_rebuild_info_table d st =
     (let st = ni_upd (\<lambda>i. i\<lparr>main_table_ba := 0, backup_table_ba := 0, mapping_blocks_ba := mapping_blocks_top_ba i\<rparr>) st in
      rbind (nmbm_write_info_table d (mgmt_start_ba (ni_of st)) (mapping_blocks_top_ba (ni_of st)) st) (\<lambda>(r, st).
        case r of
          None \<Rightarrow> Inr (False, ni_upd (\<lambda>i. i\<lparr>protected := True\<rparr>) st)
        | Some (start, main_end) \<Rightarrow>
            let st = nmbm_mark_tables_clean (ni_upd (\<lambda>i. i\<lparr>main_table_ba := start, mapping_blocks_ba := main_end\<rparr>) st) in
            rbind (nmbm_try_reserve_blocks main_end (info_table_spare_blocks (ni_of st)) 0 (table_limit st) st) (\<lambda>r.
              case r of
                None \<Rightarrow> Inr (True, st)
              | Some next_start \<Rightarrow>
                  rbind (nmbm_write_info_table d next_start (mapping_blocks_top_ba (ni_of st)) st) (\<lambda>(r, st).
                    case r of
                      None \<Rightarrow> Inr (True, st)
                    | Some (start, e) \<Rightarrow>
                        let st = ni_upd (\<lambda>i. i\<lparr>backup_table_ba := start, mapping_blocks_ba := e\<rparr>) st in
                        rbind (nmbm_erase_range d main_end start st) (\<lambda>st. Inr (True, st))))))"

text \<open>
  The loops that try to write a table at \<open>write_ba\<close>, one block lower, and so on down to \<open>lo\<close>.
  From block zero the number wraps around and the loop goes on beyond the chip.
\<close>

primrec write_lower :: "'n nand_dev \<Rightarrow> nat list \<Rightarrow> 'n nst \<Rightarrow> ((nat \<times> nat) option \<times> 'n nst) res" where
  "write_lower d [] st = Inr (None, st)"
| "write_lower d (ba # bas) st =
     rbind (nmbm_write_info_table d ba (mapping_blocks_top_ba (ni_of st)) st) (\<lambda>(r, st).
       case r of None \<Rightarrow> write_lower d bas st | Some x \<Rightarrow> Inr (Some x, st))"

definition write_downwards :: "'n nand_dev \<Rightarrow> nat \<Rightarrow> nat \<Rightarrow> 'n nst \<Rightarrow> ((nat \<times> nat) option \<times> 'n nst) res" where
  "write_downwards d lo write_ba st =
     rbind (write_lower d (rev [lo..<Suc write_ba]) st) (\<lambda>(r, st).
       if r = None \<and> lo = 0 then Inl Out_of_fuel else Inr (r, st))"

definition nmbm_rescue_single_info_table :: "'n nand_dev \<Rightarrow> 'n nst \<Rightarrow> (bool \<times> 'n nst) res" where
  "nmbm_rescue_single_info_table d st =
     rbind (nmbm_write_info_table d (mgmt_start_ba (ni_of st)) (main_table_ba (ni_of st)) st) (\<lambda>(r, st).
       case r of
         Some (start, e) \<Rightarrow>
           let st = nmbm_mark_tables_clean (ni_upd (\<lambda>i. i\<lparr>backup_table_ba := main_table_ba i, main_table_ba := start\<rparr>) st) in
           rbind (nmbm_erase_range d e (backup_table_ba (ni_of st)) st) (\<lambda>st. Inr (True, st))
       | None \<Rightarrow>
           rbind (nmbm_try_reserve_blocks (mapping_blocks_ba (ni_of st)) (info_table_spare_blocks (ni_of st)) 0 (table_limit st) st) (\<lambda>r.
             case r of
               None \<Rightarrow> Inr (False, st)
             | Some write_ba \<Rightarrow>
                 rbind (write_downwards d (mapping_blocks_ba (ni_of st)) write_ba st) (\<lambda>(r, st).
                   case r of
                     None \<Rightarrow> Inr (False, st)
                   | Some (start, e) \<Rightarrow>
                       rbind (nmbm_erase_range d (mapping_blocks_ba (ni_of st)) start st) (\<lambda>st.
                         Inr (True, nmbm_mark_tables_clean
                           (ni_upd (\<lambda>i. i\<lparr>backup_table_ba := start, mapping_blocks_ba := e\<rparr>) st))))))"

definition nmbm_update_single_info_table :: "'n nand_dev \<Rightarrow> bool \<Rightarrow> 'n nst \<Rightarrow> (bool \<times> 'n nst) res" where
  "nmbm_update_single_info_table d update_main st =
     (let i = ni_of st;
          write_start = (if update_main then main_table_ba i else backup_table_ba i);
          write_limit = (if update_main then backup_table_ba i else mapping_blocks_top_ba i)
      in
        rbind (nmbm_write_info_table d write_start write_limit st) (\<lambda>(r, st).
          case r of
            Some (start, e) \<Rightarrow>
              Inr (True, nmbm_mark_tables_clean
                (if update_main then ni_upd (\<lambda>i. i\<lparr>main_table_ba := start\<rparr>) st
                 else ni_upd (\<lambda>i. i\<lparr>backup_table_ba := start, mapping_blocks_ba := e\<rparr>) st))
          | None \<Rightarrow>
              if update_main then
                nmbm_rescue_single_info_table d (ni_upd (\<lambda>i. i\<lparr>main_table_ba := backup_table_ba i, backup_table_ba := 0\<rparr>) st)
              else Inr (False, ni_upd (\<lambda>i. i\<lparr>mapping_blocks_ba := backup_table_ba i, backup_table_ba := 0\<rparr>) st)))"

text \<open>The end of \<open>nmbm_rescue_main_info_table\<close>, where the temporary table was overwritten.\<close>

definition rescue_backup :: "'n nand_dev \<Rightarrow> nat \<Rightarrow> 'n nst \<Rightarrow> (bool \<times> 'n nst) res" where
  "rescue_backup d main_end st =
     (let st = ni_upd (\<lambda>i. i\<lparr>mapping_blocks_ba := main_end\<rparr>) st;
          single = (\<lambda>st. ni_upd (\<lambda>i. i\<lparr>backup_table_ba := 0\<rparr>) st)
      in
        rbind (nmbm_try_reserve_blocks main_end (info_table_spare_blocks (ni_of st)) 0 (table_limit st) st) (\<lambda>r.
          case r of
            None \<Rightarrow> Inr (True, single st)
          | Some write_ba \<Rightarrow>
              rbind (write_downwards d main_end write_ba st) (\<lambda>(r, st).
                case r of
                  None \<Rightarrow> Inr (True, single st)
                | Some (start, e) \<Rightarrow>
                    let st = ni_upd (\<lambda>i. i\<lparr>backup_table_ba := start, mapping_blocks_ba := e\<rparr>) st in
                    rbind (nmbm_erase_range d main_end start st) (\<lambda>st. Inr (True, st)))))"

definition nmbm_rescue_main_info_table :: "'n nand_dev \<Rightarrow> 'n nst \<Rightarrow> (bool \<times> 'n nst) res" where
  "nmbm_rescue_main_info_table d st =
     (let backup_is_main = (\<lambda>st. ni_upd (\<lambda>i. i\<lparr>main_table_ba := backup_table_ba i, backup_table_ba := 0\<rparr>) st) in
      rbind (nmbm_try_reserve_blocks (mapping_blocks_ba (ni_of st)) (info_table_spare_blocks (ni_of st)) 0 (table_limit st) st) (\<lambda>r.
        case r of
          None \<Rightarrow> Inr (True, backup_is_main st)
        | Some write_ba \<Rightarrow>
            rbind (write_downwards d (mapping_blocks_ba (ni_of st)) write_ba st) (\<lambda>(r, st).
              case r of
                None \<Rightarrow> Inr (True, backup_is_main st)
              | Some (tmp_start, tmp_end) \<Rightarrow>
                  let st = ni_upd (\<lambda>i. i\<lparr>mapping_blocks_ba := tmp_end\<rparr>) st in
                  rbind (nmbm_write_info_table d (mgmt_start_ba (ni_of st)) tmp_start st) (\<lambda>(r, st).
                    case r of
                      None \<Rightarrow> Inr (True, nmbm_mark_tables_clean (ni_upd (\<lambda>i. i\<lparr>main_table_ba := tmp_start, backup_table_ba := 0\<rparr>) st))
                    | Some (main_start, main_end) \<Rightarrow>
                        let st = nmbm_mark_tables_clean (ni_upd (\<lambda>i. i\<lparr>main_table_ba := main_start\<rparr>) st) in
                        if main_end \<le> tmp_start then Inr (True, ni_upd (\<lambda>i. i\<lparr>backup_table_ba := tmp_start\<rparr>) st)
                        else rescue_backup d main_end st))))"

text \<open>The code at the label \<open>write_main_table\<close>.\<close>

definition write_main_table :: "'n nand_dev \<Rightarrow> nat \<Rightarrow> 'n nst \<Rightarrow> (bool \<times> 'n nst) res" where
  "write_main_table d limit st =
     (if main_table_ba (ni_of st) = 0 then nmbm_rebuild_info_table d st
      else
        rbind (nmbm_write_info_table d (main_table_ba (ni_of st)) limit st) (\<lambda>(r, st).
          case r of
            None \<Rightarrow>
              if backup_table_ba (ni_of st) = 0 then nmbm_rebuild_info_table d st
              else nmbm_rescue_main_info_table d st
          | Some (start, e) \<Rightarrow>
              Inr (True, nmbm_mark_tables_clean (ni_upd (\<lambda>i. i\<lparr>main_table_ba := start,
                mapping_blocks_ba := (if backup_table_ba i = 0 then e else mapping_blocks_ba i)\<rparr>) st))))"

definition nmbm_update_info_table_once :: "crc32 \<Rightarrow> 'n nand_dev \<Rightarrow> bool \<Rightarrow> 'n nst \<Rightarrow> (bool \<times> 'n nst) res" where
  "nmbm_update_info_table_once crc d force st =
     rbind (nmbm_generate_info_table_cache crc st) (\<lambda>(changed, st).
       if \<not> changed \<and> \<not> force then Inr (True, st)
       else if backup_table_ba (ni_of st) = 0 then write_main_table d (mapping_blocks_top_ba (ni_of st)) st
       else
         rbind (nmbm_write_info_table d (backup_table_ba (ni_of st)) (mapping_blocks_top_ba (ni_of st)) st) (\<lambda>(r, st).
           case r of
             None \<Rightarrow>
               let st = ni_upd (\<lambda>i. i\<lparr>mapping_blocks_ba := backup_table_ba i, backup_table_ba := 0\<rparr>) st in
               write_main_table d (mapping_blocks_top_ba (ni_of st)) st
           | Some (start, e) \<Rightarrow>
               let st = nmbm_mark_tables_clean (ni_upd (\<lambda>i. i\<lparr>backup_table_ba := start, mapping_blocks_ba := e\<rparr>) st) in
               write_main_table d (backup_table_ba (ni_of st)) st))"

text \<open>
  Each further round needs a block that has become bad in the round before, so that one round
  more than there are blocks in the bitmap is enough.
\<close>

primrec update_rounds :: "nat \<Rightarrow> crc32 \<Rightarrow> 'n nand_dev \<Rightarrow> 'n nst \<Rightarrow> (bool \<times> 'n nst) res" where
  "update_rounds 0 crc d st = (if tables_changed st then Inl Out_of_fuel else Inr (True, st))"
| "update_rounds (Suc n) crc d st =
     (if tables_changed st then
        rbind (nmbm_update_info_table_once crc d False st) (\<lambda>(success, st).
          if success then update_rounds n crc d st else Inr (False, st))
      else Inr (True, st))"

definition nmbm_update_info_table :: "crc32 \<Rightarrow> 'n nand_dev \<Rightarrow> 'n nst \<Rightarrow> (bool \<times> 'n nst) res" where
  "nmbm_update_info_table crc d st =
     (if protected (ni_of st) then Inr (True, st)
      else update_rounds (Suc (NMBM_BITMAP_BLOCKS_PER_UNIT * length (block_state (ni_of st)))) crc d st)"

section \<open>Remapping\<close>

definition nmbm_map_block :: "crc32 \<Rightarrow> 'n nand_dev \<Rightarrow> nat \<Rightarrow> 'n nst \<Rightarrow> (bool \<times> 'n nst) res" where
  "nmbm_map_block crc d lb st =
     (if mapping_blocks_ba (ni_of st) = mapping_blocks_top_ba (ni_of st) then Inr (False, st)
      else
        rbind (nmbm_block_walk False (mapping_blocks_top_ba (ni_of st)) 0 (mapping_blocks_ba (ni_of st)) st) (\<lambda>r.
          case r of
            None \<Rightarrow>
              rbind (nmbm_update_info_table crc d st) (\<lambda>(_, st).
                Inr (False, ni_upd (\<lambda>i. i\<lparr>mapping_blocks_top_ba := mapping_blocks_ba i\<rparr>) st))
          | Some pb \<Rightarrow>
              rbind (put_mapping lb (s32_of pb) st) (\<lambda>st.
                Inr (True, ni_upd (\<lambda>i. i\<lparr>mapping_blocks_top_ba := u32_of (int (mapping_blocks_top_ba i) - 1),
                  block_mapping_changed := u32_of (int (block_mapping_changed i) + 1)\<rparr>) st))))"

text \<open>The loop over bad blocks at the end of the data area, with \<open>n\<close> to go.\<close>

primrec remap_tail :: "nat \<Rightarrow> crc32 \<Rightarrow> 'n nand_dev \<Rightarrow> nat \<Rightarrow> 'n nst \<Rightarrow> 'n nst res" where
  "remap_tail 0 crc d lb st = Inr st"
| "remap_tail (Suc n) crc d lb st =
     rbind (nmbm_map_block crc d lb st) (\<lambda>(success, st).
       if success
       then remap_tail n crc d (Suc lb) (ni_upd (\<lambda>i. i\<lparr>data_block_count := u32_of (int (data_block_count i) + 1)\<rparr>) st)
       else Inr st)"

definition nmbm_create_info_table :: "crc32 \<Rightarrow> 'n nand_dev \<Rightarrow> 'n nst \<Rightarrow> (bool \<times> 'n nst) res" where
  "nmbm_create_info_table crc d st =
     rbind (nmbm_block_walk False (signature_ba (ni_of st)) 1 (mgmt_start_ba (ni_of st)) st) (\<lambda>r.
       case r of
         None \<Rightarrow> Inr (False, st)
       | Some top_ba \<Rightarrow>
           rbind (nmbm_generate_info_table_cache crc (ni_upd (\<lambda>i. i\<lparr>mapping_blocks_top_ba := top_ba\<rparr>) st)) (\<lambda>(_, st).
           rbind (nmbm_rebuild_info_table d st) (\<lambda>(success, st).
             if \<not> success then Inr (False, st)
             else
               rbind (remap_tail (mgmt_start_ba (ni_of st) - data_block_count (ni_of st)) crc d (data_block_count (ni_of st)) st)
                 (nmbm_update_info_table crc d))))"

section \<open>A new chip\<close>

definition mgmt_start :: "'n nst \<Rightarrow> nat" where
  "mgmt_start st =
     (let i = ni_of st;
          m = u32_of (int (block_count i) * int (u32_of (int NMBM_MGMT_DIV - int (max_ratio i)))) div NMBM_MGMT_DIV
      in if max_reserved_blocks i \<noteq> 0 \<and> u32_of (int (block_count i) - int m) > max_reserved_blocks i
         then u32_of (int (block_count i) - int (max_reserved_blocks i)) else m)"

text \<open>\<open>bmtd.total_blks << bmtd.blk_shift\<close> is an \<open>int\<close>, converted to 64 bits.\<close>

definition chip_size :: "'n nst \<Rightarrow> nat" where
  "chip_size st = nat (s32_of (total_blks (bm st) * 2 ^ blk_shift (bm st)) mod 2 ^ 64)"

definition new_signature :: "'n nst \<Rightarrow> nmbm_signature" where
  "new_signature st =
     (signature (ni_of st))\<lparr>h_magic := NMBM_MAGIC_SIGNATURE, h_version := NMBM_VER, h_size := 48,
       nand_size := chip_size st, sig_block_size := blk_size (bm st), sig_page_size := pg_size (bm st),
       spare_size := oobsize (mtd (bm st)), mgmt_start_pb := mgmt_start_ba (ni_of st), max_try_count := NMBM_TRY_COUNT\<rparr>"

definition nmbm_create_new :: "crc32 \<Rightarrow> 'n nand_dev \<Rightarrow> 'n nst \<Rightarrow> (bool \<times> 'n nst) res" where
  "nmbm_create_new crc d st =
     (let st = ni_upd (\<lambda>i. i\<lparr>mgmt_start_ba := mgmt_start st\<rparr>) st in
      rbind (nmbm_scan_badblocks d st) (\<lambda>st.
      rbind (nmbm_build_mapping_table st) (\<lambda>st.
        let sig = nmbm_update_checksum crc (signature_bytes (new_signature st));
            st = ni_upd (\<lambda>i. i\<lparr>signature := signature_of sig\<rparr>) st
        in
          rbind (nmbm_write_signature d (mgmt_start_ba (ni_of st)) sig st) (\<lambda>(r, st).
            case r of
              None \<Rightarrow> Inr (False, st)
            | Some ba \<Rightarrow> nmbm_create_info_table crc d (ni_upd (\<lambda>i. i\<lparr>signature_ba := ba\<rparr>) st)))))"

section \<open>Loading\<close>

definition nmbm_check_info_table_header :: "'n nst \<Rightarrow> u8 list \<Rightarrow> bool" where
  "nmbm_check_info_table_header st b =
     (let h = info_table_of b; i = ni_of st in
      h_magic h = NMBM_MAGIC_INFO_TABLE \<and> h_size h = info_table_size i \<and>
      \<not> u32_of (int (mapping_table_off h) - int (state_table_off h)) < state_table_size i \<and>
      \<not> u32_of (int (info_table_size i) - int (mapping_table_off h)) < mapping_table_size i)"

text \<open>An element of a table in the cache.\<close>

definition cache_num :: "nat \<Rightarrow> 'n nst \<Rightarrow> nat res" where
  "cache_num off st =
     (let c = info_table_cache (ni_of st) in if off + 4 \<le> length c then Inr (num_at off 4 c) else Inl Bad_access)"

text \<open>
  The loops of \<open>nmbm_check_info_table\<close>. Elements of \<open>block_mapping\<close> are compared as numbers of type
  \<open>u32\<close>; the first returns \<open>minimum_mapping_pb\<close>.
\<close>

primrec check_mappings :: "nat \<Rightarrow> nat \<Rightarrow> nat list \<Rightarrow> nat \<Rightarrow> 'n nst \<Rightarrow> nat option res" where
  "check_mappings off end_ba [] minimum st = Inr (Some minimum)"
| "check_mappings off end_ba (ba # bas) minimum st =
     rbind (cache_num (off + 4 * ba) st) (\<lambda>m.
       if m \<ge> data_block_count (ni_of st) \<and> m < end_ba \<or> m = signature_ba (ni_of st) then Inr None
       else check_mappings off end_ba bas (if m \<ge> end_ba \<and> m < minimum then m else minimum) st)"

primrec check_states :: "nat \<Rightarrow> nat list \<Rightarrow> 'n nst \<Rightarrow> bool res" where
  "check_states off [] st = Inr True"
| "check_states off (ba # bas) st =
     rbind (nmbm_get_block_state ba st) (\<lambda>s.
       if s \<noteq> BLOCK_ST_GOOD then check_states off bas st
       else
         rbind (cache_num (off + 4 * (ba div NMBM_BITMAP_BLOCKS_PER_UNIT)) st) (\<lambda>w.
           if drop_bit ((ba mod NMBM_BITMAP_BLOCKS_PER_UNIT) * 2) (of_nat w) AND BLOCK_ST_MASK \<noteq> BLOCK_ST_GOOD
           then Inr False else check_states off bas st))"

definition nmbm_check_info_table :: "nat \<Rightarrow> nat \<Rightarrow> 'n nst \<Rightarrow> nat option res" where
  "nmbm_check_info_table start_ba end_ba st =
     (let h = info_table_of (info_table_cache (ni_of st)) in
      rbind (check_mappings (mapping_table_off h) end_ba [0..<data_block_count (ni_of st)] (signature_ba (ni_of st)) st) (\<lambda>r.
        case r of
          None \<Rightarrow> Inr None
        | Some minimum \<Rightarrow>
            rbind (check_states (state_table_off h) [start_ba..<end_ba] st) (\<lambda>ok.
              Inr (if ok then Some (u32_of (int minimum - 1)) else None))))"

text \<open>
  The loop of \<open>nmbm_try_load_info_table\<close> with \<open>n\<close> blocks to go and \<open>don\<close> bytes read; the result is
  the first block of the table and the block after it, or \<open>None\<close> where \<open>false\<close> is returned.
\<close>

primrec load_table_from ::
  "nat \<Rightarrow> 'n nand_dev \<Rightarrow> nat \<Rightarrow> nat \<Rightarrow> nat option \<Rightarrow> 'n nst \<Rightarrow> ((nat \<times> nat) option \<times> 'n nst) res" where
  "load_table_from 0 d ba don start st =
     Inr (if don < info_table_size (ni_of st) then None else Some (case start of Some s \<Rightarrow> s | None \<Rightarrow> 0, ba), st)"
| "load_table_from (Suc n) d ba don start st =
     (if \<not> don < info_table_size (ni_of st) then Inr (Some (case start of Some s \<Rightarrow> s | None \<Rightarrow> 0, ba), st)
      else
        rbind (nmbm_get_block_state ba st) (\<lambda>s.
          if s \<noteq> BLOCK_ST_GOOD then load_table_from n d (Suc ba) don start st
          else
            let (bad, st) = nmbm_check_bad_phys_block d ba st in
            if bad then rbind (nmbm_set_block_state ba BLOCK_ST_BAD st) (\<lambda>(_, st). load_table_from n d (Suc ba) don start st)
            else
              let chunksize = min (info_table_size (ni_of st) - don) (blk_size (bm st));
                  cache = info_table_cache (ni_of st)
              in
                rbind (nmbn_read_data d (ba2addr st ba) chunksize (take chunksize (drop don cache)) st) (\<lambda>((ret, buf), st).
                  let st = ni_upd (\<lambda>i. i\<lparr>info_table_cache := take don cache @ buf @ drop (don + chunksize) cache\<rparr>) st in
                  if ret < 0 then
                    rbind (nmbm_set_block_state ba BLOCK_ST_BAD st) (\<lambda>(_, st). load_table_from n d (Suc ba) don start st)
                  else if ret > 0 then Inr (None, st)
                  else if start = None \<and> \<not> nmbm_check_info_table_header st buf then Inr (None, st)
                  else load_table_from n d (Suc ba) (don + chunksize) (if start = None then Some ba else start) st)))"

definition take_tables :: "'n nst \<Rightarrow> 'n nst res" where
  "take_tables st =
     (let i = ni_of st; c = info_table_cache i; h = info_table_of c in
      if state_table_off h + state_table_size i \<le> length c \<and> mapping_table_off h + mapping_table_size i \<le> length c
      then Inr (ni_upd (\<lambda>i. i\<lparr>info_table := h,
             block_state := states_of (state_table_size i div 4) (drop (state_table_off h) c),
             block_mapping := mappings_of (mapping_table_size i div 4) (drop (mapping_table_off h) c)\<rparr>) st)
      else Inl Bad_access)"

text \<open>\<open>eba\<close>, \<open>write_count\<close> and \<open>mapping_blocks_top_ba\<close> of a table that is found.\<close>

definition nmbm_try_load_info_table ::
  "crc32 \<Rightarrow> 'n nand_dev \<Rightarrow> nat \<Rightarrow> bool \<Rightarrow> 'n nst \<Rightarrow> ((nat \<times> nat \<times> nat) option \<times> 'n nst) res" where
  "nmbm_try_load_info_table crc d ba table_loaded st =
     rbind (load_table_from (u32_of (int ba + int (size2blk st (info_table_size (ni_of st)))) - ba) d ba 0 None st) (\<lambda>(r, st).
       case r of
         None \<Rightarrow> Inr (None, st)
       | Some (start_ba, eba) \<Rightarrow>
           if \<not> nmbm_check_header crc (info_table_cache (ni_of st)) (info_table_size (ni_of st)) then Inr (None, st)
           else
             rbind (nmbm_check_info_table start_ba eba st) (\<lambda>r.
               case r of
                 None \<Rightarrow> Inr (None, st)
               | Some top_ba \<Rightarrow>
                   let wc = write_count (info_table_of (info_table_cache (ni_of st))) in
                   rbind (if \<not> table_loaded \<or> wc > write_count (info_table (ni_of st)) then take_tables st else Inr st) (\<lambda>st.
                     Inr (Some (eba, wc, top_ba), st))))"

text \<open>The start of a table that is found, and what the search for it returns.\<close>

primrec search_from ::
  "crc32 \<Rightarrow> 'n nand_dev \<Rightarrow> nat list \<Rightarrow> bool \<Rightarrow> 'n nst \<Rightarrow> ((nat \<times> nat \<times> nat \<times> nat) option \<times> 'n nst) res" where
  "search_from crc d [] table_loaded st = Inr (None, st)"
| "search_from crc d (ba # bas) table_loaded st =
     rbind (nmbm_try_load_info_table crc d ba table_loaded st) (\<lambda>(r, st).
       case r of Some x \<Rightarrow> Inr (Some (ba, x), st) | None \<Rightarrow> search_from crc d bas table_loaded st)"

definition nmbm_search_info_table ::
  "crc32 \<Rightarrow> 'n nand_dev \<Rightarrow> nat \<Rightarrow> nat \<Rightarrow> bool \<Rightarrow> 'n nst \<Rightarrow> ((nat \<times> nat \<times> nat \<times> nat) option \<times> 'n nst) res" where
  "nmbm_search_info_table crc d ba limit table_loaded st =
     search_from crc d [ba..<u32_of (int limit - int (size2blk st (info_table_size (ni_of st))))] table_loaded st"

text \<open>The highest mapped block, counted from one; \<open>None\<close> if there is none.\<close>

primrec last_mapped :: "nat \<Rightarrow> 'n nst \<Rightarrow> nat option res" where
  "last_mapped 0 st = Inr None"
| "last_mapped (Suc k) st =
     rbind (get_mapping k st) (\<lambda>m. if m \<ge> 0 then Inr (Some (Suc k)) else last_mapped k st)"

text \<open>The end of \<open>nmbm_load_info_table\<close>: both copies are brought up to date.\<close>

definition settle_tables :: "crc32 \<Rightarrow> 'n nand_dev \<Rightarrow> nat \<Rightarrow> nat \<Rightarrow> 'n nst \<Rightarrow> 'n nst res" where
  "settle_tables crc d main_count backup_count st =
     rbind (nmbm_generate_info_table_cache crc st) (\<lambda>(_, st).
     rbind (if backup_table_ba (ni_of st) = 0 then nmbm_rescue_single_info_table d st
            else if main_count \<noteq> backup_count then
              nmbm_update_single_info_table d (main_count < backup_count)
                (ni_upd (\<lambda>i. i\<lparr>block_state_changed := 1, block_mapping_changed := 1\<rparr>) st)
            else Inr (True, st)) (\<lambda>(success, st).
       Inr (if mapping_blocks_ba (ni_of st) = mapping_blocks_top_ba (ni_of st) \<or> \<not> success
            then ni_upd (\<lambda>i. i\<lparr>protected := True\<rparr>) st else st)))"

definition nmbm_load_info_table :: "crc32 \<Rightarrow> 'n nand_dev \<Rightarrow> nat \<Rightarrow> nat \<Rightarrow> 'n nst \<Rightarrow> (bool \<times> 'n nst) res" where
  "nmbm_load_info_table crc d ba limit st =
     (let st = ni_upd (\<lambda>i. i\<lparr>main_table_ba := 0, backup_table_ba := 0, info_table := (info_table i)\<lparr>write_count := 0\<rparr>,
                 mapping_blocks_top_ba := u32_of (int (signature_ba i) - 1), data_block_count := mgmt_start_pb (signature i)\<rparr>) st
      in
        rbind (nmbm_search_info_table crc d ba limit False st) (\<lambda>(r, st).
          case r of
            None \<Rightarrow> Inr (False, st)
          | Some (main_ba, main_end, main_count, main_top) \<Rightarrow>
              let st = ni_upd (\<lambda>i. i\<lparr>main_table_ba := main_ba\<rparr>) st in
              rbind (nmbm_search_info_table crc d main_end limit True st) (\<lambda>(r, st).
                let (backup_ba, table_end, backup_count, top_ba) =
                      (case r of
                         None \<Rightarrow> (backup_table_ba (ni_of st), main_end, main_count, main_top)
                       | Some (b, e, c, t) \<Rightarrow>
                           (b, e, c, if b = 0 \<or> main_count \<ge> c then main_top else t));
                    st = ni_upd (\<lambda>i. i\<lparr>backup_table_ba := backup_ba, mapping_blocks_top_ba := top_ba, mapping_blocks_ba := table_end\<rparr>) st
                in
                  rbind (last_mapped (mgmt_start_pb (signature (ni_of st))) st) (\<lambda>r.
                    let st = (case r of None \<Rightarrow> st | Some k \<Rightarrow> ni_upd (\<lambda>i. i\<lparr>data_block_count := k\<rparr>) st) in
                    rbind (settle_tables crc d main_count backup_count st) (\<lambda>st. Inr (True, st))))))"

definition nmbm_load_existing :: "crc32 \<Rightarrow> 'n nand_dev \<Rightarrow> 'n nst \<Rightarrow> (bool \<times> 'n nst) res" where
  "nmbm_load_existing crc d st =
     (let st = ni_upd (\<lambda>i. i\<lparr>mgmt_start_ba := mgmt_start_pb (signature i)\<rparr>) st in
      rbind (nmbm_load_info_table crc d (mgmt_start_ba (ni_of st)) (signature_ba (ni_of st)) st) (\<lambda>(success, st).
        if success then Inr (True, st)
        else if \<not> force_create (ni_of st) then Inr (False, st)
        else
          rbind (nmbm_scan_badblocks d st) (\<lambda>st.
          rbind (nmbm_build_mapping_table st) (nmbm_create_info_table crc d))))"

text \<open>The pages of a block, until one has a signature; the local variable \<open>sig\<close> is filled before it is read.\<close>

primrec find_in_pages ::
  "crc32 \<Rightarrow> 'n nand_dev \<Rightarrow> nat \<Rightarrow> nat list \<Rightarrow> 'n nst \<Rightarrow> (nmbm_signature option \<times> 'n nst) res" where
  "find_in_pages crc d addr [] st = Inr (None, st)"
| "find_in_pages crc d addr (off # offs) st =
     rbind (nmbn_read_data d (addr + off) 48 (replicate 48 0) st) (\<lambda>((ret, sig), st).
       if ret = 0 \<and> nmbm_check_header crc sig 48 \<and> h_magic (signature_of sig) = NMBM_MAGIC_SIGNATURE
       then Inr (Some (signature_of sig), st) else find_in_pages crc d addr offs st)"

primrec find_from ::
  "crc32 \<Rightarrow> 'n nand_dev \<Rightarrow> nat list \<Rightarrow> 'n nst \<Rightarrow> ((nmbm_signature \<times> nat) option \<times> 'n nst) res" where
  "find_from crc d [] st = Inr (None, st)"
| "find_from crc d (ba # bas) st =
     (let (bad, st) = nmbm_check_bad_phys_block d ba st in
      if bad then find_from crc d bas st
      else
        rbind (find_in_pages crc d (ba2addr st ba) (page_offsets st) st) (\<lambda>(r, st).
          case r of Some sig \<Rightarrow> Inr (Some (sig, ba), st) | None \<Rightarrow> find_from crc d bas st))"

definition search_limit :: "'n nst \<Rightarrow> nat" where
  "search_limit st =
     (let i = ni_of st; n = total_blks (bm st);
          m = u32_of (int (n div NMBM_MGMT_DIV) * int (u32_of (int NMBM_MGMT_DIV - int (max_ratio i))))
      in if max_reserved_blocks i \<noteq> 0 \<and> u32_of (int n - int m) > max_reserved_blocks i
         then u32_of (int n - int (max_reserved_blocks i)) else m)"

text \<open>
  The blocks from the last one down to the one below the limit. With the limit zero the number
  wraps around below block zero and the loop goes on outside of the chip.
\<close>

definition nmbm_find_signature ::
  "crc32 \<Rightarrow> 'n nand_dev \<Rightarrow> 'n nst \<Rightarrow> ((nmbm_signature \<times> nat) option \<times> 'n nst) res" where
  "nmbm_find_signature crc d st =
     (let limit = search_limit st in
      rbind (find_from crc d (rev [limit - 1..<total_blks (bm st)]) st) (\<lambda>(r, st).
        if r = None \<and> limit = 0 then Inl Out_of_fuel else Inr (r, st)))"

section \<open>Initialisation\<close>

definition nmbm_init_structure :: "'n nst \<Rightarrow> 'n nst" where
  "nmbm_init_structure st =
     (let s = bm st; n = total_blks s; raw = pg_size s + oobsize (mtd s);
          rawblk = u32_of (int (blk_size s div pg_size s) * int raw);
          state_size = (n + NMBM_BITMAP_BLOCKS_PER_UNIT - 1) div NMBM_BITMAP_BLOCKS_PER_UNIT * 4;
          map_size = n * 4;
          state_off = round_up 32 (pg_size s);
          map_off = state_off + round_up state_size (pg_size s);
          info_size = map_off + round_up map_size (pg_size s)
      in ni_upd (\<lambda>i. i\<lparr>rawpage_size := raw, rawblock_size := rawblk, rawchip_size := u32_of (int n * int rawblk),
           block_count := n, state_table_size := state_size, mapping_table_size := map_size,
           info_table := (info_table i)\<lparr>state_table_off := state_off, mapping_table_off := map_off\<rparr>,
           info_table_size := info_size, info_table_spare_blocks := nmbm_get_spare_block_count (size2blk st info_size),
           info_table_cache := replicate info_size 0, block_state := replicate (state_size div 4) 0xffffffff,
           block_state_changed := 0, block_mapping := replicate n 0, block_mapping_changed := 0\<rparr>) st)"

definition nmbm_attach :: "crc32 \<Rightarrow> 'n nand_dev \<Rightarrow> 'n nst \<Rightarrow> (int \<times> 'n nst) res" where
  "nmbm_attach crc d st =
     rbind (nmbm_find_signature crc d (nmbm_init_structure st)) (\<lambda>(r, st).
       case r of
         None \<Rightarrow>
           if \<not> force_create (ni_of st) then Inr (- ENODEV, st)
           else rbind (nmbm_create_new crc d st) (\<lambda>(success, st). Inr (if success then 0 else - ENODEV, st))
       | Some (sig, ba) \<Rightarrow>
           let st = ni_upd (\<lambda>i. i\<lparr>signature := sig, signature_ba := ba\<rparr>) st in
           if h_version sig \<noteq> NMBM_VER then Inr (- EINVAL, st)
           else if nand_size sig \<noteq> chip_size st \<or> sig_block_size sig \<noteq> blk_size (bm st) \<or>
             sig_page_size sig \<noteq> pg_size (bm st) \<or> spare_size sig \<noteq> oobsize (mtd (bm st)) then Inr (- EINVAL, st)
           else rbind (nmbm_load_existing crc d st) (\<lambda>(success, st). Inr (if success then 0 else - ENODEV, st)))"

section \<open>The operations of the mapping\<close>

text \<open>An operation on the instance the descriptor points to.\<close>

definition with_ni :: "'n bmt_desc \<Rightarrow> ('n nst \<Rightarrow> ('a \<times> 'n nst) res) \<Rightarrow> ('a \<times> 'n bmt_desc) res" where
  "with_ni s f =
     (case ni s of
        None \<Rightarrow> Inl Bad_access
      | Some i \<Rightarrow> rbind (f \<lparr>ni_of = i, bm = s\<rparr>) (\<lambda>(x, st). Inr (x, (bm st)\<lparr>ni := Some (ni_of st)\<rparr>)))"

text \<open>\<open>bbt_nand_erase\<close> and \<open>bbt_nand_copy\<close> take the number of the new block as a \<open>u16\<close>.\<close>

definition remap_nst :: "crc32 \<Rightarrow> 'n nand_dev \<Rightarrow> nat \<Rightarrow> nat \<Rightarrow> int \<Rightarrow> 'n nst \<Rightarrow> (bool \<times> 'n nst) res" where
  "remap_nst crc d block mapped_block copy_len st =
     (if block \<ge> data_block_count (ni_of st) then Inr (False, st)
      else
        rbind (nmbm_set_block_state mapped_block BLOCK_ST_BAD st) (\<lambda>(_, st).
        rbind (nmbm_map_block crc d block st) (\<lambda>(success, st).
          if \<not> success then Inr (False, st)
          else
            rbind (get_mapping block st) (\<lambda>new_block.
              let s = snd (bbt_nand_erase d (u16_of new_block) (bm st));
                  s = (if copy_len > 0 then snd (bbt_nand_copy d (u16_of new_block) mapped_block copy_len s) else s)
              in rbind (nmbm_update_info_table crc d (st\<lparr>bm := s\<rparr>)) (\<lambda>(_, st). Inr (True, st))))))"

definition remap_block_nmbm :: "crc32 \<Rightarrow> 'n nand_dev \<Rightarrow> nat \<Rightarrow> nat \<Rightarrow> int \<Rightarrow> 'n bmt_desc \<Rightarrow> (bool \<times> 'n bmt_desc) res" where
  "remap_block_nmbm crc d block mapped_block copy_len s = with_ni s (remap_nst crc d block mapped_block copy_len)"

definition get_mapping_block_index_nmbm :: "int \<Rightarrow> 'n bmt_desc \<Rightarrow> int res" where
  "get_mapping_block_index_nmbm block s =
     (case ni s of
        None \<Rightarrow> Inl Bad_access
      | Some i \<Rightarrow>
          if u32_of block \<ge> data_block_count i then Inr (- 1) else get_mapping (nat block) \<lparr>ni_of = i, bm = s\<rparr>)"

text \<open>
  The first loop of \<open>unmap_block_nmbm\<close> steps back over remapped blocks; it returns where it ends
  and the number of steps, or \<open>None\<close> below block zero.
\<close>

primrec unmap_start :: "nat \<Rightarrow> nat \<Rightarrow> 'n nst \<Rightarrow> (nat \<times> nat) option res" where
  "unmap_start 0 offset st =
     rbind (get_mapping 0 st) (\<lambda>m. Inr (if u32_of m \<ge> mapping_blocks_ba (ni_of st) then None else Some (0, offset)))"
| "unmap_start (Suc start) offset st =
     rbind (get_mapping (Suc start) st) (\<lambda>m.
       if u32_of m \<ge> mapping_blocks_ba (ni_of st) then unmap_start start (Suc offset) st else Inr (Some (Suc start, offset)))"

text \<open>Its second loop, whose counter is a \<open>u16\<close>, over a mapping of fewer than 65536 blocks.\<close>

primrec lowest_mapped :: "nat list \<Rightarrow> int \<Rightarrow> 'n nst \<Rightarrow> int res" where
  "lowest_mapped [] new_block st = Inr new_block"
| "lowest_mapped (b # bs) new_block st =
     rbind (get_mapping b st) (\<lambda>cur.
       lowest_mapped bs (if u32_of cur < mapping_blocks_ba (ni_of st) then new_block
         else if cur \<le> new_block then cur - 1 else new_block) st)"

definition unmap_nst :: "crc32 \<Rightarrow> 'n nand_dev \<Rightarrow> nat \<Rightarrow> 'n nst \<Rightarrow> (unit \<times> 'n nst) res" where
  "unmap_nst crc d block st =
     (if block \<ge> data_block_count (ni_of st) then Inr ((), st)
      else
        rbind (unmap_start block 0 st) (\<lambda>r.
          case r of
            None \<Rightarrow> Inr ((), st)
          | Some (start, offset) \<Rightarrow>
              if offset = 0 then Inr ((), st)
              else
                rbind (get_mapping start st) (\<lambda>m.
                  let new_block = m + int offset in
                  rbind (nmbm_set_block_state (u32_of new_block) BLOCK_ST_GOOD st) (\<lambda>(_, st).
                  rbind (put_mapping block new_block st) (\<lambda>st.
                    let st = ni_upd (\<lambda>i. i\<lparr>block_mapping_changed := u32_of (int (block_mapping_changed i) + 1)\<rparr>) st in
                    rbind (lowest_mapped [0..<data_block_count (ni_of st)] (s32_of (u32_of (int (signature_ba (ni_of st)) - 1))) st) (\<lambda>new_block.
                      rbind (nmbm_update_info_table crc d (ni_upd (\<lambda>i. i\<lparr>mapping_blocks_top_ba := u32_of new_block\<rparr>) st)) (\<lambda>(_, st).
                        Inr ((), st))))))))"

definition unmap_block_nmbm :: "crc32 \<Rightarrow> 'n nand_dev \<Rightarrow> nat \<Rightarrow> 'n bmt_desc \<Rightarrow> ('n bmt_desc) res" where
  "unmap_block_nmbm crc d block s = rbind (with_ni s (unmap_nst crc d block)) (\<lambda>(_, s). Inr s)"

text \<open>The debug operation prints the remapped blocks.\<close>

definition mtk_bmt_debug_nmbm :: "nat \<Rightarrow> 'n bmt_desc \<Rightarrow> (int \<times> 'n bmt_desc) res" where
  "mtk_bmt_debug_nmbm v s =
     with_ni s (\<lambda>st. if v = 0 then rbind (rfold (\<lambda>i _. rbind (get_mapping i st) (\<lambda>_. Inr ())) [1..<data_block_count (ni_of st)] ())
       (\<lambda>_. Inr (0, st)) else Inr (0, st))"

text \<open>The memory is set to zero when it is allocated; the predicate \<open>mem\<close> gets the size of the tables.\<close>

definition nmbm_new_instance :: "bmt_node \<Rightarrow> nmbm_instance" where
  "nmbm_new_instance np =
     \<lparr>rawpage_size = 0, rawblock_size = 0, rawchip_size = 0,
      signature = \<lparr>h_magic = 0, h_version = 0, h_size = 0, h_checksum = 0, nand_size = 0, sig_block_size = 0,
        sig_page_size = 0, spare_size = 0, mgmt_start_pb = 0, max_try_count = 0\<rparr>,
      info_table_cache = [], info_table_size = 0, info_table_spare_blocks = 0,
      info_table = \<lparr>h_magic = 0, h_version = 0, h_size = 0, h_checksum = 0, write_count = 0, state_table_off = 0,
        mapping_table_off = 0, h_padding = 0\<rparr>,
      block_state = [], block_state_changed = 0, state_table_size = 0, block_mapping = [], block_mapping_changed = 0,
      mapping_table_size = 0, protected = False, block_count = 0, data_block_count = 0, mgmt_start_ba = 0,
      main_table_ba = 0, backup_table_ba = 0, mapping_blocks_ba = 0, mapping_blocks_top_ba = 0, signature_ba = 0,
      max_ratio = or_default 1 (np_max_ratio np), max_reserved_blocks = or_default 256 (np_max_reserved np),
      empty_page_ecc_ok = np_empty_ecc np, force_create = np_force_create np\<rparr>"

definition nmbm_calc_structure_size :: "'n bmt_desc \<Rightarrow> nat" where
  "nmbm_calc_structure_size s =
     (let n = total_blks s;
          state_size = (n + NMBM_BITMAP_BLOCKS_PER_UNIT - 1) div NMBM_BITMAP_BLOCKS_PER_UNIT * 4
      in round_up 32 (pg_size s) + round_up state_size (pg_size s) + round_up (n * 4) (pg_size s) + state_size + n * 4)"

definition mtk_bmt_init_nmbm ::
  "crc32 \<Rightarrow> 'n nand_dev \<Rightarrow> (nat \<Rightarrow> bool) \<Rightarrow> bmt_node \<Rightarrow> 'n bmt_desc \<Rightarrow> (int \<times> 'n bmt_desc) res" where
  "mtk_bmt_init_nmbm crc d mem np s =
     (if \<not> mem (nmbm_calc_structure_size s) then Inr (- ENOMEM, s)
      else
        rbind (nmbm_attach crc d \<lparr>ni_of = nmbm_new_instance np, bm = s\<rparr>) (\<lambda>(ret, st).
          if ret \<noteq> 0 then Inr (ret, (bm st)\<lparr>ni := None\<rparr>)
          else
            Inr (0, (bm st)\<lparr>ni := Some (ni_of st),
              mtd := (mtd (bm st))\<lparr>msize := u32_of (int (data_block_count (ni_of st)) * 2 ^ blk_shift (bm st))\<rparr>\<rparr>)))"

definition mtk_bmt_nmbm_ops :: "crc32 \<Rightarrow> 'n nand_dev \<Rightarrow> 'n mtk_bmt_ops" where
  "mtk_bmt_nmbm_ops crc d =
     \<lparr>remap_block = remap_block_nmbm crc d, unmap_block = unmap_block_nmbm crc d,
      get_mapping_block = get_mapping_block_index_nmbm, debug_op = mtk_bmt_debug_nmbm\<rparr>"

end
