(* ===== verification/Mtk_Nmbm_Inv.thy ===== *)
theory Mtk_Nmbm_Inv
  imports Mtk_Nmbm_Table Mtk_Bmt_Client
begin

text \<open>
  What the operations of NMBM keep. The bitmap of block states is a map from blocks to states;
  an update of the info table keeps the instance well formed, reaches no memory outside of its
  tables, and ends, because each round of it that is followed by another has found a bad block.
\<close>

section \<open>The bitmap\<close>

definition st_at :: "u32 list \<Rightarrow> nat \<Rightarrow> u32" where
  "st_at states ba = drop_bit (ba mod 16 * 2) (states ! (ba div 16)) AND 3"

lemma bit_three: "bit (3 :: u32) n \<longleftrightarrow> n < 2"
proof -
  have "(3 :: u32) = mask 2" by (simp add: mask_eq_exp_minus_1)
  then have "bit (3 :: u32) n \<longleftrightarrow> possible_bit TYPE(u32) n \<and> n < 2" by (simp only: bit_mask_iff)
  then show ?thesis by (auto simp: possible_bit_word)
qed

lemma field_update:
  fixes w state :: u32
  assumes "a < 16" "b < 16"
  shows "drop_bit (b * 2) ((w AND NOT (push_bit (a * 2) 3)) OR push_bit (a * 2) (state AND 3)) AND 3 =
    (if a = b then state AND 3 else drop_bit (b * 2) w AND 3)"
proof (rule bit_word_eqI)
  fix n
  assume "n < LENGTH(32)"
  then show "bit (drop_bit (b * 2) ((w AND NOT (push_bit (a * 2) 3)) OR push_bit (a * 2) (state AND 3)) AND 3) n =
      bit (if a = b then state AND 3 else drop_bit (b * 2) w AND 3) n"
  proof (cases "n < 2")
    case True
    then have "b * 2 + n < 32" using assms(2) by simp
    moreover have "bit (3 :: u32) n" using True by (rule iffD2 [OF bit_three])
    moreover have "bit (3 :: u32) (b * 2 + n - a * 2) \<longleftrightarrow> b * 2 + n - a * 2 < 2" by (rule bit_three)
    ultimately show ?thesis using assms True by (auto simp: bit_simps)
  next
    case False
    then have "\<not> bit (3 :: u32) n" using bit_three by blast
    then show ?thesis by (auto simp: bit_simps)
  qed
qed

lemma st_at_update:
  assumes "ba div 16 < length states"
  shows "st_at (states[ba div 16 := (states ! (ba div 16) AND NOT (push_bit (ba mod 16 * 2) 3)) OR
      push_bit (ba mod 16 * 2) (state AND 3)]) ba' = (if ba' = ba then state AND 3 else st_at states ba')"
proof (cases "ba' div 16 = ba div 16")
  case True
  then have "ba' = ba \<longleftrightarrow> ba mod 16 = ba' mod 16" by (metis mult_div_mod_eq)
  then show ?thesis using assms True field_update [of "ba mod 16" "ba' mod 16"] by (simp add: st_at_def)
qed (auto simp: st_at_def)

section \<open>Access to the chip\<close>

text \<open>The descriptor keeps everything but the chip and the contents of the page cache.\<close>

definition frame :: "'n nst \<Rightarrow> 'n nst \<Rightarrow> bool" where
  "frame st t \<longleftrightarrow> keeps_table (bm st) (bm t) \<and> length (data_buf (bm t)) = length (data_buf (bm st))"

definition dev_step :: "'n nst \<Rightarrow> 'n nst \<Rightarrow> bool" where
  "dev_step st t \<longleftrightarrow> ni_of t = ni_of st \<and> frame st t"

lemma frame_refl [simp]: "frame st st"
  by (simp add: frame_def keeps_table_refl)

lemma frame_trans: "frame st t \<Longrightarrow> frame t u \<Longrightarrow> frame st u"
  unfolding frame_def using keeps_table_trans by auto

lemma frame_fields:
  assumes "frame st t"
  shows "pg_size (bm t) = pg_size (bm st)" "blk_size (bm t) = blk_size (bm st)" "blk_shift (bm t) = blk_shift (bm st)"
    "mtd (bm t) = mtd (bm st)" "total_blks (bm t) = total_blks (bm st)"
  using assms by (auto simp: frame_def keeps_table_def)

lemma dev_step_refl [simp]: "dev_step st st"
  by (simp add: dev_step_def)

lemma dev_step_trans: "dev_step st t \<Longrightarrow> dev_step t u \<Longrightarrow> dev_step st u"
  unfolding dev_step_def using frame_trans by metis

lemma set_chip_step [simp]: "dev_step st (set_chip c st)"
  by (simp add: dev_step_def frame_def set_chip_def keeps_table_chip)

lemma set_cache_step: "length b = length (data_buf (bm st)) \<Longrightarrow> dev_step st (set_cache b st)"
  using keeps_table_bufs [of "bm st" b "chip (bm st)"] by (simp add: dev_step_def frame_def set_cache_def)

lemma fill_buf_length [simp]: "length (fill_buf dat buf) = length buf"
  by (simp add: fill_buf_def)

lemma read_tries_step:
  assumes "read_tries d n addr ret buf st = ((r, b), t)"
  shows "dev_step st t" "length b = length buf"
  using assms
proof (induction n arbitrary: ret buf st)
  case (Suc n)
  { case 1 then show ?case using Suc.IH(1)
      by (auto simp: Let_def intro: dev_step_trans [OF set_chip_step] split: prod.splits if_splits)
  next
    case 2 then show ?case using Suc.IH(2) by (fastforce simp: Let_def split: prod.splits if_splits) }
qed auto

lemma read_page_step:
  assumes "nmbm_read_phys_page d addr buf st = ((r, b), t)"
  shows "dev_step st t" "length b = length buf"
  using read_tries_step assms unfolding nmbm_read_phys_page_def by blast+

lemma read_cache_step:
  assumes "nmbm_read_phys_page d addr (data_buf (bm st)) st = ((r, b), t)"
  shows "dev_step st (set_cache b t)"
proof -
  have "length b = length (data_buf (bm t))" using read_page_step [OF assms] by (simp add: dev_step_def frame_def)
  then show ?thesis using set_cache_step dev_step_trans read_page_step(1) [OF assms] by blast
qed

lemma write_tries_step: "dev_step st (snd (write_tries d n addr dat st))"
  by (induction n arbitrary: st) (auto simp: Let_def intro: dev_step_trans [OF set_chip_step] split: prod.split)

lemma erase_tries_step: "dev_step st (snd (erase_tries d n addr st))"
  by (induction n arbitrary: st) (auto simp: Let_def intro: dev_step_trans [OF set_chip_step] split: prod.split)

lemma check_bad_step: "dev_step st (snd (nmbm_check_bad_phys_block d ba st))"
  by (simp add: nmbm_check_bad_phys_block_def split: prod.split)

lemma mark_bad_step: "dev_step st (snd (nmbm_mark_phys_bad_block d ba st))"
  by (simp add: nmbm_mark_phys_bad_block_def split: prod.split)

lemma check_empty_step: "dev_step st (snd (check_empty d addr offs st))"
proof (induction offs arbitrary: st)
  case (Cons off offs)
  obtain r b t where rd: "nmbm_read_phys_page d (addr + off) (data_buf (bm st)) st = ((r, b), t)" by (metis prod.collapse)
  from Cons.IH [of "set_cache b t"] read_cache_step [OF rd] show ?case
    using dev_step_trans by (auto simp: rd Let_def)
qed simp

lemma erase_check_step: "dev_step st (snd (nmbm_erase_block_and_check d ba st))"
proof -
  obtain ok t where e: "nmbm_erase_phys_block d (ba2addr st ba) st = (ok, t)" by (metis prod.collapse)
  then have "dev_step st t" using erase_tries_step [of st d] unfolding nmbm_erase_phys_block_def by (metis snd_conv)
  then show ?thesis using dev_step_trans [OF _ check_empty_step] by (auto simp: nmbm_erase_block_and_check_def e)
qed

lemma write_page_step: "dev_step st (snd (nmbm_write_phys_page d addr st))"
  by (simp add: nmbm_write_phys_page_def write_tries_step)

section \<open>Block states\<close>

definition nblk :: "'n nst \<Rightarrow> nat" where
  "nblk st = 16 * length (block_state (ni_of st))"

definition good_at :: "'n nst \<Rightarrow> nat \<Rightarrow> bool" where
  "good_at st ba \<longleftrightarrow> st_at (block_state (ni_of st)) ba = 3"

definition goods :: "'n nst \<Rightarrow> nat" where
  "goods st = card {ba. ba < nblk st \<and> good_at st ba}"

text \<open>Without \<open>b\<close> an operation may stop for any reason, with it for none.\<close>

definition errs :: "bool \<Rightarrow> stop set" where
  "errs b = (if b then {} else UNIV)"

lemma get_state_wp:
  assumes "b \<Longrightarrow> ba < nblk st"
  shows "wp (errs b) (nmbm_get_block_state ba st) (\<lambda>s. ba < nblk st \<and> s = st_at (block_state (ni_of st)) ba)"
  using assms
  by (auto simp: nmbm_get_block_state_def nmbm_get_block_state_raw_def NMBM_BITMAP_BLOCKS_PER_UNIT_def BLOCK_ST_MASK_def
      st_at_def nblk_def errs_def Let_def)

text \<open>
  What the states and the counters look like after blocks have been found bad: only states and
  their counter have changed, no block has become good, and if the counter was zero and is not
  any more, there are fewer good blocks.
\<close>

definition restated :: "nmbm_instance \<Rightarrow> nmbm_instance \<Rightarrow> bool" where
  "restated i j \<longleftrightarrow> (\<exists>bs c. j = i\<lparr>block_state := bs, block_state_changed := c\<rparr>)"

lemma restated_refl: "restated i i"
  unfolding restated_def by (rule exI [of _ "block_state i"], rule exI [of _ "block_state_changed i"]) simp

lemma restated_trans: "restated i j \<Longrightarrow> restated j k \<Longrightarrow> restated i k"
  by (fastforce simp: restated_def)

definition marks :: "'n nst \<Rightarrow> 'n nst \<Rightarrow> bool" where
  "marks st t \<longleftrightarrow> frame st t \<and>
     restated (ni_of st) (ni_of t) \<and> nblk t = nblk st \<and> goods t \<le> goods st \<and> (tables_changed t \<longrightarrow> tables_changed st \<or> goods t < goods st)"

lemma dev_step_marks: "dev_step st t \<Longrightarrow> marks st t"
  by (auto simp: restated_refl dev_step_def marks_def goods_def nblk_def good_at_def tables_changed_def)

lemma marks_refl [simp]: "marks st st"
  by (simp add: dev_step_marks)

lemma marks_trans: "marks st t \<Longrightarrow> marks t u \<Longrightarrow> marks st u"
  using frame_trans restated_trans unfolding marks_def by (metis le_trans less_le_trans le_less_trans)

text \<open>A good block is marked bad.\<close>

lemma set_bad_marks:
  assumes "b \<Longrightarrow> ba < nblk st" "good_at st ba"
  shows "wp (errs b) (nmbm_set_block_state ba BLOCK_ST_BAD st) (\<lambda>(_, t). marks st t)"
proof (cases "ba div 16 < length (block_state (ni_of st))")
  case True
  define uv where "uv = (block_state (ni_of st) ! (ba div 16) AND NOT (push_bit (ba mod 16 * 2) 3)) OR push_bit (ba mod 16 * 2) ((0 :: u32) AND 3)"
  define t where "t = ni_upd (\<lambda>i. i\<lparr>block_state_changed := u32_of (int (block_state_changed i) + 1)\<rparr>)
    (ni_upd (\<lambda>i. i\<lparr>block_state := (block_state (ni_of st))[ba div 16 := uv]\<rparr>) st)"
  have eq: "nmbm_set_block_state ba BLOCK_ST_BAD st = Inr (True, t)"
    using True assms(2)
    by (simp add: nmbm_set_block_state_def NMBM_BITMAP_BLOCKS_PER_UNIT_def BLOCK_ST_MASK_def BLOCK_ST_BAD_def good_at_def
        st_at_def t_def uv_def Let_def)
  have bs: "block_state (ni_of t) = (block_state (ni_of st))[ba div 16 := uv]" by (simp add: t_def ni_upd_def)
  have "st_at (block_state (ni_of t)) ba' = (if ba' = ba then 0 else st_at (block_state (ni_of st)) ba')" for ba'
    unfolding bs uv_def using st_at_update [OF True, of 0 ba'] by simp
  then have "{x. x < nblk t \<and> good_at t x} = {x. x < nblk st \<and> good_at st x} - {ba}" by (auto simp: good_at_def nblk_def bs)
  moreover have "ba \<in> {x. x < nblk st \<and> good_at st x}" using True assms(2) by (simp add: nblk_def)
  ultimately have "goods t < goods st" unfolding goods_def by (metis card_Diff1_less finite_Collect_conjI finite_Collect_less_nat)
  moreover have "frame st t" by (simp add: frame_def t_def ni_upd_def keeps_table_refl)
  moreover have "restated (ni_of st) (ni_of t)" unfolding restated_def t_def ni_upd_def by auto
  ultimately have "marks st t" by (simp add: marks_def nblk_def bs)
  then show ?thesis by (simp add: eq)
qed (use assms(1) in \<open>auto simp: nmbm_set_block_state_def NMBM_BITMAP_BLOCKS_PER_UNIT_def nblk_def errs_def Let_def\<close>)

section \<open>Well-formed instances\<close>

definition tables_fit :: "nmbm_instance \<Rightarrow> bool" where
  "tables_fit i \<longleftrightarrow> 32 \<le> info_table_size i \<and> length (info_table_cache i) = info_table_size i \<and>
     state_table_off (info_table i) + 4 * length (block_state i) \<le> info_table_size i \<and>
     mapping_table_off (info_table i) + 4 * length (block_mapping i) \<le> info_table_size i"

definition mapped_ok :: "nat \<Rightarrow> nmbm_instance \<Rightarrow> bool" where
  "mapped_ok m i \<longleftrightarrow> data_block_count i \<le> length (block_mapping i) \<and>
     (\<forall>k < data_block_count i. 0 \<le> block_mapping i ! k \<and> block_mapping i ! k < int m)"

definition cache_ok :: "'n nst \<Rightarrow> bool" where
  "cache_ok st \<longleftrightarrow> 0 < pg_size (bm st) \<and> 0 < blk_size (bm st) \<and> pg_size (bm st) \<le> rawpage_size (ni_of st) \<and>
     rawpage_size (ni_of st) \<le> length (data_buf (bm st))"

definition nmbm_ok :: "'n nst \<Rightarrow> bool" where
  "nmbm_ok st \<longleftrightarrow> cache_ok st \<and> tables_fit (ni_of st) \<and> mapped_ok (nblk st) (ni_of st) \<and>
     0 < block_count (ni_of st) \<and> block_count (ni_of st) \<le> nblk st \<and> nblk st \<le> 2 ^ 16 \<and>
     mapping_blocks_top_ba (ni_of st) < nblk st \<and> mapping_blocks_ba (ni_of st) < nblk st \<and>
     main_table_ba (ni_of st) < nblk st \<and> backup_table_ba (ni_of st) < nblk st"

lemma marks_ok:
  assumes "marks st t" "nmbm_ok st"
  shows "nmbm_ok t"
proof -
  obtain bs c where i: "ni_of t = (ni_of st)\<lparr>block_state := bs, block_state_changed := c\<rparr>"
    using assms(1) by (auto simp: marks_def restated_def)
  moreover have "nblk t = nblk st" "length bs = length (block_state (ni_of st))" using assms(1) i by (auto simp: marks_def nblk_def)
  moreover have "cache_ok t" using assms frame_fields [of st t] by (simp add: cache_ok_def nmbm_ok_def marks_def frame_def i)
  ultimately show ?thesis using assms(2) by (simp add: nmbm_ok_def tables_fit_def mapped_ok_def)
qed

section \<open>Blocks for management data\<close>

lemma wp_marks_bind:
  assumes "wp A r (\<lambda>(x, t). marks st t \<and> P x t)"
    and "\<And>x t. marks st t \<Longrightarrow> P x t \<Longrightarrow> wp A (f (x, t)) (\<lambda>(y, u). marks t u \<and> Q y u)"
  shows "wp A (rbind r f) (\<lambda>(y, u). marks st u \<and> Q y u)"
proof (rule wp_rbindI [OF assms(1)])
  fix x
  assume x: "case x of (x, t) \<Rightarrow> marks st t \<and> P x t"
  obtain y t where xx: "x = (y, t)" by (cases x)
  have "wp A (f (y, t)) (\<lambda>(y, u). marks t u \<and> Q y u)" using x xx by (intro assms(2)) simp_all
  then show "wp A (f x) (\<lambda>(y, u). marks st u \<and> Q y u)"
    unfolding xx by (rule wp_mono) (use x xx marks_trans in auto)
qed

lemma retire_marks:
  assumes "b \<Longrightarrow> ba < nblk st" "good_at st ba"
  shows "wp (errs b) (retire_block d ba st) (marks st)"
proof -
  let ?t = "snd (nmbm_mark_phys_bad_block d ba st)"
  have t: "marks st ?t" "good_at ?t ba" "nblk ?t = nblk st"
    using mark_bad_step [of st d ba] assms(2) dev_step_marks by (auto simp: dev_step_def good_at_def nblk_def)
  have "wp (errs b) (nmbm_set_block_state ba BLOCK_ST_BAD ?t) (\<lambda>(_, u). marks ?t u)"
    using assms(1) t by (intro set_bad_marks) simp_all
  then show ?thesis
    unfolding retire_block_def by (rule wp_rbindI) (use t(1) marks_trans in auto)
qed

text \<open>A block that is ready is still marked good.\<close>

lemma prepare_marks:
  assumes "b \<Longrightarrow> ba < nblk st"
  shows "wp (errs b) (prepare_block d ba st) (\<lambda>(ready, t). marks st t \<and> (ready \<longrightarrow> good_at t ba \<and> ba < nblk st))"
  unfolding prepare_block_def
proof (rule wp_rbindI [OF get_state_wp [OF assms]], goal_cases)
  case (2 s)
  show ?case
  proof (cases "s = BLOCK_ST_GOOD")
    case True
    then have g: "good_at st ba" using 2 by (simp add: good_at_def BLOCK_ST_GOOD_def)
    obtain bad st1 where c: "nmbm_check_bad_phys_block d ba st = (bad, st1)" by (metis prod.collapse)
    then have s1: "dev_step st st1" using check_bad_step [of st d ba] by simp
    obtain ok st2 where e: "nmbm_erase_block_and_check d ba st1 = (ok, st2)" by (metis prod.collapse)
    then have s2: "dev_step st st2" using erase_check_step [of st1 d ba] s1 dev_step_trans by simp blast
    have same: "good_at t ba" "nblk t = nblk st" "marks st t" if "dev_step st t" for t
      using that g dev_step_marks by (auto simp: dev_step_def good_at_def nblk_def)
    have "wp (errs b) (nmbm_set_block_state ba BLOCK_ST_BAD st1) (\<lambda>(_, t). marks st1 t)"
      using assms same [OF s1] by (intro set_bad_marks) simp_all
    then have bad: "wp (errs b) (rbind (nmbm_set_block_state ba BLOCK_ST_BAD st1) (\<lambda>(_, st). Inr (False, st)))
        (\<lambda>(ready, t). marks st t \<and> (ready \<longrightarrow> good_at t ba \<and> ba < nblk st))"
      by (rule wp_rbindI) (use same(3) [OF s1] marks_trans in auto)
    have "wp (errs b) (retire_block d ba st2) (marks st2)"
      using assms same [OF s2] by (intro retire_marks) simp_all
    then have "wp (errs b) (rbind (retire_block d ba st2) (\<lambda>st. Inr (False, st)))
        (\<lambda>(ready, t). marks st t \<and> (ready \<longrightarrow> good_at t ba \<and> ba < nblk st))"
      by (rule wp_rbindI) (use same(3) [OF s2] marks_trans in auto)
    then show ?thesis using bad True c e same [OF s2] 2 by (simp add: Let_def)
  qed simp
qed

section \<open>Writing\<close>

lemma cache_ok_step: "dev_step st t \<Longrightarrow> cache_ok t = cache_ok st"
  using frame_fields [of st t] by (auto simp: cache_ok_def dev_step_def frame_def)

lemma fill_page_step:
  assumes "b \<Longrightarrow> cache_ok st \<and> leading + length dat \<le> pg_size (bm st)"
  shows "wp (errs b) (fill_page leading dat st) (dev_step st)"
proof (cases "rawpage_size (ni_of st) \<le> length (data_buf (bm st)) \<and> leading + length dat \<le> rawpage_size (ni_of st)")
  case True
  then have "dev_step st (set_cache (replicate leading 0xff @ dat @ replicate (rawpage_size (ni_of st) - leading - length dat) 0xff @
      drop (rawpage_size (ni_of st)) (data_buf (bm st))) st)" by (intro set_cache_step) simp
  then show ?thesis using True by (simp add: fill_page_def Let_def)
qed (use assms in \<open>auto simp: fill_page_def Let_def errs_def cache_ok_def\<close>)

lemma write_page_verify_step:
  assumes "b \<Longrightarrow> cache_ok st \<and> leading + length dat \<le> pg_size (bm st)"
  shows "wp (errs b) (write_and_verify d addr leading dat st) (\<lambda>(_, t). dev_step st t)"
  unfolding write_and_verify_def
proof (rule wp_rbindI [OF fill_page_step [OF assms]], goal_cases)
  case (2 st1)
  obtain ok st2 where w: "nmbm_write_phys_page d addr st1 = (ok, st2)" by (metis prod.collapse)
  then have s2: "dev_step st st2" using write_page_step [of st1 d addr] 2 dev_step_trans by simp blast
  obtain ret buf st3 where rd: "nmbm_read_phys_page d addr (data_buf (bm st2)) st2 = ((ret, buf), st3)" by (metis prod.collapse)
  have "dev_step st (set_cache buf st3)" by (rule dev_step_trans [OF s2 read_cache_step [OF rd]])
  then show ?case using s2 by (simp add: w rd Let_def)
qed

lemma leading_less: "0 < pg \<Longrightarrow> off AND (pg - 1) < (pg :: nat)"
proof -
  assume "0 < pg"
  moreover have "off AND (pg - 1) \<le> pg - 1" by (metis and.commute and_nat_def nat_le_iff of_nat_and_eq AND_upper1 of_nat_0_le_iff)
  ultimately show ?thesis by linarith
qed

lemma write_verify_from_step:
  assumes "b \<Longrightarrow> cache_ok st \<and> length dat \<le> n"
  shows "wp (errs b) (write_verify_from n d off dat st) (\<lambda>(_, t). dev_step st t)"
  using assms
proof (induction n arbitrary: off dat st)
  case 0
  then show ?case by (auto simp: errs_def)
next
  case (Suc n)
  define leading where "leading = off AND (pg_size (bm st) - 1)"
  define chunk where "chunk = min (pg_size (bm st) - leading) (length dat)"
  show ?case
  proof (cases "dat = []")
    case False
    have l: "leading < pg_size (bm st)" "0 < chunk" if b
      using Suc.prems that leading_less [of "pg_size (bm st)" off] False by (auto simp: cache_ok_def leading_def chunk_def)
    have w: "wp (errs b) (write_and_verify d (off - leading) leading (take chunk dat) st) (\<lambda>(_, t). dev_step st t)"
      using Suc.prems l by (intro write_page_verify_step) (auto simp: chunk_def)
    have "wp (errs b) (rbind (write_and_verify d (off - leading) leading (take chunk dat) st) (\<lambda>(success, st).
        if success then write_verify_from n d (off + chunk) (drop chunk dat) st else Inr (False, st))) (\<lambda>(_, t). dev_step st t)"
    proof (rule wp_rbindI [OF w], goal_cases)
      case (1 x)
      obtain ok t where x: "x = (ok, t)" by (cases x)
      with 1 have t: "dev_step st t" by simp
      have "wp (errs b) (write_verify_from n d (off + chunk) (drop chunk dat) t) (\<lambda>(_, u). dev_step t u)"
        using Suc.prems l t False by (intro Suc.IH) (auto simp: cache_ok_step)
      then have "wp (errs b) (write_verify_from n d (off + chunk) (drop chunk dat) t) (\<lambda>(_, u). dev_step st u)"
        by (rule wp_mono) (use t dev_step_trans in auto)
      then show ?case using t by (simp add: x)
    qed
    then show ?thesis using False by (simp only: write_verify_from.simps if_False Let_def leading_def chunk_def)
  qed simp
qed

end
