(* ===== verification/Mtk_Nmbm_Update.thy ===== *)
theory Mtk_Nmbm_Update
  imports Mtk_Nmbm_Inv
begin

text \<open>
  Updates of the info tables of NMBM end without an invalid access, whatever the chip does.
\<close>

section \<open>Ranges\<close>

lemma erase_range_marks:
  assumes "b \<Longrightarrow> limit \<le> nblk st"
  shows "wp (errs b) (nmbm_erase_range d ba limit st) (marks st)"
  unfolding nmbm_erase_range_def
proof (rule wp_rfold, goal_cases)
  case (1 x s)
  have "wp (errs b) (prepare_block d x s) (\<lambda>(ready, t). marks s t \<and> (ready \<longrightarrow> good_at t x \<and> x < nblk s))"
    using assms 1 by (intro prepare_marks) (auto simp: marks_def)
  then show ?case by (rule wp_rbindI) (use 1(2) marks_trans in auto)
qed simp

text \<open>The first block of the data and the block after the last lie between \<open>ba\<close> and the limit.\<close>

definition range_result :: "nat \<Rightarrow> nat \<Rightarrow> nat option \<Rightarrow> bool \<Rightarrow> (nat option \<times> nat) option \<Rightarrow> bool" where
  "range_result ba limit start rest r \<longleftrightarrow>
     (case r of None \<Rightarrow> True
      | Some (s, e) \<Rightarrow> ba \<le> e \<and> e \<le> limit \<and>
          (case start of Some x \<Rightarrow> s = Some x | None \<Rightarrow> rest \<longrightarrow> (\<exists>x. s = Some x \<and> ba \<le> x \<and> x < e)))"

lemma write_range_marks:
  assumes "b \<Longrightarrow> cache_ok st \<and> ba + n \<le> nblk st"
  shows "wp (errs b) (write_range_from n d ba dat start st)
    (\<lambda>(r, t). marks st t \<and> range_result ba (ba + n) start (dat \<noteq> []) r)"
  using assms
proof (induction n arbitrary: ba dat start st)
  case 0
  then show ?case by (auto simp: range_result_def split: option.split)
next
  case (Suc n)
  show ?case
  proof (cases "dat = []")
    case True
    then show ?thesis by (auto simp: range_result_def split: option.split)
  next
    case False
    let ?Q = "\<lambda>r t. range_result ba (ba + Suc n) start True r"
    have mono: "range_result ba (ba + Suc n) start True r" if "range_result (Suc ba) (Suc ba + n) start True r" for r
      using that by (auto simp: range_result_def split: option.splits)
    have next_ok: "wp (errs b) (write_range_from n d (Suc ba) dat' start' t)
        (\<lambda>(r, u). marks t u \<and> range_result (Suc ba) (Suc ba + n) start' (dat' \<noteq> []) r)" if "marks st t" for dat' start' t
    proof (rule Suc.IH)
      assume b
      from Suc.prems [OF this] marks_ok that frame_fields [of st t]
      show "cache_ok t \<and> Suc ba + n \<le> nblk t"
        by (auto simp: marks_def cache_ok_def frame_def restated_def)
    qed
    have prep: "wp (errs b) (prepare_block d ba st) (\<lambda>(ready, t). marks st t \<and> (ready \<longrightarrow> good_at t ba \<and> ba < nblk st))"
      using Suc.prems by (intro prepare_marks) simp
    have "wp (errs b) (rbind (prepare_block d ba st) (\<lambda>(ready, st).
          if \<not> ready then write_range_from n d (Suc ba) dat start st
          else rbind (nmbn_write_verify_data d (ba2addr st ba) (take (blk_size (bm st)) dat) st) (\<lambda>(success, st).
              if success then write_range_from n d (Suc ba) (drop (blk_size (bm st)) dat) (if start = None then Some ba else start) st
              else rbind (retire_block d ba st) (write_range_from n d (Suc ba) dat start)))) (\<lambda>(r, t). marks st t \<and> ?Q r t)"
    proof (rule wp_marks_bind [OF prep], goal_cases)
      case (1 ready t)
      have skip: "wp (errs b) (write_range_from n d (Suc ba) dat start t) (\<lambda>(r, u). marks t u \<and> ?Q r u)"
        by (rule wp_mono [OF next_ok [OF 1(1)]]) (use mono False in auto)
      show ?case
      proof (cases ready)
        case True
        have ct: "cache_ok t" if b
          using Suc.prems [OF that] 1(1) frame_fields [of st t] by (auto simp: marks_def cache_ok_def frame_def restated_def)
        have "wp (errs b) (nmbn_write_verify_data d (ba2addr t ba) (take (blk_size (bm t)) dat) t) (\<lambda>(_, u). dev_step t u)"
          unfolding nmbn_write_verify_data_def using ct by (intro write_verify_from_step) auto
        then have wv: "wp (errs b) (nmbn_write_verify_data d (ba2addr t ba) (take (blk_size (bm t)) dat) t)
            (\<lambda>(_, u). marks t u \<and> good_at u ba)"
          by (rule wp_mono) (use 1(2) True dev_step_marks in \<open>auto simp: dev_step_def good_at_def\<close>)
        have "wp (errs b) (rbind (nmbn_write_verify_data d (ba2addr t ba) (take (blk_size (bm t)) dat) t) (\<lambda>(success, st).
              if success then write_range_from n d (Suc ba) (drop (blk_size (bm st)) dat) (if start = None then Some ba else start) st
              else rbind (retire_block d ba st) (write_range_from n d (Suc ba) dat start))) (\<lambda>(r, u). marks t u \<and> ?Q r u)"
        proof (rule wp_marks_bind [OF wv], goal_cases)
          case (1 success u)
          have su: "marks st u" using \<open>marks st t\<close> 1(1) by (rule marks_trans)
          have "wp (errs b) (retire_block d ba u) (marks u)"
            using Suc.prems su 1(2) by (intro retire_marks) (auto simp: marks_def)
          then have bad: "wp (errs b) (rbind (retire_block d ba u) (write_range_from n d (Suc ba) dat start)) (\<lambda>(r, v). marks u v \<and> ?Q r v)"
          proof (rule wp_rbindI)
            fix v
            assume v: "marks u v"
            show "wp (errs b) (write_range_from n d (Suc ba) dat start v) (\<lambda>(r, w). marks u w \<and> ?Q r w)"
              by (rule wp_mono [OF next_ok [OF marks_trans [OF su v]]]) (use mono False v marks_trans in auto)
          qed
          have "wp (errs b) (write_range_from n d (Suc ba) (drop (blk_size (bm u)) dat) (if start = None then Some ba else start) u)
              (\<lambda>(r, v). marks u v \<and> ?Q r v)"
            by (rule wp_mono [OF next_ok [OF su]]) (auto simp: range_result_def split: option.splits if_splits)
          then show ?case using bad by simp
        qed
        then show ?thesis using True by simp
      qed (use skip in simp)
    qed
    then show ?thesis using False by simp
  qed
qed

section \<open>Steps of an update\<close>

text \<open>
  \<open>quiet\<close> is what every step keeps. \<open>settled\<close> holds once the tables have been marked clean: changes
  that are then pending come from blocks that have become bad since.
\<close>

definition quiet :: "'n nst \<Rightarrow> 'n nst \<Rightarrow> bool" where
  "quiet st t \<longleftrightarrow> frame st t \<and> nblk t = nblk st \<and> data_block_count (ni_of t) = data_block_count (ni_of st) \<and>
     goods t \<le> goods st \<and> (tables_changed t \<longrightarrow> tables_changed st \<or> goods t < goods st)"

definition settled :: "'n nst \<Rightarrow> 'n nst \<Rightarrow> bool" where
  "settled st t \<longleftrightarrow> goods t \<le> goods st \<and> (tables_changed t \<longrightarrow> goods t < goods st)"

definition qok :: "bool \<Rightarrow> 'n nst \<Rightarrow> 'n nst \<Rightarrow> bool" where
  "qok b st t \<longleftrightarrow> quiet st t \<and> (b \<longrightarrow> nmbm_ok t)"

lemma quiet_refl [simp]: "quiet st st"
  by (simp add: quiet_def)

lemma quiet_trans: "quiet st t \<Longrightarrow> quiet t u \<Longrightarrow> quiet st u"
  unfolding quiet_def using frame_trans by (metis le_trans less_le_trans le_less_trans)

lemma qok_trans: "qok b st t \<Longrightarrow> qok b t u \<Longrightarrow> qok b st u"
  unfolding qok_def using quiet_trans by blast

lemma quiet_settled: "quiet st t \<Longrightarrow> settled t u \<Longrightarrow> settled st u"
  unfolding quiet_def settled_def by linarith

lemma settled_quiet: "settled st t \<Longrightarrow> quiet t u \<Longrightarrow> settled st u"
  unfolding quiet_def settled_def by linarith

lemma qok_settled: "qok b st t \<Longrightarrow> settled t u \<Longrightarrow> settled st u"
  unfolding qok_def using quiet_settled by blast

lemma marks_quiet: "marks st t \<Longrightarrow> quiet st t"
  by (auto simp: marks_def quiet_def restated_def)

lemma marks_qok: "marks st t \<Longrightarrow> (b \<Longrightarrow> nmbm_ok st) \<Longrightarrow> qok b st t"
  using marks_quiet marks_ok unfolding qok_def by blast

lemma marks_fields:
  assumes "marks st t"
  shows "mapping_blocks_top_ba (ni_of t) = mapping_blocks_top_ba (ni_of st)"
    "backup_table_ba (ni_of t) = backup_table_ba (ni_of st)" "main_table_ba (ni_of t) = main_table_ba (ni_of st)"
    "mapping_blocks_ba (ni_of t) = mapping_blocks_ba (ni_of st)" "nblk t = nblk st"
  using assms by (auto simp: marks_def restated_def)

text \<open>Positions of the tables, as far as the code changes them.\<close>

definition moved :: "nmbm_instance \<Rightarrow> nmbm_instance \<Rightarrow> bool" where
  "moved i j \<longleftrightarrow> j\<lparr>main_table_ba := 0, backup_table_ba := 0, mapping_blocks_ba := 0, protected := False\<rparr> =
     i\<lparr>main_table_ba := 0, backup_table_ba := 0, mapping_blocks_ba := 0, protected := False\<rparr>"

lemma moved_fields:
  assumes "moved i j"
  shows "block_state j = block_state i" "block_state_changed j = block_state_changed i" "block_mapping j = block_mapping i"
    "block_mapping_changed j = block_mapping_changed i" "data_block_count j = data_block_count i"
    "rawpage_size j = rawpage_size i" "info_table_size j = info_table_size i" "info_table_cache j = info_table_cache i"
    "info_table j = info_table i" "block_count j = block_count i" "mapping_blocks_top_ba j = mapping_blocks_top_ba i"
  using arg_cong [OF assms [unfolded moved_def], of block_state] arg_cong [OF assms [unfolded moved_def], of block_state_changed]
    arg_cong [OF assms [unfolded moved_def], of block_mapping] arg_cong [OF assms [unfolded moved_def], of block_mapping_changed]
    arg_cong [OF assms [unfolded moved_def], of data_block_count] arg_cong [OF assms [unfolded moved_def], of rawpage_size]
    arg_cong [OF assms [unfolded moved_def], of info_table_size] arg_cong [OF assms [unfolded moved_def], of info_table_cache]
    arg_cong [OF assms [unfolded moved_def], of info_table] arg_cong [OF assms [unfolded moved_def], of block_count]
    arg_cong [OF assms [unfolded moved_def], of mapping_blocks_top_ba]
  by simp_all

lemma moved_quiet: "moved (ni_of st) (f (ni_of st)) \<Longrightarrow> quiet st (ni_upd f st)"
  by (simp add: moved_fields quiet_def ni_upd_def frame_def nblk_def goods_def good_at_def tables_changed_def keeps_table_refl)

lemma moved_ok:
  assumes "moved (ni_of st) (f (ni_of st))" "nmbm_ok st"
    "main_table_ba (f (ni_of st)) < nblk st" "backup_table_ba (f (ni_of st)) < nblk st" "mapping_blocks_ba (f (ni_of st)) < nblk st"
  shows "nmbm_ok (ni_upd f st)"
  using assms by (simp add: moved_fields nmbm_ok_def ni_upd_def cache_ok_def tables_fit_def mapped_ok_def nblk_def)

lemma moved_qok:
  assumes "moved (ni_of st) (f (ni_of st))" "b \<Longrightarrow> nmbm_ok st"
    "b \<Longrightarrow> main_table_ba (f (ni_of st)) < nblk st \<and> backup_table_ba (f (ni_of st)) < nblk st \<and> mapping_blocks_ba (f (ni_of st)) < nblk st"
  shows "qok b st (ni_upd f st)"
  unfolding qok_def using assms moved_quiet moved_ok by blast

lemma clean_settled: "settled st (nmbm_mark_tables_clean st)"
  by (simp add: settled_def tables_changed_def nmbm_mark_tables_clean_def ni_upd_def goods_def nblk_def good_at_def)

lemma clean_qok: "(b \<Longrightarrow> nmbm_ok st) \<Longrightarrow> qok b st (nmbm_mark_tables_clean st)"
  by (auto simp: qok_def quiet_def frame_def keeps_table_refl tables_changed_def nmbm_mark_tables_clean_def ni_upd_def goods_def
      nblk_def good_at_def nmbm_ok_def cache_ok_def tables_fit_def mapped_ok_def)

section \<open>Writing a table\<close>

definition table_at :: "nat \<Rightarrow> nat \<Rightarrow> (nat \<times> nat) option \<Rightarrow> bool" where
  "table_at ba limit r \<longleftrightarrow> (case r of None \<Rightarrow> True | Some (s, e) \<Rightarrow> ba \<le> s \<and> s < e \<and> e \<le> limit)"

lemma write_info_marks:
  assumes "b \<Longrightarrow> nmbm_ok st \<and> limit \<le> nblk st"
  shows "wp (errs b) (nmbm_write_info_table d ba limit st) (\<lambda>(r, t). marks st t \<and> table_at ba limit r)"
proof -
  let ?dat = "take (info_table_size (ni_of st)) (info_table_cache (ni_of st))"
  have ne: "?dat \<noteq> []" if b using assms that by (auto simp: nmbm_ok_def tables_fit_def)
  have w: "wp (errs b) (write_range_from (limit - ba) d ba ?dat None st)
      (\<lambda>(r, t). marks st t \<and> range_result ba (ba + (limit - ba)) None (?dat \<noteq> []) r)" if "ba \<le> limit"
    using assms that by (intro write_range_marks) (auto simp: nmbm_ok_def)
  show ?thesis
  proof (cases "ba < limit \<and> ?dat \<noteq> []")
    case True
    then have le: "ba \<le> limit" by simp
    show ?thesis
      unfolding nmbm_write_info_table_def nmbm_write_mgmt_range_def
    proof (rule wp_rbindI [OF w [OF le]], goal_cases)
      case (1 x)
      then show ?case using True
        by (auto simp: range_result_def table_at_def split: option.splits prod.splits)
    qed
  next
    case False
    have "write_range_from (limit - ba) d ba ?dat None st = Inr (if ?dat = [] then Some (None, ba) else None, st)"
      using False by (cases "limit - ba") auto
    then show ?thesis using ne unfolding nmbm_write_info_table_def nmbm_write_mgmt_range_def
      by (cases "?dat = []") (auto simp: table_at_def errs_def)
  qed
qed

lemma write_lower_marks:
  assumes "b \<Longrightarrow> nmbm_ok st"
  shows "wp (errs b) (write_lower d bas st) (\<lambda>(r, t). marks st t \<and> table_at 0 (mapping_blocks_top_ba (ni_of st)) r)"
  using assms
proof (induction bas arbitrary: st)
  case (Cons ba bas)
  have w: "wp (errs b) (nmbm_write_info_table d ba (mapping_blocks_top_ba (ni_of st)) st)
      (\<lambda>(r, t). marks st t \<and> table_at ba (mapping_blocks_top_ba (ni_of st)) r)"
    using Cons.prems by (intro write_info_marks) (auto simp: nmbm_ok_def)
  show ?case
    unfolding write_lower.simps
  proof (rule wp_marks_bind [OF w], goal_cases)
    case (1 r t)
    have "wp (errs b) (write_lower d bas t) (\<lambda>(r, u). marks t u \<and> table_at 0 (mapping_blocks_top_ba (ni_of t)) r)"
      using Cons.prems marks_ok 1(1) by (intro Cons.IH) blast
    then show ?case using 1 marks_fields(1) [OF 1(1)] by (cases r) (auto simp: table_at_def)
  qed
qed (simp add: table_at_def)

lemma write_downwards_marks:
  assumes "b \<Longrightarrow> nmbm_ok st \<and> 0 < lo"
  shows "wp (errs b) (write_downwards d lo write_ba st) (\<lambda>(r, t). marks st t \<and> table_at 0 (mapping_blocks_top_ba (ni_of st)) r)"
proof -
  have w: "wp (errs b) (write_lower d (rev [lo..<Suc write_ba]) st)
      (\<lambda>(r, t). marks st t \<and> table_at 0 (mapping_blocks_top_ba (ni_of st)) r)"
    using assms by (intro write_lower_marks) simp
  show ?thesis
    unfolding write_downwards_def by (rule wp_rbindI [OF w]) (use assms in \<open>auto simp: errs_def split: prod.splits\<close>)
qed

lemma walk_asc_safe: "(b \<Longrightarrow> ba + n \<le> nblk st) \<Longrightarrow> wp (errs b) (walk_asc n ba k st) (\<lambda>_. True)"
proof (induction n arbitrary: ba k)
  case (Suc n)
  have "wp (errs b) (nmbm_get_block_state ba st) (\<lambda>s. ba < nblk st \<and> s = st_at (block_state (ni_of st)) ba)"
    using Suc.prems by (intro get_state_wp) simp
  then show ?case
    unfolding walk_asc.simps by (rule wp_rbindI) (use Suc in \<open>auto simp: Let_def\<close>)
qed simp

lemma walk_limit_ok: "nmbm_ok st \<Longrightarrow> walk_limit limit st < nblk st"
  by (auto simp: walk_limit_def nmbm_ok_def u32_of_def nat_less_iff)

lemma reserve_safe:
  assumes "b \<Longrightarrow> nmbm_ok st"
  shows "wp (errs b) (nmbm_try_reserve_blocks ba count m limit st) (\<lambda>_. True)"
proof -
  have w: "wp (errs b) (nmbm_block_walk True ba k limit st) (\<lambda>_. True)" for k
    unfolding nmbm_block_walk_def nmbm_block_walk_asc_def if_True
  proof (cases "ba \<le> walk_limit limit st")
    case True
    then show "wp (errs b) (walk_asc (walk_limit limit st - ba) ba k st) (\<lambda>_. True)"
      using assms walk_limit_ok [of st limit] by (intro walk_asc_safe) fastforce
  qed simp
  have "wp (errs b) (reserve_tries ba ks limit st) (\<lambda>_. True)" for ks
  proof (induction ks)
    case (Cons k ks)
    then show ?case unfolding reserve_tries.simps by (intro wp_rbindI [OF w]) (auto split: option.split)
  qed simp
  then show ?thesis by (simp add: nmbm_try_reserve_blocks_def)
qed

end
