(* ===== verification/Mtk_Nmbm_Rounds.thy ===== *)
theory Mtk_Nmbm_Rounds
  imports Mtk_Nmbm_Update
begin

text \<open>
  The updates of the two info tables of NMBM, one round and all rounds. \<open>prog\<close> says how far an
  update that started in \<open>st\<close> has come; there is a rule for each of the operations it is made of.
\<close>

definition prog :: "bool \<Rightarrow> bool \<Rightarrow> 'n nst \<Rightarrow> 'n nst \<Rightarrow> bool" where
  "prog b c st t \<longleftrightarrow> qok b st t \<and> (c \<longrightarrow> settled st t)"

lemma progD:
  assumes "prog b c st t"
  shows "b \<Longrightarrow> nmbm_ok t" "nblk t = nblk st" "frame st t"
  using assms by (auto simp: prog_def qok_def quiet_def)

lemma prog_start: "(b \<Longrightarrow> nmbm_ok st) \<Longrightarrow> prog b False st st"
  by (simp add: prog_def qok_def)

lemma prog_qok: "prog b c st t \<Longrightarrow> qok b t u \<Longrightarrow> prog b c st u"
  unfolding prog_def using qok_trans settled_quiet by (metis qok_def)

lemma prog_marks: "prog b c st t \<Longrightarrow> marks t u \<Longrightarrow> prog b c st u"
  using prog_qok marks_qok progD(1) by metis

lemma prog_moved:
  assumes "prog b c st t" "moved (ni_of t) (f (ni_of t))"
    "b \<Longrightarrow> main_table_ba (f (ni_of t)) < nblk t \<and> backup_table_ba (f (ni_of t)) < nblk t \<and> mapping_blocks_ba (f (ni_of t)) < nblk t"
  shows "prog b c st (ni_upd f t)"
proof (rule prog_qok [OF assms(1)])
  show "qok b t (ni_upd f t)" by (rule moved_qok [of t f b]) (use assms progD(1) [OF assms(1)] in simp_all)
qed

lemma prog_clean:
  assumes "prog b c st t"
  shows "prog b True st (nmbm_mark_tables_clean t)"
proof -
  have "qok b t (nmbm_mark_tables_clean t)" by (rule clean_qok) (rule progD(1) [OF assms])
  moreover have "settled st (nmbm_mark_tables_clean t)" using assms clean_settled qok_settled by (metis prog_def)
  ultimately show ?thesis using assms qok_trans unfolding prog_def by metis
qed

lemma prog_weaken: "prog b c st t \<Longrightarrow> (c' \<Longrightarrow> c) \<Longrightarrow> prog b c' st t"
  by (auto simp: prog_def)

lemma ok_bounds:
  assumes "nmbm_ok t"
  shows "mapping_blocks_top_ba (ni_of t) < nblk t" "mapping_blocks_ba (ni_of t) < nblk t" "main_table_ba (ni_of t) < nblk t"
    "backup_table_ba (ni_of t) < nblk t" "0 < nblk t"
  using assms by (simp_all add: nmbm_ok_def)

lemma wp_info:
  assumes "prog b c st t" "b \<Longrightarrow> limit < nblk t"
    and "\<And>r u. prog b c st u \<Longrightarrow> marks t u \<Longrightarrow> table_at ba limit r \<Longrightarrow> wp (errs b) (f (r, u)) Q"
  shows "wp (errs b) (rbind (nmbm_write_info_table d ba limit t) f) Q"
proof -
  have "wp (errs b) (nmbm_write_info_table d ba limit t) (\<lambda>(r, u). marks t u \<and> table_at ba limit r)"
    using progD(1) [OF assms(1)] assms(2) by (intro write_info_marks) (simp add: less_imp_le)
  then show ?thesis by (rule wp_rbindI) (use assms(3) prog_marks [OF assms(1)] in auto)
qed

lemma wp_down:
  assumes "prog b c st t" "b \<Longrightarrow> 0 < lo"
    and "\<And>r u. prog b c st u \<Longrightarrow> marks t u \<Longrightarrow> table_at 0 (mapping_blocks_top_ba (ni_of t)) r \<Longrightarrow> wp (errs b) (f (r, u)) Q"
  shows "wp (errs b) (rbind (write_downwards d lo ba t) f) Q"
proof -
  have "wp (errs b) (write_downwards d lo ba t) (\<lambda>(r, u). marks t u \<and> table_at 0 (mapping_blocks_top_ba (ni_of t)) r)"
    using progD(1) [OF assms(1)] assms(2) by (intro write_downwards_marks) simp
  then show ?thesis by (rule wp_rbindI) (use assms(3) prog_marks [OF assms(1)] in auto)
qed

lemma wp_reserve:
  assumes "prog b c st t" "\<And>r. wp (errs b) (f r) Q"
  shows "wp (errs b) (rbind (nmbm_try_reserve_blocks ba n m limit t) f) Q"
  by (rule wp_rbindI [OF reserve_safe]) (use progD(1) [OF assms(1)] assms(2) in auto)

lemma wp_erase:
  assumes "prog b c st t" "b \<Longrightarrow> limit \<le> nblk t" "\<And>u. prog b c st u \<Longrightarrow> wp (errs b) (f u) Q"
  shows "wp (errs b) (rbind (nmbm_erase_range d ba limit t) f) Q"
  by (rule wp_rbindI [OF erase_range_marks [OF assms(2)]]) (use assms(3) prog_marks [OF assms(1)] in auto)

text \<open>The end of a table that was written is a place for the next one.\<close>

lemma table_bounds:
  assumes "table_at ba limit (Some (s, e))" "limit < nblk t"
  shows "s < nblk t" "e < nblk t" "0 < e"
  using assms by (auto simp: table_at_def)

section \<open>Building and rescuing\<close>

lemma prog_top:
  assumes "prog b c st t" b
  shows "mapping_blocks_top_ba (ni_of t) < nblk t"
  using ok_bounds(1) [OF progD(1) [OF assms]] by simp

text \<open>A backup table is recorded, and the blocks before it are erased.\<close>

lemma record_backup:
  assumes "prog b c st v" "table_at ba limit (Some (s, e))" "b \<Longrightarrow> limit < nblk v"
  shows "wp (errs b) (rbind (nmbm_erase_range d lo s (ni_upd (\<lambda>i. i\<lparr>backup_table_ba := s, mapping_blocks_ba := e\<rparr>) v)) (\<lambda>st. Inr (True, st)))
    (\<lambda>(_, u). prog b c st u)"
proof -
  let ?v = "ni_upd (\<lambda>i. i\<lparr>backup_table_ba := s, mapping_blocks_ba := e\<rparr>) v"
  have bounds: "s < nblk v \<and> e < nblk v" if b using table_bounds(1,2) [OF assms(2)] assms(3) that by blast
  have "prog b c st ?v"
    by (rule prog_moved [OF assms(1)]) (use ok_bounds progD(1) [OF assms(1)] bounds in \<open>auto simp: moved_def\<close>)
  moreover have "nblk ?v = nblk v" by (simp add: nblk_def ni_upd_def)
  ultimately show ?thesis using bounds by (intro wp_erase) auto
qed

lemma write_backup:
  assumes "prog b True st t"
  shows "wp (errs b) (rbind (nmbm_write_info_table d nx (mapping_blocks_top_ba (ni_of t)) t) (\<lambda>(r, st).
      case r of None \<Rightarrow> Inr (True, st)
      | Some (start, e) \<Rightarrow> rbind (nmbm_erase_range d lo start (ni_upd (\<lambda>i. i\<lparr>backup_table_ba := start, mapping_blocks_ba := e\<rparr>) st)) (\<lambda>st. Inr (True, st))))
    (\<lambda>(_, u). prog b True st u)"
proof (rule wp_info [OF assms prog_top [OF assms]], goal_cases)
  case (2 r v)
  have "b \<Longrightarrow> mapping_blocks_top_ba (ni_of t) < nblk v" using prog_top [OF assms] marks_fields(5) [OF 2(2)] by simp
  then show ?case using record_backup [OF 2(1), of nx _ _ _ d lo] 2(1,3) by (auto split: option.split)
qed simp

lemma rebuild_prog:
  assumes "prog b c st t"
  shows "wp (errs b) (nmbm_rebuild_info_table d t) (\<lambda>(ok, u). prog b (c \<or> ok) st u)"
proof -
  define t0 where "t0 = ni_upd (\<lambda>i. i\<lparr>main_table_ba := 0, backup_table_ba := 0, mapping_blocks_ba := mapping_blocks_top_ba i\<rparr>) t"
  have p0: "prog b c st t0"
    unfolding t0_def by (rule prog_moved [OF assms]) (use prog_top [OF assms] in \<open>auto simp: moved_def\<close>)
  show ?thesis
    unfolding nmbm_rebuild_info_table_def Let_def t0_def [symmetric]
  proof (rule wp_info [OF p0 prog_top [OF p0]], goal_cases)
    case (2 r u)
    show ?case
    proof (cases r)
      case None
      have "prog b c st (ni_upd (\<lambda>i. i\<lparr>protected := True\<rparr>) u)"
        by (rule prog_moved [OF 2(1)]) (use ok_bounds progD(1) [OF 2(1)] in \<open>auto simp: moved_def\<close>)
      then show ?thesis by (simp add: None)
    next
      case (Some x)
      obtain s e where x: "x = (s, e)" by (cases x)
      have se: "s < nblk u \<and> e < nblk u" if b
        using table_bounds [of _ _ s e u] 2(3) Some x prog_top [OF p0 that] marks_fields(5) [OF 2(2)] by auto
      define u1 where "u1 = nmbm_mark_tables_clean (ni_upd (\<lambda>i. i\<lparr>main_table_ba := s, mapping_blocks_ba := e\<rparr>) u)"
      have p1: "prog b True st u1"
        unfolding u1_def by (rule prog_clean, rule prog_moved [OF 2(1)]) (use ok_bounds progD(1) [OF 2(1)] se in \<open>auto simp: moved_def\<close>)
      show ?thesis
        unfolding Some x option.case prod.case u1_def [symmetric]
      proof (rule wp_reserve [OF p1], goal_cases)
        case (1 r')
        show ?case
        proof (cases r')
          case (Some nx)
          show ?thesis unfolding Some option.case by (rule wp_mono [OF write_backup [OF p1]]) (auto intro: prog_weaken)
        qed (use p1 in simp)
      qed
    qed
  qed simp
qed

lemma rescue_backup_prog:
  assumes "prog b True st t" "b \<Longrightarrow> 0 < e \<and> e < nblk t"
  shows "wp (errs b) (rescue_backup d e t) (\<lambda>(_, u). prog b True st u)"
proof -
  define t0 where "t0 = ni_upd (\<lambda>i. i\<lparr>mapping_blocks_ba := e\<rparr>) t"
  have p0: "prog b True st t0"
    unfolding t0_def by (rule prog_moved [OF assms(1)]) (use ok_bounds progD(1) [OF assms(1)] assms(2) in \<open>auto simp: moved_def\<close>)
  have single: "prog b True st (ni_upd (\<lambda>i. i\<lparr>backup_table_ba := 0\<rparr>) u)" if "prog b True st u" for u
    by (rule prog_moved [OF that]) (use ok_bounds progD(1) [OF that] in \<open>auto simp: moved_def\<close>)
  show ?thesis
    unfolding rescue_backup_def Let_def t0_def [symmetric]
  proof (rule wp_reserve [OF p0], goal_cases)
    case (1 r)
    show ?case
    proof (cases r)
      case (Some write_ba)
      show ?thesis
        unfolding Some option.case
      proof (rule wp_down [OF p0], goal_cases)
        case (2 r u)
        have "b \<Longrightarrow> mapping_blocks_top_ba (ni_of t0) < nblk u" using prog_top [OF p0] marks_fields(5) [OF 2(2)] by simp
        then show ?case using record_backup [OF 2(1), of 0 _ _ _ d e] 2(1,3) single [OF 2(1)] by (auto split: option.split)
      qed (use assms(2) in simp)
    qed (use single [OF p0] in simp)
  qed
qed

text \<open>The main table is written in front of a temporary one that starts at \<open>s\<close>.\<close>

lemma rescue_written:
  assumes pu: "prog b c st u" and s: "b \<Longrightarrow> s < nblk u"
  shows "wp (errs b) (rbind (nmbm_write_info_table d (mgmt_start_ba (ni_of u)) s u) (\<lambda>(r, st).
        case r of None \<Rightarrow> Inr (True, nmbm_mark_tables_clean (ni_upd (\<lambda>i. i\<lparr>main_table_ba := s, backup_table_ba := 0\<rparr>) st))
        | Some (main_start, main_end) \<Rightarrow>
            let st = nmbm_mark_tables_clean (ni_upd (\<lambda>i. i\<lparr>main_table_ba := main_start\<rparr>) st) in
            if main_end \<le> s then Inr (True, ni_upd (\<lambda>i. i\<lparr>backup_table_ba := s\<rparr>) st) else rescue_backup d main_end st))
      (\<lambda>(_, u). prog b c st u)"
proof (rule wp_info [OF pu s], goal_cases)
  case (2 r v)
  have nb: "nblk v = nblk u" by (rule marks_fields(5) [OF 2(2)])
  have sv: "b \<Longrightarrow> s < nblk v" using s nb by simp
  show ?case
  proof (cases r)
    case None
    have "prog b True st (nmbm_mark_tables_clean (ni_upd (\<lambda>i. i\<lparr>main_table_ba := s, backup_table_ba := 0\<rparr>) v))"
      by (rule prog_clean, rule prog_moved [OF 2(1)]) (use ok_bounds progD(1) [OF 2(1)] sv in \<open>auto simp: moved_def\<close>)
    then show ?thesis by (simp add: None prog_weaken)
  next
    case (Some x)
    obtain ms me where x: "x = (ms, me)" by (cases x)
    have bd: "ms < nblk v \<and> me < nblk v \<and> 0 < me" if b using table_bounds [of _ _ ms me v] 2(3) Some x s [OF that] nb by auto
    define v1 where "v1 = nmbm_mark_tables_clean (ni_upd (\<lambda>i. i\<lparr>main_table_ba := ms\<rparr>) v)"
    have p1: "prog b True st v1"
      unfolding v1_def by (rule prog_clean, rule prog_moved [OF 2(1)]) (use ok_bounds progD(1) [OF 2(1)] bd in \<open>auto simp: moved_def\<close>)
    have nb1: "nblk v1 = nblk v" by (simp add: v1_def nmbm_mark_tables_clean_def ni_upd_def nblk_def)
    have "prog b True st (ni_upd (\<lambda>i. i\<lparr>backup_table_ba := s\<rparr>) v1)"
      by (rule prog_moved [OF p1]) (use ok_bounds [of v1] progD(1) [OF p1] sv nb1 in \<open>auto simp: moved_def\<close>)
    moreover have "wp (errs b) (rescue_backup d me v1) (\<lambda>(_, u). prog b c st u)"
      by (rule wp_mono [OF rescue_backup_prog [OF p1]]) (use bd nb1 in \<open>auto intro: prog_weaken\<close>)
    ultimately show ?thesis unfolding Some x option.case prod.case Let_def v1_def [symmetric] by (simp add: prog_weaken)
  qed
qed simp

lemma rescue_main_prog:
  assumes "prog b c st t" "b \<Longrightarrow> 0 < mapping_blocks_ba (ni_of t)"
  shows "wp (errs b) (nmbm_rescue_main_info_table d t) (\<lambda>(_, u). prog b c st u)"
proof -
  have backup: "prog b c st (ni_upd (\<lambda>i. i\<lparr>main_table_ba := backup_table_ba i, backup_table_ba := 0\<rparr>) u)" if "prog b c st u" for u
    by (rule prog_moved [OF that]) (use ok_bounds progD(1) [OF that] in \<open>auto simp: moved_def\<close>)
  show ?thesis
    unfolding nmbm_rescue_main_info_table_def Let_def
  proof (rule wp_reserve [OF assms(1)], goal_cases)
    case (1 r)
    show ?case
    proof (cases r)
      case (Some write_ba)
      show ?thesis
        unfolding Some option.case
      proof (rule wp_down [OF assms(1,2)], goal_cases)
        case (2 r u)
        show ?case
        proof (cases r)
          case (Some x)
          obtain s e where x: "x = (s, e)" by (cases x)
          have bd: "s < nblk u \<and> e < nblk u" if b
            using table_bounds [of _ _ s e u] 2(3) Some x prog_top [OF assms(1) that] marks_fields(5) [OF 2(2)] by auto
          let ?u = "ni_upd (\<lambda>i. i\<lparr>mapping_blocks_ba := e\<rparr>) u"
          have "prog b c st ?u"
            by (rule prog_moved [OF 2(1)]) (use ok_bounds progD(1) [OF 2(1)] bd in \<open>auto simp: moved_def\<close>)
          moreover have "nblk ?u = nblk u" by (simp add: nblk_def ni_upd_def)
          ultimately show ?thesis using rescue_written [of b c st ?u s d] bd unfolding Some x option.case prod.case Let_def by simp
        qed (use backup [OF 2(1)] in simp)
      qed simp
    qed (use backup [OF assms(1)] in simp)
  qed
qed

section \<open>One round\<close>

lemma put_bytes_wp:
  assumes "b \<Longrightarrow> off + length dat \<le> length buf"
  shows "wp (errs b) (put_bytes off dat buf) (\<lambda>c. length c = length buf)"
  using assms by (auto simp: put_bytes_def errs_def)

lemma table_bytes_length [simp]:
  "length (state_bytes ws) = 4 * length ws" "length (mapping_bytes xs) = 4 * length xs" "length (info_table_bytes h) = 32"
  by (induction ws) (simp_all add: state_bytes_def mapping_bytes_def info_table_bytes_def header_bytes_def length_concat comp_def sum_list_triv)

lemma update_checksum_length: "16 \<le> length c \<Longrightarrow> length (nmbm_update_checksum crc c) = length c"
  by (simp add: nmbm_update_checksum_def clear_checksum_def Let_def)

lemma generate_qok:
  assumes "b \<Longrightarrow> nmbm_ok st"
  shows "wp (errs b) (nmbm_generate_info_table_cache crc st)
    (\<lambda>(changed, t). qok b st t \<and> changed = tables_changed st \<and> backup_table_ba (ni_of t) = backup_table_ba (ni_of st))"
proof -
  let ?i = "ni_of st"
  let ?n = "info_table_size ?i" and ?h = "info_table ?i"
  have fit: "?n \<le> length (info_table_cache ?i) \<and> 32 \<le> ?n \<and> length (info_table_cache ?i) = ?n \<and>
      state_table_off ?h + 4 * length (block_state ?i) \<le> ?n \<and> mapping_table_off ?h + 4 * length (block_mapping ?i) \<le> ?n" if b
    using assms that by (simp add: nmbm_ok_def tables_fit_def)
  have fin: "qok b st (ni_upd (\<lambda>i. i\<lparr>info_table := h, info_table_cache := c\<rparr>) st)"
    if "b \<Longrightarrow> length c = ?n" "state_table_off h = state_table_off ?h" "mapping_table_off h = mapping_table_off ?h" for h c
    using that assms by (auto simp: qok_def quiet_def frame_def keeps_table_refl ni_upd_def nblk_def goods_def good_at_def
        tables_changed_def nmbm_ok_def cache_ok_def tables_fit_def mapped_ok_def)
  show ?thesis
  proof (cases "?n > length (info_table_cache ?i)")
    case False
    show ?thesis
      unfolding nmbm_generate_info_table_cache_def Let_def
      apply (simp only: False if_False)
      apply (rule wp_rbindI [OF put_bytes_wp])
       apply (use fit in simp)
      apply (rule wp_rbindI [OF put_bytes_wp])
       apply (use fit in simp)
      apply (rule wp_rbindI [OF put_bytes_wp])
       apply (use fit in simp)
      apply (simp only: wp_simps prod.case)
      apply (intro conjI fin)
      using fit False by (auto simp: update_checksum_length ni_upd_def)
  qed (use fit in \<open>auto simp: nmbm_generate_info_table_cache_def Let_def errs_def\<close>)
qed

lemma write_main_prog:
  assumes "prog b c st t" "b \<Longrightarrow> limit < nblk t" "b \<Longrightarrow> backup_table_ba (ni_of t) \<noteq> 0 \<Longrightarrow> 0 < mapping_blocks_ba (ni_of t)"
  shows "wp (errs b) (write_main_table d limit t) (\<lambda>(ok, u). prog b (c \<or> ok \<and> backup_table_ba (ni_of t) = 0) st u)"
proof (cases "main_table_ba (ni_of t) = 0")
  case True
  have "wp (errs b) (nmbm_rebuild_info_table d t) (\<lambda>(ok, u). prog b (c \<or> ok \<and> backup_table_ba (ni_of t) = 0) st u)"
    by (rule wp_mono [OF rebuild_prog [OF assms(1)]]) (auto intro: prog_weaken)
  then show ?thesis using True by (simp add: write_main_table_def)
next
  case False
  have "wp (errs b) (rbind (nmbm_write_info_table d (main_table_ba (ni_of t)) limit t) (\<lambda>(r, st).
          case r of
            None \<Rightarrow> if backup_table_ba (ni_of st) = 0 then nmbm_rebuild_info_table d st else nmbm_rescue_main_info_table d st
          | Some (start, e) \<Rightarrow>
              Inr (True, nmbm_mark_tables_clean (ni_upd (\<lambda>i. i\<lparr>main_table_ba := start,
                mapping_blocks_ba := (if backup_table_ba i = 0 then e else mapping_blocks_ba i)\<rparr>) st))))
      (\<lambda>(ok, u). prog b (c \<or> ok \<and> backup_table_ba (ni_of t) = 0) st u)"
  proof (rule wp_info [OF assms(1,2)], goal_cases)
    case (2 r u)
    note m = marks_fields [OF 2(2)]
    have fresh: "wp (errs b) (nmbm_rebuild_info_table d u) (\<lambda>(ok, u). prog b (c \<or> ok \<and> backup_table_ba (ni_of t) = 0) st u)"
      by (rule wp_mono [OF rebuild_prog [OF 2(1)]]) (auto intro: prog_weaken)
    have rescue: "wp (errs b) (nmbm_rescue_main_info_table d u) (\<lambda>(ok, u). prog b (c \<or> ok \<and> backup_table_ba (ni_of t) = 0) st u)"
      if "backup_table_ba (ni_of u) \<noteq> 0"
      by (rule wp_mono [OF rescue_main_prog [OF 2(1)]]) (use that m assms(3) in \<open>auto intro: prog_weaken\<close>)
    show ?case
    proof (cases r)
      case None
      then show ?thesis using fresh rescue by simp
    next
      case (Some x)
      obtain s e where x: "x = (s, e)" by (cases x)
      have bd: "s < nblk u \<and> e < nblk u" if b using table_bounds [of _ _ s e u] 2(3) Some x assms(2) [OF that] m(5) by auto
      have "prog b True st (nmbm_mark_tables_clean (ni_upd (\<lambda>i. i\<lparr>main_table_ba := s,
          mapping_blocks_ba := (if backup_table_ba i = 0 then e else mapping_blocks_ba i)\<rparr>) u))"
        by (rule prog_clean, rule prog_moved [OF 2(1)]) (use ok_bounds progD(1) [OF 2(1)] bd in \<open>auto simp: moved_def\<close>)
      then show ?thesis by (simp add: Some x prog_weaken)
    qed
  qed simp
  then show ?thesis using False by (simp add: write_main_table_def)
qed

lemma once_prog:
  assumes "b \<Longrightarrow> nmbm_ok st" "tables_changed st"
  shows "wp (errs b) (nmbm_update_info_table_once crc d force st) (\<lambda>(ok, u). prog b ok st u)"
  unfolding nmbm_update_info_table_once_def
proof (rule wp_rbindI [OF generate_qok], goal_cases)
  case (2 x)
  obtain changed t where x: "x = (changed, t)" by (cases x)
  with 2 have q: "qok b st t" and ch: changed using assms(2) by simp_all
  have p: "prog b False st t" using q by (simp add: prog_def)
  show ?case
  proof (cases "backup_table_ba (ni_of t) = 0")
    case True
    have "wp (errs b) (write_main_table d (mapping_blocks_top_ba (ni_of t)) t) (\<lambda>(ok, u). prog b ok st u)"
      by (rule wp_mono [OF write_main_prog [OF p prog_top [OF p]]]) (use True in auto)
    then show ?thesis using True ch by (simp add: x)
  next
    case False
    have "wp (errs b) (rbind (nmbm_write_info_table d (backup_table_ba (ni_of t)) (mapping_blocks_top_ba (ni_of t)) t) (\<lambda>(r, st).
           case r of
             None \<Rightarrow>
               let st = ni_upd (\<lambda>i. i\<lparr>mapping_blocks_ba := backup_table_ba i, backup_table_ba := 0\<rparr>) st in
               write_main_table d (mapping_blocks_top_ba (ni_of st)) st
           | Some (start, e) \<Rightarrow>
               let st = nmbm_mark_tables_clean (ni_upd (\<lambda>i. i\<lparr>backup_table_ba := start, mapping_blocks_ba := e\<rparr>) st) in
               write_main_table d (backup_table_ba (ni_of st)) st)) (\<lambda>(ok, u). prog b ok st u)"
    proof (rule wp_info [OF p prog_top [OF p]], goal_cases)
      case (2 r u)
      show ?case
      proof (cases r)
        case None
        let ?u = "ni_upd (\<lambda>i. i\<lparr>mapping_blocks_ba := backup_table_ba i, backup_table_ba := 0\<rparr>) u"
        have pu: "prog b False st ?u"
          by (rule prog_moved [OF 2(1)]) (use ok_bounds progD(1) [OF 2(1)] in \<open>auto simp: moved_def\<close>)
        have z: "backup_table_ba (ni_of ?u) = 0" by (simp add: ni_upd_def)
        have "wp (errs b) (write_main_table d (mapping_blocks_top_ba (ni_of ?u)) ?u) (\<lambda>(ok, u). prog b ok st u)"
          by (rule wp_mono [OF write_main_prog [OF pu prog_top [OF pu]]]) (use z in auto)
        then show ?thesis by (simp add: None Let_def)
      next
        case (Some y)
        obtain s e where y: "y = (s, e)" by (cases y)
        have bd: "s < nblk u \<and> e < nblk u \<and> 0 < e" if b
          using table_bounds [of _ _ s e u] 2(3) Some y prog_top [OF p that] marks_fields(5) [OF 2(2)] by auto
        let ?u = "nmbm_mark_tables_clean (ni_upd (\<lambda>i. i\<lparr>backup_table_ba := s, mapping_blocks_ba := e\<rparr>) u)"
        have pu: "prog b True st ?u"
          by (rule prog_clean, rule prog_moved [OF 2(1)]) (use ok_bounds progD(1) [OF 2(1)] bd in \<open>auto simp: moved_def\<close>)
        have z: "mapping_blocks_ba (ni_of ?u) = e" "backup_table_ba (ni_of ?u) = s" "nblk ?u = nblk u"
          by (simp_all add: nmbm_mark_tables_clean_def ni_upd_def nblk_def)
        have "wp (errs b) (write_main_table d (backup_table_ba (ni_of ?u)) ?u) (\<lambda>(ok, u). prog b ok st u)"
          by (rule wp_mono [OF write_main_prog [OF pu]]) (use z bd in \<open>auto intro: prog_weaken\<close>)
        then show ?thesis by (simp add: Some y Let_def)
      qed
    qed simp
    then show ?thesis using False ch by (simp add: x)
  qed
qed (use assms(1) in simp)

section \<open>All rounds\<close>

lemma goods_le: "goods st \<le> nblk st"
proof -
  have "goods st \<le> card {..< nblk st}" unfolding goods_def by (rule card_mono) auto
  then show ?thesis by simp
qed

lemma rounds_prog:
  assumes "b \<Longrightarrow> nmbm_ok st \<and> (tables_changed st \<longrightarrow> goods st < n)"
  shows "wp (errs b) (update_rounds n crc d st) (\<lambda>(_, u). prog b False st u)"
  using assms
proof (induction n arbitrary: st)
  case 0
  then show ?case by (auto simp: errs_def prog_start)
next
  case (Suc n)
  show ?case
  proof (cases "tables_changed st")
    case True
    have o: "wp (errs b) (nmbm_update_info_table_once crc d False st) (\<lambda>(ok, u). prog b ok st u)"
      using Suc.prems True by (intro once_prog) auto
    have "wp (errs b) (rbind (nmbm_update_info_table_once crc d False st) (\<lambda>(success, st).
        if success then update_rounds n crc d st else Inr (False, st))) (\<lambda>(_, u). prog b False st u)"
    proof (rule wp_rbindI [OF o], goal_cases)
      case (1 x)
      obtain ok t where x: "x = (ok, t)" by (cases x)
      with 1 have t: "prog b ok st t" by simp
      have "wp (errs b) (update_rounds n crc d t) (\<lambda>(_, u). prog b False t u)" if ok
        using t that Suc.prems True by (intro Suc.IH) (auto simp: prog_def qok_def settled_def)
      then have "wp (errs b) (update_rounds n crc d t) (\<lambda>(_, u). prog b False st u)" if ok
        by (rule wp_mono) (use that t qok_trans in \<open>auto simp: prog_def\<close>)
      then show ?case using t by (auto simp: x prog_weaken)
    qed
    then show ?thesis using True by simp
  qed (use Suc.prems in \<open>simp add: prog_start\<close>)
qed

lemma update_prog:
  assumes "b \<Longrightarrow> nmbm_ok st"
  shows "wp (errs b) (nmbm_update_info_table crc d st) (\<lambda>(_, u). prog b False st u)"
proof (cases "protected (ni_of st)")
  case False
  have "wp (errs b) (update_rounds (Suc (NMBM_BITMAP_BLOCKS_PER_UNIT * length (block_state (ni_of st)))) crc d st) (\<lambda>(_, u). prog b False st u)"
    using assms goods_le [of st] by (intro rounds_prog) (auto simp: NMBM_BITMAP_BLOCKS_PER_UNIT_def nblk_def)
  then show ?thesis using False by (simp add: nmbm_update_info_table_def)
qed (use assms in \<open>simp add: nmbm_update_info_table_def prog_start\<close>)

end
