(* ===== verification/Mtk_Nmbm_Map.thy ===== *)
theory Mtk_Nmbm_Map
  imports Mtk_Nmbm_Rounds
begin

text \<open>
  NMBM as a mapping of the common layer: a block that fails is remapped and the tables are
  updated without an invalid access and in bounded time, so that NMBM keeps the promise of a
  mapping, and the MTD operations end.
\<close>

section \<open>Remapping\<close>

definition kept_ok :: "bool \<Rightarrow> 'n nst \<Rightarrow> 'n nst \<Rightarrow> bool" where
  "kept_ok b st t \<longleftrightarrow> frame st t \<and> nblk t = nblk st \<and> data_block_count (ni_of t) = data_block_count (ni_of st) \<and> (b \<longrightarrow> nmbm_ok t)"

lemma kept_ok_trans: "kept_ok b st t \<Longrightarrow> kept_ok b t u \<Longrightarrow> kept_ok b st u"
  using frame_trans by (auto simp: kept_ok_def)

lemma prog_kept: "prog b c st t \<Longrightarrow> kept_ok b st t"
  by (simp add: prog_def qok_def quiet_def kept_ok_def)

lemma wp_kept_bind:
  assumes "wp A r (\<lambda>(x, t). kept_ok b st t \<and> P x t)"
    and "\<And>x t. kept_ok b st t \<Longrightarrow> P x t \<Longrightarrow> wp A (f (x, t)) (\<lambda>(y, u). kept_ok b t u)"
  shows "wp A (rbind r f) (\<lambda>(y, u). kept_ok b st u)"
proof (rule wp_rbindI [OF assms(1)])
  fix x
  assume x: "case x of (x, t) \<Rightarrow> kept_ok b st t \<and> P x t"
  obtain y t where xx: "x = (y, t)" by (cases x)
  have "wp A (f (y, t)) (\<lambda>(y, u). kept_ok b t u)" using x xx by (intro assms(2)) simp_all
  then show "wp A (f x) (\<lambda>(y, u). kept_ok b st u)"
    unfolding xx by (rule wp_mono) (use x xx kept_ok_trans in auto)
qed

lemma set_state_kept:
  assumes "b \<Longrightarrow> nmbm_ok st \<and> ba < nblk st"
  shows "wp (errs b) (nmbm_set_block_state ba s st) (\<lambda>(_, t). kept_ok b st t)"
  using assms
  by (auto simp: nmbm_set_block_state_def NMBM_BITMAP_BLOCKS_PER_UNIT_def Let_def errs_def kept_ok_def frame_def keeps_table_refl
      ni_upd_def nblk_def nmbm_ok_def cache_ok_def tables_fit_def mapped_ok_def)

text \<open>A walk downwards ends at a good block above the limit.\<close>

lemma walk_desc_wp:
  assumes "b \<Longrightarrow> ba < nblk st" "n \<le> ba" "0 \<le> k"
  shows "wp (errs b) (walk_desc n ba k st)
    (\<lambda>r. case r of None \<Rightarrow> True | Some pb \<Rightarrow> ba - n < pb \<and> pb \<le> ba \<and> pb < nblk st \<and> good_at st pb)"
  using assms
proof (induction n arbitrary: ba k)
  case (Suc n)
  show ?case
    unfolding walk_desc.simps
  proof (rule wp_rbindI [OF get_state_wp], goal_cases)
    case (2 s)
    have "wp (errs b) (walk_desc n (ba - 1) k' st)
        (\<lambda>r. case r of None \<Rightarrow> True | Some pb \<Rightarrow> ba - 1 - n < pb \<and> pb \<le> ba - 1 \<and> pb < nblk st \<and> good_at st pb)" if "0 \<le> k'" for k'
      using Suc.prems that by (intro Suc.IH) fastforce+
    note IH = this
    have "wp (errs b) (walk_desc n (ba - 1) k' st)
        (\<lambda>r. case r of None \<Rightarrow> True | Some pb \<Rightarrow> ba - Suc n < pb \<and> pb \<le> ba \<and> pb < nblk st \<and> good_at st pb)" if "0 \<le> k'" for k'
      by (rule wp_mono [OF IH [OF that]]) (auto split: option.splits)
    moreover have "s = BLOCK_ST_GOOD \<longleftrightarrow> good_at st ba" using 2 by (simp add: good_at_def BLOCK_ST_GOOD_def)
    ultimately show ?case using 2 Suc.prems by (auto simp: Let_def)
  qed (use Suc.prems in simp)
qed simp

lemma map_block_kept:
  assumes "b \<Longrightarrow> nmbm_ok st \<and> lb < data_block_count (ni_of st)"
  shows "wp (errs b) (nmbm_map_block crc d lb st) (\<lambda>(_, t). kept_ok b st t)"
proof (cases "mapping_blocks_ba (ni_of st) = mapping_blocks_top_ba (ni_of st)")
  case False
  let ?top = "mapping_blocks_top_ba (ni_of st)" and ?lim = "walk_limit (mapping_blocks_ba (ni_of st)) st"
  have walk: "wp (errs b) (nmbm_block_walk False ?top 0 (mapping_blocks_ba (ni_of st)) st)
      (\<lambda>r. case r of None \<Rightarrow> True | Some pb \<Rightarrow> ?top - (?top - ?lim) < pb \<and> pb \<le> ?top \<and> pb < nblk st \<and> good_at st pb)"
    unfolding nmbm_block_walk_def nmbm_block_walk_desc_def if_False
    using assms ok_bounds(1) by (intro walk_desc_wp) auto
  have fail: "wp (errs b) (rbind (nmbm_update_info_table crc d st) (\<lambda>(_, st).
      Inr (False, ni_upd (\<lambda>i. i\<lparr>mapping_blocks_top_ba := mapping_blocks_ba i\<rparr>) st))) (\<lambda>(_, t). kept_ok b st t)"
  proof (rule wp_kept_bind [where P = "\<lambda>_ _. True"], goal_cases)
    case 1
    show ?case by (rule wp_mono [OF update_prog]) (use assms prog_kept in auto)
  qed (auto simp: kept_ok_def frame_def keeps_table_refl ni_upd_def nblk_def nmbm_ok_def cache_ok_def tables_fit_def mapped_ok_def)
  have mapped: "wp (errs b) (rbind (put_mapping lb (s32_of pb) st) (\<lambda>st.
        Inr (True, ni_upd (\<lambda>i. i\<lparr>mapping_blocks_top_ba := u32_of (int (mapping_blocks_top_ba i) - 1),
          block_mapping_changed := u32_of (int (block_mapping_changed i) + 1)\<rparr>) st))) (\<lambda>(_, t). kept_ok b st t)"
    if "b \<Longrightarrow> pb \<le> ?top \<and> 0 < pb" for pb
  proof (cases "lb < length (block_mapping (ni_of st))")
    case True
    have v: "s32_of pb = int pb" "u32_of (int ?top - 1) < nblk st" "pb < nblk st" if b
    proof -
      have "?top < 2 ^ 16" "?top < nblk st" using assms [OF that] by (auto simp: nmbm_ok_def)
      then show "s32_of pb = int pb" "pb < nblk st" using \<open>b \<Longrightarrow> pb \<le> ?top \<and> 0 < pb\<close> [OF that] s32_of_block [of pb] by simp_all
      show "u32_of (int ?top - 1) < nblk st"
        using \<open>?top < 2 ^ 16\<close> \<open>?top < nblk st\<close> \<open>b \<Longrightarrow> pb \<le> ?top \<and> 0 < pb\<close> [OF that] by (simp add: u32_of_def nat_less_iff)
    qed
    show ?thesis
      using True assms v
      by (auto simp: put_mapping_def kept_ok_def frame_def keeps_table_refl ni_upd_def nblk_def nmbm_ok_def cache_ok_def tables_fit_def
          mapped_ok_def nth_list_update)
  qed (use assms in \<open>auto simp: put_mapping_def errs_def nmbm_ok_def mapped_ok_def\<close>)
  show ?thesis
    unfolding nmbm_map_block_def using False
    by (simp only: if_False) (rule wp_rbindI [OF walk], use fail mapped in \<open>auto split: option.splits\<close>)
qed (use assms in \<open>simp add: nmbm_map_block_def kept_ok_def\<close>)

text \<open>Erasing and copying keep the length of the page cache.\<close>

lemma copy_pages_cache: "length (data_buf (snd (copy_pages d pages src dest m offset n s))) = length (data_buf s)"
proof (induction n arbitrary: offset s)
  case (Suc n)
  show ?case by (auto simp: Suc.IH Let_def split: prod.split)
qed simp

lemma erase_copy_kept:
  assumes "b \<Longrightarrow> nmbm_ok st"
  shows "kept_ok b st (st\<lparr>bm := snd (bbt_nand_erase d p (bm st))\<rparr>)"
    "kept_ok b st (st\<lparr>bm := snd (bbt_nand_copy d p q l (bm st))\<rparr>)"
proof -
  have *: "kept_ok b st (st\<lparr>bm := s\<rparr>)" if "keeps_table (bm st) s" "length (data_buf s) = length (data_buf (bm st))" for s
    using that assms by (auto simp: kept_ok_def frame_def nblk_def nmbm_ok_def cache_ok_def keeps_table_def)
  have "length (data_buf (snd (bbt_nand_erase d p (bm st)))) = length (data_buf (bm st))"
    by (simp add: bbt_nand_erase_def Let_def split: prod.split)
  then show "kept_ok b st (st\<lparr>bm := snd (bbt_nand_erase d p (bm st))\<rparr>)" by (intro * erase_keeps_table)
  show "kept_ok b st (st\<lparr>bm := snd (bbt_nand_copy d p q l (bm st))\<rparr>)"
    by (intro * copy_keeps_table) (simp add: bbt_nand_copy_def Let_def copy_pages_cache)
qed

lemma remap_kept:
  assumes "b \<Longrightarrow> nmbm_ok st \<and> p < nblk st"
  shows "wp (errs b) (remap_nst crc d k p len st) (\<lambda>(_, t). kept_ok b st t)"
proof (cases "k \<ge> data_block_count (ni_of st)")
  case False
  let ?new = "\<lambda>new st. let s = snd (bbt_nand_erase d (u16_of new) (bm st));
      s = (if len > 0 then snd (bbt_nand_copy d (u16_of new) p len s) else s)
    in rbind (nmbm_update_info_table crc d (st\<lparr>bm := s\<rparr>)) (\<lambda>(_, st). Inr (True, st))"
  have new: "wp (errs b) (?new x t) (\<lambda>(_, u). kept_ok b t u)" if "b \<Longrightarrow> nmbm_ok t" for x t
  proof -
    define t1 where "t1 = t\<lparr>bm := snd (bbt_nand_erase d (u16_of x) (bm t))\<rparr>"
    define t2 where "t2 = (if len > 0 then t1\<lparr>bm := snd (bbt_nand_copy d (u16_of x) p len (bm t1))\<rparr> else t1)"
    have k1: "kept_ok b t t1" unfolding t1_def by (rule erase_copy_kept(1)) (rule that)
    then have "b \<Longrightarrow> nmbm_ok t1" by (simp add: kept_ok_def)
    then have k2: "kept_ok b t t2" using kept_ok_trans [OF k1 erase_copy_kept(2)] k1 by (simp add: t2_def)
    have "wp (errs b) (nmbm_update_info_table crc d t2) (\<lambda>(_, u). prog b False t2 u)"
      using k2 by (intro update_prog) (simp add: kept_ok_def)
    then have "wp (errs b) (rbind (nmbm_update_info_table crc d t2) (\<lambda>(_, st). Inr (True, st))) (\<lambda>(_, u). kept_ok b t u)"
      by (rule wp_rbindI) (auto intro: kept_ok_trans [OF k2 prog_kept])
    then show ?thesis by (simp add: t2_def t1_def Let_def split: if_splits)
  qed
  have map: "wp (errs b) (rbind (nmbm_map_block crc d k t) (\<lambda>(success, st).
      if \<not> success then Inr (False, st) else rbind (get_mapping k st) (\<lambda>x. ?new x st))) (\<lambda>(_, u). kept_ok b t u)"
    if t: "kept_ok b st t" for t
  proof (rule wp_kept_bind [where P = "\<lambda>_ _. True"], goal_cases)
    case 1
    show ?case by (rule wp_mono [OF map_block_kept]) (use t False in \<open>auto simp: kept_ok_def\<close>)
  next
    case (2 success u)
    have u: "b \<Longrightarrow> nmbm_ok u \<and> k < data_block_count (ni_of u)" using t 2(1) False by (auto simp: kept_ok_def)
    then have "wp (errs b) (get_mapping k u) (\<lambda>_. True)" by (auto simp: get_mapping_def errs_def nmbm_ok_def mapped_ok_def)
    then have "wp (errs b) (rbind (get_mapping k u) (\<lambda>x. ?new x u)) (\<lambda>(_, v). kept_ok b u v)" by (rule wp_rbindI) (use new u in blast)
    then show ?case using u by (auto simp: kept_ok_def)
  qed
  have bad: "wp (errs b) (nmbm_set_block_state p BLOCK_ST_BAD st) (\<lambda>(_, t). kept_ok b st t \<and> True)"
    by (rule wp_mono [OF set_state_kept]) (use assms in auto)
  have "(k \<ge> data_block_count (ni_of st)) = False" using False by simp
  then show ?thesis
    unfolding remap_nst_def by (simp only: if_False) (rule wp_kept_bind [OF bad], use map in simp)
qed (use assms in \<open>simp add: remap_nst_def kept_ok_def\<close>)

section \<open>The promise of a mapping\<close>

definition nmbm_inv :: "nat \<Rightarrow> nat \<Rightarrow> 'n bmt_desc \<Rightarrow> bool" where
  "nmbm_inv N M s \<longleftrightarrow> blk_geom N s \<and>
     (case ni s of None \<Rightarrow> False
      | Some i \<Rightarrow> nmbm_ok \<lparr>ni_of = i, bm = s\<rparr> \<and> data_block_count i = N \<and> nblk \<lparr>ni_of = i, bm = s\<rparr> = M)"

lemma nmbm_ok_ni: "nmbm_ok \<lparr>ni_of = i, bm = s\<lparr>ni := x\<rparr>\<rparr> = nmbm_ok \<lparr>ni_of = i, bm = s\<rparr>"
  by (simp add: nmbm_ok_def cache_ok_def nblk_def)

lemma remap_nmbm_inv:
  assumes "nmbm_inv N M s" "p < M"
  shows "wp {} (remap_block_nmbm crc d k p len s) (\<lambda>(_, t). nmbm_inv N M t \<and> same_geom s t)"
proof -
  obtain i where i: "ni s = Some i" "nmbm_ok \<lparr>ni_of = i, bm = s\<rparr>" "data_block_count i = N" "nblk \<lparr>ni_of = i, bm = s\<rparr> = M" "blk_geom N s"
    using assms(1) by (auto simp: nmbm_inv_def split: option.splits)
  have "wp (errs True) (remap_nst crc d k p len \<lparr>ni_of = i, bm = s\<rparr>) (\<lambda>(_, t). kept_ok True \<lparr>ni_of = i, bm = s\<rparr> t)"
    using i assms(2) by (intro remap_kept) simp
  then have "wp {} (remap_nst crc d k p len \<lparr>ni_of = i, bm = s\<rparr>) (\<lambda>(_, t). kept_ok True \<lparr>ni_of = i, bm = s\<rparr> t)"
    by (simp add: errs_def)
  then show ?thesis
    unfolding remap_block_nmbm_def with_ni_def i option.case
  proof (rule wp_rbindI, goal_cases)
    case (1 x)
    obtain y t where x: "x = (y, t)" by (cases x)
    with 1 have t: "frame \<lparr>ni_of = i, bm = s\<rparr> t" "nblk t = M" "data_block_count (ni_of t) = N" "nmbm_ok t"
      using i by (auto simp: kept_ok_def)
    have g: "same_geom s (bm t)" using frame_fields [OF t(1)] by (simp add: same_geom_def)
    have "nmbm_ok \<lparr>ni_of = ni_of t, bm = bm t\<rparr>" "nblk \<lparr>ni_of = ni_of t, bm = bm t\<rparr> = M"
      using t(2,4) by (simp_all add: nmbm_ok_def cache_ok_def nblk_def)
    then show ?case using g blk_geom_same [OF i(5) g] t(3)
      by (simp add: x nmbm_inv_def nmbm_ok_ni blk_geom_def same_geom_def nblk_def)
  qed
qed

interpretation nmbm: mapping_ops "mtk_bmt_nmbm_ops crc d" "nmbm_inv N M" N M "{}" for crc and d :: "'n nand_dev" and N M
proof (unfold_locales, goal_cases)
  case (2 s)
  then show ?case by (auto simp: nmbm_inv_def nmbm_ok_def split: option.splits)
next
  case (3 s)
  then show ?case by (simp add: nmbm_inv_def)
next
  case (4 s c)
  then show ?case
    by (auto simp: nmbm_inv_def blk_geom_def nmbm_ok_def cache_ok_def nblk_def split: option.splits)
next
  case (5 s k)
  then obtain i where i: "ni s = Some i" "nmbm_ok \<lparr>ni_of = i, bm = s\<rparr>" "data_block_count i = N" "nblk \<lparr>ni_of = i, bm = s\<rparr> = M" "blk_geom N s"
    by (auto simp: nmbm_inv_def split: option.splits)
  have "u32_of (int k) = k" using 5(2) i(5) by (simp add: blk_geom_def u32_of_def)
  then show ?case using i 5(2)
    by (auto simp: mtk_bmt_nmbm_ops_def get_mapping_block_index_nmbm_def get_mapping_def nmbm_ok_def mapped_ok_def)
next
  case (6 s k p len)
  then show ?case by (simp add: mtk_bmt_nmbm_ops_def remap_nmbm_inv)
qed simp

end
