(* ===== verification/Mtk_Nmbm_Frame.thy ===== *)
theory Mtk_Nmbm_Frame
  imports Mtk_Nmbm_Map
begin

text \<open>
  Attaching NMBM changes the chip, the page cache and the size of the device only, whatever is
  found on the chip.
\<close>

abbreviation framed :: "'n nst \<Rightarrow> ('a \<times> 'n nst) res \<Rightarrow> bool" where
  "framed s r \<equiv> wp UNIV r (\<lambda>(_, t). frame s t)"

lemma framed_bind:
  assumes "framed s r" and "\<And>x t. frame s t \<Longrightarrow> wp UNIV (f (x, t)) Q"
  shows "wp UNIV (rbind r f) Q"
  using assms by (cases r) auto

lemma framed_get: "(\<And>x. wp UNIV (f x) Q) \<Longrightarrow> wp UNIV (rbind (r :: 'a res) f) Q"
  by (cases r) auto

lemmas framed_reads =
  framed_get [where r = "nmbm_get_block_state ba t" for ba t] framed_get [where r = "nmbm_block_walk a ba k l t" for a ba k l t]
  framed_get [where r = "nmbm_try_reserve_blocks ba k m l t" for ba k m l t]
  framed_get [where r = "nmbm_check_info_table a e t" for a e t] framed_get [where r = "last_mapped k t" for k t]

lemma framed_dev: "frame s t \<Longrightarrow> dev_step t u \<Longrightarrow> frame s u"
  using frame_trans by (auto simp: dev_step_def)

lemma framed_upd [simp]: "frame s (ni_upd f t) = frame s t"
  by (simp add: frame_def ni_upd_def)

lemma framed_clean [simp]: "frame s (nmbm_mark_tables_clean t) = frame s t"
  by (simp add: nmbm_mark_tables_clean_def)

lemma framed_from:
  assumes "wp (errs False) r (\<lambda>(x, u). P x u)" "frame s t" "\<And>x u. P x u \<Longrightarrow> frame t u"
  shows "framed s r"
  using assms(1,3) by (cases r) (auto intro: frame_trans [OF assms(2)])

lemma framed_set: "frame s t \<Longrightarrow> framed s (nmbm_set_block_state ba v t)"
  by (rule framed_from [OF set_state_kept [where b = False]]) (auto simp: kept_ok_def)

lemma framed_write_info: "frame s t \<Longrightarrow> framed s (nmbm_write_info_table d ba limit t)"
  by (rule framed_from [OF write_info_marks [where b = False]]) (auto simp: marks_def)

lemma framed_down: "frame s t \<Longrightarrow> framed s (write_downwards d lo ba t)"
  by (rule framed_from [OF write_downwards_marks [where b = False]]) (auto simp: marks_def)

lemma framed_erase: "frame s t \<Longrightarrow> wp UNIV (nmbm_erase_range d ba limit t) (frame s)"
proof -
  assume "frame s t"
  moreover have "wp (errs False) (nmbm_erase_range d ba limit t) (marks t)" by (rule erase_range_marks) simp
  ultimately show ?thesis using frame_trans by (cases "nmbm_erase_range d ba limit t") (auto simp: marks_def)
qed

lemma framed_generate: "frame s t \<Longrightarrow> framed s (nmbm_generate_info_table_cache crc t)"
  by (rule framed_from [OF generate_qok [where b = False]]) (auto simp: qok_def quiet_def)

lemma framed_rebuild: "frame s t \<Longrightarrow> framed s (nmbm_rebuild_info_table d t)"
  by (rule framed_from [OF rebuild_prog [where b = False, OF prog_start]]) (auto dest: progD)

lemma framed_update: "frame s t \<Longrightarrow> framed s (nmbm_update_info_table crc d t)"
  by (rule framed_from [OF update_prog [where b = False]]) (auto dest: progD)

lemma framed_map: "frame s t \<Longrightarrow> framed s (nmbm_map_block crc d lb t)"
  by (rule framed_from [OF map_block_kept [where b = False]]) (auto simp: kept_ok_def)

section \<open>A new chip\<close>

lemma framed_scan: "frame s t \<Longrightarrow> wp UNIV (scan_from d bas t) (frame s)"
proof (induction bas arbitrary: t)
  case (Cons ba bas)
  obtain bad u where c: "nmbm_check_bad_phys_block d ba t = (bad, u)" by (metis prod.collapse)
  then have "frame s u" using framed_dev [OF Cons.prems] check_bad_step [of t d ba] by simp
  then show ?case using Cons.IH by (auto simp: c intro!: framed_bind [OF framed_set])
qed simp

lemma framed_put: "frame s t \<Longrightarrow> wp UNIV (put_mapping lb v t) (frame s)"
  by (simp add: put_mapping_def)

lemma framed_map_good: "frame s t \<Longrightarrow> framed s (map_good pbs lb t)"
  by (induction pbs arbitrary: lb t) (auto intro!: framed_reads wp_rbindI [OF framed_put])

lemma framed_map_none: "frame s t \<Longrightarrow> wp UNIV (map_none pbs t) (frame s)"
  by (induction pbs arbitrary: t) (auto intro!: wp_rbindI [OF framed_put])

lemma framed_build: "frame s t \<Longrightarrow> wp UNIV (nmbm_build_mapping_table t) (frame s)"
  unfolding nmbm_build_mapping_table_def by (rule framed_bind [OF framed_map_good]) (auto intro: framed_map_none)

lemma framed_prepare: "frame s t \<Longrightarrow> framed s (prepare_block d ba t)"
  by (rule framed_from [OF prepare_marks [where b = False]]) (auto simp: marks_def)

lemma framed_write_pages: "frame s t \<Longrightarrow> framed s (write_repeated_pages d addr dat offs t)"
proof (induction offs arbitrary: t)
  case (Cons off offs)
  have "framed s (write_and_verify d (addr + off) 0 dat t)"
    by (rule framed_from [OF write_page_verify_step [where b = False]]) (use Cons.prems in \<open>auto simp: dev_step_def\<close>)
  then show ?case using Cons.IH by (auto intro!: framed_bind)
qed simp

lemma framed_retire: "frame s t \<Longrightarrow> wp UNIV (retire_block d ba t) (frame s)"
  unfolding retire_block_def using framed_dev [OF _ mark_bad_step] by (auto intro!: framed_bind [OF framed_set])

lemma framed_signature: "frame s t \<Longrightarrow> framed s (write_signature_from d sig bas t)"
proof (induction bas arbitrary: t)
  case (Cons ba bas)
  have "framed s (nmbm_write_repeated_data d ba sig u)" if "frame s u" for u
    using framed_write_pages [OF that] that by (simp add: nmbm_write_repeated_data_def)
  then show ?case using Cons
    by (auto intro!: framed_bind [OF framed_prepare] framed_bind [where r = "nmbm_write_repeated_data d ba sig _"] wp_rbindI [OF framed_retire])
qed simp

lemma framed_tail: "frame s t \<Longrightarrow> wp UNIV (remap_tail n crc d lb t) (frame s)"
  by (induction n arbitrary: lb t) (auto intro!: framed_bind [OF framed_map])

lemma framed_create_table: "frame s t \<Longrightarrow> framed s (nmbm_create_info_table crc d t)"
  unfolding nmbm_create_info_table_def
  by (auto intro!: framed_reads framed_bind [OF framed_generate] framed_bind [OF framed_rebuild] wp_rbindI [OF framed_tail] framed_update
      split: option.split)

lemma framed_create_new: "frame s t \<Longrightarrow> framed s (nmbm_create_new crc d t)"
  unfolding nmbm_create_new_def Let_def nmbm_scan_badblocks_def nmbm_write_signature_def
  by (auto intro!: wp_rbindI [OF framed_scan] wp_rbindI [OF framed_build] framed_bind [OF framed_signature] framed_create_table
      split: option.split)

section \<open>An existing table\<close>

lemma framed_read_data: "frame s t \<Longrightarrow> framed s (read_data_from n d off don k buf t)"
proof (induction n arbitrary: off don k buf t)
  case (Suc n)
  define leading where "leading = off AND (pg_size (bm t) - 1)"
  obtain r b u where rd: "nmbm_read_phys_page d (off - leading) (take (pg_size (bm t)) (drop don buf)) t = ((r, b), u)" by (metis prod.collapse)
  obtain r' b' u' where rd': "nmbm_read_phys_page d (off - leading) (data_buf (bm t)) t = ((r', b'), u')" by (metis prod.collapse)
  have "frame s u" "frame s (set_cache b' u')"
    using framed_dev [OF Suc.prems] read_page_step(1) [OF rd] read_cache_step [OF rd'] by auto
  then show ?case using Suc unfolding read_data_from.simps Let_def leading_def [symmetric] rd rd' prod.case by simp
qed simp

lemma framed_load: "frame s t \<Longrightarrow> framed s (load_table_from n d ba don start t)"
proof (induction n arbitrary: ba don start t)
  case (Suc n)
  obtain bad u where c: "nmbm_check_bad_phys_block d ba t = (bad, u)" by (metis prod.collapse)
  then have u: "frame s u" using framed_dev [OF Suc.prems] check_bad_step [of t d ba] by simp
  have rd: "framed s (nmbn_read_data d a k buf u)" for a k buf
    unfolding nmbn_read_data_def by (rule framed_read_data [OF u])
  show ?case
    unfolding load_table_from.simps c Let_def prod.case
    using Suc.prems u by (auto intro!: framed_reads Suc.IH framed_bind [OF framed_set] framed_bind [OF rd])
qed simp

lemma framed_try_load: "frame s t \<Longrightarrow> framed s (nmbm_try_load_info_table crc d ba loaded t)"
proof -
  assume t: "frame s t"
  have take: "wp UNIV (take_tables u) (frame s)" if "frame s u" for u
    using that by (simp add: take_tables_def Let_def)
  show ?thesis
    unfolding nmbm_try_load_info_table_def Let_def
    by (rule framed_bind [OF framed_load [OF t]]) (auto intro!: framed_reads wp_rbindI [OF take] split: option.split)
qed

lemma framed_search: "frame s t \<Longrightarrow> framed s (search_from crc d bas loaded t)"
  by (induction bas arbitrary: t) (auto intro!: framed_bind [OF framed_try_load] split: option.split)

lemma framed_rescue_single: "frame s t \<Longrightarrow> framed s (nmbm_rescue_single_info_table d t)"
  unfolding nmbm_rescue_single_info_table_def Let_def
  by (auto intro!: framed_reads framed_bind [OF framed_write_info] framed_bind [OF framed_down] wp_rbindI [OF framed_erase]
      split: option.split)

lemma framed_update_single: "frame s t \<Longrightarrow> framed s (nmbm_update_single_info_table d m t)"
  unfolding nmbm_update_single_info_table_def Let_def
  by (auto intro!: framed_bind [OF framed_write_info] framed_rescue_single split: option.split)

lemma framed_settle: "frame s t \<Longrightarrow> wp UNIV (settle_tables crc d m k t) (frame s)"
proof -
  assume t: "frame s t"
  have "framed s (if backup_table_ba (ni_of u) = 0 then nmbm_rescue_single_info_table d u
      else if m \<noteq> k then nmbm_update_single_info_table d (m < k) (ni_upd f u) else Inr (True, u))" if "frame s u" for u f
    using that by (simp add: framed_rescue_single framed_update_single)
  note both = this
  show ?thesis
    unfolding settle_tables_def
    by (rule framed_bind [OF framed_generate [OF t]], unfold prod.case, rule framed_bind [OF both]) auto
qed

lemma framed_load_info: "frame s t \<Longrightarrow> framed s (nmbm_load_info_table crc d ba limit t)"
  unfolding nmbm_load_info_table_def Let_def nmbm_search_info_table_def
  by (auto intro!: framed_reads framed_bind [OF framed_search] wp_rbindI [OF framed_settle] split: option.split)

lemma framed_load_existing: "frame s t \<Longrightarrow> framed s (nmbm_load_existing crc d t)"
  unfolding nmbm_load_existing_def Let_def nmbm_scan_badblocks_def
  by (auto intro!: framed_bind [OF framed_load_info] wp_rbindI [OF framed_scan] wp_rbindI [OF framed_build] framed_create_table)

lemma framed_pages: "frame s t \<Longrightarrow> framed s (find_in_pages crc d addr offs t)"
  unfolding nmbn_read_data_def by (induction offs arbitrary: t) (auto simp: nmbn_read_data_def intro!: framed_bind [OF framed_read_data])

lemma framed_find: "frame s t \<Longrightarrow> framed s (find_from crc d bas t)"
proof (induction bas arbitrary: t)
  case (Cons ba bas)
  obtain bad u where c: "nmbm_check_bad_phys_block d ba t = (bad, u)" by (metis prod.collapse)
  then have "frame s u" using framed_dev [OF Cons.prems] check_bad_step [of t d ba] by simp
  then show ?case using Cons.IH by (auto simp: c intro!: framed_bind [OF framed_pages] split: option.split)
qed simp

lemma framed_attach: "framed s (nmbm_attach crc d s)"
proof -
  have i: "frame s (nmbm_init_structure s)" by (simp add: nmbm_init_structure_def Let_def)
  have f: "framed s (nmbm_find_signature crc d (nmbm_init_structure s))"
    unfolding nmbm_find_signature_def Let_def by (rule framed_bind [OF framed_find [OF i]]) auto
  show ?thesis
    unfolding nmbm_attach_def Let_def
    by (rule framed_bind [OF f])
      (auto intro!: framed_bind [OF framed_create_new] framed_bind [OF framed_load_existing] split: option.split)
qed

end
