(* ===== verification/Mtk_Attach.thy ===== *)
theory Mtk_Attach
  imports Mtk_V2_Store Mtk_Nmbm_Frame
begin

text \<open>
  Attaching the bad block management to an MTD device and detaching it again
  (\<open>mtk_bmt_attach\<close>, \<open>mtk_bmt_replace_ops\<close>, \<open>mtk_bmt_detach\<close> of
  target/linux/generic/files/drivers/mtd/nand/mtk_bmt.c).
\<close>

section \<open>The device\<close>










section \<open>What initialisation keeps\<close>

text \<open>The geometry that \<open>mtk_bmt_detach\<close> restores the device from.\<close>

definition keeps_geom :: "'n bmt_desc \<Rightarrow> 'n bmt_desc \<Rightarrow> bool" where
  "keeps_geom s t =
     (total_blks t = total_blks s \<and> blk_shift t = blk_shift s \<and> erasesize (mtd t) = erasesize (mtd s) \<and>
      writesize (mtd t) = writesize (mtd s) \<and> oobsize (mtd t) = oobsize (mtd s) \<and>
      bitflip_threshold (mtd t) = bitflip_threshold (mtd s) \<and> ecc_strength (mtd t) = ecc_strength (mtd s))"

lemma keeps_geom_refl [simp]: "keeps_geom s s"
  by (simp add: keeps_geom_def)

lemma keeps_geom_upd [simp]:
  "keeps_geom s (t\<lparr>chip := c\<rparr>) = keeps_geom s t" "keeps_geom s (t\<lparr>data_buf := b\<rparr>) = keeps_geom s t"
  "keeps_geom s (t\<lparr>bbt_buf := b\<rparr>) = keeps_geom s t" "keeps_geom s (t\<lparr>bmt_blk_idx := n\<rparr>) = keeps_geom s t"
  "keeps_geom s (t\<lparr>pool_pba := n\<rparr>) = keeps_geom s t" "keeps_geom s (t\<lparr>bmt_pgs := n\<rparr>) = keeps_geom s t"
  by (simp_all add: keeps_geom_def)



lemma keeps_geom_read:
  "bbt_nand_read d page len n t = (x, u) \<Longrightarrow> keeps_geom s u = keeps_geom s t"
  by (auto simp: bbt_nand_read_def Let_def split_def)

lemma keeps_geom_erase: "keeps_geom s (snd (bbt_nand_erase d b t)) = keeps_geom s t"
  by (simp add: bbt_nand_erase_result)















section \<open>Properties\<close>









end
