(* ===== verification/Mtk_Nmbm_Props.thy ===== *)
theory Mtk_Nmbm_Props
  imports Mtk_Nmbm_Map Mtk_Bbt_Props
begin

text \<open>
  Properties of NMBM: the MTD operations end, the choice of a block for a remapping, and the mapping
  of a new chip.
\<close>

section \<open>Operations\<close>

text \<open>
  C29. With NMBM, \<open>erase\<close>, \<open>block_isbad\<close> and \<open>block_markbad\<close> of the MTD layer return a result, whatever
  the driver reports. Each failing block is remapped and the info tables are written again, as
  often as that shows further bad blocks; no access leaves the tables, and the instance stays
  well formed.
\<close>

theorem nmbm_mtd_operations_end:
  assumes inv: "nmbm_inv N M s" and len: "0 < len" "addr + len \<le> N * blk_size s"
    and fuel: "11 * spans (blk_size s) addr (addr + len) < fuel"
  shows "(\<exists>ret fail t. mtk_bmt_mtd_erase fuel d (mtk_bmt_nmbm_ops crc d) addr len s = Inr (ret, fail, t) \<and> nmbm_inv N M t) \<and>
    (\<exists>ret t. mtk_bmt_block_isbad d (mtk_bmt_nmbm_ops crc d) addr s = Inr (ret, t) \<and> nmbm_inv N M t) \<and>
    (\<exists>ret t. mtk_bmt_block_markbad d (mtk_bmt_nmbm_ops crc d) addr s = Inr (ret, t) \<and> nmbm_inv N M t)"
proof -
  have "addr < N * blk_size s" using len by simp
  then show ?thesis
    using nmbm.mtd_erase_inv [OF inv len fuel, of d crc d] nmbm.isbad_inv [OF inv, of addr d crc d]
      nmbm.markbad_inv [OF inv, of addr d crc d]
    by (auto simp: wp_def split: sum.splits)
qed

definition sample_instance :: nmbm_instance where
  "sample_instance = (nmbm_new_instance
     \<lparr>np_bmt_v2 = False, np_nmbm = True, np_bbt = False, np_remap_range = None, np_pool_size = None, np_oob_offset = None,
      np_table_size = None, np_max_ratio = None, np_max_reserved = None, np_empty_ecc = False, np_force_create = False\<rparr>)
     \<lparr>rawpage_size := 2, block_count := 16, block_state := [0xffffffff], block_mapping := [0, 1, 2, 3] @ replicate 12 (- 1),
      data_block_count := 4, info_table_size := 100, info_table_cache := replicate 100 0,
      info_table := \<lparr>h_magic = 0, h_version = 0, h_size = 0, h_checksum = 0, write_count = 0, state_table_off = 32,
        mapping_table_off = 36, h_padding = 0\<rparr>,
      state_table_size := 4, mapping_table_size := 64,
      mgmt_start_ba := 4, main_table_ba := 5, backup_table_ba := 8, mapping_blocks_ba := 10, mapping_blocks_top_ba := 14\<rparr>"

definition sample_nmbm :: "unit bmt_desc" where
  "sample_nmbm = (sample_bbt None)\<lparr>ni := Some sample_instance, data_buf := [0, 0]\<rparr>"

lemma sample_nmbm_inv: "nmbm_inv 4 16 sample_nmbm"
proof -
  have "0 \<le> ([0, 1, 2, 3] @ replicate 12 (- 1 :: int)) ! k \<and> ([0, 1, 2, 3] @ replicate 12 (- 1 :: int)) ! k < 16" if "k < 4" for k
    using that by (auto simp: nth_append less_Suc_eq numeral_eq_Suc)
  then show ?thesis
    by (simp add: nmbm_inv_def sample_nmbm_def sample_bbt_def sample_instance_def nmbm_new_instance_def blk_geom_def nmbm_ok_def cache_ok_def
        tables_fit_def mapped_ok_def nblk_def)
qed

lemma nmbm_mtd_operations_end_witness:
  "\<exists>ret fail t. mtk_bmt_mtd_erase 40 sample_nand (mtk_bmt_nmbm_ops (\<lambda>c _. c) sample_nand) 1 7 sample_nmbm = Inr (ret, fail, t)"
proof -
  have "11 * spans (blk_size sample_nmbm) 1 (1 + 7) < 40" "1 + 7 \<le> 4 * blk_size sample_nmbm"
    by (simp_all add: spans_def blocks_to_go_def sample_nmbm_def sample_bbt_def)
  then show ?thesis
    using nmbm_mtd_operations_end [OF sample_nmbm_inv, of 7 1 40 sample_nand "\<lambda>c _. c"] by auto
qed

section \<open>Choosing a block\<close>

lemma get_state_eq: "ba < nblk st \<Longrightarrow> nmbm_get_block_state ba st = Inr (st_at (block_state (ni_of st)) ba)"
  by (auto simp: nmbm_get_block_state_def nmbm_get_block_state_raw_def NMBM_BITMAP_BLOCKS_PER_UNIT_def BLOCK_ST_MASK_def
      st_at_def nblk_def Let_def)

text \<open>The walk over a bad block to a good one, and the walk from there.\<close>

lemma walk_to:
  assumes "a < nblk st" "lim + 1 < a" "\<not> good_at st a" "good_at st (a - 1)"
  shows "walk_desc (a - lim) a 0 st = Inr (Some (a - 1))" "walk_desc (a - 1 - lim) (a - 1) 0 st = Inr (Some (a - 1))"
proof -
  obtain n where n: "a - lim = Suc (Suc n)" using assms(2) by (metis Suc_diff_Suc Suc_eq_plus1 Suc_lessD)
  then have n1: "a - 1 - lim = Suc n" by simp
  have g: "st_at (block_state (ni_of st)) (a - Suc 0) = 3" "st_at (block_state (ni_of st)) a \<noteq> 3"
    using assms(3,4) by (simp_all add: good_at_def)
  show "walk_desc (a - 1 - lim) (a - 1) 0 st = Inr (Some (a - 1))"
    unfolding n1 using assms(1) g by (simp add: get_state_eq BLOCK_ST_GOOD_def)
  show "walk_desc (a - lim) a 0 st = Inr (Some (a - 1))"
    unfolding n using assms(1) g by (simp add: get_state_eq BLOCK_ST_GOOD_def)
qed

text \<open>A step of \<open>nmbm_map_block\<close> that finds the block \<open>pb\<close>.\<close>

definition mapped_to :: "nat \<Rightarrow> nat \<Rightarrow> 'n nst \<Rightarrow> 'n nst" where
  "mapped_to lb pb st =
     ni_upd (\<lambda>i. i\<lparr>block_mapping := (block_mapping i)[lb := int pb], mapping_blocks_top_ba := u32_of (int (mapping_blocks_top_ba i) - 1),
       block_mapping_changed := u32_of (int (block_mapping_changed i) + 1)\<rparr>) st"

lemma map_block_found:
  assumes "walk_desc (mapping_blocks_top_ba (ni_of st) - mapping_blocks_ba (ni_of st)) (mapping_blocks_top_ba (ni_of st)) 0 st = Inr (Some pb)"
    and "mapping_blocks_ba (ni_of st) < block_count (ni_of st)" "lb < length (block_mapping (ni_of st))" "pb < 2 ^ 16"
    and "mapping_blocks_ba (ni_of st) \<noteq> mapping_blocks_top_ba (ni_of st)"
  shows "nmbm_map_block crc d lb st = Inr (True, mapped_to lb pb st)"
  using assms by (simp add: nmbm_map_block_def nmbm_block_walk_def nmbm_block_walk_desc_def walk_limit_def put_mapping_def mapped_to_def
      ni_upd_def s32_of_block)

text \<open>
  C32. Two logical blocks on one physical block. When the highest spare block is bad and the one
  below it is good, \<open>nmbm_map_block\<close> takes the good one but lowers \<open>mapping_blocks_top_ba\<close> by one
  only, to the block it has just used: the next logical block that is remapped gets the same
  physical block.
\<close>

theorem nmbm_map_block_aliases:
  assumes ok: "nmbm_ok st" and lb: "lb < data_block_count (ni_of st)" "lb' < data_block_count (ni_of st)" "lb \<noteq> lb'"
    and a: "a = mapping_blocks_top_ba (ni_of st)" "mapping_blocks_ba (ni_of st) + 1 < a" "mapping_blocks_ba (ni_of st) < block_count (ni_of st)"
    and bad: "\<not> good_at st a" "good_at st (a - 1)"
  shows "\<exists>t u. nmbm_map_block crc d lb st = Inr (True, t) \<and> nmbm_map_block crc d lb' t = Inr (True, u) \<and>
    block_mapping (ni_of u) ! lb = int (a - 1) \<and> block_mapping (ni_of u) ! lb' = int (a - 1)"
proof -
  have b: "a < nblk st" "a < 2 ^ 16" "data_block_count (ni_of st) \<le> length (block_mapping (ni_of st))"
    using ok a(1) by (auto simp: nmbm_ok_def mapped_ok_def)
  let ?t = "mapped_to lb (a - 1) st"
  have t: "nmbm_map_block crc d lb st = Inr (True, ?t)"
    using walk_to(1) [OF b(1) a(2) bad] a b lb by (intro map_block_found) auto
  have f: "mapping_blocks_top_ba (ni_of ?t) = a - 1" "mapping_blocks_ba (ni_of ?t) = mapping_blocks_ba (ni_of st)"
    "block_count (ni_of ?t) = block_count (ni_of st)" "length (block_mapping (ni_of ?t)) = length (block_mapping (ni_of st))"
    "block_mapping (ni_of ?t) = (block_mapping (ni_of st))[lb := int (a - 1)]" "nblk ?t = nblk st" "good_at ?t = good_at st"
    using a(1,2) b(2) by (auto simp: mapped_to_def ni_upd_def u32_of_def nblk_def good_at_def fun_eq_iff)
  have "walk_desc (a - 1 - mapping_blocks_ba (ni_of st)) (a - 1) 0 ?t = Inr (Some (a - 1))"
    using b(1) a(2) bad f(6,7) by (intro walk_to(2)) simp_all
  then have "nmbm_map_block crc d lb' ?t = Inr (True, mapped_to lb' (a - 1) ?t)"
    using a(2,3) b lb by (intro map_block_found) (simp_all only: f, simp_all)
  moreover have "block_mapping (ni_of (mapped_to lb' (a - 1) ?t)) = (block_mapping (ni_of st))[lb := int (a - 1), lb' := int (a - 1)]"
    using f(5) by (simp add: mapped_to_def [of lb'] ni_upd_def)
  ultimately show ?thesis using t lb b(3) by auto
qed

lemma nmbm_map_block_aliases_witness:
  "\<exists>t u. nmbm_map_block (\<lambda>c _. c) sample_nand 1 \<lparr>ni_of = sample_instance\<lparr>block_state := [0xcfffffff]\<rparr>, bm = sample_nmbm\<rparr> = Inr (True, t) \<and>
    nmbm_map_block (\<lambda>c _. c) sample_nand 2 t = Inr (True, u) \<and> block_mapping (ni_of u) ! 1 = 13 \<and> block_mapping (ni_of u) ! 2 = 13"
proof -
  let ?st = "\<lparr>ni_of = sample_instance\<lparr>block_state := [0xcfffffff]\<rparr>, bm = sample_nmbm\<rparr>"
  have "nmbm_ok \<lparr>ni_of = sample_instance, bm = sample_nmbm\<rparr>" using sample_nmbm_inv by (simp add: nmbm_inv_def sample_nmbm_def)
  then have ok: "nmbm_ok ?st" by (simp add: nmbm_ok_def cache_ok_def tables_fit_def mapped_ok_def nblk_def sample_instance_def)
  have g: "\<not> good_at ?st 14" "good_at ?st (14 - 1)" by (simp_all add: good_at_def st_at_def)
  have f: "1 < data_block_count (ni_of ?st)" "2 < data_block_count (ni_of ?st)" "14 = mapping_blocks_top_ba (ni_of ?st)"
    "mapping_blocks_ba (ni_of ?st) + 1 < 14" "mapping_blocks_ba (ni_of ?st) < block_count (ni_of ?st)"
    by (simp_all add: sample_instance_def)
  have "int (14 - 1) = 13" by simp
  with nmbm_map_block_aliases [OF ok f(1,2) _ f(3-5) g, of "\<lambda>c _. c" sample_nand] show ?thesis by (simp only:)
qed

section \<open>A new chip\<close>

lemma restated_state: "restated i (i\<lparr>block_state := bs\<rparr>)" "restated i (i\<lparr>block_state := bs, block_state_changed := c\<rparr>)"
  unfolding restated_def by (intro exI [of _ bs] exI [of _ "block_state_changed i"], cases i, simp) blast

lemma set_state_eq:
  assumes "ba < nblk st"
  shows "\<exists>r t. nmbm_set_block_state ba v st = Inr (r, t) \<and> bm t = bm st \<and> restated (ni_of st) (ni_of t) \<and> nblk t = nblk st \<and>
    (\<forall>x. st_at (block_state (ni_of t)) x = (if x = ba then v AND 3 else st_at (block_state (ni_of st)) x))"
proof -
  have l: "ba div 16 < length (block_state (ni_of st))" using assms by (simp add: nblk_def)
  then show ?thesis
    using st_at_update [OF l, of v]
    by (auto simp: nmbm_set_block_state_def NMBM_BITMAP_BLOCKS_PER_UNIT_def BLOCK_ST_MASK_def Let_def ni_upd_def restated_state nblk_def)
qed

lemma check_bad_result:
  assumes "\<And>addr c. (fst (block_isbad d addr c) \<noteq> 0) = bad addr"
  shows "\<exists>u. nmbm_check_bad_phys_block d ba st = (bad (ba2addr st ba), u) \<and> ni_of u = ni_of st \<and> ba2addr u = ba2addr st \<and> nblk u = nblk st"
proof -
  obtain r c where e: "block_isbad d (ba2addr st ba) (chip (bm st)) = (r, c)" by (metis prod.collapse)
  have "(r \<noteq> 0) = bad (ba2addr st ba)" using assms [of "ba2addr st ba" "chip (bm st)"] unfolding e by simp
  then have "nmbm_check_bad_phys_block d ba st = (bad (ba2addr st ba), set_chip c st)"
    using e by (simp add: nmbm_check_bad_phys_block_def Let_def)
  then show ?thesis by (simp add: set_chip_def ba2addr_def nblk_def fun_eq_iff)
qed

lemma scan_result:
  assumes "\<And>addr c. (fst (block_isbad d addr c) \<noteq> 0) = bad addr" "list_all (\<lambda>x. x < nblk st) bas"
  shows "\<exists>t. scan_from d bas st = Inr t \<and> ba2addr t = ba2addr st \<and> restated (ni_of st) (ni_of t) \<and> nblk t = nblk st \<and>
    (\<forall>x. st_at (block_state (ni_of t)) x = (if x \<in> set bas \<and> bad (ba2addr st x) then 0 else st_at (block_state (ni_of st)) x))"
  using assms(2)
proof (induction bas arbitrary: st)
  case Nil
  then show ?case by (simp add: restated_refl)
next
  case (Cons ba bas)
  obtain u where c: "nmbm_check_bad_phys_block d ba st = (bad (ba2addr st ba), u)" and u: "ni_of u = ni_of st" "ba2addr u = ba2addr st" "nblk u = nblk st"
    using check_bad_result [OF assms(1)] by blast
  show ?case
  proof (cases "bad (ba2addr st ba)")
    case True
    obtain r t where s: "nmbm_set_block_state ba BLOCK_ST_BAD u = Inr (r, t)" "bm t = bm u" "restated (ni_of u) (ni_of t)" "nblk t = nblk u"
      and x: "\<forall>x. st_at (block_state (ni_of t)) x = (if x = ba then BLOCK_ST_BAD AND 3 else st_at (block_state (ni_of u)) x)"
      using set_state_eq [of ba u BLOCK_ST_BAD] Cons.prems u(3) by auto
    have addr: "ba2addr t = ba2addr st" using s(2) u(2) by (simp add: ba2addr_def fun_eq_iff)
    obtain v where v: "scan_from d bas t = Inr v" "ba2addr v = ba2addr t" "restated (ni_of t) (ni_of v)" "nblk v = nblk t"
      "\<forall>x. st_at (block_state (ni_of v)) x = (if x \<in> set bas \<and> bad (ba2addr t x) then 0 else st_at (block_state (ni_of t)) x)"
      using Cons.IH [of t] Cons.prems s(4) u(3) by auto
    have "scan_from d (ba # bas) st = Inr v" using True c s(1) v(1) by simp
    then show ?thesis using v x s u addr True restated_trans [OF s(3) v(3)]
      by (intro exI [of _ v]) (auto simp: BLOCK_ST_BAD_def)
  next
    case False
    obtain v where v: "scan_from d bas u = Inr v" "ba2addr v = ba2addr u" "restated (ni_of u) (ni_of v)" "nblk v = nblk u"
      "\<forall>x. st_at (block_state (ni_of v)) x = (if x \<in> set bas \<and> bad (ba2addr u x) then 0 else st_at (block_state (ni_of u)) x)"
      using Cons.IH [of u] Cons.prems u(3) by auto
    have "scan_from d (ba # bas) st = Inr v" using False c v(1) by simp
    then show ?thesis using v u False by (intro exI [of _ v]) auto
  qed
qed

text \<open>The tables as lists.\<close>

lemma map_good_result:
  assumes "list_all (\<lambda>x. x < nblk st \<and> x < 2 ^ 31) pbs"
    and "gs = filter (\<lambda>x. st_at (block_state (ni_of st)) x \<noteq> 0) pbs" "lb + length gs \<le> length (block_mapping (ni_of st))"
  shows "map_good pbs lb st = Inr (lb + length gs, ni_upd (\<lambda>i. i\<lparr>block_mapping :=
    take lb (block_mapping i) @ map int gs @ drop (lb + length gs) (block_mapping i)\<rparr>) st)"
  using assms
proof (induction pbs arbitrary: lb st gs)
  case Nil
  then show ?case by (simp add: ni_upd_def)
next
  case (Cons x pbs)
  have g: "nmbm_get_block_state x st = Inr (st_at (block_state (ni_of st)) x)" using Cons.prems(1) by (simp add: get_state_eq)
  show ?case
  proof (cases "st_at (block_state (ni_of st)) x = 0")
    case True
    then show ?thesis using g Cons.IH [of st gs lb] Cons.prems by (simp add: BLOCK_ST_BAD_def)
  next
    case False
    define hs where "hs = filter (\<lambda>x. st_at (block_state (ni_of st)) x \<noteq> 0) pbs"
    define st1 where "st1 = ni_upd (\<lambda>i. i\<lparr>block_mapping := (block_mapping i)[lb := int x]\<rparr>) st"
    have gs: "gs = x # hs" using Cons.prems(2) False by (simp add: hs_def)
    have lb: "lb < length (block_mapping (ni_of st))" using Cons.prems(3) gs by simp
    have "s32_of x = int x" using Cons.prems(1) by (simp add: s32_of_def)
    then have p: "put_mapping lb (s32_of x) st = Inr st1" using lb by (simp add: put_mapping_def st1_def)
    have "map_good pbs (Suc lb) st1 = Inr (Suc lb + length hs, ni_upd (\<lambda>i. i\<lparr>block_mapping :=
        take (Suc lb) (block_mapping i) @ map int hs @ drop (Suc lb + length hs) (block_mapping i)\<rparr>) st1)"
      using Cons.prems gs by (intro Cons.IH) (simp_all add: st1_def ni_upd_def hs_def nblk_def)
    then show ?thesis
      using g False p lb gs by (simp add: BLOCK_ST_BAD_def st1_def ni_upd_def take_Suc_conv_app_nth)
  qed
qed

lemma map_none_result:
  assumes "lb \<le> n" "n = length (block_mapping (ni_of st))"
  shows "map_none [lb..<n] st = Inr (ni_upd (\<lambda>i. i\<lparr>block_mapping := take lb (block_mapping i) @ replicate (n - lb) (- 1)\<rparr>) st)"
  using assms
proof (induction "n - lb" arbitrary: lb st)
  case 0
  then show ?case by (simp add: ni_upd_def)
next
  case (Suc k)
  then have lt: "lb < n" by simp
  let ?st = "ni_upd (\<lambda>i. i\<lparr>block_mapping := (block_mapping i)[lb := - 1]\<rparr>) st"
  have p: "put_mapping lb (- 1) st = Inr ?st" using lt Suc.prems(2) by (simp add: put_mapping_def)
  have "map_none [Suc lb..<n] ?st = Inr (ni_upd (\<lambda>i. i\<lparr>block_mapping := take (Suc lb) (block_mapping i) @ replicate (n - Suc lb) (- 1)\<rparr>) ?st)"
    using Suc lt by (intro Suc.hyps(1)) (simp_all add: ni_upd_def)
  moreover have "[lb..<n] = lb # [Suc lb..<n]" using lt by (rule upt_conv_Cons)
  moreover have "n - lb = Suc (n - Suc lb)" using lt by simp
  ultimately show ?case using p lt Suc.prems(2) by (simp add: ni_upd_def take_Suc_conv_app_nth)
qed

text \<open>
  C31. The mapping of a new chip. After the scan for bad blocks and the construction of the table,
  the logical blocks are the good blocks below the management area, in order, and every further
  entry is \<open>- 1\<close>; the number of data blocks is the number of those good blocks. The driver's answer for a
  block is the same at every call.
\<close>

theorem nmbm_new_chip_mapping:
  assumes answers: "\<And>addr c. (fst (block_isbad d addr c) \<noteq> 0) = bad addr"
    and fresh: "block_state (ni_of st) = replicate k 0xffffffff" "block_count (ni_of st) \<le> 16 * k"
    and table: "length (block_mapping (ni_of st)) = block_count (ni_of st)" "mgmt_start_ba (ni_of st) \<le> block_count (ni_of st)"
      "block_count (ni_of st) < 2 ^ 31"
    and gs: "gs = filter (\<lambda>pb. \<not> bad (ba2addr st pb)) [0..<mgmt_start_ba (ni_of st)]"
  shows "\<exists>t. rbind (nmbm_scan_badblocks d st) nmbm_build_mapping_table = Inr t \<and> data_block_count (ni_of t) = length gs \<and>
    block_mapping (ni_of t) = map int gs @ replicate (block_count (ni_of st) - length gs) (- 1)"
proof -
  let ?n = "block_count (ni_of st)" and ?m = "mgmt_start_ba (ni_of st)"
  have nb: "nblk st = 16 * k" by (simp add: nblk_def fresh(1))
  have "list_all (\<lambda>x. x < nblk st) [0..<?n]" using fresh(2) nb by (simp add: list_all_iff)
  then obtain t where t: "scan_from d [0..<?n] st = Inr t" "restated (ni_of st) (ni_of t)" "nblk t = nblk st"
    "\<forall>x. st_at (block_state (ni_of t)) x = (if x \<in> set [0..<?n] \<and> bad (ba2addr st x) then 0 else st_at (block_state (ni_of st)) x)"
    using scan_result [OF answers, of st "[0..<?n]"] by auto
  have i: "block_mapping (ni_of t) = block_mapping (ni_of st)" "mgmt_start_ba (ni_of t) = ?m" "block_count (ni_of t) = ?n"
    using t(2) by (auto simp: restated_def)
  have "st_at (block_state (ni_of st)) x \<noteq> 0" if "x < 16 * k" for x
  proof -
    have "x div 16 < k" using that by simp
    then have eq: "st_at (block_state (ni_of st)) x = drop_bit (x mod 16 * 2) 0xffffffff AND 3" by (simp add: st_at_def fresh(1))
    have "bit (drop_bit (x mod 16 * 2) (0xffffffff :: u32) AND 3) 0"
    proof -
      have m: "(0xffffffff :: u32) = mask 32" by (simp add: mask_eq_exp_minus_1)
      have "x mod 16 * 2 < 32" by simp
      then show ?thesis unfolding m by (simp add: bit_simps)
    qed
    then show ?thesis unfolding eq by (metis bit_0_eq bot_apply bot_bool_def)
  qed
  then have gs': "gs = filter (\<lambda>x. st_at (block_state (ni_of t)) x \<noteq> 0) [0..<?m]"
    unfolding gs using t(4) fresh(2) table(2) by (intro filter_cong) auto
  have len: "length gs \<le> ?m" unfolding gs by (metis diff_zero length_filter_le length_upt)
  have mg: "map_good [0..<?m] 0 t = Inr (0 + length gs, ni_upd (\<lambda>i. i\<lparr>block_mapping :=
      take 0 (block_mapping i) @ map int gs @ drop (0 + length gs) (block_mapping i)\<rparr>) t)"
    using fresh(2) table nb t(3) i gs' len by (intro map_good_result) (auto simp: list_all_iff)
  define u where "u = ni_upd (\<lambda>i. i\<lparr>block_mapping := map int gs @ drop (length gs) (block_mapping i), data_block_count := length gs\<rparr>) t"
  have "nmbm_build_mapping_table t = map_none [length gs..<?n] u"
    using mg i by (simp add: nmbm_build_mapping_table_def ni_upd_def u_def)
  moreover have "length gs \<le> ?n" "?n = length (block_mapping (ni_of u))" "take (length gs) (block_mapping (ni_of u)) = map int gs"
    "data_block_count (ni_of u) = length gs"
    using i len table by (simp_all add: u_def ni_upd_def)
  ultimately show ?thesis
    using t(1) map_none_result [of "length gs" ?n u] by (simp add: nmbm_scan_badblocks_def ni_upd_def)
qed

definition worn_nand :: "unit nand_dev" where
  "worn_nand = sample_nand\<lparr>block_isbad := (\<lambda>addr c. (if addr = 4 then 1 else 0, c))\<rparr>"

lemma nmbm_new_chip_mapping_witness:
  "\<exists>t. rbind (nmbm_scan_badblocks worn_nand \<lparr>ni_of = sample_instance, bm = sample_nmbm\<rparr>) nmbm_build_mapping_table = Inr t \<and>
    data_block_count (ni_of t) = 3 \<and> block_mapping (ni_of t) = [0, 2, 3] @ replicate 13 (- 1)"
proof -
  let ?st = "\<lparr>ni_of = sample_instance, bm = sample_nmbm\<rparr>"
  have isbad: "\<And>addr c. (fst (block_isbad worn_nand addr c) \<noteq> 0) = (addr = 4)" by (simp add: worn_nand_def)
  have f: "block_state (ni_of ?st) = replicate 1 0xffffffff" "block_count (ni_of ?st) \<le> 16 * 1"
    "length (block_mapping (ni_of ?st)) = block_count (ni_of ?st)" "mgmt_start_ba (ni_of ?st) \<le> block_count (ni_of ?st)"
    "block_count (ni_of ?st) < 2 ^ 31" by (simp_all add: sample_instance_def)
  have g: "[0, 2, 3] = filter (\<lambda>pb. \<not> ba2addr ?st pb = 4) [0..<mgmt_start_ba (ni_of ?st)]"
    by (simp add: sample_instance_def sample_nmbm_def sample_bbt_def ba2addr_def upt_rec)
  have "block_count (ni_of ?st) - length [0 :: nat, 2, 3] = 13" "map int [0, 2, 3] = [0, 2, 3]" "length [0 :: nat, 2, 3] = 3"
    by (simp_all add: sample_instance_def)
  with nmbm_new_chip_mapping [OF isbad f g] show ?thesis by (simp only:)
qed

end
