(* ===== verification/Mtk_Nmbm_Image.thy ===== *)
theory Mtk_Nmbm_Image
  imports Mtk_Nmbm_Props
begin

text \<open>
  The info table of NMBM as bytes: what \<open>nmbm_generate_info_table_cache\<close> lays out passes the checks
  of the loader, and loading it gives the two tables back.
\<close>

section \<open>The tables\<close>

lemma le_bytes_zero: "le_bytes n 0 = replicate n 0"
  by (induction n) simp_all

lemma states_of_Suc: "states_of (Suc n) b = of_nat (num_at 0 4 b) # states_of n (drop 4 b)"
  unfolding states_of_def num_at_def by (subst upt_conv_Cons) (simp_all add: map_Suc_upt [symmetric] add.commute del: map_Suc_upt upt.simps)

lemma mappings_of_Suc: "mappings_of (Suc n) b = int32_at 0 b # mappings_of n (drop 4 b)"
  unfolding mappings_of_def int32_at_def num_at_def
  by (subst upt_conv_Cons) (simp_all add: map_Suc_upt [symmetric] add.commute del: map_Suc_upt upt.simps)

lemma states_of_bytes: "states_of (length ws) (state_bytes ws @ r) = ws"
proof (induction ws)
  case Nil
  show ?case by (simp add: states_of_def)
next
  case (Cons w ws)
  have "unat w < 256 ^ 4" using unsigned_less [of w] by simp
  then have "num_at 0 4 (le_bytes 4 (unat w) @ state_bytes ws @ r) = unat w"
    using num_at_head [of "[]" 0 4 "unat w" "state_bytes ws @ r"] by simp
  then show ?case using Cons by (simp add: states_of_Suc state_bytes_def)
qed

definition in_s32 :: "int \<Rightarrow> bool" where
  "in_s32 x \<longleftrightarrow> - (2 ^ 31) \<le> x \<and> x < 2 ^ 31"

lemma s32_roundtrip:
  assumes "in_s32 x"
  shows "int32_at 0 (le_bytes 4 (nat (x mod 2 ^ 32)) @ r) = x"
proof -
  have "nat (x mod 2 ^ 32) < 256 ^ 4" by (simp add: nat_less_iff)
  then have n: "num_at 0 4 (le_bytes 4 (nat (x mod 2 ^ 32)) @ r) = nat (x mod 2 ^ 32)"
    using num_at_head [of "[]" 0 4 "nat (x mod 2 ^ 32)" r] by simp
  show ?thesis
  proof (cases "0 \<le> x")
    case True
    then have "x mod 2 ^ 32 = x" using assms by (intro mod_pos_pos_trivial) (simp_all add: in_s32_def)
    then show ?thesis unfolding int32_at_def n using True assms by (simp add: in_s32_def nat_less_iff)
  next
    case False
    then have "(x + 2 ^ 32) mod 2 ^ 32 = x + 2 ^ 32" using assms by (intro mod_pos_pos_trivial) (simp_all add: in_s32_def)
    then have "x mod 2 ^ 32 = x + 2 ^ 32" by simp
    then show ?thesis unfolding int32_at_def n using False assms by (simp add: in_s32_def nat_less_iff)
  qed
qed

lemma mappings_of_bytes: "list_all in_s32 xs \<Longrightarrow> mappings_of (length xs) (mapping_bytes xs @ r) = xs"
proof (induction xs)
  case Nil
  show ?case by (simp add: mappings_of_def)
next
  case (Cons x xs)
  then show ?case using s32_roundtrip [of x "mapping_bytes xs @ r"] by (simp add: mappings_of_Suc mapping_bytes_def)
qed

section \<open>The image\<close>

text \<open>A byte range that is put into a buffer, and ranges beyond a later one.\<close>

lemma put_bytes_at:
  assumes "off + length b \<le> length buf"
  obtains c where "put_bytes off b buf = Inr c" "length c = length buf" "drop off c = b @ drop (off + length b) buf"
    "\<And>k. off + length b \<le> k \<Longrightarrow> drop k c = drop k buf" "\<And>k. k \<le> off \<Longrightarrow> take k c = take k buf"
proof
  show "put_bytes off b buf = Inr (take off buf @ b @ drop (off + length b) buf)" using assms by (simp add: put_bytes_def)
qed (use assms in auto)

lemma drop_take_eq:
  assumes "take m a = take m b" "drop k b = x @ y" "k + length x \<le> m"
  shows "\<exists>z. drop k a = x @ z"
proof -
  have "take (m - k) (drop k a) = take (m - k) (drop k b)" using assms(1) by (simp add: drop_take [symmetric])
  then have "take (length x) (drop k a) = take (length x) (drop k b)"
    using assms(3) by (metis add_le_imp_le_diff add.commute min.absorb1 take_take)
  then have "take (length x) (drop k a) = x" using assms(2) by simp
  then show ?thesis by (metis append_take_drop_id)
qed

definition crc_appends :: "crc32 \<Rightarrow> bool" where
  "crc_appends crc \<longleftrightarrow> (\<forall>c a b. crc c (a @ b) = crc (crc c a) b)"

lemma header_size: "num_at 8 4 (info_table_bytes h @ r) = h_size h mod 2 ^ 32"
  using num_at_head [of "le_bytes 4 (h_magic h) @ le_bytes 4 (h_version h)" 8 4 "h_size h"]
  by (simp add: info_table_bytes_def header_bytes_def)

lemma checksum_accepted:
  assumes crc: "crc_appends crc" and c: "c = info_table_bytes h @ r" "h_size h = length c" "length c < 2 ^ 32"
  shows "nmbm_check_header crc (nmbm_update_checksum crc c) (length c)"
    and "nmbm_update_checksum crc c = info_table_bytes (h\<lparr>h_checksum := unat (crc 0 (clear_checksum c))\<rparr>) @ r"
proof -
  let ?w = "crc 0 (clear_checksum c)"
  have b: "clear_checksum c = info_table_bytes (h\<lparr>h_checksum := 0\<rparr>) @ r"
    by (simp add: clear_checksum_def c(1) info_table_bytes_def header_bytes_def le_bytes_zero)
  have "num_at 8 4 (clear_checksum c) = length c" unfolding b using header_size [of "h\<lparr>h_checksum := 0\<rparr>" r] c(2,3) by simp
  moreover have "length (clear_checksum c) = length c" unfolding b unfolding c(1) by simp
  ultimately have u: "nmbm_update_checksum crc c = take 12 (clear_checksum c) @ le_bytes 4 (unat ?w) @ drop 16 (clear_checksum c)"
    by (simp add: nmbm_update_checksum_def Let_def nmbm_crc32_def)
  then show eq: "nmbm_update_checksum crc c = info_table_bytes (h\<lparr>h_checksum := unat ?w\<rparr>) @ r"
    by (simp add: b info_table_bytes_def header_bytes_def)
  let ?u = "nmbm_update_checksum crc c"
  have size: "num_at 8 4 ?u = length c" unfolding eq using header_size [of "h\<lparr>h_checksum := unat ?w\<rparr>" r] c(2,3) by simp
  have "unat ?w < 256 ^ 4" using unsigned_less [of ?w] by simp
  moreover have "length (take 12 (clear_checksum c)) = 12" by (simp add: b)
  ultimately have sum: "num_at 12 4 ?u = unat ?w" unfolding u by (simp add: num_at_head)
  have cl: "clear_checksum ?u = clear_checksum c"
    unfolding eq b by (simp add: clear_checksum_def info_table_bytes_def header_bytes_def le_bytes_zero)
  have d: "drop 16 ?u = drop 16 (clear_checksum c)" unfolding eq b by (simp add: info_table_bytes_def header_bytes_def)
  have "32 \<le> length c" by (simp add: c(1))
  then have "crc (crc 0 (take 16 (clear_checksum ?u))) (take (length c - 16) (drop 16 ?u)) = ?w"
    using crc \<open>length (clear_checksum c) = length c\<close> unfolding cl d crc_appends_def by (metis append_take_drop_id length_drop order_refl take_all)
  then show "nmbm_check_header crc ?u (length c)"
    using \<open>32 \<le> length c\<close> by (simp add: nmbm_check_header_def size sum Let_def nmbm_crc32_def)
qed

lemma info_table_read:
  assumes "h_magic h < 2 ^ 32" "h_version h < 2 ^ 32" "h_size h < 2 ^ 32" "h_checksum h < 2 ^ 32" "write_count h < 2 ^ 32"
    "state_table_off h < 2 ^ 32" "mapping_table_off h < 2 ^ 32" "h_padding h < 2 ^ 32"
  shows "info_table_of (info_table_bytes h @ r) = h"
proof -
  have "num_at 0 4 (info_table_bytes h @ r) = h_magic h" "num_at 4 4 (info_table_bytes h @ r) = h_version h"
    "num_at 8 4 (info_table_bytes h @ r) = h_size h" "num_at 12 4 (info_table_bytes h @ r) = h_checksum h"
    "num_at 16 4 (info_table_bytes h @ r) = write_count h" "num_at 20 4 (info_table_bytes h @ r) = state_table_off h"
    "num_at 24 4 (info_table_bytes h @ r) = mapping_table_off h" "num_at 28 4 (info_table_bytes h @ r) = h_padding h"
    using assms by (simp_all add: num_at_def info_table_bytes_def header_bytes_def le_num_bytes)
  then show ?thesis by (simp add: info_table_of_def)
qed

text \<open>The bytes of the cache: the header and, at their offsets, the two tables.\<close>

definition laid_out :: "nmbm_instance \<Rightarrow> bool" where
  "laid_out i \<longleftrightarrow> tables_fit i \<and> info_table_size i < 2 ^ 32 \<and> 32 \<le> state_table_off (info_table i) \<and>
     state_table_off (info_table i) + state_table_size i \<le> mapping_table_off (info_table i) \<and>
     state_table_size i = 4 * length (block_state i) \<and> mapping_table_size i = 4 * length (block_mapping i) \<and>
     list_all in_s32 (block_mapping i) \<and> write_count (info_table i) < 2 ^ 32 \<and> h_padding (info_table i) < 2 ^ 32"

definition stamped :: "'n nst \<Rightarrow> nmbm_info_table_header" where
  "stamped st = (let i = ni_of st; h = info_table i in
     h\<lparr>h_magic := NMBM_MAGIC_INFO_TABLE, h_version := NMBM_VER, h_size := info_table_size i,
       write_count := (if tables_changed st then u32_of (int (write_count h) + 1) else write_count h)\<rparr>)"

lemma generate_image:
  assumes "laid_out (ni_of st)"
  shows "\<exists>r. nmbm_generate_info_table_cache crc st = Inr (tables_changed st, ni_upd (\<lambda>i. i\<lparr>info_table := stamped st,
      info_table_cache := nmbm_update_checksum crc (info_table_bytes (stamped st) @ r)\<rparr>) st) \<and>
    32 + length r = info_table_size (ni_of st) \<and>
    (\<exists>x. drop (state_table_off (info_table (ni_of st)) - 32) r = state_bytes (block_state (ni_of st)) @ x) \<and>
    (\<exists>y. drop (mapping_table_off (info_table (ni_of st)) - 32) r = mapping_bytes (block_mapping (ni_of st)) @ y)"
proof -
  let ?i = "ni_of st" and ?h = "info_table (ni_of st)"
  let ?n = "info_table_size ?i" and ?so = "state_table_off ?h" and ?mo = "mapping_table_off ?h"
  let ?sb = "state_bytes (block_state ?i)" and ?mb = "mapping_bytes (block_mapping ?i)"
  have fit: "length (info_table_cache ?i) = ?n" "?so + length ?sb \<le> ?mo" "?mo + length ?mb \<le> ?n" "32 \<le> ?so" "32 \<le> ?mo"
    using assms by (simp_all add: laid_out_def tables_fit_def)
  have "?so + length ?sb \<le> length (replicate ?n 0xff)" using fit by simp
  then obtain c1 where c1: "put_bytes ?so ?sb (replicate ?n 0xff) = Inr c1" "length c1 = ?n"
    "drop ?so c1 = ?sb @ drop (?so + length ?sb) (replicate ?n 0xff)"
    by (rule put_bytes_at) (simp add: that)
  have "?mo + length ?mb \<le> length c1" using fit c1(2) by simp
  then obtain c2 where c2: "put_bytes ?mo ?mb c1 = Inr c2" "length c2 = length c1" "drop ?mo c2 = ?mb @ drop (?mo + length ?mb) c1"
    "take ?mo c2 = take ?mo c1"
    by (rule put_bytes_at) (simp add: that)
  have "0 + length (info_table_bytes (stamped st)) \<le> length c2" using fit c1(2) c2(2) by simp
  then have c3: "put_bytes 0 (info_table_bytes (stamped st)) c2 = Inr (info_table_bytes (stamped st) @ drop 32 c2)"
    by (simp add: put_bytes_def)
  have "nmbm_generate_info_table_cache crc st = Inr (tables_changed st, ni_upd (\<lambda>i. i\<lparr>info_table := stamped st,
      info_table_cache := nmbm_update_checksum crc (info_table_bytes (stamped st) @ drop 32 c2)\<rparr>) st)"
    using c1(1) c2(1) c3 fit(1) by (simp add: nmbm_generate_info_table_cache_def Let_def stamped_def)
  moreover obtain x where "drop ?so c2 = ?sb @ x" using drop_take_eq [OF c2(4) c1(3) fit(2)] by blast
  ultimately show ?thesis using c1(2) c2(2,3) fit(3-5) by (intro exI [of _ "drop 32 c2"]) simp
qed

lemma image_read_back:
  assumes crc: "crc_appends crc" and out: "laid_out (ni_of st)"
    and gen: "nmbm_generate_info_table_cache crc st = Inr (changed, t)"
    and fresh: "info_table_cache (ni_of u) = info_table_cache (ni_of t)" "info_table_size (ni_of u) = info_table_size (ni_of st)"
      "state_table_size (ni_of u) = state_table_size (ni_of st)" "mapping_table_size (ni_of u) = mapping_table_size (ni_of st)"
  shows "nmbm_check_info_table_header u (info_table_cache (ni_of u)) \<and>
    nmbm_check_header crc (info_table_cache (ni_of u)) (info_table_size (ni_of u)) \<and>
    (\<exists>v. take_tables u = Inr v \<and> block_state (ni_of v) = block_state (ni_of st) \<and> block_mapping (ni_of v) = block_mapping (ni_of st) \<and>
       write_count (info_table (ni_of v)) = write_count (stamped st))"
proof -
  let ?i = "ni_of st" and ?h = "info_table (ni_of st)"
  obtain r x y where g: "t = ni_upd (\<lambda>i. i\<lparr>info_table := stamped st, info_table_cache := nmbm_update_checksum crc (info_table_bytes (stamped st) @ r)\<rparr>) st"
    and r: "32 + length r = info_table_size ?i" "drop (state_table_off ?h - 32) r = state_bytes (block_state ?i) @ x"
      "drop (mapping_table_off ?h - 32) r = mapping_bytes (block_mapping ?i) @ y"
    using generate_image [OF out, of crc] gen by auto
  define h where "h = (stamped st)\<lparr>h_checksum := unat (crc 0 (clear_checksum (info_table_bytes (stamped st) @ r)))\<rparr>"
  have "h_size (stamped st) = length (info_table_bytes (stamped st) @ r)" "length (info_table_bytes (stamped st) @ r) < 2 ^ 32"
    using r(1) out by (simp_all add: stamped_def Let_def laid_out_def)
  note ck = checksum_accepted [OF crc refl this]
  have cache: "info_table_cache (ni_of u) = info_table_bytes h @ r" using fresh(1) ck(2) by (simp add: g ni_upd_def h_def)
  have "nmbm_check_header crc (info_table_cache (ni_of u)) (info_table_size (ni_of u))"
    using ck(1) r(1) fresh(1,2) by (simp add: g ni_upd_def)
  moreover have hf: "h_size h = info_table_size ?i" "h_magic h = NMBM_MAGIC_INFO_TABLE" "state_table_off h = state_table_off ?h"
    "mapping_table_off h = mapping_table_off ?h" "write_count h = write_count (stamped st)"
    by (simp_all add: h_def stamped_def Let_def)
  moreover have "info_table_of (info_table_bytes h @ r) = h"
    using out unsigned_less [of "crc 0 (clear_checksum (info_table_bytes (stamped st) @ r))"]
    by (intro info_table_read)
      (auto simp: h_def stamped_def Let_def laid_out_def tables_fit_def u32_of_def nat_less_iff NMBM_MAGIC_INFO_TABLE_def NMBM_VER_def)
  ultimately show ?thesis
    using fresh(2-4) r out by (simp add: nmbm_check_info_table_header_def take_tables_def Let_def cache laid_out_def tables_fit_def
        u32_of_def ni_upd_def states_of_bytes mappings_of_bytes g) arith
qed

text \<open>
  C30. The info table round trip. For a checksum that can be computed in pieces, the image that
  \<open>nmbm_generate_info_table_cache\<close> builds passes \<open>nmbm_check_info_table_header\<close> and
  \<open>nmbm_check_header\<close> when an instance of the same dimensions reads it back, and the tables taken from
  it are the ones that were saved, under the write count that was stamped on them.
\<close>

theorem info_table_roundtrip:
  assumes crc: "crc_appends crc" and out: "laid_out (ni_of st)"
  shows "\<exists>t. nmbm_generate_info_table_cache crc st = Inr (tables_changed st, t) \<and>
    (\<forall>u. info_table_cache (ni_of u) = info_table_cache (ni_of t) \<and> info_table_size (ni_of u) = info_table_size (ni_of st) \<and>
      state_table_size (ni_of u) = state_table_size (ni_of st) \<and> mapping_table_size (ni_of u) = mapping_table_size (ni_of st) \<longrightarrow>
      nmbm_check_info_table_header u (info_table_cache (ni_of u)) \<and>
      nmbm_check_header crc (info_table_cache (ni_of u)) (info_table_size (ni_of u)) \<and>
      (\<exists>v. take_tables u = Inr v \<and> block_state (ni_of v) = block_state (ni_of st) \<and> block_mapping (ni_of v) = block_mapping (ni_of st) \<and>
         write_count (info_table (ni_of v)) = (if tables_changed st then u32_of (int (write_count (info_table (ni_of st))) + 1)
           else write_count (info_table (ni_of st)))))"
proof -
  obtain t where gen: "nmbm_generate_info_table_cache crc st = Inr (tables_changed st, t)" using generate_image [OF out] by blast
  have "write_count (stamped st) = (if tables_changed st then u32_of (int (write_count (info_table (ni_of st))) + 1)
      else write_count (info_table (ni_of st)))" by (simp add: stamped_def Let_def)
  note read = image_read_back [OF crc out gen, unfolded this]
  show ?thesis by (intro exI [of _ t] conjI gen allI impI read) (elim conjE; assumption)+
qed

definition sum_crc :: crc32 where
  "sum_crc c bs = fold (\<lambda>b a. a + ucast b) bs c"

lemma info_table_roundtrip_witness:
  "\<exists>t. nmbm_generate_info_table_cache sum_crc \<lparr>ni_of = sample_instance, bm = sample_nmbm\<rparr> = Inr (False, t) \<and>
    nmbm_check_header sum_crc (info_table_cache (ni_of t)) (info_table_size (ni_of t)) \<and>
    (\<exists>v. take_tables t = Inr v \<and> block_mapping (ni_of v) = [0, 1, 2, 3] @ replicate 12 (- 1))"
proof -
  let ?st = "\<lparr>ni_of = sample_instance, bm = sample_nmbm\<rparr>"
  have f: "\<not> tables_changed ?st" "block_mapping (ni_of ?st) = [0, 1, 2, 3] @ replicate 12 (- 1)"
    by (simp_all add: tables_changed_def sample_instance_def nmbm_new_instance_def)
  have "crc_appends sum_crc" by (simp add: crc_appends_def sum_crc_def)
  moreover have out: "laid_out (ni_of ?st)"
    by (simp add: laid_out_def sample_instance_def tables_fit_def in_s32_def list_all_iff)
  ultimately obtain t where t: "nmbm_generate_info_table_cache sum_crc ?st = Inr (tables_changed ?st, t)"
    and u: "\<forall>u :: unit nst. info_table_cache (ni_of u) = info_table_cache (ni_of t) \<and> info_table_size (ni_of u) = info_table_size (ni_of ?st) \<and>
      state_table_size (ni_of u) = state_table_size (ni_of ?st) \<and> mapping_table_size (ni_of u) = mapping_table_size (ni_of ?st) \<longrightarrow>
      nmbm_check_info_table_header u (info_table_cache (ni_of u)) \<and>
      nmbm_check_header sum_crc (info_table_cache (ni_of u)) (info_table_size (ni_of u)) \<and>
      (\<exists>v. take_tables u = Inr v \<and> block_state (ni_of v) = block_state (ni_of ?st) \<and> block_mapping (ni_of v) = block_mapping (ni_of ?st) \<and>
         write_count (info_table (ni_of v)) = (if tables_changed ?st then u32_of (int (write_count (info_table (ni_of ?st))) + 1)
           else write_count (info_table (ni_of ?st))))"
    using info_table_roundtrip [of sum_crc ?st] by blast
  have "info_table_size (ni_of t) = info_table_size (ni_of ?st)" "state_table_size (ni_of t) = state_table_size (ni_of ?st)"
    "mapping_table_size (ni_of t) = mapping_table_size (ni_of ?st)"
    using t generate_image [OF out, of sum_crc] by (auto simp: ni_upd_def)
  with u have "nmbm_check_header sum_crc (info_table_cache (ni_of t)) (info_table_size (ni_of t))"
    "\<exists>v. take_tables t = Inr v \<and> block_mapping (ni_of v) = [0, 1, 2, 3] @ replicate 12 (- 1)"
    unfolding f(2) by blast+
  with t f(1) show ?thesis by simp
qed

end
