(* ===== verification/Spec2Isabelle.thy ===== *)
theory Spec2Isabelle
  imports Kconfig_Expr_Props Kconfig_User_Props Kconfig_Write_Props Kconfig_Preprocess_Props Kconfig_Deps_Props Kconfig_Menu_Props
    Nvram_Cli_Props Mtk_Attach Mtk_Nmbm_Image
begin

text \<open>
  Verification of core C programs of the lede (OpenWrt) firmware build tree.

  The repository is a build system for router firmware. Most of its C files are vendor
  drivers and register tables; the code of its own that decides what is built, and what
  keeps settings and data on the devices, is in three places, and these are modelled.

  \<^item> \<open>scripts/config\<close>, the Kconfig engine behind \<open>make menuconfig\<close>: it decides the value of
    every configuration symbol from the declarations in the \<open>Config.in\<close> files, the user's
    choices and the dependencies between symbols, and keeps the result in \<open>.config\<close>.
  \<^item> \<open>package/utils/nvram/src\<close>, the library and the command for the settings partition of
    Broadcom devices: a checksummed image of \<open>name=value\<close> strings, read into a hash table,
    edited, and written back.
  \<^item> \<open>target/linux/generic/files/drivers/mtd/nand\<close>, the bad block management of MediaTek NAND
    controllers: a layer between the MTD operations and the driver that translates logical to
    physical blocks through one of several tables and moves data away from blocks that fail.

  \<^bold>\<open>Conventions.\<close> \<^theory_text>\<open>Prelude\<close> has the result type \<open>'a res\<close> of computations that may stop: with
  \<open>Out_of_fuel\<close>, where a bounded model of a loop or recursion was cut off, or with
  \<open>Bad_access\<close>, where the C program would use a NULL or mistyped pointer or leave an array.
  \<open>wp A r P\<close> says that \<open>r\<close> stops for a reason in \<open>A\<close> or returns a value with \<open>P\<close>; it is the
  form of the lemmas about one operation, and is composed along \<open>rbind\<close>. \<^theory_text>\<open>CLib\<close> models what is
  used of the C library (\<open>strtoll\<close>, character classes, decimal printing). Machine words are
  \<open>'w word\<close> or carry their reduction \<open>mod 2 ^ w\<close> explicitly (\<open>u16_of\<close>, \<open>u32_of\<close>, \<open>s32_of\<close>).

  \<^bold>\<open>Kconfig.\<close> \<^theory_text>\<open>Kconfig_Data\<close> is expr.h: tristates, expressions, properties, symbols with their
  flags, and the global state \<open>kconf\<close>; the E_LIST and E_RANGE nodes, which only occur in
  properties, are the type \<open>payload\<close>. The theories and files are:

  \<^item> \<^theory_text>\<open>Kconfig_Expr\<close>, \<^theory_text>\<open>Kconfig_Simplify\<close>, \<^theory_text>\<open>Kconfig_Transform\<close> (expr.c): construction, equality,
    elimination of duplicates and common parts, normal forms; \<^theory_text>\<open>Kconfig_Value\<close>, \<^theory_text>\<open>Kconfig_Sound\<close>
    and \<^theory_text>\<open>Kconfig_Expr_Props\<close> show that every simplification keeps the value of an expression.
  \<^item> \<^theory_text>\<open>Kconfig_Symbol\<close> (symbol.c): \<open>sym_calc_value\<close> and all it calls. The functions take the
    recursive call as an argument, and \<open>sym_calc_value\<close> ties the knot with fuel. \<^theory_text>\<open>Kconfig_Calc\<close>
    has the locale \<open>calc_client\<close> with the promise a recursive call makes: no calculated value
    changes, the structure of no symbol changes, and the weight of the configuration (one
    unit for a symbol that is not valid, two for a pending choice) does not grow.
    \<^theory_text>\<open>Kconfig_Calc_Steps\<close> proves it for every function inside the locale, \<^theory_text>\<open>Kconfig_Calc_Total\<close>
    interprets the locale on \<open>sym_calc_value\<close>, with fuel above the weight, so that three
    times the number of symbols is always enough. \<^theory_text>\<open>Kconfig_Calc_Law\<close> has the properties.
  \<^item> \<^theory_text>\<open>Kconfig_User\<close>, \<^theory_text>\<open>Kconfig_User_Props\<close> (symbol.c): values set by a front end, ranges, strings.
  \<^item> \<^theory_text>\<open>Kconfig_Hash\<close> (symbol.c): the symbol table with FNV hashing as a refinement of a list.
  \<^item> \<^theory_text>\<open>Kconfig_Deps\<close>, \<^theory_text>\<open>Kconfig_Deps_Props\<close> (symbol.c): the search for recursive dependencies; fuel
    twice the number of symbols plus two.
  \<^item> \<^theory_text>\<open>Kconfig_Menu\<close>, \<^theory_text>\<open>Kconfig_Finalize\<close> (menu.c): the menu tree in a store of pointers, the
    operations that build it, \<open>menu_finalize\<close> and the visibility of menus. \<^theory_text>\<open>Kconfig_Tree\<close>
    relates the pointers to a tree, \<^theory_text>\<open>Kconfig_Finalize_Props\<close> and \<^theory_text>\<open>Kconfig_Menu_Props\<close> show what
    building and finalizing do to it; depth and loops are bounded by the number of entries.
  \<^item> \<^theory_text>\<open>Kconfig_Confdata\<close>, \<^theory_text>\<open>Kconfig_Confdata_Props\<close> (confdata.c): reading a configuration file
    line by line, and printing.
  \<^item> \<^theory_text>\<open>Kconfig_Write\<close> (confdata.c): \<open>conf_write\<close> and \<open>conf_write_defconfig\<close>. \<^theory_text>\<open>Kconfig_Walk\<close> has the locale
    \<open>menu_walker\<close> of loops that walk the menu tree along its pointers, interpreted on both, and shows
    that the walk is the recursion over the tree; a bound of two more than the number of entries
    is enough. \<^theory_text>\<open>Kconfig_Kept\<close> is what writing keeps of the symbols, \<^theory_text>\<open>Kconfig_Listing\<close> and
    \<^theory_text>\<open>Kconfig_Write_Inv\<close> relate the text to the symbols written, \<^theory_text>\<open>Kconfig_Readback\<close> and
    \<^theory_text>\<open>Kconfig_Write_Text\<close> to what the reader makes of it, and \<^theory_text>\<open>Kconfig_Write_Props\<close> composes
    saving and loading.
  \<^item> \<^theory_text>\<open>Kconfig_Preprocess\<close> (preprocess.c): variables, functions and the environment, which are
    expanded in the text of the \<open>Config.in\<close> files; the operations stop with reasons of their own
    (\<open>pp_stop\<close>). \<^theory_text>\<open>Kconfig_Expand\<close> has the locale \<open>pp_client\<close> with the promise of a recursive
    expansion, interpreted on \<open>expand_string_with_args\<close>: the counters of the variables, at most 1001
    each, times the longest value bound the nesting. \<^theory_text>\<open>Kconfig_Preprocess_Props\<close> has the properties.

  \<^bold>\<open>NVRAM.\<close> \<^theory_text>\<open>Nvram_Crc\<close> is crc.c with a bitwise reference. \<^theory_text>\<open>Nvram\<close> is nvram.c: the hash table
  with its chains in an explicit store, \<open>realloc\<close> and the search for the header in the mapped
  partition. \<^theory_text>\<open>Nvram_Store\<close> relates the table to a finite map, \<^theory_text>\<open>Nvram_Image\<close> relates the image to a
  list of strings, \<^theory_text>\<open>Nvram_Props\<close> has the round trips and bounds. \<^theory_text>\<open>Nvram_Cli\<close> and \<^theory_text>\<open>Nvram_Cli_Props\<close>
  are the command (cli.c) with the files it works on.

  \<^bold>\<open>Bad block management.\<close> \<^theory_text>\<open>Mtk_Bmt\<close> is mtk_bmt.c: the descriptor, the translation of blocks, and
  the MTD read, write and erase loops, over any NAND driver (a record of functions) and any
  mapping (a record of functions, as \<open>struct mtk_bmt_ops\<close>). \<^theory_text>\<open>Mtk_Bmt_Client\<close> has the locale
  \<open>mapping_ops\<close> with the promise of a mapping, and proves inside it that the loops end: each
  block of the request is attempted at most eleven times, so that eleven times the number of
  blocks spanned is enough fuel. \<^theory_text>\<open>Mtk_Bbt\<close> (mtk_bmt_bbt.c) is the bad block table, related by
  \<^theory_text>\<open>Mtk_Bbt_Map\<close> to an order of the blocks; \<^theory_text>\<open>Mtk_Bbt_Props\<close> interprets the locale on it. \<^theory_text>\<open>Mtk_Bmt_V2\<close>
  (mtk_bmt_v2.c) is the mapping table of the newer controllers, at byte level in its buffer.
  \<^theory_text>\<open>Mtk_V2_Inv\<close> has its invariant and remapping, \<^theory_text>\<open>Mtk_V2_Scan\<close> the first scan of a chip (the loop
  over the pool takes one more step than there are blocks), \<^theory_text>\<open>Mtk_V2_Props\<close> interprets the locale
  on it, \<^theory_text>\<open>Mtk_V2_Store\<close> is about the table on the chip. \<^theory_text>\<open>Mtk_Attach\<close> is attaching and detaching.

  \<^bold>\<open>NMBM\<close> is the third mapping (mtk_bmt_nmbm.c). \<^theory_text>\<open>Mtk_Nmbm_Data\<close> has its structures and their bytes,
  \<^theory_text>\<open>Mtk_Nmbm\<close> the access to pages and blocks, the bitmap of block states and the writing of
  tables, \<^theory_text>\<open>Mtk_Nmbm_Table\<close> the two copies of the info table, remapping, loading and
  initialisation; \<open>crc32_le\<close> is a parameter. \<^theory_text>\<open>Mtk_Nmbm_Inv\<close> has the invariant and shows that a change
  of the bitmap only takes good blocks away, \<^theory_text>\<open>Mtk_Nmbm_Update\<close> and \<^theory_text>\<open>Mtk_Nmbm_Rounds\<close> that every way
  of rewriting the tables ends with clean tables or with fewer good blocks, so that one round
  more than there are blocks in the bitmap is enough. \<^theory_text>\<open>Mtk_Nmbm_Map\<close> interprets \<open>mapping_ops\<close>,
  \<^theory_text>\<open>Mtk_Nmbm_Frame\<close> shows that attaching changes nothing else, \<^theory_text>\<open>Mtk_Nmbm_Props\<close> is about the MTD
  operations, a new chip and the choice of spare blocks, \<^theory_text>\<open>Mtk_Nmbm_Image\<close> about saving and loading.

  \<^bold>\<open>Not modelled.\<close> In Kconfig the scanner and the grammar (generated from lex and yacc files), the
  terminal and graphical front ends, help texts and messages. In NVRAM the
  search of \<open>/proc/mtd\<close> and system errors on existing files. In the bad block management the NAND
  driver, the allocator and the device tree are parameters, and log messages are left out. The
  remaining C code of the repository is vendor code (wireless, switch and DSL drivers, and
  firmware images as arrays), kernel glue, boot loaders, and small tools.
\<close>

end
